(* ===== verification/Co_Prelude.thy ===== *)
theory Co_Prelude
  imports Main "HOL-Library.Word" "HOL-Library.Signed_Division"
begin

text \<open>
  Shared vocabulary of the CoSocket development: the machine-integer types, the result type
  of code that can abort, the generic interface of a machine whose steps keep an invariant,
  and the lemmas on lists and options that several components use.
\<close>

unbundle bit_operations_syntax

type_synonym u8 = "8 word"
type_synonym u16 = "16 word"
type_synonym u32 = "32 word"
type_synonym u64 = "64 word"
type_synonym bytes = "8 word list"

named_theorems op_defs \<open>definitions of the operations of a component\<close>

subsection \<open>Code that can stop the process\<close>

text \<open>
  \<open>AssertFail\<close> is a failed \<open>assert\<close> of the C files, \<open>Abort\<close> a call of \<open>abort()\<close> or \<open>exit(1)\<close>,
  \<open>Undefined\<close> an operation without a defined result: a null pointer that is followed, a copy of negative length.
  A result is \<open>Inl\<close> of the failure or \<open>Inr\<close> of the value.
\<close>

datatype failure = AssertFail | Abort | Undefined

type_synonym 'a res = "failure + 'a"

definition assert_that :: "bool \<Rightarrow> 'a res \<Rightarrow> 'a res" where
  "assert_that b r = (if b then r else Inl AssertFail)"

definition bind_res :: "'a res \<Rightarrow> ('a \<Rightarrow> 'b res) \<Rightarrow> 'b res" where
  "bind_res r f = (case r of Inl e \<Rightarrow> Inl e | Inr a \<Rightarrow> f a)"

lemma assert_that_simps [simp]:
  "assert_that True r = r" "assert_that False r = Inl AssertFail"
  by (simp_all add: assert_that_def)

lemma assert_that_Inr [simp]: "assert_that b r = Inr x \<longleftrightarrow> b \<and> r = Inr x"
  by (simp add: assert_that_def)

lemma bind_res_simps [simp]:
  "bind_res (Inl e) f = Inl e" "bind_res (Inr a) f = f a"
  by (simp_all add: bind_res_def)

lemma bind_res_Inr [simp]: "bind_res r f = Inr y \<longleftrightarrow> (\<exists>x. r = Inr x \<and> f x = Inr y)"
  by (simp add: bind_res_def split: sum.split)

subsection \<open>Machines whose steps keep an invariant\<close>

text \<open>
  The interface of every stateful component: labelled steps that can fail, an invariant that
  holds at the start and that every successful step keeps. What a client gets is that every
  state a run of labels leads to satisfies the invariant.
\<close>

fun run_steps :: "('s \<Rightarrow> 'e \<Rightarrow> 's res) \<Rightarrow> 's \<Rightarrow> 'e list \<Rightarrow> 's res" where
  "run_steps step s [] = Inr s"
| "run_steps step s (e # es) = bind_res (step s e) (\<lambda>t. run_steps step t es)"

lemma run_steps_append:
  "run_steps step s (es @ fs) = bind_res (run_steps step s es) (\<lambda>t. run_steps step t fs)"
  by (induction es arbitrary: s) (auto simp: bind_res_def split: sum.split)

locale inv_machine =
  fixes step :: "'s \<Rightarrow> 'e \<Rightarrow> 's res"
    and inv :: "'s \<Rightarrow> bool"
  assumes inv_step: "inv s \<Longrightarrow> step s e = Inr t \<Longrightarrow> inv t"
begin

lemma inv_run: "inv s \<Longrightarrow> run_steps step s es = Inr t \<Longrightarrow> inv t"
proof (induction es arbitrary: s)
  case Nil
  then show ?case by simp
next
  case (Cons e es)
  then show ?case by (auto intro: inv_step)
qed

lemma frame_run:
  assumes frame: "\<And>s e t. inv s \<Longrightarrow> e \<in> set es \<Longrightarrow> step s e = Inr t \<Longrightarrow> P s \<Longrightarrow> P t"
    and "inv s" "P s" "run_steps step s es = Inr t"
  shows "P t"
  using assms
proof (induction es arbitrary: s)
  case Nil
  then show ?case by simp
next
  case (Cons e es)
  from Cons.prems(4) obtain u where u: "step s e = Inr u" "run_steps step u es = Inr t"
    by auto
  from Cons.prems u have "inv u" "P u" by (auto intro: inv_step)
  then show ?case using Cons.prems u by (intro Cons.IH) auto
qed

end

subsection \<open>Slots: lists of optional entries\<close>

definition used :: "'a option list \<Rightarrow> nat" where
  "used xs = length (filter (\<lambda>x. x \<noteq> None) xs)"

lemma used_simps [simp]:
  "used [] = 0"
  "used (None # xs) = used xs"
  "used (Some y # xs) = Suc (used xs)"
  "used (xs @ ys) = used xs + used ys"
  "used (replicate n None) = 0"
  by (simp_all add: used_def)

lemma used_le: "used xs \<le> length xs"
  by (simp add: used_def)

lemma used_update_fill:
  "i < length xs \<Longrightarrow> xs ! i = None \<Longrightarrow> used (xs[i := Some y]) = Suc (used xs)"
  by (induction xs arbitrary: i) (auto simp: used_def split: nat.splits)

lemma used_update_clear:
  "i < length xs \<Longrightarrow> xs ! i = Some y \<Longrightarrow> Suc (used (xs[i := None])) = used xs"
  by (induction xs arbitrary: i) (auto simp: used_def split: nat.splits)

lemma used_update_replace:
  "i < length xs \<Longrightarrow> xs ! i = Some y \<Longrightarrow> used (xs[i := Some z]) = used xs"
  by (induction xs arbitrary: i) (auto simp: used_def split: nat.splits)

lemma used_less_free: "used xs < length xs \<Longrightarrow> \<exists>i < length xs. xs ! i = None"
proof (rule ccontr)
  assume *: "used xs < length xs" "\<not> (\<exists>i < length xs. xs ! i = None)"
  then have "filter (\<lambda>x. x \<noteq> None) xs = xs"
    by (metis (mono_tags, lifting) filter_True in_set_conv_nth)
  with * show False by (simp add: used_def)
qed

lemma used_pos: "i < length xs \<Longrightarrow> xs ! i = Some y \<Longrightarrow> 0 < used xs"
  using used_update_clear by fastforce

subsection \<open>Words as numbers\<close>

lemma unat_take_bit: "unat (take_bit k w) = unat w mod 2 ^ k"
  unfolding unsigned_take_bit_eq by (rule take_bit_eq_mod)

lemma unat_drop_bit: "unat (drop_bit k w) = unat w div 2 ^ k"
  unfolding unat_drop_bit_eq by (rule drop_bit_eq_div)

lemma unat_and_mask: "unat (w AND mask k) = unat w mod 2 ^ k"
  by (simp add: unat_take_bit flip: take_bit_eq_mask)

lemma mod_pow_cancel: "m \<le> n \<Longrightarrow> x mod 2 ^ n mod 2 ^ m = x mod (2 ^ m :: nat)"
  by (simp add: le_imp_power_dvd mod_mod_cancel)

lemma unat_push_bit: "unat (push_bit k w) = unat w * 2 ^ k mod 2 ^ LENGTH('a)" for w :: "'a::len word"
  unfolding unsigned_push_bit_eq by (simp only: push_bit_eq_mult take_bit_eq_mod)

end
