(* ===== verification/Coroutine.thy ===== *)
theory Coroutine
  imports Co_Prelude
begin

text \<open>
  \<open>3rd/coroutine/coroutine.c\<close>: the asymmetric, stack-copying coroutine scheduler under
  CoSocket. All coroutines run on one shared stack; a coroutine that yields saves the part of
  the shared stack it uses, and resuming it copies that part back.

  The control transfers of \<open>getcontext\<close>, \<open>makecontext\<close> and \<open>swapcontext\<close> appear
  as the field \<open>s_running\<close>: after a step the code that executes is that of the coroutine in
  slot \<open>s_running\<close>, or the main context when it is \<open>-1\<close>. Addresses in and around the shared
  stack are offsets from \<open>S->stack\<close>, negative below it. Where the locals \<open>C\<close> of
  \<open>coroutine_yield\<close> and \<open>dummy\<close> of \<open>_save_stack\<close> are is up to the machine and the depth
  of the calls: the pair of their offsets is the argument \<open>sp\<close>.
\<close>

definition STACK_SIZE :: nat where
  "STACK_SIZE = 1024 * 1024"

definition DEFAULT_COROUTINE :: nat where
  "DEFAULT_COROUTINE = 16"

type_synonym stack_at = "int \<times> int"

datatype co_status = COROUTINE_DEAD | COROUTINE_READY | COROUTINE_RUNNING | COROUTINE_SUSPEND

record 'f coroutine =
  c_func :: 'f        \<comment> \<open>the entry function together with its argument \<open>ud\<close>\<close>
  c_cap :: nat
  c_size :: nat
  c_status :: co_status
  c_stack :: bytes

record 'f schedule =
  s_stack :: bytes
  s_nco :: nat
  s_cap :: nat
  s_running :: int
  s_co :: "'f coroutine option list"

subsection \<open>Operations\<close>

definition co_new :: "'f \<Rightarrow> 'f coroutine" where
  "co_new f = \<lparr>c_func = f, c_cap = 0, c_size = 0, c_status = COROUTINE_READY, c_stack = []\<rparr>"

text \<open>\<open>coroutine_open\<close>: the contents of the freshly allocated stack are whatever
  \<open>malloc\<close> returned, the argument \<open>mem\<close>.\<close>

definition coroutine_open :: "bytes \<Rightarrow> 'f schedule" where
  "coroutine_open mem =
     \<lparr>s_stack = mem, s_nco = 0, s_cap = DEFAULT_COROUTINE, s_running = -1,
      s_co = replicate DEFAULT_COROUTINE None\<rparr>"

text \<open>\<open>coroutine_close\<close> deletes every coroutine of the table: the list of those it
  passes to \<open>_co_delete\<close>, in slot order.\<close>

fun coroutine_close_loop :: "'f coroutine option list \<Rightarrow> 'f coroutine list" where
  "coroutine_close_loop [] = []"
| "coroutine_close_loop (c # cs) =
     (case c of None \<Rightarrow> coroutine_close_loop cs | Some co \<Rightarrow> co # coroutine_close_loop cs)"

definition coroutine_close :: "'f schedule \<Rightarrow> 'f coroutine list" where
  "coroutine_close S = coroutine_close_loop (s_co S)"

text \<open>The search loop of \<open>coroutine_new\<close>: probe \<open>(i + nco) % cap\<close> for
  \<open>i = 0, 1, \<dots>, cap - 1\<close>.\<close>

function probe_slot :: "'f schedule \<Rightarrow> nat \<Rightarrow> nat option" where
  "probe_slot S i =
     (if i < s_cap S then
        (let cid = (i + s_nco S) mod s_cap S in
         if s_co S ! cid = None then Some cid else probe_slot S (Suc i))
      else None)"
  by pat_completeness auto
termination
  by (relation "measure (\<lambda>(S, i). s_cap S - i)") auto

definition coroutine_new :: "'f schedule \<Rightarrow> 'f \<Rightarrow> (nat \<times> 'f schedule) res" where
  "coroutine_new S f =
     (let co = co_new f in
      if s_nco S \<ge> s_cap S then
        (let cid = s_cap S; tab = s_co S @ replicate (s_cap S) None in
         Inr (cid, S\<lparr>s_co := tab[s_cap S := Some co], s_cap := s_cap S * 2,
                    s_nco := s_nco S + 1\<rparr>))
      else
        (case probe_slot S 0 of
           Some cid \<Rightarrow> Inr (cid, S\<lparr>s_co := (s_co S)[cid := Some co], s_nco := s_nco S + 1\<rparr>)
         | None \<Rightarrow> Inl AssertFail))"

definition slot :: "'f schedule \<Rightarrow> int \<Rightarrow> 'f coroutine option" where
  "slot S cid = (if 0 \<le> cid \<and> cid < int (s_cap S) then s_co S ! nat cid else None)"

definition set_slot :: "'f schedule \<Rightarrow> int \<Rightarrow> 'f coroutine option \<Rightarrow> 'f schedule" where
  "set_slot S cid c = S\<lparr>s_co := (s_co S)[nat cid := c]\<rparr>"

text \<open>What \<open>mainfunc\<close> does once the coroutine's function has returned.\<close>

definition mainfunc_return :: "'f schedule \<Rightarrow> 'f schedule" where
  "mainfunc_return S =
     (set_slot S (s_running S) None)\<lparr>s_nco := s_nco S - 1, s_running := -1\<rparr>"

definition coroutine_resume :: "'f schedule \<Rightarrow> int \<Rightarrow> 'f schedule res" where
  "coroutine_resume S cid =
     assert_that (s_running S = -1)
       (assert_that (cid \<ge> 0 \<and> cid < int (s_cap S))
         (case slot S cid of
            None \<Rightarrow> Inr S
          | Some C \<Rightarrow>
              (case c_status C of
                 COROUTINE_READY \<Rightarrow>
                   Inr ((set_slot S cid (Some (C\<lparr>c_status := COROUTINE_RUNNING\<rparr>)))
                          \<lparr>s_running := cid\<rparr>)
               | COROUTINE_SUSPEND \<Rightarrow>
                   Inr ((set_slot S cid (Some (C\<lparr>c_status := COROUTINE_RUNNING\<rparr>)))
                          \<lparr>s_stack := take (STACK_SIZE - c_size C) (s_stack S)
                                       @ take (c_size C) (c_stack C),
                           s_running := cid\<rparr>)
               | _ \<Rightarrow> Inl AssertFail)))"

text \<open>\<open>_save_stack\<close>: \<open>top - &dummy\<close> is \<open>STACK_SIZE - dummy\<close>, more than the stack has when
  it has overflowed; the buffer grows when it is too small, and \<open>memcpy\<close> overwrites its first
  \<open>size\<close> bytes.\<close>

definition save_stack :: "'f coroutine \<Rightarrow> bytes \<Rightarrow> int \<Rightarrow> 'f coroutine res" where
  "save_stack C stk dummy =
     (let n = int STACK_SIZE - dummy in
      assert_that (n \<le> int STACK_SIZE)
        (if n < 0 then Inl Undefined
         else
           (let buf = (if int (c_cap C) < n then [] else c_stack C);
                cp = (if int (c_cap C) < n then nat n else c_cap C)
            in Inr (C\<lparr>c_cap := cp, c_size := nat n, c_stack := drop (nat dummy) stk @ drop (nat n) buf\<rparr>))))"

definition coroutine_yield :: "'f schedule \<Rightarrow> stack_at \<Rightarrow> 'f schedule res" where
  "coroutine_yield S sp =
     (let cid = s_running S in
      assert_that (cid \<ge> 0)
        (assert_that (fst sp > 0)
          (case slot S cid of
             None \<Rightarrow> Inl Undefined
           | Some C \<Rightarrow>
               bind_res (save_stack C (s_stack S) (snd sp))
                 (\<lambda>C'. Inr ((set_slot S cid (Some (C'\<lparr>c_status := COROUTINE_SUSPEND\<rparr>)))
                             \<lparr>s_running := -1\<rparr>)))))"

definition coroutine_status :: "'f schedule \<Rightarrow> int \<Rightarrow> co_status res" where
  "coroutine_status S cid =
     assert_that (cid \<ge> 0 \<and> cid < int (s_cap S))
       (case slot S cid of None \<Rightarrow> Inr COROUTINE_DEAD | Some C \<Rightarrow> Inr (c_status C))"

definition coroutine_running :: "'f schedule \<Rightarrow> int" where
  "coroutine_running S = s_running S"

subsection \<open>The scheduler as a machine\<close>

text \<open>
  The events that change a schedule: the three API calls, the end of a coroutine's function,
  and the writes of the running coroutine to the shared stack (any contents of the same
  length). The last two happen only while a coroutine runs.
\<close>

datatype 'f co_event = ENew 'f | EResume int | EYield stack_at | EReturn | EWrite bytes

fun co_step :: "'f schedule \<Rightarrow> 'f co_event \<Rightarrow> 'f schedule res" where
  "co_step S (ENew f) = bind_res (coroutine_new S f) (\<lambda>r. Inr (snd r))"
| "co_step S (EResume cid) = coroutine_resume S cid"
| "co_step S (EYield sp) = coroutine_yield S sp"
| "co_step S EReturn = assert_that (s_running S \<ge> 0) (Inr (mainfunc_return S))"
| "co_step S (EWrite stk) =
     assert_that (s_running S \<ge> 0 \<and> length stk = STACK_SIZE) (Inr (S\<lparr>s_stack := stk\<rparr>))"

abbreviation co_run :: "'f schedule \<Rightarrow> 'f co_event list \<Rightarrow> 'f schedule res" where
  "co_run \<equiv> run_steps co_step"

text \<open>The frames of the running coroutine are inside the shared stack: it has not overflowed.\<close>

definition stack_fits :: "stack_at \<Rightarrow> bool" where
  "stack_fits sp \<longleftrightarrow> 0 < fst sp \<and> 0 \<le> snd sp \<and> snd sp \<le> int STACK_SIZE"

definition co_ok :: "int \<Rightarrow> int \<Rightarrow> 'f coroutine \<Rightarrow> bool" where
  "co_ok running cid C \<longleftrightarrow>
     c_status C \<noteq> COROUTINE_DEAD \<and>
     (c_status C = COROUTINE_RUNNING \<longleftrightarrow> running = cid) \<and>
     c_cap C = length (c_stack C) \<and> c_size C \<le> c_cap C \<and> c_size C \<le> STACK_SIZE"

definition sched_inv :: "'f schedule \<Rightarrow> bool" where
  "sched_inv S \<longleftrightarrow>
     0 < s_cap S \<and> length (s_co S) = s_cap S \<and> s_nco S = used (s_co S) \<and>
     length (s_stack S) = STACK_SIZE \<and>
     (s_running S = -1 \<or> slot S (s_running S) \<noteq> None) \<and>
     (\<forall>cid C. slot S cid = Some C \<longrightarrow> co_ok (s_running S) cid C)"

subsection \<open>Slots\<close>

lemma slot_range: "slot S cid = Some C \<Longrightarrow> 0 \<le> cid \<and> cid < int (s_cap S)"
  by (simp add: slot_def split: if_splits)

lemma slot_set_slot:
  assumes "length (s_co S) = s_cap S" "0 \<le> cid" "cid < int (s_cap S)"
  shows "slot (set_slot S cid c) j = (if j = cid then c else slot S j)"
  using assms by (auto simp: slot_def set_slot_def nth_list_update nat_eq_iff)

lemma slot_upd [simp]:
  "slot (S\<lparr>s_running := r\<rparr>) j = slot S j"
  "slot (S\<lparr>s_nco := n\<rparr>) j = slot S j"
  "slot (S\<lparr>s_stack := stk\<rparr>) j = slot S j"
  by (simp_all add: slot_def)

lemma set_slot_sel [simp]:
  "s_cap (set_slot S cid c) = s_cap S" "s_nco (set_slot S cid c) = s_nco S"
  "s_stack (set_slot S cid c) = s_stack S" "s_running (set_slot S cid c) = s_running S"
  "length (s_co (set_slot S cid c)) = length (s_co S)"
  by (simp_all add: set_slot_def)

lemma used_set_slot:
  assumes "length (s_co S) = s_cap S" "slot S cid = Some C"
  shows "used (s_co (set_slot S cid (Some D))) = used (s_co S)"
    and "Suc (used (s_co (set_slot S cid None))) = used (s_co S)"
  using assms slot_range [OF assms(2)]
  by (auto simp: set_slot_def slot_def used_update_replace used_update_clear)

lemma sched_invD:
  assumes "sched_inv S"
  shows "0 < s_cap S" "length (s_co S) = s_cap S" "s_nco S = used (s_co S)"
    "length (s_stack S) = STACK_SIZE"
    "s_running S \<noteq> -1 \<Longrightarrow> \<exists>C. slot S (s_running S) = Some C"
    "slot S cid = Some C \<Longrightarrow> co_ok (s_running S) cid C"
  using assms by (auto simp: sched_inv_def)

lemma running_slot:
  assumes "sched_inv S" "s_running S \<noteq> -1"
  obtains C where "slot S (s_running S) = Some C" "c_status C = COROUTINE_RUNNING"
    "0 \<le> s_running S" "s_running S < int (s_cap S)"
proof -
  from sched_invD(5) [OF assms] obtain C where C: "slot S (s_running S) = Some C" by blast
  with assms sched_invD(6) [OF assms(1) C] slot_range [OF C] that show thesis
    by (auto simp: co_ok_def)
qed

text \<open>Replacing the coroutine in a slot, and clearing it, keep the table consistent.\<close>

lemma sched_inv_replace:
  assumes inv: "sched_inv S" and C: "slot S cid = Some C"
    and idle: "s_running S = -1 \<or> s_running S = cid"
    and ok: "co_ok r cid D" and r: "r = -1 \<or> r = cid"
    and stk: "length stk = STACK_SIZE"
  shows "sched_inv ((set_slot S cid (Some D))\<lparr>s_running := r, s_stack := stk\<rparr>)"
proof -
  note rg = slot_range [OF C]
  have sl: "slot (set_slot S cid (Some D)) j = (if j = cid then Some D else slot S j)" for j
    using rg sched_invD(2) [OF inv] by (simp add: slot_set_slot)
  have "co_ok r j E" if "slot S j = Some E" "j \<noteq> cid" for j E
    using sched_invD(6) [OF inv that(1)] idle r that slot_range [OF that(1)]
    by (auto simp: co_ok_def)
  then show ?thesis
    using sched_invD [OF inv] stk ok r by (auto simp: sched_inv_def sl used_set_slot(1) [OF _ C])
qed

lemma sched_inv_clear:
  assumes inv: "sched_inv S" and C: "slot S (s_running S) = Some C"
  shows "sched_inv (mainfunc_return S)"
proof -
  note rg = slot_range [OF C]
  have sl: "slot (set_slot S (s_running S) None) j =
      (if j = s_running S then None else slot S j)" for j
    using rg sched_invD(2) [OF inv] by (simp add: slot_set_slot)
  have "co_ok (-1) j E" if "slot S j = Some E" "j \<noteq> s_running S" for j E
    using sched_invD(6) [OF inv that(1)] that slot_range [OF that(1)] by (auto simp: co_ok_def)
  then show ?thesis
    using sched_invD [OF inv] used_set_slot(2) [OF _ C]
    by (auto simp: sched_inv_def sl mainfunc_return_def)
qed

subsection \<open>Creating a coroutine\<close>

declare probe_slot.simps [simp del]

lemma probe_slot_Some:
  "probe_slot S i = Some cid \<Longrightarrow> 0 < s_cap S \<Longrightarrow> cid < s_cap S \<and> s_co S ! cid = None"
proof (induction S i rule: probe_slot.induct)
  case (1 S i)
  then show ?case
    by (auto simp: probe_slot.simps [of S i] Let_def split: if_splits)
qed

lemma probe_slot_None:
  "probe_slot S i = None \<Longrightarrow> i \<le> j \<Longrightarrow> j < s_cap S \<Longrightarrow> s_co S ! ((j + s_nco S) mod s_cap S) \<noteq> None"
proof (induction S i rule: probe_slot.induct)
  case (1 S i)
  then show ?case
    by (cases "i = j")
      (auto simp: probe_slot.simps [of S i] probe_slot.simps [of S j] Let_def split: if_splits)
qed

lemma probe_covers:
  fixes k n c :: nat
  assumes "k < c"
  obtains j where "j < c" "(j + n) mod c = k"
proof
  show "(k + (c - n mod c)) mod c < c" using assms by simp
  have "n mod c \<le> c" using assms by (simp add: less_imp_le)
  then have "k + (c - n mod c) + n = k + c + c * (n div c)"
    using mult_div_mod_eq [of c n] by linarith
  then show "((k + (c - n mod c)) mod c + n) mod c = k"
    using assms by (metis add.commute mod_add_right_eq mod_add_self2 mod_less mod_mult_self2)
qed

lemma probe_slot_finds:
  assumes "sched_inv S" "s_nco S < s_cap S"
  obtains cid where "probe_slot S 0 = Some cid" "cid < s_cap S" "s_co S ! cid = None"
proof (cases "probe_slot S 0")
  case None
  from assms sched_invD [OF assms(1)] obtain k where "k < s_cap S" "s_co S ! k = None"
    using used_less_free by metis
  then show thesis
    using probe_covers [of k "s_cap S" "s_nco S"] probe_slot_None [OF None] by (metis le0)
next
  case (Some cid)
  then show thesis
    using probe_slot_Some [OF Some] sched_invD(1) [OF assms(1)] that by blast
qed

lemma slot_grow:
  assumes "length (s_co S) = s_cap S" "0 < s_cap S"
  shows "slot (S\<lparr>s_co := (s_co S @ replicate (s_cap S) None)[s_cap S := Some C],
                 s_cap := s_cap S * 2, s_nco := n\<rparr>) j
         = (if j = int (s_cap S) then Some C else slot S j)"
  using assms by (auto simp: slot_def nth_list_update nth_append nat_eq_iff nat_less_iff)

lemma coroutine_new_spec:
  assumes inv: "sched_inv S"
  obtains cid S' where "coroutine_new S f = Inr (cid, S')"
    "slot S (int cid) = None" "cid < s_cap S'" "s_cap S \<le> s_cap S'"
    "\<forall>j. slot S' j = (if j = int cid then Some (co_new f) else slot S j)"
    "s_nco S' = s_nco S + 1" "s_running S' = s_running S" "s_stack S' = s_stack S"
    "length (s_co S') = s_cap S'" "used (s_co S') = Suc (used (s_co S))"
proof (cases "s_cap S \<le> s_nco S")
  case True
  let ?co = "co_new f"
  let ?S = "S\<lparr>s_co := (s_co S @ replicate (s_cap S) None)[s_cap S := Some ?co],
              s_cap := s_cap S * 2, s_nco := s_nco S + 1\<rparr>"
  have "coroutine_new S f = Inr (s_cap S, ?S)"
    using True by (simp add: coroutine_new_def Let_def)
  moreover have "used (s_co ?S) = Suc (used (s_co S))"
    using sched_invD [OF inv] by (simp add: used_update_fill nth_append)
  moreover have "slot S (int (s_cap S)) = None" by (simp add: slot_def)
  ultimately show thesis
    using sched_invD [OF inv] slot_grow [of S, where C = ?co and n = "s_nco S + 1"]
    by (intro that [of "s_cap S" ?S]) simp_all
next
  case False
  with inv obtain cid where cid: "probe_slot S 0 = Some cid" "cid < s_cap S" "s_co S ! cid = None"
    by (meson linorder_not_le probe_slot_finds)
  let ?S = "S\<lparr>s_co := (s_co S)[cid := Some (co_new f)], s_nco := s_nco S + 1\<rparr>"
  have "coroutine_new S f = Inr (cid, ?S)"
    using False cid by (simp add: coroutine_new_def Let_def)
  moreover have "used (s_co ?S) = Suc (used (s_co S))"
    using sched_invD [OF inv] cid by (simp add: used_update_fill)
  moreover have "slot ?S j = (if j = int cid then Some (co_new f) else slot S j)" for j
    using sched_invD [OF inv] cid by (auto simp: slot_def nth_list_update nat_eq_iff)
  ultimately show thesis
    using sched_invD [OF inv] cid by (intro that [of cid ?S]) (simp_all add: slot_def)
qed

lemma coroutine_newD:
  assumes inv: "sched_inv S" and new: "coroutine_new S f = Inr (cid, S')"
  shows "slot S (int cid) = None" "cid < s_cap S'" "s_cap S \<le> s_cap S'"
    "slot S' j = (if j = int cid then Some (co_new f) else slot S j)"
    "s_nco S' = s_nco S + 1" "s_running S' = s_running S" "s_stack S' = s_stack S"
    "length (s_co S') = s_cap S'" "used (s_co S') = Suc (used (s_co S))"
proof -
  obtain k T where "coroutine_new S f = Inr (k, T)"
    "slot S (int k) = None" "k < s_cap T" "s_cap S \<le> s_cap T"
    "\<forall>j. slot T j = (if j = int k then Some (co_new f) else slot S j)"
    "s_nco T = s_nco S + 1" "s_running T = s_running S" "s_stack T = s_stack S"
    "length (s_co T) = s_cap T" "used (s_co T) = Suc (used (s_co S))"
    by (rule coroutine_new_spec [OF inv, of f])
  with new show "slot S (int cid) = None" "cid < s_cap S'" "s_cap S \<le> s_cap S'"
    "slot S' j = (if j = int cid then Some (co_new f) else slot S j)"
    "s_nco S' = s_nco S + 1" "s_running S' = s_running S" "s_stack S' = s_stack S"
    "length (s_co S') = s_cap S'" "used (s_co S') = Suc (used (s_co S))"
    by simp_all
qed

lemma coroutine_new_defined: "sched_inv S \<Longrightarrow> \<exists>cid S'. coroutine_new S f = Inr (cid, S')"
  by (rule coroutine_new_spec) auto

lemma sched_inv_new:
  assumes inv: "sched_inv S" and new: "coroutine_new S f = Inr (cid, S')"
  shows "sched_inv S'"
proof -
  note sl = coroutine_newD(4) [OF inv new] and eqs = coroutine_newD [OF inv new]
  have "s_running S \<noteq> int cid"
    using eqs(1) sched_invD(5) [OF inv] by force
  then have "co_ok (s_running S) (int cid) (co_new f)"
    by (simp add: co_ok_def co_new_def)
  then show ?thesis
    using sched_invD [OF inv] eqs(2,5-9) by (auto simp: sched_inv_def sl)
qed

subsection \<open>Switching\<close>

lemma resume_cases:
  assumes inv: "sched_inv S" and res: "coroutine_resume S cid = Inr S'"
  obtains (dead) "slot S cid = None" "S' = S" "s_running S = -1"
  | (go) C stk where "slot S cid = Some C" "s_running S = -1"
      "c_status C = COROUTINE_READY \<and> stk = s_stack S \<or>
       c_status C = COROUTINE_SUSPEND \<and>
         stk = take (STACK_SIZE - c_size C) (s_stack S) @ take (c_size C) (c_stack C)"
      "S' = (set_slot S cid (Some (C\<lparr>c_status := COROUTINE_RUNNING\<rparr>)))
              \<lparr>s_running := cid, s_stack := stk\<rparr>"
      "length stk = STACK_SIZE"
proof (cases "slot S cid")
  case None
  then show thesis using res by (intro dead) (auto simp: coroutine_resume_def)
next
  case (Some C)
  note ok = sched_invD(6) [OF inv Some]
  have run: "s_running S = -1" using res by (simp add: coroutine_resume_def)
  show thesis
  proof (cases "c_status C")
    case COROUTINE_READY
    then show thesis
      using res Some run sched_invD(4) [OF inv]
      by (intro go [of C "s_stack S"]) (auto simp: coroutine_resume_def)
  next
    case COROUTINE_SUSPEND
    then show thesis
      using res Some run sched_invD(4) [OF inv] ok
      by (intro go [of C "take (STACK_SIZE - c_size C) (s_stack S) @ take (c_size C) (c_stack C)"])
        (auto simp: coroutine_resume_def co_ok_def)
  qed (use res Some in \<open>auto simp: coroutine_resume_def\<close>)
qed

lemma sched_inv_resume:
  assumes inv: "sched_inv S" and res: "coroutine_resume S cid = Inr S'"
  shows "sched_inv S'"
  using assms
proof (cases rule: resume_cases)
  case dead
  with inv show ?thesis by simp
next
  case (go C stk)
  have "co_ok cid cid (C\<lparr>c_status := COROUTINE_RUNNING\<rparr>)"
    using sched_invD(6) [OF inv go(1)] by (simp add: co_ok_def)
  with go show ?thesis by (auto intro: sched_inv_replace [OF inv go(1)])
qed

lemma resume_defined:
  assumes inv: "sched_inv S" and idle: "s_running S = -1"
    and rg: "0 \<le> cid" "cid < int (s_cap S)"
  shows "\<exists>S'. coroutine_resume S cid = Inr S'"
proof (cases "slot S cid")
  case None
  with idle rg show ?thesis by (simp add: coroutine_resume_def)
next
  case (Some C)
  have "c_status C \<noteq> COROUTINE_DEAD" "c_status C \<noteq> COROUTINE_RUNNING"
    using sched_invD(6) [OF inv Some] idle rg by (auto simp: co_ok_def)
  with Some idle rg show ?thesis
    by (cases "c_status C") (auto simp: coroutine_resume_def)
qed

lemma save_stack_fits:
  assumes "0 \<le> dummy" "dummy \<le> int STACK_SIZE"
  shows "save_stack C stk dummy =
    (let n = STACK_SIZE - nat dummy in
     Inr (C\<lparr>c_cap := (if c_cap C < n then n else c_cap C), c_size := n,
           c_stack := drop (nat dummy) stk @ drop n (if c_cap C < n then [] else c_stack C)\<rparr>))"
  using assms by (auto simp: save_stack_def Let_def nat_diff_distrib)

lemma yield_fits: "coroutine_yield S sp = Inr T \<Longrightarrow> stack_fits sp"
  by (auto simp: coroutine_yield_def save_stack_def stack_fits_def Let_def split: option.splits if_splits)

lemma yield_shape:
  assumes inv: "sched_inv S" and run: "s_running S \<noteq> -1" and fits: "stack_fits sp"
  obtains C D where "slot S (s_running S) = Some C"
    "coroutine_yield S sp = Inr ((set_slot S (s_running S) (Some D))\<lparr>s_running := -1\<rparr>)"
    "c_status D = COROUTINE_SUSPEND" "c_func D = c_func C" "c_size D = STACK_SIZE - nat (snd sp)"
    "take (c_size D) (c_stack D) = drop (nat (snd sp)) (s_stack S)" "co_ok (-1) (s_running S) D"
proof -
  obtain C where C: "slot S (s_running S) = Some C" "0 \<le> s_running S"
    using running_slot [OF inv run] by metis
  let ?n = "STACK_SIZE - nat (snd sp)"
  let ?D = "C\<lparr>c_cap := (if c_cap C < ?n then ?n else c_cap C), c_size := ?n,
      c_stack := drop (nat (snd sp)) (s_stack S) @ drop ?n (if c_cap C < ?n then [] else c_stack C),
      c_status := COROUTINE_SUSPEND\<rparr>"
  have y: "coroutine_yield S sp = Inr ((set_slot S (s_running S) (Some ?D))\<lparr>s_running := -1\<rparr>)"
    using C fits by (auto simp: coroutine_yield_def save_stack_fits Let_def stack_fits_def)
  have "co_ok (-1) (s_running S) ?D"
    using sched_invD(4) [OF inv] sched_invD(6) [OF inv C(1)] C by (auto simp: co_ok_def)
  then show thesis
    using that [OF C(1) y] sched_invD(4) [OF inv] by simp
qed

lemma sched_inv_yield:
  assumes inv: "sched_inv S" and y: "coroutine_yield S sp = Inr S'"
  shows "sched_inv S'"
proof -
  have run: "s_running S \<noteq> -1" using y by (auto simp: coroutine_yield_def Let_def)
  obtain C D where CD: "slot S (s_running S) = Some C"
      "coroutine_yield S sp = Inr ((set_slot S (s_running S) (Some D))\<lparr>s_running := -1\<rparr>)"
      "co_ok (-1) (s_running S) D"
    using yield_shape [OF inv run yield_fits [OF y]] y by metis
  have "S' = (set_slot S (s_running S) (Some D))\<lparr>s_running := -1, s_stack := s_stack S\<rparr>"
    using y CD(2) by (cases S) (auto simp: set_slot_def)
  then show ?thesis
    using sched_inv_replace [OF inv CD(1) _ CD(3)] sched_invD(4) [OF inv] by simp
qed

lemma sched_inv_step: "sched_inv S \<Longrightarrow> co_step S e = Inr S' \<Longrightarrow> sched_inv S'"
proof (cases e)
  case (EWrite stk)
  moreover assume "sched_inv S" "co_step S e = Inr S'"
  ultimately show ?thesis by (auto simp: sched_inv_def)
next
  case EReturn
  moreover assume "sched_inv S" "co_step S e = Inr S'"
  ultimately show ?thesis
    using running_slot [of S] sched_inv_clear [of S] by fastforce
qed (auto intro: sched_inv_new sched_inv_resume sched_inv_yield)

interpretation sched: inv_machine co_step sched_inv
  by unfold_locales (rule sched_inv_step)

lemma sched_inv_open: "length mem = STACK_SIZE \<Longrightarrow> sched_inv (coroutine_open mem)"
  by (auto simp: sched_inv_def coroutine_open_def slot_def DEFAULT_COROUTINE_def)

subsection \<open>What the scheduler guarantees\<close>

lemma resume_frame:
  assumes inv: "sched_inv S" and "coroutine_resume S k = Inr T" "k \<noteq> cid"
  shows "slot T cid = slot S cid"
  using assms(1,2)
proof (cases rule: resume_cases)
  case dead
  then show ?thesis by simp
next
  case (go C stk)
  then show ?thesis
    using assms(3) slot_range [OF go(1)] sched_invD(2) [OF inv] by (simp add: slot_set_slot)
qed

lemma yield_slots:
  assumes inv: "sched_inv S" and y: "coroutine_yield S sp = Inr T"
  obtains C D where "slot S (s_running S) = Some C" "s_running S \<noteq> -1" "s_running T = -1"
    "\<forall>j. slot T j = (if j = s_running S then Some D else slot S j)"
    "c_status D = COROUTINE_SUSPEND" "c_func D = c_func C" "c_size D = STACK_SIZE - nat (snd sp)"
    "take (c_size D) (c_stack D) = drop (nat (snd sp)) (s_stack S)" "s_cap T = s_cap S"
proof -
  have run: "s_running S \<noteq> -1" using y by (auto simp: coroutine_yield_def Let_def)
  obtain C D where CD: "slot S (s_running S) = Some C"
    "coroutine_yield S sp = Inr ((set_slot S (s_running S) (Some D))\<lparr>s_running := -1\<rparr>)"
    "c_status D = COROUTINE_SUSPEND" "c_func D = c_func C" "c_size D = STACK_SIZE - nat (snd sp)"
    "take (c_size D) (c_stack D) = drop (nat (snd sp)) (s_stack S)" "co_ok (-1) (s_running S) D"
    by (rule yield_shape [OF inv run yield_fits [OF y]])
  from CD(2) y have T: "T = (set_slot S (s_running S) (Some D))\<lparr>s_running := -1\<rparr>" by simp
  show thesis
    using that [OF CD(1) run _ _ CD(3-6)] slot_range [OF CD(1)] sched_invD(2) [OF inv]
    by (simp add: T slot_set_slot)
qed

lemma suspended_frame:
  assumes inv: "sched_inv S" and st: "co_step S e = Inr T" and e: "e \<noteq> EResume cid"
    and C: "slot S cid = Some C" "c_status C = COROUTINE_SUSPEND"
  shows "slot T cid = Some C"
proof -
  have other: "s_running S \<noteq> cid"
    using sched_invD(6) [OF inv C(1)] C(2) by (simp add: co_ok_def)
  show ?thesis
  proof (cases e)
    case (ENew f)
    then obtain k where "coroutine_new S f = Inr (k, T)" using st by auto
    then show ?thesis using coroutine_newD(1,4) [OF inv] C(1) by fastforce
  next
    case (EResume k)
    then show ?thesis using resume_frame [OF inv, of k T cid] st e C by auto
  next
    case (EYield sp)
    with st have y: "coroutine_yield S sp = Inr T" by simp
    obtain E D where "slot S (s_running S) = Some E" "s_running S \<noteq> -1" "s_running T = -1"
      "\<forall>j. slot T j = (if j = s_running S then Some D else slot S j)"
      "c_status D = COROUTINE_SUSPEND" "c_func D = c_func E" "c_size D = STACK_SIZE - nat (snd sp)"
      "take (c_size D) (c_stack D) = drop (nat (snd sp)) (s_stack S)" "s_cap T = s_cap S"
      by (rule yield_slots [OF inv y])
    then show ?thesis using other C by simp
  next
    case EReturn
    then have run: "s_running S \<noteq> -1" and T: "T = mainfunc_return S" using st by auto
    obtain E where E: "slot S (s_running S) = Some E" using sched_invD(5) [OF inv run] by blast
    then show ?thesis
      using slot_range [OF E] sched_invD(2) [OF inv] other C
      by (auto simp: T mainfunc_return_def slot_set_slot)
  next
    case (EWrite stk)
    then show ?thesis using st C by auto
  qed
qed

text \<open>
  C24: from the schedule that \<open>coroutine_open\<close> returns, whatever sequence of creations,
  resumptions, yields, returns and writes to the shared stack happens, the table stays
  consistent: \<open>nco\<close> counts the occupied slots, exactly the coroutine in slot
  \<open>running\<close> has status RUNNING, and every saved stack fits its buffer.
\<close>

theorem co_run_inv:
  assumes "length mem = STACK_SIZE" and "co_run (coroutine_open mem) es = Inr S"
  shows "sched_inv S"
  using sched.inv_run [OF sched_inv_open] assms by blast

text \<open>Two coroutines: the first one is started, uses the stack and yields, the second one runs and ends,
  and the first one is resumed.\<close>

definition demo_events :: "unit co_event list" where
  "demo_events = [ENew (), ENew (), EResume 0, EWrite (replicate STACK_SIZE 4), EYield (20, 9),
     EResume 1, EWrite (replicate STACK_SIZE 5), EReturn, EResume 0]"

lemma demo_events_run:
  "\<exists>S C. co_run (coroutine_open (replicate STACK_SIZE 0)) demo_events = Inr S \<and> s_running S = 0 \<and>
     slot S 0 = Some C \<and> c_size C = STACK_SIZE - 9 \<and> s_nco S = 1"
proof -
  let ?S0 = "\<lparr>s_stack = replicate STACK_SIZE 0, s_nco = 0, s_cap = 16, s_running = -1,
      s_co = None # None # replicate 14 None\<rparr> :: unit schedule"
  have o: "coroutine_open (replicate STACK_SIZE 0) = ?S0"
    by (simp add: coroutine_open_def DEFAULT_COROUTINE_def numeral_eq_Suc)
  have p: "probe_slot ?S0 0 = Some 0" by (simp add: probe_slot.simps [of _ 0])
  have p2: "probe_slot \<lparr>s_stack = stk, s_nco = Suc 0, s_cap = 16, s_running = -1,
      s_co = c # None # replicate 14 None\<rparr> 0 = Some 1" for stk and c :: "unit coroutine option"
    by (simp add: probe_slot.simps [of _ 0])
  have stk: "9 \<le> STACK_SIZE" by (simp add: STACK_SIZE_def)
  show ?thesis
    by (simp add: demo_events_def o p p2 stk coroutine_new_def co_new_def coroutine_resume_def slot_def set_slot_def
        coroutine_yield_def save_stack_fits mainfunc_return_def Let_def del: bind_res_Inr assert_that_Inr)
qed

theorem co_run_inv_witness:
  "\<exists>S C. co_run (coroutine_open (replicate STACK_SIZE 0)) demo_events = Inr S \<and> sched_inv S \<and>
     s_nco S = 1 \<and> slot S 0 = Some C \<and> c_status C = COROUTINE_RUNNING \<and>
     STACK_SIZE - 9 \<le> length (c_stack C)"
proof -
  obtain S C where S: "co_run (coroutine_open (replicate STACK_SIZE 0)) demo_events = Inr S" "s_running S = 0"
    "slot S 0 = Some C" "c_size C = STACK_SIZE - 9" "s_nco S = 1"
    using demo_events_run by blast
  have "sched_inv S" by (rule co_run_inv [OF _ S(1)]) simp
  with S sched_invD(6) [OF this S(3)] show ?thesis by (auto simp: co_ok_def)
qed

text \<open>
  \<open>coroutine_new\<close> on a consistent table never reaches its final \<open>assert(0)\<close>: it
  returns a slot that was free, puts a READY coroutine there, leaves every other slot as it
  was, counts one coroutine more and keeps the table consistent, whether it reuses a slot or
  doubles the table.
\<close>

theorem coroutine_new_fresh:
  assumes "sched_inv S"
  shows "\<exists>cid S'. coroutine_new S f = Inr (cid, S') \<and> slot S (int cid) = None \<and>
     slot S' (int cid) = Some (co_new f) \<and> (\<forall>j. j \<noteq> int cid \<longrightarrow> slot S' j = slot S j) \<and>
     s_nco S' = s_nco S + 1 \<and> s_running S' = s_running S \<and> s_stack S' = s_stack S \<and>
     sched_inv S'"
proof -
  obtain cid S' where new: "coroutine_new S f = Inr (cid, S')"
    using coroutine_new_defined [OF assms] by blast
  show ?thesis
    using new coroutine_newD [OF assms new] sched_inv_new [OF assms new] by auto
qed

theorem coroutine_new_fresh_witness:
  "\<exists>cid S'. coroutine_new (coroutine_open (replicate STACK_SIZE 0)) () = Inr (cid, S') \<and>
     slot S' (int cid) = Some (co_new ()) \<and> s_nco S' = 1"
  using coroutine_new_fresh [OF sched_inv_open, of "replicate STACK_SIZE 0" "()"]
  by (auto simp: coroutine_open_def)

text \<open>
  C6: stack isolation. Let a coroutine yield with its frames above offset \<open>snd sp\<close> of the
  shared stack, let any events happen that do not resume it (other coroutines are created,
  run, overwrite the shared stack, yield and return), and resume it: it runs again, and the
  part of the shared stack above \<open>snd sp\<close> is byte for byte what it was at the yield.
\<close>

theorem stack_isolation:
  assumes inv: "sched_inv S" and run: "s_running S = cid" "cid \<noteq> -1"
    and y: "coroutine_yield S sp = Inr S1"
    and es: "co_run S1 es = Inr S2" "EResume cid \<notin> set es"
    and res: "coroutine_resume S2 cid = Inr S3"
  shows "s_running S3 = cid \<and> drop (nat (snd sp)) (s_stack S3) = drop (nat (snd sp)) (s_stack S)"
proof -
  obtain C D where CD: "slot S (s_running S) = Some C" "s_running S \<noteq> -1" "s_running S1 = -1"
    "\<forall>j. slot S1 j = (if j = s_running S then Some D else slot S j)"
    "c_status D = COROUTINE_SUSPEND" "c_func D = c_func C" "c_size D = STACK_SIZE - nat (snd sp)"
    "take (c_size D) (c_stack D) = drop (nat (snd sp)) (s_stack S)" "s_cap S1 = s_cap S"
    by (rule yield_slots [OF inv y])
  note D = CD(5,7,8)
  from CD(4) run have S1: "slot S1 cid = Some D" by simp
  have inv1: "sched_inv S1" by (rule sched_inv_yield [OF inv y])
  have inv2: "sched_inv S2" by (rule sched.inv_run [OF inv1 es(1)])
  have S2: "slot S2 cid = Some D"
    by (rule sched.frame_run [where P = "\<lambda>S. slot S cid = Some D", OF _ inv1 S1 es(1)])
      (metis D(1) es(2) suspended_frame)
  have *: "s_running S3 = cid" "s_stack S3 = take (STACK_SIZE - c_size D) (s_stack S2) @
      take (c_size D) (c_stack D)"
    using res S2 D(1) by (auto simp: coroutine_resume_def)
  then show ?thesis
    using D(2,3) sched_invD(4) [OF inv] sched_invD(4) [OF inv2] by (cases "nat (snd sp) \<le> STACK_SIZE") auto
qed

definition demo_schedule :: "unit schedule" where
  "demo_schedule =
     \<lparr>s_stack = replicate STACK_SIZE 3, s_nco = 1, s_cap = 1, s_running = 0,
      s_co = [Some ((co_new ())\<lparr>c_status := COROUTINE_RUNNING\<rparr>)]\<rparr>"

lemma demo_schedule_inv: "sched_inv demo_schedule"
  by (auto simp: demo_schedule_def sched_inv_def slot_def co_ok_def co_new_def used_def
      split: if_splits)

theorem stack_isolation_witness:
  "\<exists>S1 S2 S3. coroutine_yield demo_schedule (8, 5) = Inr S1 \<and>
     co_run S1 [ENew (), EResume 1, EWrite (replicate STACK_SIZE 7), EYield (6, 2)] = Inr S2 \<and>
     s_stack S2 = replicate STACK_SIZE 7 \<and>
     coroutine_resume S2 0 = Inr S3 \<and>
     drop 5 (s_stack S3) = drop 5 (replicate STACK_SIZE 3)"
proof -
  let ?es = "[ENew (), EResume 1, EWrite (replicate STACK_SIZE 7), EYield (6, 2)]"
  have run: "s_running demo_schedule = 0" by (simp add: demo_schedule_def)
  have stk: "5 \<le> STACK_SIZE" "2 \<le> STACK_SIZE" by (simp_all add: STACK_SIZE_def)
  then obtain S1 where y: "coroutine_yield demo_schedule (8, 5) = Inr S1"
    by (simp add: demo_schedule_def coroutine_yield_def save_stack_fits slot_def co_new_def Let_def del: bind_res_Inr assert_that_Inr)
  then have "\<exists>S2. co_run S1 ?es = Inr S2 \<and> s_stack S2 = replicate STACK_SIZE 7 \<and>
      s_running S2 = -1 \<and> s_cap S2 = 2"
    by (auto simp: demo_schedule_def coroutine_yield_def save_stack_fits slot_def co_new_def Let_def
        set_slot_def coroutine_new_def coroutine_resume_def stk
        simp del: bind_res_Inr assert_that_Inr)
  then obtain S2 where S2: "co_run S1 ?es = Inr S2" "s_stack S2 = replicate STACK_SIZE 7"
      "s_running S2 = -1" "s_cap S2 = 2" by blast
  have "sched_inv S2"
    by (rule sched.inv_run [OF sched_inv_yield [OF demo_schedule_inv y] S2(1)])
  then obtain S3 where S3: "coroutine_resume S2 0 = Inr S3"
    using resume_defined S2 by fastforce
  have "drop 5 (s_stack S3) = drop 5 (s_stack demo_schedule)"
    using stack_isolation [OF demo_schedule_inv run _ y S2(1) _ S3] by simp
  then have "drop 5 (s_stack S3) = drop 5 (replicate STACK_SIZE 3)"
    by (simp add: demo_schedule_def)
  then show ?thesis using y S2(1,2) S3 by blast
qed

text \<open>
  resuming from the main context never trips an assertion on a consistent table, for any
  id inside the table: a dead id is ignored, a READY or SUSPEND coroutine becomes the running
  one, and nothing else of the table changes.
\<close>

theorem coroutine_resume_total:
  assumes inv: "sched_inv S" and idle: "s_running S = -1"
    and rg: "0 \<le> cid" "cid < int (s_cap S)"
  shows "\<exists>S'. coroutine_resume S cid = Inr S' \<and> sched_inv S' \<and>
     (\<forall>j. j \<noteq> cid \<longrightarrow> slot S' j = slot S j) \<and>
     (slot S cid = None \<longrightarrow> S' = S) \<and>
     (slot S cid \<noteq> None \<longrightarrow>
        s_running S' = cid \<and> coroutine_status S' cid = Inr COROUTINE_RUNNING)"
proof -
  obtain S' where S': "coroutine_resume S cid = Inr S'"
    using resume_defined [OF assms] by blast
  have inv': "sched_inv S'" by (rule sched_inv_resume [OF inv S'])
  show ?thesis
    using inv S'
  proof (cases rule: resume_cases)
    case dead
    then show ?thesis using inv S' by simp
  next
    case (go C stk)
    have "s_running S' = cid" using go by simp
    then have "coroutine_status S' cid = Inr COROUTINE_RUNNING"
      using running_slot [OF inv'] rg slot_range [OF go(1)] sched_invD(2) [OF inv] go(4)
      by (auto simp: coroutine_status_def slot_set_slot)
    then show ?thesis using S' inv' go resume_frame [OF inv S'] by auto
  qed
qed

theorem coroutine_resume_total_witness:
  "\<exists>S'. coroutine_resume (coroutine_open (replicate STACK_SIZE 0) :: unit schedule) 3 = Inr S' \<and>
     sched_inv S'"
  using coroutine_resume_total [OF sched_inv_open, of "replicate STACK_SIZE 0" 3]
  by (auto simp: coroutine_open_def DEFAULT_COROUTINE_def)

lemma length_close_loop: "length (coroutine_close_loop cs) = used cs"
  by (induction cs) (auto split: option.splits)

text \<open>
  \<open>coroutine_close\<close> deletes each coroutine that is still in the table exactly once,
  \<open>nco\<close> of them, so no coroutine object leaks.
\<close>

theorem coroutine_close_all:
  assumes "sched_inv S"
  shows "length (coroutine_close S) = s_nco S \<and>
     set (coroutine_close S) = {C. \<exists>cid. slot S cid = Some C}"
proof
  show "length (coroutine_close S) = s_nco S"
    using sched_invD(3) [OF assms] by (simp add: coroutine_close_def length_close_loop)
  have "set (coroutine_close_loop cs) = {C. Some C \<in> set cs}" for cs :: "'a coroutine option list"
    by (induction cs) (auto split: option.splits)
  moreover have "(\<exists>cid. slot S cid = Some C) \<longleftrightarrow> Some C \<in> set (s_co S)" for C
  proof
    assume "Some C \<in> set (s_co S)"
    then obtain i where "i < s_cap S" "s_co S ! i = Some C"
      using sched_invD(2) [OF assms] by (metis in_set_conv_nth)
    then have "slot S (int i) = Some C" by (simp add: slot_def)
    then show "\<exists>cid. slot S cid = Some C" ..
  next
    assume "\<exists>cid. slot S cid = Some C"
    then obtain cid where "slot S cid = Some C" ..
    then show "Some C \<in> set (s_co S)"
      using sched_invD(2) [OF assms]
      by (metis in_set_conv_nth nat_less_iff option.distinct(1) slot_def)
  qed
  ultimately show "set (coroutine_close S) = {C. \<exists>cid. slot S cid = Some C}"
    by (simp add: coroutine_close_def)
qed

theorem coroutine_close_all_witness:
  "length (coroutine_close demo_schedule) = 1"
  using coroutine_close_all [OF demo_schedule_inv] by (simp add: demo_schedule_def)

end
