(* ===== verification/Timestamps.thy ===== *)
theory Timestamps
  imports Co_Prelude
begin

text \<open>
  \<open>base/Timestamp.cpp\<close>: a \<open>timeval\<close> with the comparison operators that the timeout
  queue sorts by. The seconds and microseconds are 64-bit \<open>long\<close>s; their values stay far
  from the limits, and they are modelled as integers. Division and remainder are those of
  C++, which truncate towards zero.
\<close>

datatype timestamp = Timestamp (tv_sec: int) (tv_usec: int)

text \<open>The constructor reads the clock, which leaves zeros if it fails; its result is the argument \<open>now\<close> of the
  operations that construct a \<open>Timestamp\<close>.\<close>

definition Timestamp_new :: "(int \<times> int) option \<Rightarrow> timestamp" where
  "Timestamp_new gettimeofday_result = (case gettimeofday_result of None \<Rightarrow> Timestamp 0 0 | Some (sec, usec) \<Rightarrow> Timestamp sec usec)"

definition AddMillisecond :: "timestamp \<Rightarrow> int \<Rightarrow> timestamp" where
  "AddMillisecond t millisecond =
     Timestamp (tv_sec t + millisecond sdiv 1000) (tv_usec t + millisecond smod 1000 * 1000)"

definition ts_less :: "timestamp \<Rightarrow> timestamp \<Rightarrow> bool" where
  "ts_less lhs rhs =
     (if tv_sec lhs < tv_sec rhs then True
      else if tv_sec lhs = tv_sec rhs then tv_usec lhs < tv_usec rhs
      else False)"

definition ts_equal :: "timestamp \<Rightarrow> timestamp \<Rightarrow> bool" where
  "ts_equal lhs rhs \<longleftrightarrow> tv_sec lhs = tv_sec rhs \<and> tv_usec lhs = tv_usec rhs"

definition ts_greater :: "timestamp \<Rightarrow> timestamp \<Rightarrow> bool" where
  "ts_greater lhs rhs =
     (if tv_sec lhs > tv_sec rhs then True
      else if tv_sec lhs = tv_sec rhs then tv_usec lhs > tv_usec rhs
      else False)"

definition ts_minus :: "timestamp \<Rightarrow> timestamp \<Rightarrow> int" where
  "ts_minus lhs rhs =
     (let millisec = 1000 * (tv_sec lhs - tv_sec rhs) in
      millisec + (tv_usec lhs - tv_usec rhs) sdiv 1000)"

subsection \<open>The operators are one linear order\<close>

instantiation timestamp :: linorder
begin

definition less_timestamp :: "timestamp \<Rightarrow> timestamp \<Rightarrow> bool" where
  "less_timestamp a b \<longleftrightarrow> ts_less a b"

definition less_eq_timestamp :: "timestamp \<Rightarrow> timestamp \<Rightarrow> bool" where
  "less_eq_timestamp a b \<longleftrightarrow> ts_less a b \<or> ts_equal a b"

instance
proof
  fix x y z :: timestamp
  show "(x < y) = (x \<le> y \<and> \<not> y \<le> x)"
    by (auto simp: less_timestamp_def less_eq_timestamp_def ts_less_def ts_equal_def)
  show "x \<le> x"
    by (simp add: less_eq_timestamp_def ts_equal_def)
  show "x \<le> y \<Longrightarrow> y \<le> z \<Longrightarrow> x \<le> z"
    by (auto simp: less_eq_timestamp_def ts_less_def ts_equal_def split: if_splits)
  show "x \<le> y \<Longrightarrow> y \<le> x \<Longrightarrow> x = y"
    by (cases x; cases y) (auto simp: less_eq_timestamp_def ts_less_def ts_equal_def split: if_splits)
  show "x \<le> y \<or> y \<le> x"
    by (auto simp: less_eq_timestamp_def ts_less_def ts_equal_def)
qed

end

lemma ts_equal_iff [simp]: "ts_equal a b \<longleftrightarrow> a = b"
  by (cases a; cases b) (auto simp: ts_equal_def)

lemma ts_less_iff [simp]: "ts_less a b \<longleftrightarrow> a < b"
  by (simp add: less_timestamp_def)

lemma ts_greater_iff [simp]: "ts_greater a b \<longleftrightarrow> b < a"
  by (auto simp: less_timestamp_def ts_greater_def ts_less_def simp del: ts_less_iff)

text \<open>
  the three comparison operators of \<open>Timestamp\<close> are one strict linear order: exactly
  one of \<open>lhs < rhs\<close>, \<open>lhs == rhs\<close>, \<open>lhs > rhs\<close> holds, \<open>>\<close> is the converse of
  \<open><\<close>, and \<open><\<close> is transitive, which is what \<open>std::set\<close> needs of its comparison.
\<close>

theorem timestamp_order:
  "(ts_less a b \<and> \<not> ts_equal a b \<and> \<not> ts_greater a b \<or>
    \<not> ts_less a b \<and> ts_equal a b \<and> \<not> ts_greater a b \<or>
    \<not> ts_less a b \<and> \<not> ts_equal a b \<and> ts_greater a b) \<and>
   ts_greater a b = ts_less b a \<and>
   (ts_less a b \<and> ts_less b c \<longrightarrow> ts_less a c)"
  by (auto dest: less_trans)

theorem timestamp_order_witness:
  "ts_less (Timestamp 1 5) (Timestamp 1 9) \<and> ts_less (Timestamp 1 9) (Timestamp 2 0) \<and>
   ts_less (Timestamp 1 5) (Timestamp 2 0)"
  using timestamp_order [of "Timestamp 1 5" "Timestamp 1 9" "Timestamp 2 0"]
  by (simp add: ts_less_def del: ts_less_iff)

subsection \<open>Deadlines\<close>

definition micros :: "timestamp \<Rightarrow> int" where
  "micros t = tv_sec t * 1000000 + tv_usec t"

definition normal_ts :: "timestamp \<Rightarrow> bool" where
  "normal_ts t \<longleftrightarrow> 0 \<le> tv_usec t \<and> tv_usec t < 1000000"

lemma sdiv_smod_1000: "1000 * ((m::int) sdiv 1000) + m smod 1000 = m"
  by (rule mult_sdiv_smod_eq)

lemma sdiv_mult_1000: "((k::int) * 1000) sdiv 1000 = k"
  by (simp add: signed_divide_int_eq_divide_int)

lemma micros_AddMillisecond: "micros (AddMillisecond t m) = micros t + m * 1000"
  using sdiv_smod_1000 [of m] by (simp add: micros_def AddMillisecond_def algebra_simps)

lemma AddMillisecond_greater: "0 < m \<Longrightarrow> t < AddMillisecond t m"
  using sdiv_smod_1000 [of m] smod_int_compares(1,2) [of m 1000]
  by (auto simp: less_timestamp_def ts_less_def AddMillisecond_def simp del: ts_less_iff)

text \<open>
  \<open>operator -\<close> measures in milliseconds exactly what \<open>AddMillisecond\<close> added, for
  every start time and every amount, negative ones included.
\<close>

theorem AddMillisecond_minus: "ts_minus (AddMillisecond t ms) t = ms"
  using sdiv_smod_1000 [of ms] by (simp add: ts_minus_def AddMillisecond_def sdiv_mult_1000 Let_def)

text \<open>
  \<open>AddMillisecond\<close> does not carry microseconds into seconds, so a deadline is compared
  unnormalised. For a start time and a current time as \<open>gettimeofday\<close> returns them, the
  comparison of \<open>GetExpired\<close> never reports a deadline late, and reports it less than one
  second before its real time.
\<close>

theorem deadline_error_bound:
  assumes "normal_ts t" "normal_ts now" "0 \<le> ms"
  shows "(micros t + ms * 1000 \<le> micros now \<longrightarrow> \<not> ts_greater (AddMillisecond t ms) now) \<and>
     (\<not> ts_greater (AddMillisecond t ms) now \<longrightarrow> micros t + ms * 1000 < micros now + 1000000)"
proof -
  let ?d = "AddMillisecond t ms"
  have d: "0 \<le> tv_usec ?d" "tv_usec ?d < 2000000" "micros ?d = micros t + ms * 1000"
    using assms smod_int_compares(1,2) [of ms 1000]
    by (auto simp: AddMillisecond_def normal_ts_def micros_AddMillisecond [unfolded AddMillisecond_def])
  show ?thesis
    using assms(2) unfolding d(3) [symmetric]
    using d(1,2) by (auto simp: ts_greater_def normal_ts_def micros_def simp del: ts_greater_iff)
qed

theorem deadline_error_bound_witness:
  "\<not> ts_greater (AddMillisecond (Timestamp 10 900000) 900) (Timestamp 11 0) \<and>
   micros (Timestamp 10 900000) + 900 * 1000 < micros (Timestamp 11 0) + 1000000"
proof -
  have "\<not> ts_greater (AddMillisecond (Timestamp 10 900000) 900) (Timestamp 11 0)"
    by (simp add: ts_greater_def AddMillisecond_def del: ts_greater_iff)
  then show ?thesis
    using deadline_error_bound [of "Timestamp 10 900000" "Timestamp 11 0" 900]
    by (simp add: normal_ts_def)
qed

text \<open>
  the early report is real: 900 ms after 10.9 s is due at 11.8 s, and the queue already
  treats it as expired at 11.0 s.
\<close>

theorem deadline_early:
  "\<exists>t now ms. normal_ts t \<and> normal_ts now \<and> 0 < ms \<and>
     micros now + 800000 \<le> micros t + ms * 1000 \<and> \<not> ts_greater (AddMillisecond t ms) now"
  by (rule exI [of _ "Timestamp 10 900000"], rule exI [of _ "Timestamp 11 0"], rule exI [of _ 900])
    (simp add: normal_ts_def micros_def AddMillisecond_def ts_greater_def del: ts_greater_iff)

end
