(* ===== verification/Timeout_Set.thy ===== *)
theory Timeout_Set
  imports Timestamps
begin

text \<open>
  \<open>CoSocket::TimeoutSet\<close> of \<open>net/CoSocket.cpp\<close>: the pending timeouts, a
  \<open>std::set\<close> ordered by deadline and then by coroutine id, with a \<open>std::map\<close> from
  coroutine id to the iterator of its element. The set is the sorted list of its elements in
  iteration order; an iterator is the element it points to.
\<close>

datatype CoIdTimeout = CoIdTimeout (coId: int) (timestamp: timestamp)

definition timeout_less :: "CoIdTimeout \<Rightarrow> CoIdTimeout \<Rightarrow> bool" where
  "timeout_less lhs rhs =
     (if ts_less (timestamp lhs) (timestamp rhs) then True
      else if ts_equal (timestamp lhs) (timestamp rhs) then coId lhs < coId rhs
      else False)"

instantiation CoIdTimeout :: linorder
begin

definition less_CoIdTimeout :: "CoIdTimeout \<Rightarrow> CoIdTimeout \<Rightarrow> bool" where
  "less_CoIdTimeout a b \<longleftrightarrow> timeout_less a b"

definition less_eq_CoIdTimeout :: "CoIdTimeout \<Rightarrow> CoIdTimeout \<Rightarrow> bool" where
  "less_eq_CoIdTimeout a b \<longleftrightarrow> timeout_less a b \<or> a = b"

instance
proof
  fix x y z :: CoIdTimeout
  show "(x < y) = (x \<le> y \<and> \<not> y \<le> x)"
    by (auto simp: less_CoIdTimeout_def less_eq_CoIdTimeout_def timeout_less_def split: if_splits)
  show "x \<le> x"
    by (simp add: less_eq_CoIdTimeout_def)
  show "x \<le> y \<Longrightarrow> y \<le> z \<Longrightarrow> x \<le> z"
    by (auto simp: less_eq_CoIdTimeout_def timeout_less_def split: if_splits)
  show "x \<le> y \<Longrightarrow> y \<le> x \<Longrightarrow> x = y"
    by (auto simp: less_eq_CoIdTimeout_def timeout_less_def split: if_splits)
  show "x \<le> y \<or> y \<le> x"
    by (cases x; cases y) (auto simp: less_eq_CoIdTimeout_def timeout_less_def)
qed

end

record TimeoutSet =
  m_timeoutSet :: "CoIdTimeout list"
  m_timeoutPtrMap :: "int \<rightharpoonup> CoIdTimeout"

definition TimeoutSet_init :: TimeoutSet where
  "TimeoutSet_init = \<lparr>m_timeoutSet = [], m_timeoutPtrMap = Map.empty\<rparr>"

text \<open>\<open>std::set::insert\<close>: the new container and whether the element was inserted.\<close>

definition set_insert :: "'a::linorder \<Rightarrow> 'a list \<Rightarrow> 'a list \<times> bool" where
  "set_insert x xs = (if x \<in> set xs then (xs, False) else (insort x xs, True))"

text \<open>\<open>std::map::insert\<close> leaves an existing entry alone.\<close>

definition map_insert :: "'k \<Rightarrow> 'v \<Rightarrow> ('k \<rightharpoonup> 'v) \<Rightarrow> ('k \<rightharpoonup> 'v)" where
  "map_insert k v m = (if m k = None then m(k \<mapsto> v) else m)"

text \<open>\<open>now\<close> is the clock reading of the \<open>Timestamp\<close> constructed inside.\<close>

definition Insert :: "timestamp \<Rightarrow> int \<Rightarrow> int \<Rightarrow> TimeoutSet \<Rightarrow> TimeoutSet" where
  "Insert now cid timeoutMs T =
     (let timeout = CoIdTimeout cid (AddMillisecond now timeoutMs);
          ret = set_insert timeout (m_timeoutSet T)
      in if \<not> snd ret then T
         else T\<lparr>m_timeoutSet := fst ret,
                m_timeoutPtrMap := map_insert cid timeout (m_timeoutPtrMap T)\<rparr>)"

definition Delete :: "int \<Rightarrow> TimeoutSet \<Rightarrow> TimeoutSet" where
  "Delete cid T =
     (case m_timeoutPtrMap T cid of
        Some it \<Rightarrow> T\<lparr>m_timeoutSet := remove1 it (m_timeoutSet T),
                     m_timeoutPtrMap := (m_timeoutPtrMap T)(cid := None)\<rparr>
      | None \<Rightarrow> T)"

definition GetExpired :: "timestamp \<Rightarrow> TimeoutSet \<Rightarrow> int" where
  "GetExpired now T =
     (case m_timeoutSet T of
        [] \<Rightarrow> -1
      | e # _ \<Rightarrow> if ts_greater (timestamp e) now then -1 else coId e)"

definition GetNeareastTimeGap :: "timestamp \<Rightarrow> TimeoutSet \<Rightarrow> int" where
  "GetNeareastTimeGap now T =
     (case m_timeoutSet T of
        [] \<Rightarrow> -1
      | e # _ \<Rightarrow>
          (let timeGap = ts_minus now (timestamp e) in
           if timeGap < 0 then 0 else timeGap))"

subsection \<open>Invariant\<close>

definition tset_inv :: "TimeoutSet \<Rightarrow> bool" where
  "tset_inv T \<longleftrightarrow>
     sorted (m_timeoutSet T) \<and> distinct (m_timeoutSet T) \<and>
     (\<forall>cid e. m_timeoutPtrMap T cid = Some e \<longleftrightarrow> e \<in> set (m_timeoutSet T) \<and> coId e = cid)"

text \<open>The abstract view: the deadline of each coroutine that waits with a timeout.\<close>

definition deadlines :: "TimeoutSet \<Rightarrow> int \<rightharpoonup> timestamp" where
  "deadlines T cid = map_option timestamp (m_timeoutPtrMap T cid)"

lemma tset_invD:
  assumes "tset_inv T"
  shows "sorted (m_timeoutSet T)" "distinct (m_timeoutSet T)"
    "m_timeoutPtrMap T cid = Some e \<longleftrightarrow> e \<in> set (m_timeoutSet T) \<and> coId e = cid"
  using assms by (auto simp: tset_inv_def)

lemma deadlines_Some:
  "tset_inv T \<Longrightarrow> deadlines T cid = Some d \<longleftrightarrow> CoIdTimeout cid d \<in> set (m_timeoutSet T)"
  by (auto simp: deadlines_def tset_invD(3))

lemma deadlines_None:
  "deadlines T cid = None \<longleftrightarrow> m_timeoutPtrMap T cid = None"
  by (simp add: deadlines_def)

lemma tset_inv_init: "tset_inv TimeoutSet_init"
  by (simp add: tset_inv_def TimeoutSet_init_def)

lemma Insert_fresh:
  assumes inv: "tset_inv T" and fresh: "deadlines T cid = None"
  shows "Insert now cid ms T =
     T\<lparr>m_timeoutSet := insort (CoIdTimeout cid (AddMillisecond now ms)) (m_timeoutSet T),
       m_timeoutPtrMap :=
         (m_timeoutPtrMap T)(cid \<mapsto> CoIdTimeout cid (AddMillisecond now ms))\<rparr>"
proof -
  let ?e = "CoIdTimeout cid (AddMillisecond now ms)"
  have "m_timeoutPtrMap T cid = None" using fresh by (simp add: deadlines_None)
  moreover from this have "?e \<notin> set (m_timeoutSet T)"
    using tset_invD(3) [OF inv, of cid ?e] by simp
  ultimately show ?thesis
    by (simp add: Insert_def Let_def set_insert_def map_insert_def)
qed

lemma tset_inv_Insert:
  assumes inv: "tset_inv T" and fresh: "deadlines T cid = None"
  shows "tset_inv (Insert now cid ms T)"
proof -
  have none: "m_timeoutPtrMap T cid = None" using fresh by (simp add: deadlines_None)
  have "e \<notin> set (m_timeoutSet T)" if "coId e = cid" for e
    using none tset_invD(3) [OF inv, of cid e] that by simp
  then show ?thesis
    using tset_invD [OF inv]
    by (auto simp: tset_inv_def Insert_fresh [OF assms] sorted_insort distinct_insort set_insort_key)
qed

lemma deadlines_Insert:
  assumes "tset_inv T" "deadlines T cid = None"
  shows "deadlines (Insert now cid ms T) = (deadlines T)(cid \<mapsto> AddMillisecond now ms)"
  by (auto simp: Insert_fresh [OF assms] deadlines_def)

lemma tset_inv_Delete:
  assumes inv: "tset_inv T"
  shows "tset_inv (Delete cid T)"
proof (cases "m_timeoutPtrMap T cid")
  case None
  then show ?thesis using inv by (simp add: Delete_def)
next
  case (Some e)
  have iff: "f \<in> set (m_timeoutSet T) \<and> coId f = cid \<longleftrightarrow> f = e" for f
    using tset_invD(3) [OF inv, of cid f] Some by auto
  have s: "m_timeoutSet (Delete cid T) = remove1 e (m_timeoutSet T)"
    and m: "m_timeoutPtrMap (Delete cid T) = (m_timeoutPtrMap T)(cid := None)"
    using Some by (simp_all add: Delete_def)
  have "set (remove1 e (m_timeoutSet T)) = {f \<in> set (m_timeoutSet T). coId f \<noteq> cid}"
    using iff tset_invD(2) [OF inv] by auto
  then show ?thesis
    unfolding tset_inv_def s m
    using tset_invD [OF inv] by (simp add: sorted_remove1) auto
qed

lemma deadlines_Delete: "deadlines (Delete cid T) = (deadlines T)(cid := None)"
  by (auto simp: Delete_def deadlines_def split: option.splits)

subsection \<open>The interface of a timer queue\<close>

text \<open>
  What \<open>CoSocket\<close> relies on: a view of the queue as a map from coroutine id to deadline,
  how arming and disarming change it, and what the earliest-expired query returns. The two
  lemmas are the termination argument of \<open>CoSocket::RunTimeoutCo\<close>: disarming the
  coroutine that the query returned makes the set of due coroutines smaller, and arming a
  timeout later than \<open>now\<close> does not enlarge it.
\<close>

locale timer_queue =
  fixes invar :: "'q \<Rightarrow> bool"
    and view :: "'q \<Rightarrow> int \<rightharpoonup> timestamp"
    and ins :: "timestamp \<Rightarrow> int \<Rightarrow> int \<Rightarrow> 'q \<Rightarrow> 'q"
    and del :: "int \<Rightarrow> 'q \<Rightarrow> 'q"
    and expired :: "timestamp \<Rightarrow> 'q \<Rightarrow> int"
  assumes invar_ins: "invar q \<Longrightarrow> view q c = None \<Longrightarrow> invar (ins t c ms q)"
    and invar_del: "invar q \<Longrightarrow> invar (del c q)"
    and view_ins: "invar q \<Longrightarrow> view q c = None \<Longrightarrow>
      view (ins t c ms q) = (view q)(c \<mapsto> AddMillisecond t ms)"
    and view_del: "invar q \<Longrightarrow> view (del c q) = (view q)(c := None)"
    and finite_view: "invar q \<Longrightarrow> finite (dom (view q))"
    and expired_None: "invar q \<Longrightarrow> view q (-1) = None \<Longrightarrow>
      expired now q = -1 \<longleftrightarrow> (\<forall>c d. view q c = Some d \<longrightarrow> now < d)"
    and expired_Some: "invar q \<Longrightarrow> expired now q = c \<Longrightarrow> c \<noteq> -1 \<Longrightarrow>
      \<exists>d. view q c = Some d \<and> d \<le> now \<and> (\<forall>c' d'. view q c' = Some d' \<longrightarrow> d \<le> d')"
begin

definition due :: "timestamp \<Rightarrow> 'q \<Rightarrow> int set" where
  "due now q = {c. \<exists>d. view q c = Some d \<and> d \<le> now}"

lemma finite_due: "invar q \<Longrightarrow> finite (due now q)"
  by (rule finite_subset [OF _ finite_view]) (auto simp: due_def)

lemma due_ins:
  assumes "invar q" "view q c = None" "now \<le> t" "0 < ms"
  shows "due now (ins t c ms q) = due now q"
proof -
  have "now < AddMillisecond t ms"
    using assms(3) AddMillisecond_greater [OF assms(4), of t] by (rule le_less_trans)
  then show ?thesis using assms(2) by (auto simp: due_def view_ins [OF assms(1,2)] not_less)
qed

lemma due_del: "invar q \<Longrightarrow> due now (del c q) = due now q - {c}"
  by (auto simp: due_def view_del split: if_splits)

lemma due_pop:
  assumes "invar q" "expired now q = c" "c \<noteq> -1"
  shows "card (due now (del c q)) < card (due now q)"
proof -
  have "c \<in> due now q" using expired_Some [OF assms] by (auto simp: due_def)
  then show ?thesis
    unfolding due_del [OF assms(1)] by (rule card_Diff1_less [OF finite_due [OF assms(1)]])
qed

end

lemma GetExpired_None:
  assumes inv: "tset_inv T" and "deadlines T (-1) = None"
  shows "GetExpired now T = -1 \<longleftrightarrow> (\<forall>c d. deadlines T c = Some d \<longrightarrow> now < d)"
proof (cases "m_timeoutSet T")
  case Nil
  then have "deadlines T c = None" for c
    using deadlines_Some [OF inv, of c] by (cases "deadlines T c") auto
  then show ?thesis using Nil by (simp add: GetExpired_def)
next
  case (Cons e es)
  have e: "deadlines T (coId e) = Some (timestamp e)"
    using Cons by (simp add: deadlines_Some [OF inv])
  moreover have "coId e \<noteq> -1" using e assms(2) by auto
  moreover have "timestamp e \<le> d" if "deadlines T c = Some d" for c d
  proof -
    have "e \<le> CoIdTimeout c d"
      using that Cons tset_invD(1) [OF inv] by (auto simp: deadlines_Some [OF inv])
    then show ?thesis
      by (auto simp: less_eq_CoIdTimeout_def timeout_less_def split: if_splits)
  qed
  ultimately show ?thesis
    using Cons by (auto simp: GetExpired_def intro: less_le_trans)
qed

lemma GetExpired_Some:
  assumes inv: "tset_inv T" and exp: "GetExpired now T = c" "c \<noteq> -1"
  shows "\<exists>d. deadlines T c = Some d \<and> d \<le> now \<and>
    (\<forall>c' d'. deadlines T c' = Some d' \<longrightarrow> d \<le> d')"
proof -
  obtain e es where Cons: "m_timeoutSet T = e # es"
    using exp by (cases "m_timeoutSet T") (auto simp: GetExpired_def)
  then have c: "c = coId e" "timestamp e \<le> now"
    using exp by (auto simp: GetExpired_def split: if_splits)
  have "timestamp e \<le> d" if "deadlines T c' = Some d" for c' d
  proof -
    have "e \<le> CoIdTimeout c' d"
      using that Cons tset_invD(1) [OF inv] by (auto simp: deadlines_Some [OF inv])
    then show ?thesis
      by (auto simp: less_eq_CoIdTimeout_def timeout_less_def split: if_splits)
  qed
  moreover have "deadlines T c = Some (timestamp e)"
    using Cons c by (simp add: deadlines_Some [OF inv])
  ultimately show ?thesis using c by auto
qed

lemma finite_deadlines: "tset_inv T \<Longrightarrow> finite (dom (deadlines T))"
  by (rule finite_subset [of _ "coId ` set (m_timeoutSet T)"]) (force simp: deadlines_Some)+

interpretation timeouts: timer_queue tset_inv deadlines Insert Delete GetExpired
  by unfold_locales
    (simp_all add: tset_inv_Insert tset_inv_Delete deadlines_Insert deadlines_Delete
      finite_deadlines GetExpired_None GetExpired_Some)

subsection \<open>What the timeout queue guarantees\<close>

text \<open>
  C25: the sorted set and the iterator map together implement a map from coroutine id to
  deadline. Arming a coroutine that has no timeout adds exactly its deadline, disarming removes
  exactly its entry, both keep the two containers consistent, and disarming what was just armed
  restores the old map.
\<close>

theorem timeout_set_refines_map:
  assumes inv: "tset_inv T" and fresh: "deadlines T cid = None"
  shows "deadlines (Insert now cid ms T) = (deadlines T)(cid \<mapsto> AddMillisecond now ms) \<and>
     tset_inv (Insert now cid ms T) \<and>
     deadlines (Delete k T) = (deadlines T)(k := None) \<and> tset_inv (Delete k T) \<and>
     deadlines (Delete cid (Insert now cid ms T)) = deadlines T"
  using timeouts.view_ins [OF assms] timeouts.invar_ins [OF assms] timeouts.view_del [OF inv]
    timeouts.invar_del [OF inv] timeouts.view_del [OF timeouts.invar_ins [OF assms]] fresh
  by auto

theorem timeout_set_refines_map_witness:
  "deadlines (Delete 4 (Insert (Timestamp 5 0) 4 20 TimeoutSet_init)) = deadlines TimeoutSet_init"
  using timeout_set_refines_map [OF tset_inv_init, of 4 "Timestamp 5 0" 20]
  by (simp add: deadlines_def TimeoutSet_init_def)

text \<open>
  \<open>GetExpired\<close> returns \<open>-1\<close> exactly when every armed deadline lies after \<open>now\<close>;
  otherwise it returns a coroutine whose deadline has passed and is the earliest of all.
\<close>

theorem GetExpired_earliest:
  assumes inv: "tset_inv T" and "deadlines T (-1) = None"
  shows "(GetExpired now T = -1 \<longleftrightarrow> (\<forall>c d. deadlines T c = Some d \<longrightarrow> ts_greater d now)) \<and>
     (GetExpired now T \<noteq> -1 \<longrightarrow>
        (\<exists>d. deadlines T (GetExpired now T) = Some d \<and> \<not> ts_greater d now \<and>
             (\<forall>c' d'. deadlines T c' = Some d' \<longrightarrow> \<not> ts_greater d d')))"
  using timeouts.expired_None [OF assms] timeouts.expired_Some [OF inv refl, of now]
  by (simp add: not_less)

theorem GetExpired_earliest_witness:
  "GetExpired (Timestamp 9 0) (Insert (Timestamp 5 0) 7 50 (Insert (Timestamp 5 0) 4 20 TimeoutSet_init)) = 4 \<and>
   deadlines (Insert (Timestamp 5 0) 7 50 (Insert (Timestamp 5 0) 4 20 TimeoutSet_init)) 4 =
     Some (AddMillisecond (Timestamp 5 0) 20)"
proof -
  let ?T1 = "Insert (Timestamp 5 0) 4 20 TimeoutSet_init"
  let ?T = "Insert (Timestamp 5 0) 7 50 ?T1"
  have f0: "deadlines TimeoutSet_init c = None" for c
    by (simp add: deadlines_def TimeoutSet_init_def)
  have i1: "tset_inv ?T1" by (rule tset_inv_Insert [OF tset_inv_init f0])
  have d1: "deadlines ?T1 = [4 \<mapsto> AddMillisecond (Timestamp 5 0) 20]"
    using deadlines_Insert [OF tset_inv_init f0] f0 by (auto simp: fun_eq_iff)
  have i: "tset_inv ?T" by (rule tset_inv_Insert [OF i1]) (simp add: d1)
  have d: "deadlines ?T = [4 \<mapsto> AddMillisecond (Timestamp 5 0) 20, 7 \<mapsto> AddMillisecond (Timestamp 5 0) 50]"
    using deadlines_Insert [OF i1] d1 by simp
  have "GetExpired (Timestamp 9 0) ?T = 4"
    by (simp add: GetExpired_def Insert_def TimeoutSet_init_def set_insert_def map_insert_def Let_def
        AddMillisecond_def less_eq_CoIdTimeout_def timeout_less_def ts_less_def ts_greater_def
        ts_equal_def del: ts_less_iff ts_greater_iff ts_equal_iff)
  then show ?thesis using GetExpired_earliest [OF i, of "Timestamp 9 0"] d by simp
qed

text \<open>
  the gap that \<open>Run\<close> passes to the poller is computed as \<open>now\<close> minus deadline, not
  deadline minus \<open>now\<close>. While the earliest deadline is still at least one millisecond away
  the gap is \<open>0\<close>, however far away the deadline is; it is positive only for a deadline that
  passed at least a millisecond ago, and then it is the overdue time.
\<close>

theorem time_gap_is_overdue_time:
  assumes "m_timeoutSet T = e # es"
  shows "(\<forall>ms. 0 < ms \<and> timestamp e = AddMillisecond now ms \<longrightarrow> GetNeareastTimeGap now T = 0) \<and>
     (\<forall>ms. 0 \<le> ms \<and> now = AddMillisecond (timestamp e) ms \<longrightarrow> GetNeareastTimeGap now T = ms)"
proof -
  have "ts_minus now (AddMillisecond now ms) = - ms" for ms
  proof -
    have "((-(ms smod 1000)) * 1000) sdiv 1000 = -(ms smod 1000)" by (rule sdiv_mult_1000)
    then show ?thesis
      using sdiv_smod_1000 [of ms] by (simp add: ts_minus_def AddMillisecond_def Let_def)
  qed
  moreover have "ts_minus (AddMillisecond t ms) t = ms" for t ms
    using sdiv_smod_1000 [of ms] by (simp add: ts_minus_def AddMillisecond_def sdiv_mult_1000 Let_def)
  ultimately show ?thesis using assms by (auto simp: GetNeareastTimeGap_def Let_def)
qed

theorem time_gap_is_overdue_time_witness:
  "GetNeareastTimeGap (Timestamp 100 0)
     \<lparr>m_timeoutSet = [CoIdTimeout 1 (AddMillisecond (Timestamp 100 0) 60000)],
      m_timeoutPtrMap = Map.empty\<rparr> = 0"
  using time_gap_is_overdue_time
    [of "\<lparr>m_timeoutSet = [CoIdTimeout 1 (AddMillisecond (Timestamp 100 0) 60000)],
         m_timeoutPtrMap = Map.empty\<rparr>" "CoIdTimeout 1 (AddMillisecond (Timestamp 100 0) 60000)" "[]"
         "Timestamp 100 0"]
  by auto

end
