(* ===== verification/Epoll.thy ===== *)
theory Epoll
  imports Co_Prelude
begin

text \<open>
  \<open>net/Epoller.cpp\<close>: the poller. The kernel's \<open>epoll_ctl\<close> is a parameter \<open>ctl\<close>
  over an opaque kernel state: it returns the new state and \<open>None\<close> for success or
  \<open>Some errno\<close>. What \<open>epoll_ctl(2)\<close> documents is \<open>epoll_laws\<close>, over the interest list
  \<open>interest\<close> of the kernel state and the descriptors \<open>can_watch\<close> that it can register at the
  moment: the open ones that support polling, as long as there is memory and the limit on watches
  is not reached. For all others (\<open>EBADF\<close>, \<open>EPERM\<close>, \<open>ENOMEM\<close>, \<open>ENOSPC\<close>) nothing is
  assumed. \<open>kernel\<close> adds the other calls that change that state: \<open>close\<close>, which may drop
  the descriptor from the interest list, and everything else.
\<close>

definition EPOLLIN :: u32 where "EPOLLIN = 1"
definition EPOLLOUT :: u32 where "EPOLLOUT = 4"
definition EPOLLERR :: u32 where "EPOLLERR = 8"
definition EPOLLHUP :: u32 where "EPOLLHUP = 16"

definition EPERM :: int where "EPERM = 1"
definition ENOENT :: int where "ENOENT = 2"
definition EINTR :: int where "EINTR = 4"
definition EBADF :: int where "EBADF = 9"
definition EAGAIN :: int where "EAGAIN = 11"
definition EWOULDBLOCK :: int where "EWOULDBLOCK = EAGAIN"
definition ENOMEM :: int where "ENOMEM = 12"
definition EEXIST :: int where "EEXIST = 17"
definition EMFILE :: int where "EMFILE = 24"
definition ENOSPC :: int where "ENOSPC = 28"
definition ETIME :: int where "ETIME = 62"
definition ECONNABORTED :: int where "ECONNABORTED = 103"
definition EISCONN :: int where "EISCONN = 106"
definition ETIMEDOUT :: int where "ETIMEDOUT = 110"
definition EINPROGRESS :: int where "EINPROGRESS = 115"

lemmas epoll_flags = EPOLLIN_def EPOLLOUT_def EPOLLERR_def EPOLLHUP_def

lemmas errno_defs = EPERM_def ENOENT_def EINTR_def EBADF_def EAGAIN_def ENOMEM_def EMFILE_def ENOSPC_def EWOULDBLOCK_def EEXIST_def ETIME_def
  ECONNABORTED_def EISCONN_def ETIMEDOUT_def EINPROGRESS_def

datatype ctl_op = EPOLL_CTL_ADD | EPOLL_CTL_DEL | EPOLL_CTL_MOD

type_synonym 'k epoll_ctl = "'k \<Rightarrow> ctl_op \<Rightarrow> int \<Rightarrow> u32 \<Rightarrow> 'k \<times> int option"

definition EpollCtl :: "'k epoll_ctl \<Rightarrow> ctl_op \<Rightarrow> int \<Rightarrow> u32 \<Rightarrow> 'k \<Rightarrow> 'k \<times> int" where
  "EpollCtl ctl operation fd events k =
     (case ctl k operation fd events of
        (k', Some errno) \<Rightarrow> (k', errno)
      | (k', None) \<Rightarrow> (k', 0))"

definition Update :: "'k epoll_ctl \<Rightarrow> int \<Rightarrow> u32 \<Rightarrow> 'k \<Rightarrow> 'k \<times> int" where
  "Update ctl fd events k =
     (let operation = (if events = 0 then EPOLL_CTL_DEL else EPOLL_CTL_ADD);
          (k1, ret) = EpollCtl ctl operation fd events k
      in if ret = ENOENT \<and> operation = EPOLL_CTL_DEL then (k1, 0)
         else if ret = EEXIST \<and> operation = EPOLL_CTL_ADD then
           (let (k2, ret2) = EpollCtl ctl EPOLL_CTL_MOD fd events k1 in (k2, - ret2))
         else (k1, - ret))"

text \<open>\<open>Poll\<close>: \<open>epoll_wait\<close> fills at most \<open>m_events.size()\<close> entries and returns
  them, or fails with an errno. The handler is called for each entry in order, and a full
  vector is doubled. The handler's effect is threaded through a state; \<open>exit(1)\<close> is
  \<open>Inl\<close>.\<close>

definition kInitEventListSize :: nat where
  "kInitEventListSize = 16"

fun dispatch_events :: "('s \<Rightarrow> int \<Rightarrow> u32 \<Rightarrow> 's) \<Rightarrow> 's \<Rightarrow> (int \<times> u32) list \<Rightarrow> 's" where
  "dispatch_events handler s [] = s"
| "dispatch_events handler s ((fd, ev) # evs) = dispatch_events handler (handler s fd ev) evs"

definition Poll ::
  "('s \<Rightarrow> int \<Rightarrow> u32 \<Rightarrow> 's) \<Rightarrow> (int + (int \<times> u32) list) \<Rightarrow> nat \<times> 's \<Rightarrow> (nat \<times> 's) res" where
  "Poll handler wait_result st =
     (case wait_result of
        Inl errno \<Rightarrow> if errno = EINTR then Inr st else Inl Abort
      | Inr evs \<Rightarrow>
          (let s = dispatch_events handler (snd st) evs;
               size = (if length evs = fst st then length evs * 2 else fst st)
           in Inr (size, s)))"

text \<open>The constructor ends the process if there is no epoll descriptor; the destructor closes it.\<close>

record Epoller =
  m_epollFd :: int
  m_events_size :: nat

definition Epoller_new :: "int \<Rightarrow> Epoller res" where
  "Epoller_new epoll_create1_result =
     (if epoll_create1_result < 0 then Inl Abort else Inr \<lparr>m_epollFd = epoll_create1_result, m_events_size = kInitEventListSize\<rparr>)"

definition Epoller_destruct :: "Epoller \<Rightarrow> int" where
  "Epoller_destruct e = m_epollFd e"

text \<open>The vector for events is never empty, so \<open>&m_events[0]\<close> is defined and the poll can make progress.\<close>

lemma events_size_new: "Epoller_new r = Inr e \<Longrightarrow> 0 < m_events_size e"
  by (auto simp: Epoller_new_def kInitEventListSize_def split: if_splits)

lemma events_size_Poll: "Poll handler wait_result (n, s) = Inr (n', s') \<Longrightarrow> n \<le> n'"
  by (auto simp: Poll_def Let_def split: if_splits sum.splits)

subsection \<open>The kernel's contract and what \<open>Update\<close> makes of it\<close>

text \<open>\<open>ENOENT\<close> and \<open>EEXIST\<close> tell a descriptor outside and inside the interest list.\<close>

definition epoll_laws :: "'k epoll_ctl \<Rightarrow> ('k \<Rightarrow> int \<rightharpoonup> u32) \<Rightarrow> ('k \<Rightarrow> int \<Rightarrow> bool) \<Rightarrow> bool" where
  "epoll_laws ctl interest can_watch \<longleftrightarrow>
     (\<forall>k fd ev.
        (interest k fd = None \<and> can_watch k fd \<longrightarrow>
           (\<exists>k'. ctl k EPOLL_CTL_ADD fd ev = (k', None) \<and> interest k' = (interest k)(fd \<mapsto> ev)) \<and>
           (\<exists>k'. ctl k EPOLL_CTL_DEL fd ev = (k', Some ENOENT) \<and> interest k' = interest k)) \<and>
        (interest k fd \<noteq> None \<longrightarrow>
           (\<exists>k'. ctl k EPOLL_CTL_ADD fd ev = (k', Some EEXIST) \<and> interest k' = interest k) \<and>
           (\<exists>k'. ctl k EPOLL_CTL_MOD fd ev = (k', None) \<and> interest k' = (interest k)(fd \<mapsto> ev)) \<and>
           (\<exists>k'. ctl k EPOLL_CTL_DEL fd ev = (k', None) \<and> interest k' = (interest k)(fd := None))))"

text \<open>
  The calls that change the kernel's state. \<open>close\<close> removes the descriptor from the interest
  list unless another descriptor refers to the same file (the comment at the top of
  \<open>Epoller.h\<close>); no other call touches the list.
\<close>

record 'k kernel =
  sys_epoll_ctl :: "'k epoll_ctl"
  sys_close :: "int \<Rightarrow> 'k \<Rightarrow> 'k"
  sys_other :: "nat \<Rightarrow> 'k \<Rightarrow> 'k"

definition kernel_laws :: "'k kernel \<Rightarrow> ('k \<Rightarrow> int \<rightharpoonup> u32) \<Rightarrow> ('k \<Rightarrow> int \<Rightarrow> bool) \<Rightarrow> bool" where
  "kernel_laws K interest can_watch \<longleftrightarrow>
     epoll_laws (sys_epoll_ctl K) interest can_watch \<and>
     (\<forall>k fd. interest (sys_close K fd k) = (interest k)(fd := None) \<or> interest (sys_close K fd k) = interest k) \<and>
     (\<forall>k n. interest (sys_other K n k) = interest k)"

text \<open>A kernel that keeps the interest list and a list of the descriptors that are closed.\<close>

type_synonym fd_table = "(int \<rightharpoonup> u32) \<times> int list"

fun table_ctl :: "fd_table epoll_ctl" where
  "table_ctl (m, closed) operation fd ev =
     (if m fd = None then
        (if fd \<in> set closed then ((m, closed), Some EBADF)
         else if operation = EPOLL_CTL_ADD then ((m(fd \<mapsto> ev), closed), None)
         else ((m, closed), Some ENOENT))
      else
        (case operation of
           EPOLL_CTL_ADD \<Rightarrow> ((m, closed), Some EEXIST)
         | EPOLL_CTL_DEL \<Rightarrow> ((m(fd := None), closed), None)
         | EPOLL_CTL_MOD \<Rightarrow> ((m(fd \<mapsto> ev), closed), None)))"

fun table_watch :: "fd_table \<Rightarrow> int \<Rightarrow> bool" where
  "table_watch (m, closed) fd \<longleftrightarrow> fd \<notin> set closed"

definition table_kernel :: "fd_table kernel" where
  "table_kernel =
     \<lparr>sys_epoll_ctl = table_ctl,
      sys_close = (\<lambda>fd (m, closed). (m(fd := None), fd # closed)),
      sys_other = (\<lambda>n (m, closed). (m, removeAll (int n) closed))\<rparr>"

abbreviation fresh_table :: fd_table where
  "fresh_table \<equiv> (Map.empty, [])"

lemma table_kernel_sel [simp]:
  "sys_epoll_ctl table_kernel = table_ctl"
  "sys_close table_kernel fd (m, closed) = (m(fd := None), fd # closed)"
  by (simp_all add: table_kernel_def)

lemma table_laws: "epoll_laws table_ctl fst table_watch"
  by (auto simp: epoll_laws_def)

lemma table_kernel_laws: "kernel_laws table_kernel fst table_watch"
  using table_laws by (auto simp: kernel_laws_def table_kernel_def)

lemma Update_ok:
  assumes "epoll_laws ctl interest can_watch" and fd: "can_watch k fd \<or> interest k fd \<noteq> None"
  obtains k' where "Update ctl fd ev k = (k', 0)"
    "interest k' = (interest k)(fd := (if ev = 0 then None else Some ev))"
proof -
  have laws: "interest k fd = None \<Longrightarrow> can_watch k fd \<Longrightarrow>
      \<exists>k'. ctl k EPOLL_CTL_ADD fd ev = (k', None) \<and> interest k' = (interest k)(fd \<mapsto> ev)"
    "interest k fd = None \<Longrightarrow> can_watch k fd \<Longrightarrow>
      \<exists>k'. ctl k EPOLL_CTL_DEL fd ev = (k', Some ENOENT) \<and> interest k' = interest k"
    "interest k fd \<noteq> None \<Longrightarrow>
      \<exists>k'. ctl k EPOLL_CTL_ADD fd ev = (k', Some EEXIST) \<and> interest k' = interest k"
    "interest k fd \<noteq> None \<Longrightarrow>
      \<exists>k'. ctl k EPOLL_CTL_MOD fd ev = (k', None) \<and> interest k' = (interest k)(fd \<mapsto> ev)"
    "interest k fd \<noteq> None \<Longrightarrow>
      \<exists>k'. ctl k EPOLL_CTL_DEL fd ev = (k', None) \<and> interest k' = (interest k)(fd := None)"
    for k using assms(1) unfolding epoll_laws_def by blast+
  note defs = Update_def EpollCtl_def Let_def errno_defs
  show thesis
  proof (cases "ev = 0")
    case True
    then show thesis
      using laws(2,5) [of k] fd that by (cases "interest k fd") (auto simp: defs fun_upd_idem)
  next
    case False
    show thesis
    proof (cases "interest k fd")
      case None
      then show thesis using laws(1) [of k] fd False that by (auto simp: defs)
    next
      case (Some old)
      then obtain k1 where k1: "ctl k EPOLL_CTL_ADD fd ev = (k1, Some EEXIST)" "interest k1 = interest k"
        using laws(3) [of k] by auto
      then obtain k2 where "ctl k1 EPOLL_CTL_MOD fd ev = (k2, None)" "interest k2 = (interest k)(fd \<mapsto> ev)"
        using laws(4) [of k1] Some by auto
      then show thesis using k1 False that [of k2] by (auto simp: defs)
    qed
  qed
qed

text \<open>
  for a descriptor that is registered or can be, \<open>Epoller::Update\<close> succeeds and leaves it
  registered for exactly the given events, or not at all when there are none: the
  add-then-modify and the tolerated missing entry cover both cases, and no other descriptor is
  touched.
\<close>

theorem Update_sets_interest:
  assumes "epoll_laws ctl interest can_watch" "can_watch k fd \<or> interest k fd \<noteq> None"
  shows "snd (Update ctl fd ev k) = 0 \<and>
     interest (fst (Update ctl fd ev k)) =
       (interest k)(fd := (if ev = 0 then None else Some ev))"
  by (rule Update_ok [OF assms, of ev]) simp

theorem Update_sets_interest_witness:
  "snd (Update table_ctl 7 EPOLLIN ([7 \<mapsto> EPOLLOUT], [])) = 0 \<and>
   fst (fst (Update table_ctl 7 EPOLLIN ([7 \<mapsto> EPOLLOUT], []))) = [7 \<mapsto> EPOLLIN]"
  using Update_sets_interest [OF table_laws, of "([7 \<mapsto> EPOLLOUT], [])" 7 EPOLLIN]
  by (simp add: EPOLLIN_def)

text \<open>A descriptor that is closed cannot be registered: \<open>Update\<close> returns the negated errno.\<close>

lemma Update_closed: "Update table_ctl 7 EPOLLIN (Map.empty, [7]) = ((Map.empty, [7]), - EBADF)"
  by (simp add: Update_def EpollCtl_def epoll_flags errno_defs)

end
