(* ===== verification/Co_Socket.thy ===== *)
theory Co_Socket
  imports Coroutine Timeout_Set Epoll
begin

text \<open>
  \<open>net/CoSocket.cpp\<close>: blocking-style socket calls for coroutines. A call that would block
  registers the descriptor with the poller, arms a timeout and yields; the event loop resumes
  the coroutine when the descriptor is ready or the timeout has passed.

  A blocking call is modelled in the two parts that run without interruption: up to the
  \<open>coroutine_yield\<close> inside \<open>AddEventAndYield\<close>, and from the resumption to the return.
  The results of the system calls, the clock reading of the timeout and the position in the stack at the
  yield are arguments. The \<open>std::map\<close>s \<open>m_coIdMap\<close> and \<open>m_conditionMap\<close> are
  accessed with \<open>operator []\<close> only, which creates a default entry for a missing key, so they
  are total functions. The kernel state behind the poller is \<open>m_epoller\<close>.
\<close>

record FdWatcher =
  m_readCoId :: int
  m_writeCoId :: int

definition FdWatcher_init :: FdWatcher where
  "FdWatcher_init = \<lparr>m_readCoId = -1, m_writeCoId = -1\<rparr>"

definition HasReadCoroutine :: "FdWatcher \<Rightarrow> bool" where
  "HasReadCoroutine w \<longleftrightarrow> m_readCoId w \<noteq> -1"

definition HasWriteCoroutine :: "FdWatcher \<Rightarrow> bool" where
  "HasWriteCoroutine w \<longleftrightarrow> m_writeCoId w \<noteq> -1"

definition ReadCoId :: "FdWatcher \<Rightarrow> int" where [simp]:
  "ReadCoId w = m_readCoId w"

definition WriteCoId :: "FdWatcher \<Rightarrow> int" where [simp]:
  "WriteCoId w = m_writeCoId w"

definition SetReadCoId :: "int \<Rightarrow> FdWatcher \<Rightarrow> FdWatcher \<times> bool" where
  "SetReadCoId cid w = (if m_readCoId w \<noteq> -1 then (w, False) else (w\<lparr>m_readCoId := cid\<rparr>, True))"

definition SetWriteCoId :: "int \<Rightarrow> FdWatcher \<Rightarrow> FdWatcher \<times> bool" where
  "SetWriteCoId cid w = (if m_writeCoId w \<noteq> -1 then (w, False) else (w\<lparr>m_writeCoId := cid\<rparr>, True))"

definition ResetReadCoId :: "FdWatcher \<Rightarrow> FdWatcher" where
  "ResetReadCoId w = w\<lparr>m_readCoId := -1\<rparr>"

definition ResetWriteCoId :: "FdWatcher \<Rightarrow> FdWatcher" where
  "ResetWriteCoId w = w\<lparr>m_writeCoId := -1\<rparr>"

record ('f, 'k) CoSocket =
  m_conditionCounter :: u64
  m_conditionMap :: "int \<Rightarrow> int list"
  m_waitResumeList :: "int list"
  m_handlingTimeout :: bool
  m_coFuncList :: "'f list"
  m_timeouts :: TimeoutSet
  m_coIdMap :: "int \<Rightarrow> FdWatcher"
  m_schedule :: "'f schedule"
  m_epoller :: 'k

definition CoSocket_init :: "bytes \<Rightarrow> 'k \<Rightarrow> ('f, 'k) CoSocket" where
  "CoSocket_init mem k =
     \<lparr>m_conditionCounter = 0, m_conditionMap = (\<lambda>_. []), m_waitResumeList = [],
      m_handlingTimeout = False, m_coFuncList = [], m_timeouts = TimeoutSet_init,
      m_coIdMap = (\<lambda>_. FdWatcher_init), m_schedule = coroutine_open mem, m_epoller = k\<rparr>"

text \<open>The destructor gives back the coroutines that are left; the members follow by themselves.\<close>

definition CoSocket_destruct :: "('f, 'k) CoSocket \<Rightarrow> 'f coroutine list" where
  "CoSocket_destruct cs = coroutine_close (m_schedule cs)"

text \<open>A static object switches \<open>SIGPIPE\<close> off before the program starts.\<close>

datatype disposition = SIG_DFL | SIG_IGN

definition SIGPIPE :: nat where
  "SIGPIPE = 13"

definition IgnoreSigPipe :: "(nat \<Rightarrow> disposition) \<Rightarrow> nat \<Rightarrow> disposition" where
  "IgnoreSigPipe handler = handler(SIGPIPE := SIG_IGN)"

subsection \<open>Registration of descriptors\<close>

definition set_watcher :: "int \<Rightarrow> FdWatcher \<Rightarrow> ('f, 'k) CoSocket \<Rightarrow> ('f, 'k) CoSocket" where
  "set_watcher fd w cs = cs\<lparr>m_coIdMap := (m_coIdMap cs)(fd := w)\<rparr>"

definition SaveToCoIdMap :: "int \<Rightarrow> u32 \<Rightarrow> ('f, 'k) CoSocket \<Rightarrow> ('f, 'k) CoSocket \<times> bool" where
  "SaveToCoIdMap fd events cs =
     (let cid = coroutine_running (m_schedule cs);
          w = m_coIdMap cs fd
      in if events AND EPOLLIN \<noteq> 0 \<and> HasReadCoroutine w then (cs, False)
         else
           (let w1 = (if events AND EPOLLIN \<noteq> 0 then fst (SetReadCoId cid w) else w)
            in if events AND EPOLLOUT \<noteq> 0 \<and> HasWriteCoroutine w1
               then (set_watcher fd w1 cs, False)
               else
                 (let w2 = (if events AND EPOLLOUT \<noteq> 0 then fst (SetWriteCoId cid w1) else w1)
                  in (set_watcher fd w2 cs, True))))"

definition ResetInCoIdMap :: "int \<Rightarrow> u32 \<Rightarrow> ('f, 'k) CoSocket \<Rightarrow> ('f, 'k) CoSocket" where
  "ResetInCoIdMap fd events cs =
     (let w = m_coIdMap cs fd;
          w1 = (if events AND EPOLLIN \<noteq> 0 then ResetReadCoId w else w);
          w2 = (if events AND EPOLLOUT \<noteq> 0 then ResetWriteCoId w1 else w1)
      in set_watcher fd w2 cs)"

definition watcher_events :: "FdWatcher \<Rightarrow> u32" where
  "watcher_events w =
     (if HasReadCoroutine w then EPOLLIN else 0) OR (if HasWriteCoroutine w then EPOLLOUT else 0)"

definition GetEvents :: "int \<Rightarrow> ('f, 'k) CoSocket \<Rightarrow> u32" where
  "GetEvents fd cs = watcher_events (m_coIdMap cs fd)"

text \<open>The flag is \<open>True\<close> when the coroutine yielded, \<open>False\<close> for the return value
  \<open>-1\<close>: the callers go on at once in that case.\<close>

definition AddEventAndYield ::
  "'k epoll_ctl \<Rightarrow> int \<Rightarrow> u32 \<Rightarrow> stack_at \<Rightarrow> ('f, 'k) CoSocket \<Rightarrow> (('f, 'k) CoSocket \<times> bool) res" where
  "AddEventAndYield ctl fd events sp cs =
     (let (cs1, ok) = SaveToCoIdMap fd events cs in
      if \<not> ok then Inr (cs1, False)
      else
        (let (k, ret) = Update ctl fd (GetEvents fd cs1) (m_epoller cs1) in
         if ret \<noteq> 0 then Inl Abort
         else
           bind_res (coroutine_yield (m_schedule cs1) sp)
             (\<lambda>S. Inr (cs1\<lparr>m_epoller := k, m_schedule := S\<rparr>, True))))"

definition DeleteEvent ::
  "'k epoll_ctl \<Rightarrow> int \<Rightarrow> u32 \<Rightarrow> ('f, 'k) CoSocket \<Rightarrow> ('f, 'k) CoSocket res" where
  "DeleteEvent ctl fd events cs =
     (let oldEvents = watcher_events (m_coIdMap cs fd);
          newEvents = oldEvents AND NOT events;
          (k, ret) = Update ctl fd newEvents (m_epoller cs)
      in if ret \<noteq> 0 then Inl Abort
         else Inr (ResetInCoIdMap fd events (cs\<lparr>m_epoller := k\<rparr>)))"

subsection \<open>The timeout guard\<close>

definition SetTimeoutGuard ::
  "timestamp \<Rightarrow> int \<Rightarrow> int \<Rightarrow> ('f, 'k) CoSocket \<Rightarrow> ('f, 'k) CoSocket" where
  "SetTimeoutGuard now cid timeout cs =
     (if timeout > 0 then cs\<lparr>m_timeouts := Insert now cid timeout (m_timeouts cs)\<rparr> else cs)"

definition SetTimeoutGuard_destruct ::
  "int \<Rightarrow> int \<Rightarrow> ('f, 'k) CoSocket \<Rightarrow> ('f, 'k) CoSocket" where
  "SetTimeoutGuard_destruct cid timeout cs =
     (if timeout > 0 then cs\<lparr>m_timeouts := Delete cid (m_timeouts cs)\<rparr> else cs)"

subsection \<open>Blocking calls\<close>

text \<open>A system call returned a value or failed with an errno.\<close>

datatype sysres = SysOk int | SysErr int

fun sys_value :: "sysres \<Rightarrow> int" where
  "sys_value (SysOk n) = n"
| "sys_value (SysErr e) = - e"

datatype outcome = Returned int | Blocked

text \<open>The shared tail of \<open>Accept\<close>, \<open>Read\<close> and \<open>Write\<close>: the system call is tried
  again unless the coroutine was resumed because of its timeout.\<close>

definition io_resumed ::
  "'k epoll_ctl \<Rightarrow> int \<Rightarrow> u32 \<Rightarrow> int \<Rightarrow> int \<Rightarrow> sysres \<Rightarrow> ('f, 'k) CoSocket \<Rightarrow>
     (('f, 'k) CoSocket \<times> outcome) res" where
  "io_resumed ctl fd event cid timeoutMs retry cs =
     (let ret = (if \<not> m_handlingTimeout cs then sys_value retry else - ETIME) in
      bind_res (DeleteEvent ctl fd event cs)
        (\<lambda>cs1. Inr (SetTimeoutGuard_destruct cid timeoutMs cs1, Returned ret)))"

text \<open>The tail of \<open>Connect\<close> asks for \<open>SO_ERROR\<close>; \<open>getsockopt\<close> gives the pending
  error or fails with its own errno, and both end as the negated value.\<close>

definition connect_resumed ::
  "'k epoll_ctl \<Rightarrow> int \<Rightarrow> int \<Rightarrow> int \<Rightarrow> sysres \<Rightarrow> ('f, 'k) CoSocket \<Rightarrow>
     (('f, 'k) CoSocket \<times> outcome) res" where
  "connect_resumed ctl fd cid timeoutMs so_error cs =
     (let ret = (if \<not> m_handlingTimeout cs
                 then (case so_error of SysOk e \<Rightarrow> e | SysErr e \<Rightarrow> e) else ETIME) in
      bind_res (DeleteEvent ctl fd EPOLLOUT cs)
        (\<lambda>cs1. Inr (SetTimeoutGuard_destruct cid timeoutMs cs1, Returned (- ret))))"

definition Connect ::
  "'k epoll_ctl \<Rightarrow> int \<Rightarrow> int \<Rightarrow> sysres \<Rightarrow> timestamp \<Rightarrow> stack_at \<Rightarrow> sysres \<Rightarrow> ('f, 'k) CoSocket \<Rightarrow>
     (('f, 'k) CoSocket \<times> outcome) res" where
  "Connect ctl fd timeoutMs first now sp so_error cs =
     (case first of
        SysOk _ \<Rightarrow> Inr (cs, Returned 0)
      | SysErr e \<Rightarrow>
          if e = EISCONN then Inr (cs, Returned 0)
          else if e \<noteq> EAGAIN \<and> e \<noteq> EINPROGRESS \<and> e \<noteq> EINTR then Inr (cs, Returned (- e))
          else
            (let cid = coroutine_running (m_schedule cs);
                 cs1 = SetTimeoutGuard now cid timeoutMs cs
             in bind_res (AddEventAndYield ctl fd EPOLLOUT sp cs1)
                  (\<lambda>(cs2, yielded).
                     if yielded then Inr (cs2, Blocked)
                     else connect_resumed ctl fd cid timeoutMs so_error cs2)))"

definition Accept ::
  "'k epoll_ctl \<Rightarrow> int \<Rightarrow> int \<Rightarrow> sysres \<Rightarrow> timestamp \<Rightarrow> stack_at \<Rightarrow> sysres \<Rightarrow> ('f, 'k) CoSocket \<Rightarrow>
     (('f, 'k) CoSocket \<times> outcome) res" where
  "Accept ctl fd timeoutMs first now sp retry cs =
     (case first of
        SysOk n \<Rightarrow> Inr (cs, Returned n)
      | SysErr e \<Rightarrow>
          if e \<noteq> EAGAIN \<and> e \<noteq> EWOULDBLOCK \<and> e \<noteq> ECONNABORTED \<and> e \<noteq> EINTR \<and> e \<noteq> ETIMEDOUT
          then Inr (cs, Returned (- e))
          else
            (let cid = coroutine_running (m_schedule cs);
                 cs1 = SetTimeoutGuard now cid timeoutMs cs
             in bind_res (AddEventAndYield ctl fd EPOLLIN sp cs1)
                  (\<lambda>(cs2, yielded).
                     if yielded then Inr (cs2, Blocked)
                     else io_resumed ctl fd EPOLLIN cid timeoutMs retry cs2)))"

definition Read ::
  "'k epoll_ctl \<Rightarrow> int \<Rightarrow> int \<Rightarrow> sysres \<Rightarrow> timestamp \<Rightarrow> stack_at \<Rightarrow> sysres \<Rightarrow> ('f, 'k) CoSocket \<Rightarrow>
     (('f, 'k) CoSocket \<times> outcome) res" where
  "Read ctl fd timeoutMs first now sp retry cs =
     (case first of
        SysOk n \<Rightarrow> Inr (cs, Returned n)
      | SysErr e \<Rightarrow>
          if e \<noteq> EAGAIN \<and> e \<noteq> EWOULDBLOCK \<and> e \<noteq> EINTR then Inr (cs, Returned (- e))
          else
            (let cid = coroutine_running (m_schedule cs);
                 cs1 = SetTimeoutGuard now cid timeoutMs cs
             in bind_res (AddEventAndYield ctl fd EPOLLIN sp cs1)
                  (\<lambda>(cs2, yielded).
                     if yielded then Inr (cs2, Blocked)
                     else io_resumed ctl fd EPOLLIN cid timeoutMs retry cs2)))"

definition Write ::
  "'k epoll_ctl \<Rightarrow> int \<Rightarrow> nat \<Rightarrow> bool \<Rightarrow> int \<Rightarrow> sysres \<Rightarrow> timestamp \<Rightarrow> stack_at \<Rightarrow> sysres \<Rightarrow>
     ('f, 'k) CoSocket \<Rightarrow> (('f, 'k) CoSocket \<times> outcome) res" where
  "Write ctl fd len null_buffer timeoutMs first now sp retry cs =
     (if len = 0 \<or> null_buffer then Inr (cs, Returned 0)
      else
        (case first of
           SysOk n \<Rightarrow> Inr (cs, Returned n)
         | SysErr e \<Rightarrow>
             if e \<noteq> EAGAIN \<and> e \<noteq> EWOULDBLOCK \<and> e \<noteq> EINTR then Inr (cs, Returned (- e))
             else
               (let cid = coroutine_running (m_schedule cs);
                    cs1 = SetTimeoutGuard now cid timeoutMs cs
                in bind_res (AddEventAndYield ctl fd EPOLLOUT sp cs1)
                     (\<lambda>(cs2, yielded).
                        if yielded then Inr (cs2, Blocked)
                        else io_resumed ctl fd EPOLLOUT cid timeoutMs retry cs2))))"

subsection \<open>Conditions\<close>

text \<open>\<open>ConditionMap\<close> is a \<open>std::map<int, \<dots>>\<close>: the 64-bit condition is converted to
  \<open>int\<close> on every access.\<close>

definition cond_key :: "u64 \<Rightarrow> int" where
  "cond_key condition = sint (ucast condition :: 32 word)"

definition GetCondition :: "('f, 'k) CoSocket \<Rightarrow> (('f, 'k) CoSocket \<times> u64) res" where
  "GetCondition cs =
     (if m_conditionCounter cs = 0xFFFFFFFFFFFFFFFF then Inl Abort
      else Inr (cs\<lparr>m_conditionCounter := m_conditionCounter cs + 1\<rparr>, m_conditionCounter cs))"

definition ConditionWait :: "u64 \<Rightarrow> stack_at \<Rightarrow> ('f, 'k) CoSocket \<Rightarrow> ('f, 'k) CoSocket res" where
  "ConditionWait condition sp cs =
     (let key = cond_key condition;
          l = fst (set_insert (coroutine_running (m_schedule cs)) (m_conditionMap cs key));
          cs1 = cs\<lparr>m_conditionMap := (m_conditionMap cs)(key := l)\<rparr>
      in bind_res (coroutine_yield (m_schedule cs1) sp) (\<lambda>S. Inr (cs1\<lparr>m_schedule := S\<rparr>)))"

definition ConditionNotify :: "u64 \<Rightarrow> ('f, 'k) CoSocket \<Rightarrow> ('f, 'k) CoSocket" where
  "ConditionNotify condition cs =
     (let key = cond_key condition; l = m_conditionMap cs key in
      cs\<lparr>m_waitResumeList := m_waitResumeList cs @ l,
         m_conditionMap := (m_conditionMap cs)(key := [])\<rparr>)"

subsection \<open>Starting coroutines\<close>

text \<open>The function that every coroutine runs: it calls the function object it was given, if there is one.\<close>

definition InterCoFunc :: "('s \<Rightarrow> 's) option \<Rightarrow> 's \<Rightarrow> 's" where
  "InterCoFunc ud s = (case ud of Some func \<Rightarrow> func s | None \<Rightarrow> s)"

definition NewCoroutine :: "'f \<Rightarrow> ('f, 'k) CoSocket \<Rightarrow> ('f, 'k) CoSocket res" where
  "NewCoroutine func cs =
     (if coroutine_running (m_schedule cs) \<noteq> -1
      then Inr (cs\<lparr>m_coFuncList := m_coFuncList cs @ [func]\<rparr>)
      else
        bind_res (coroutine_new (m_schedule cs) func)
          (\<lambda>(cid, S). bind_res (coroutine_resume S (int cid)) (\<lambda>S'. Inr (cs\<lparr>m_schedule := S'\<rparr>))))"

subsection \<open>The event handler and the passes of the loop\<close>

text \<open>
  \<open>EventHandler\<close> resumes up to two coroutines. Between the two resumptions the first
  coroutine runs, so the handler is in two parts; the second looks at the watcher again, as the
  reference \<open>fdWatcher\<close> of the source does. The flag of the first part is \<open>False\<close> for the
  early return.
\<close>

definition resume_in :: "int \<Rightarrow> ('f, 'k) CoSocket \<Rightarrow> ('f, 'k) CoSocket res" where
  "resume_in cid cs =
     bind_res (coroutine_resume (m_schedule cs) cid) (\<lambda>S. Inr (cs\<lparr>m_schedule := S\<rparr>))"

definition error_event :: "u32 \<Rightarrow> bool" where
  "error_event events \<longleftrightarrow> events AND EPOLLERR \<noteq> 0 \<or> events AND EPOLLHUP \<noteq> 0"

definition EventHandler_read ::
  "int \<Rightarrow> u32 \<Rightarrow> ('f, 'k) CoSocket \<Rightarrow> (('f, 'k) CoSocket \<times> bool) res" where
  "EventHandler_read fd events cs =
     (let w = m_coIdMap cs fd in
      if \<not> HasReadCoroutine w \<and> \<not> HasWriteCoroutine w then Inr (cs, False)
      else if (error_event events \<or> events AND EPOLLIN \<noteq> 0) \<and> HasReadCoroutine w
        then bind_res (resume_in (ReadCoId w) cs) (\<lambda>cs1. Inr (cs1, True))
      else Inr (cs, True))"

definition EventHandler_write ::
  "int \<Rightarrow> u32 \<Rightarrow> ('f, 'k) CoSocket \<Rightarrow> ('f, 'k) CoSocket res" where
  "EventHandler_write fd events cs =
     (let w = m_coIdMap cs fd in
      if (error_event events \<or> events AND EPOLLOUT \<noteq> 0) \<and> HasWriteCoroutine w
      then resume_in (WriteCoId w) cs
      else Inr cs)"

text \<open>
  One iteration of the three list passes of \<open>Run\<close>. The iterator is an index into the list,
  which the coroutines started in the pass may extend; at the end the list is cleared and the
  flag is \<open>False\<close>.
\<close>

definition RunNewCoFunc_iter :: "nat \<Rightarrow> ('f, 'k) CoSocket \<Rightarrow> (('f, 'k) CoSocket \<times> bool) res" where
  "RunNewCoFunc_iter it cs =
     (if it < length (m_coFuncList cs)
      then bind_res (NewCoroutine (m_coFuncList cs ! it) cs) (\<lambda>cs1. Inr (cs1, True))
      else Inr (cs\<lparr>m_coFuncList := []\<rparr>, False))"

definition RunWaitResumeCo_iter :: "nat \<Rightarrow> ('f, 'k) CoSocket \<Rightarrow> (('f, 'k) CoSocket \<times> bool) res" where
  "RunWaitResumeCo_iter it cs =
     (if it < length (m_waitResumeList cs)
      then bind_res (resume_in (m_waitResumeList cs ! it) cs) (\<lambda>cs1. Inr (cs1, True))
      else Inr (cs\<lparr>m_waitResumeList := []\<rparr>, False))"

definition RunTimeoutCo_begin :: "('f, 'k) CoSocket \<Rightarrow> ('f, 'k) CoSocket" where
  "RunTimeoutCo_begin cs = cs\<lparr>m_handlingTimeout := True\<rparr>"

definition RunTimeoutCo_iter ::
  "timestamp \<Rightarrow> ('f, 'k) CoSocket \<Rightarrow> (('f, 'k) CoSocket \<times> bool) res" where
  "RunTimeoutCo_iter now cs =
     (let cid = GetExpired now (m_timeouts cs) in
      if cid = -1 then Inr (cs\<lparr>m_handlingTimeout := False\<rparr>, False)
      else bind_res (resume_in cid cs) (\<lambda>cs1. Inr (cs1, True)))"

end
