(* ===== verification/Event_Loop.thy ===== *)
theory Event_Loop
  imports Co_Socket
begin

text \<open>
  The whole machine: \<open>CoSocket::Run\<close>, the coroutines it resumes and the calls they make,
  interleaved step by step. A world is the \<open>CoSocket\<close>, the point the main loop has reached and,
  for each coroutine, the call it is inside of and has to finish when it is resumed (its saved
  frames, seen from the library) and the value that its last call has returned to it. What can
  happen at all is \<open>enabled\<close>; what the program and the system must not do for the loop to
  work is apart from it, in \<open>rule_ok\<close>: a step that breaks a rule is a step of the model like
  any other, with the abort, the failed assertion or the damage that the code has for it.
\<close>

datatype dir = In | Out

fun dir_event :: "dir \<Rightarrow> u32" where
  "dir_event In = EPOLLIN"
| "dir_event Out = EPOLLOUT"

datatype pending =
    PendIO int dir int      \<comment> \<open>descriptor, direction, timeout in ms: Accept, Read, Write\<close>
  | PendConnect int int     \<comment> \<open>descriptor, timeout in ms\<close>
  | PendCond u64            \<comment> \<open>ConditionWait\<close>

fun pend_wait :: "pending \<Rightarrow> (int \<times> dir) option" where
  "pend_wait (PendIO fd d tmo) = Some (fd, d)"
| "pend_wait (PendConnect fd tmo) = Some (fd, Out)"
| "pend_wait (PendCond c) = None"

fun pend_timed :: "pending \<Rightarrow> bool" where
  "pend_timed (PendIO fd d tmo) = (tmo > 0)"
| "pend_timed (PendConnect fd tmo) = (tmo > 0)"
| "pend_timed (PendCond c) = False"

fun is_cond :: "pending \<Rightarrow> bool" where
  "is_cond (PendCond c) = True"
| "is_cond _ = False"

datatype loop_pc =
    NewFuncs nat
  | Resumes nat
  | Polling
  | Events "(int \<times> u32) list"
  | EventWrite int u32 "(int \<times> u32) list"
  | Timeouts timestamp

record ('f, 'k) world =
  cs :: "('f, 'k) CoSocket"
  pc :: loop_pc
  pend :: "int \<Rightarrow> pending option"
  retv :: "int \<Rightarrow> int option"

abbreviation running :: "('f, 'k) world \<Rightarrow> int" where
  "running w \<equiv> s_running (m_schedule (cs w))"

subsection \<open>Steps of the main loop\<close>

text \<open>\<open>evs\<close> is what \<open>epoll_wait\<close> returns if the step polls, \<open>now\<close> the clock reading if
  the step starts \<open>RunTimeoutCo\<close>.\<close>

definition main_step ::
  "(int + (int \<times> u32) list) \<Rightarrow> timestamp \<Rightarrow> ('f, 'k) world \<Rightarrow> ('f, 'k) world res" where
  "main_step evs now w =
     (case pc w of
        NewFuncs k \<Rightarrow>
          bind_res (RunNewCoFunc_iter k (cs w))
            (\<lambda>(c, go). Inr (w\<lparr>cs := c, pc := (if go then NewFuncs (Suc k) else Resumes 0)\<rparr>))
      | Resumes k \<Rightarrow>
          bind_res (RunWaitResumeCo_iter k (cs w))
            (\<lambda>(c, go). Inr (w\<lparr>cs := c, pc := (if go then Resumes (Suc k) else Polling)\<rparr>))
      | Polling \<Rightarrow>
          (case evs of
             Inl errno \<Rightarrow> if errno = EINTR then Inr (w\<lparr>pc := Events []\<rparr>) else Inl Abort
           | Inr l \<Rightarrow> Inr (w\<lparr>pc := Events l\<rparr>))
      | Events [] \<Rightarrow> Inr (w\<lparr>cs := RunTimeoutCo_begin (cs w), pc := Timeouts now\<rparr>)
      | Events ((fd, ev) # l) \<Rightarrow>
          bind_res (EventHandler_read fd ev (cs w))
            (\<lambda>(c, go). Inr (w\<lparr>cs := c, pc := (if go then EventWrite fd ev l else Events l)\<rparr>))
      | EventWrite fd ev l \<Rightarrow>
          bind_res (EventHandler_write fd ev (cs w)) (\<lambda>c. Inr (w\<lparr>cs := c, pc := Events l\<rparr>))
      | Timeouts t \<Rightarrow>
          bind_res (RunTimeoutCo_iter t (cs w))
            (\<lambda>(c, go). Inr (w\<lparr>cs := c, pc := (if go then Timeouts t else NewFuncs 0)\<rparr>)))"

subsection \<open>Steps of the running coroutine\<close>

text \<open>A call that came back \<open>Blocked\<close> leaves the coroutine inside it; one that returned has
  given the coroutine its value.\<close>

definition after_call ::
  "int \<Rightarrow> pending \<Rightarrow> ('f, 'k) world \<Rightarrow> (('f, 'k) CoSocket \<times> outcome) res \<Rightarrow> ('f, 'k) world res" where
  "after_call cid p w r =
     bind_res r
       (\<lambda>(c, out). case out of
           Returned n \<Rightarrow> Inr (w\<lparr>cs := c, retv := (retv w)(cid \<mapsto> n)\<rparr>)
         | Blocked \<Rightarrow> Inr (w\<lparr>cs := c, pend := (pend w)(cid \<mapsto> p)\<rparr>))"

definition finish_call ::
  "'k epoll_ctl \<Rightarrow> int \<Rightarrow> sysres \<Rightarrow> ('f, 'k) world \<Rightarrow> ('f, 'k) world res" where
  "finish_call ctl cid r w =
     (case pend w cid of
        None \<Rightarrow> Inr w
      | Some (PendIO fd d tmo) \<Rightarrow>
          after_call cid (PendIO fd d tmo) (w\<lparr>pend := (pend w)(cid := None)\<rparr>)
            (io_resumed ctl fd (dir_event d) cid tmo r (cs w))
      | Some (PendConnect fd tmo) \<Rightarrow>
          after_call cid (PendConnect fd tmo) (w\<lparr>pend := (pend w)(cid := None)\<rparr>)
            (connect_resumed ctl fd cid tmo r (cs w))
      | Some (PendCond c) \<Rightarrow> Inr (w\<lparr>pend := (pend w)(cid := None)\<rparr>))"

datatype 'f label =
    LMain "int + (int \<times> u32) list" timestamp
  | LFinish sysres
  | LRead int int sysres timestamp stack_at sysres
  | LWrite int nat bool int sysres timestamp stack_at sysres
  | LAccept int int sysres timestamp stack_at sysres
  | LConnect int int sysres timestamp stack_at sysres
  | LWait u64 stack_at
  | LNotify u64
  | LGetCondition
  | LNew 'f
  | LReturn
  | LStack bytes
  | LClose int
  | LOther nat

text \<open>
  When a label can happen. The main loop moves only while no coroutine runs; a coroutine that
  has just been resumed inside a call finishes that call first. \<open>NewCoroutine\<close> is called by
  coroutines and, before \<open>Run\<close>, by the main program, and so is \<open>close\<close>. The kernel's
  state may change for other reasons at any time (\<open>LOther\<close>).
\<close>

fun enabled :: "('f, 'k) world \<Rightarrow> 'f label \<Rightarrow> bool" where
  "enabled w (LMain evs now) \<longleftrightarrow> running w = -1"
| "enabled w (LFinish r) \<longleftrightarrow> running w \<noteq> -1 \<and> pend w (running w) \<noteq> None"
| "enabled w (LStack stk) \<longleftrightarrow> running w \<noteq> -1 \<and> length stk = STACK_SIZE"
| "enabled w (LNew f) \<longleftrightarrow>
     (if running w = -1 then pc w = NewFuncs 0 else pend w (running w) = None)"
| "enabled w (LClose fd) \<longleftrightarrow>
     (if running w = -1 then pc w = NewFuncs 0 else pend w (running w) = None)"
| "enabled w (LOther n) \<longleftrightarrow> True"
| "enabled w _ \<longleftrightarrow> running w \<noteq> -1 \<and> pend w (running w) = None"

fun label_step ::
  "'k kernel \<Rightarrow> ('f, 'k) world \<Rightarrow> 'f label \<Rightarrow> ('f, 'k) world res" where
  "label_step K w (LMain evs now) = main_step evs now w"
| "label_step K w (LFinish r) = finish_call (sys_epoll_ctl K) (running w) r w"
| "label_step K w (LStack stk) =
     Inr (w\<lparr>cs := (cs w)\<lparr>m_schedule := (m_schedule (cs w))\<lparr>s_stack := stk\<rparr>\<rparr>\<rparr>)"
| "label_step K w (LRead fd tmo r now sp r2) =
     after_call (running w) (PendIO fd In tmo) w (Read (sys_epoll_ctl K) fd tmo r now sp r2 (cs w))"
| "label_step K w (LAccept fd tmo r now sp r2) =
     after_call (running w) (PendIO fd In tmo) w (Accept (sys_epoll_ctl K) fd tmo r now sp r2 (cs w))"
| "label_step K w (LWrite fd n nb tmo r now sp r2) =
     after_call (running w) (PendIO fd Out tmo) w (Write (sys_epoll_ctl K) fd n nb tmo r now sp r2 (cs w))"
| "label_step K w (LConnect fd tmo r now sp r2) =
     after_call (running w) (PendConnect fd tmo) w (Connect (sys_epoll_ctl K) fd tmo r now sp r2 (cs w))"
| "label_step K w LGetCondition =
     bind_res (GetCondition (cs w)) (\<lambda>(c, n). Inr (w\<lparr>cs := c, retv := (retv w)(running w \<mapsto> uint n)\<rparr>))"
| "label_step K w (LWait cnd sp) =
     bind_res (ConditionWait cnd sp (cs w))
       (\<lambda>c. Inr (w\<lparr>cs := c, pend := (pend w)(running w \<mapsto> PendCond cnd)\<rparr>))"
| "label_step K w (LNotify cnd) = Inr (w\<lparr>cs := ConditionNotify cnd (cs w)\<rparr>)"
| "label_step K w (LNew f) = bind_res (NewCoroutine f (cs w)) (\<lambda>c. Inr (w\<lparr>cs := c\<rparr>))"
| "label_step K w LReturn =
     Inr (w\<lparr>cs := (cs w)\<lparr>m_schedule := mainfunc_return (m_schedule (cs w))\<rparr>\<rparr>)"
| "label_step K w (LClose fd) = Inr (w\<lparr>cs := (cs w)\<lparr>m_epoller := sys_close K fd (m_epoller (cs w))\<rparr>\<rparr>)"
| "label_step K w (LOther n) = Inr (w\<lparr>cs := (cs w)\<lparr>m_epoller := sys_other K n (m_epoller (cs w))\<rparr>\<rparr>)"

text \<open>A label that cannot happen leaves the world as it is.\<close>

definition world_step ::
  "'k kernel \<Rightarrow> ('f, 'k) world \<Rightarrow> 'f label \<Rightarrow> ('f, 'k) world res" where
  "world_step K w l = (if enabled w l then label_step K w l else Inr w)"

definition world_init :: "bytes \<Rightarrow> 'k \<Rightarrow> ('f, 'k) world" where
  "world_init mem k = \<lparr>cs = CoSocket_init mem k, pc = NewFuncs 0, pend = (\<lambda>_. None), retv = (\<lambda>_. None)\<rparr>"

definition world_run :: "'k kernel \<Rightarrow> ('f, 'k) world \<Rightarrow> 'f label list \<Rightarrow> ('f, 'k) world res" where
  "world_run K = run_steps (world_step K)"

lemma world_run_simps [simp]:
  "world_run K w [] = Inr w"
  "world_run K w (l # ls) = bind_res (world_step K w l) (\<lambda>w'. world_run K w' ls)"
  by (simp_all add: world_run_def)

subsection \<open>The usage rules\<close>

fun watch :: "FdWatcher \<Rightarrow> dir \<Rightarrow> int" where
  "watch w In = m_readCoId w"
| "watch w Out = m_writeCoId w"

text \<open>Whether a call goes on to wait, given what its system call returned at first: the descriptor,
  the direction and the position in the stack.\<close>

fun io_waits :: "sysres \<Rightarrow> bool" where
  "io_waits (SysOk n) = False"
| "io_waits (SysErr e) = (e = EAGAIN \<or> e = EWOULDBLOCK \<or> e = EINTR)"

fun accept_waits :: "sysres \<Rightarrow> bool" where
  "accept_waits (SysOk n) = False"
| "accept_waits (SysErr e) = (e = EAGAIN \<or> e = EWOULDBLOCK \<or> e = ECONNABORTED \<or> e = EINTR \<or> e = ETIMEDOUT)"

fun connect_waits :: "sysres \<Rightarrow> bool" where
  "connect_waits (SysOk n) = False"
| "connect_waits (SysErr e) = (e = EAGAIN \<or> e = EINPROGRESS \<or> e = EINTR)"

fun blocks_on :: "'f label \<Rightarrow> (int \<times> dir \<times> stack_at) option" where
  "blocks_on (LRead fd tmo r now sp r2) = (if io_waits r then Some (fd, In, sp) else None)"
| "blocks_on (LAccept fd tmo r now sp r2) = (if accept_waits r then Some (fd, In, sp) else None)"
| "blocks_on (LWrite fd n nb tmo r now sp r2) =
     (if n \<noteq> 0 \<and> \<not> nb \<and> io_waits r then Some (fd, Out, sp) else None)"
| "blocks_on (LConnect fd tmo r now sp r2) = (if connect_waits r then Some (fd, Out, sp) else None)"
| "blocks_on _ = None"

text \<open>
  The rules. A call that waits does so on a descriptor and direction for which no coroutine waits
  yet ("fd read dumplicate in two coroutine is not allowed"), that the kernel can register, and
  with its frames inside the stack; the same holds for the frames of \<open>ConditionWait\<close>. A
  descriptor is not closed while a coroutine waits for it (the \<open>FIXME\<close> in
  \<open>DeleteEvent\<close>). \<open>epoll_wait\<close> fails with \<open>EINTR\<close> only. There are fewer than
  \<open>2^64\<close> conditions.
\<close>

fun rule_ok :: "('k \<Rightarrow> int \<Rightarrow> bool) \<Rightarrow> ('f, 'k) world \<Rightarrow> 'f label \<Rightarrow> bool" where
  "rule_ok can_watch w (LMain evs now) \<longleftrightarrow>
     (case evs of Inl e \<Rightarrow> pc w = Polling \<longrightarrow> e = EINTR | Inr _ \<Rightarrow> True)"
| "rule_ok can_watch w (LWait cnd sp) \<longleftrightarrow> stack_fits sp"
| "rule_ok can_watch w LGetCondition \<longleftrightarrow> m_conditionCounter (cs w) \<noteq> 0xFFFFFFFFFFFFFFFF"
| "rule_ok can_watch w (LClose fd) \<longleftrightarrow>
     watch (m_coIdMap (cs w) fd) In = -1 \<and> watch (m_coIdMap (cs w) fd) Out = -1"
| "rule_ok can_watch w l \<longleftrightarrow>
     (case blocks_on l of
        None \<Rightarrow> True
      | Some (fd, d, sp) \<Rightarrow>
          watch (m_coIdMap (cs w) fd) d = -1 \<and> can_watch (m_epoller (cs w)) fd \<and> stack_fits sp)"

text \<open>A run in which every step that happens keeps the rules.\<close>

fun follows_rules :: "('k \<Rightarrow> int \<Rightarrow> bool) \<Rightarrow> 'k kernel \<Rightarrow> ('f, 'k) world \<Rightarrow> 'f label list \<Rightarrow> bool" where
  "follows_rules can_watch K w [] = True"
| "follows_rules can_watch K w (l # ls) =
     ((enabled w l \<longrightarrow> rule_ok can_watch w l) \<and>
      (case world_step K w l of Inl _ \<Rightarrow> True | Inr w' \<Rightarrow> follows_rules can_watch K w' ls))"

end
