(* ===== verification/Loop_Invariant.thy ===== *)
theory Loop_Invariant
  imports Event_Loop
begin

text \<open>
  The invariant of the event loop and that every step keeps it: the schedule, the table of
  watched descriptors, the timeout queue, the condition lists and the kernel's interest list all
  agree with the calls the suspended coroutines are inside of.
\<close>

fun set_watch :: "dir \<Rightarrow> int \<Rightarrow> FdWatcher \<Rightarrow> FdWatcher" where
  "set_watch In c w = w\<lparr>m_readCoId := c\<rparr>"
| "set_watch Out c w = w\<lparr>m_writeCoId := c\<rparr>"

definition sus_ok :: "'f schedule \<Rightarrow> (int \<Rightarrow> pending option) \<Rightarrow> bool" where
  "sus_ok S pnd \<longleftrightarrow>
     (\<forall>c. pnd c \<noteq> None \<longrightarrow> slot S c \<noteq> None) \<and>
     (\<forall>c C. slot S c = Some C \<and> c \<noteq> s_running S \<longrightarrow>
        c_status C = COROUTINE_SUSPEND \<and> pnd c \<noteq> None)"

definition reg_ok :: "(int \<Rightarrow> FdWatcher) \<Rightarrow> (int \<Rightarrow> pending option) \<Rightarrow> bool" where
  "reg_ok m pnd \<longleftrightarrow>
     (\<forall>fd d c. watch (m fd) d = c \<and> c \<noteq> -1 \<longleftrightarrow>
        (\<exists>p. pnd c = Some p \<and> pend_wait p = Some (fd, d)))"

definition tmo_ok :: "TimeoutSet \<Rightarrow> (int \<Rightarrow> pending option) \<Rightarrow> bool" where
  "tmo_ok T pnd \<longleftrightarrow>
     tset_inv T \<and> (\<forall>c. deadlines T c \<noteq> None \<longleftrightarrow> (\<exists>p. pnd c = Some p \<and> pend_timed p))"

text \<open>The coroutines that \<open>RunWaitResumeCo\<close> has still to resume.\<close>

fun wait_list :: "loop_pc \<Rightarrow> int list \<Rightarrow> int list" where
  "wait_list (Resumes k) l = drop k l"
| "wait_list _ l = l"

definition cond_ok ::
  "(int \<Rightarrow> int list) \<Rightarrow> int list \<Rightarrow> int \<Rightarrow> (int \<Rightarrow> pending option) \<Rightarrow> bool" where
  "cond_ok cm wl run pnd \<longleftrightarrow>
     distinct wl \<and> (\<forall>key. distinct (cm key)) \<and>
     (\<forall>key. \<forall>c \<in> set (cm key). c \<noteq> run \<and> c \<notin> set wl \<and>
        (\<exists>k. pnd c = Some (PendCond k) \<and> cond_key k = key)) \<and>
     (\<forall>c \<in> set wl. c \<noteq> run \<and> (\<exists>k. pnd c = Some (PendCond k))) \<and>
     (\<forall>c k. pnd c = Some (PendCond k) \<longrightarrow>
        c = run \<or> c \<in> set wl \<or> c \<in> set (cm (cond_key k)))"

lemma cond_okI:
  assumes "distinct wl" "\<And>key. distinct (cm key)"
    "\<And>key c. c \<in> set (cm key) \<Longrightarrow> c \<noteq> run \<and> c \<notin> set wl \<and>
       (\<exists>k. pnd c = Some (PendCond k) \<and> cond_key k = key)"
    "\<And>c. c \<in> set wl \<Longrightarrow> c \<noteq> run \<and> (\<exists>k. pnd c = Some (PendCond k))"
    "\<And>c k. pnd c = Some (PendCond k) \<Longrightarrow> c = run \<or> c \<in> set wl \<or> c \<in> set (cm (cond_key k))"
  shows "cond_ok cm wl run pnd"
  using assms by (auto simp: cond_ok_def)

lemma cond_okD:
  assumes "cond_ok cm wl run pnd"
  shows "distinct wl" "distinct (cm key)"
    "c \<in> set (cm key) \<Longrightarrow> c \<noteq> run \<and> c \<notin> set wl \<and>
       (\<exists>k. pnd c = Some (PendCond k) \<and> cond_key k = key)"
    "c \<in> set wl \<Longrightarrow> c \<noteq> run \<and> (\<exists>k. pnd c = Some (PendCond k))"
    "pnd c = Some (PendCond k) \<Longrightarrow> c = run \<or> c \<in> set wl \<or> c \<in> set (cm (cond_key k))"
  using assms by (auto simp: cond_ok_def)

definition poll_ok :: "('k \<Rightarrow> int \<rightharpoonup> u32) \<Rightarrow> 'k \<Rightarrow> (int \<Rightarrow> FdWatcher) \<Rightarrow> bool" where
  "poll_ok interest k m \<longleftrightarrow>
     (\<forall>fd. interest k fd = (if watcher_events (m fd) = 0 then None else Some (watcher_events (m fd))))"

definition winv :: "('k \<Rightarrow> int \<rightharpoonup> u32) \<Rightarrow> ('f, 'k) world \<Rightarrow> bool" where
  "winv interest w \<longleftrightarrow>
     sched_inv (m_schedule (cs w)) \<and>
     sus_ok (m_schedule (cs w)) (pend w) \<and>
     reg_ok (m_coIdMap (cs w)) (pend w) \<and>
     tmo_ok (m_timeouts (cs w)) (pend w) \<and>
     cond_ok (m_conditionMap (cs w)) (wait_list (pc w) (m_waitResumeList (cs w))) (running w) (pend w) \<and>
     poll_ok interest (m_epoller (cs w)) (m_coIdMap (cs w)) \<and>
     (m_handlingTimeout (cs w) \<longleftrightarrow> (\<exists>t. pc w = Timeouts t)) \<and>
     (\<forall>k. pc w = Resumes k \<longrightarrow> k \<le> length (m_waitResumeList (cs w)))"

lemma winvD:
  assumes "winv interest w"
  shows "sched_inv (m_schedule (cs w))"
    "sus_ok (m_schedule (cs w)) (pend w)"
    "reg_ok (m_coIdMap (cs w)) (pend w)"
    "tmo_ok (m_timeouts (cs w)) (pend w)"
    "cond_ok (m_conditionMap (cs w)) (wait_list (pc w) (m_waitResumeList (cs w))) (running w) (pend w)"
    "poll_ok interest (m_epoller (cs w)) (m_coIdMap (cs w))"
    "m_handlingTimeout (cs w) \<longleftrightarrow> (\<exists>t. pc w = Timeouts t)"
    "pc w = Resumes k \<Longrightarrow> k \<le> length (m_waitResumeList (cs w))"
  using assms by (auto simp: winv_def)

subsection \<open>Watchers\<close>

lemma dir_flags [simp]:
  "EPOLLIN AND EPOLLIN = EPOLLIN" "EPOLLIN AND EPOLLOUT = 0" "EPOLLOUT AND EPOLLIN = 0"
  "EPOLLOUT AND EPOLLOUT = EPOLLOUT" "EPOLLIN \<noteq> 0" "EPOLLOUT \<noteq> 0"
  by (simp_all add: epoll_flags)

lemma watch_set_watch [simp]: "watch (set_watch d c w) e = (if e = d then c else watch w e)"
  by (cases d; cases e) auto

lemma watcher_events_set_watch:
  "c \<noteq> -1 \<Longrightarrow> watcher_events (set_watch d c w) = watcher_events w OR dir_event d"
  by (cases d) (auto simp: watcher_events_def HasReadCoroutine_def HasWriteCoroutine_def epoll_flags)

lemma watcher_events_clear:
  "watcher_events w AND NOT (dir_event d) = watcher_events (set_watch d (-1) w)"
  by (cases d) (auto simp: watcher_events_def HasReadCoroutine_def HasWriteCoroutine_def epoll_flags)

lemma watcher_events_watched: "watch w d = c \<and> c \<noteq> -1 \<Longrightarrow> watcher_events w \<noteq> 0"
  by (cases d) (auto simp: watcher_events_def HasReadCoroutine_def HasWriteCoroutine_def epoll_flags)

lemma watcher_events_free: "watch w In = -1 \<Longrightarrow> watch w Out = -1 \<Longrightarrow> watcher_events w = 0"
  by (simp add: watcher_events_def HasReadCoroutine_def HasWriteCoroutine_def)

lemma SaveToCoIdMap_free:
  assumes "watch (m_coIdMap c fd) d = -1"
  shows "SaveToCoIdMap fd (dir_event d) c =
     (set_watcher fd (set_watch d (coroutine_running (m_schedule c)) (m_coIdMap c fd)) c, True)"
  using assms
  by (cases d) (auto simp: SaveToCoIdMap_def Let_def HasReadCoroutine_def HasWriteCoroutine_def
      SetReadCoId_def SetWriteCoId_def)

lemma ResetInCoIdMap_dir:
  "ResetInCoIdMap fd (dir_event d) c = set_watcher fd (set_watch d (-1) (m_coIdMap c fd)) c"
  by (cases d) (auto simp: ResetInCoIdMap_def ResetReadCoId_def ResetWriteCoId_def Let_def)

lemma set_watcher_sel [simp]:
  "m_coIdMap (set_watcher fd w c) = (m_coIdMap c)(fd := w)"
  "m_schedule (set_watcher fd w c) = m_schedule c"
  "m_timeouts (set_watcher fd w c) = m_timeouts c"
  "m_conditionMap (set_watcher fd w c) = m_conditionMap c"
  "m_waitResumeList (set_watcher fd w c) = m_waitResumeList c"
  "m_epoller (set_watcher fd w c) = m_epoller c"
  "m_handlingTimeout (set_watcher fd w c) = m_handlingTimeout c"
  "m_coFuncList (set_watcher fd w c) = m_coFuncList c"
  by (simp_all add: set_watcher_def)

lemma guard_sel [simp]:
  "m_coIdMap (SetTimeoutGuard t i n c) = m_coIdMap c"
  "m_schedule (SetTimeoutGuard t i n c) = m_schedule c"
  "m_conditionMap (SetTimeoutGuard t i n c) = m_conditionMap c"
  "m_waitResumeList (SetTimeoutGuard t i n c) = m_waitResumeList c"
  "m_epoller (SetTimeoutGuard t i n c) = m_epoller c"
  "m_handlingTimeout (SetTimeoutGuard t i n c) = m_handlingTimeout c"
  "m_coIdMap (SetTimeoutGuard_destruct i n c) = m_coIdMap c"
  "m_schedule (SetTimeoutGuard_destruct i n c) = m_schedule c"
  "m_conditionMap (SetTimeoutGuard_destruct i n c) = m_conditionMap c"
  "m_waitResumeList (SetTimeoutGuard_destruct i n c) = m_waitResumeList c"
  "m_epoller (SetTimeoutGuard_destruct i n c) = m_epoller c"
  "m_handlingTimeout (SetTimeoutGuard_destruct i n c) = m_handlingTimeout c"
  by (simp_all add: SetTimeoutGuard_def SetTimeoutGuard_destruct_def)

lemma kernel_lawsD:
  assumes "kernel_laws K interest can_watch"
  shows "epoll_laws (sys_epoll_ctl K) interest can_watch"
    "interest (sys_close K fd k) = (interest k)(fd := None) \<or> interest (sys_close K fd k) = interest k"
    "interest (sys_other K n k) = interest k"
  using assms by (simp_all add: kernel_laws_def)

lemma poll_ok_update:
  assumes "poll_ok interest k m"
    and "interest k' = (interest k)(fd := (if watcher_events w = 0 then None else Some (watcher_events w)))"
  shows "poll_ok interest k' (m(fd := w))"
  using assms by (auto simp: poll_ok_def)

subsection \<open>Entering and leaving a call, table by table\<close>

lemma reg_ok_iff:
  "reg_ok m pnd \<Longrightarrow> watch (m fd) d = c \<and> c \<noteq> -1 \<longleftrightarrow> (\<exists>p. pnd c = Some p \<and> pend_wait p = Some (fd, d))"
  by (simp add: reg_ok_def)

lemma reg_ok_block:
  assumes reg: "reg_ok m pnd" and c: "pnd c = None" "c \<noteq> -1" and free: "watch (m fd) d = -1"
    and p: "pend_wait p = Some (fd, d)"
  shows "reg_ok (m(fd := set_watch d c (m fd))) (pnd(c \<mapsto> p))"
  unfolding reg_ok_def
proof (intro allI)
  fix fd' d' c'
  note iff = reg_ok_iff [OF reg, of fd' d' c']
  show "watch ((m(fd := set_watch d c (m fd))) fd') d' = c' \<and> c' \<noteq> -1 \<longleftrightarrow>
      (\<exists>q. (pnd(c \<mapsto> p)) c' = Some q \<and> pend_wait q = Some (fd', d'))"
    using iff c free p by (cases "fd' = fd \<and> d' = d"; cases "c' = c") auto
qed

lemma reg_ok_finish:
  assumes reg: "reg_ok m pnd" and c: "pnd c = Some p" and p: "pend_wait p = Some (fd, d)"
  shows "reg_ok (m(fd := set_watch d (-1) (m fd))) (pnd(c := None))"
  unfolding reg_ok_def
proof (intro allI)
  fix fd' d' c'
  note iff = reg_ok_iff [OF reg, of fd' d' c'] and cw = reg_ok_iff [OF reg, of fd d c]
  show "watch ((m(fd := set_watch d (-1) (m fd))) fd') d' = c' \<and> c' \<noteq> -1 \<longleftrightarrow>
      (\<exists>q. (pnd(c := None)) c' = Some q \<and> pend_wait q = Some (fd', d'))"
    using iff cw c p by (cases "fd' = fd \<and> d' = d"; cases "c' = c") auto
qed

lemma reg_ok_cond:
  "reg_ok m pnd \<Longrightarrow> pnd c = None \<Longrightarrow> reg_ok m (pnd(c \<mapsto> PendCond k))"
  "reg_ok m pnd \<Longrightarrow> pnd c = Some (PendCond k) \<Longrightarrow> reg_ok m (pnd(c := None))"
  by (auto simp: reg_ok_def)+

lemma tmo_ok_block:
  assumes "tmo_ok T pnd" "pnd c = None" "pend_timed p \<longleftrightarrow> tmo > 0"
  shows "tmo_ok (if tmo > 0 then Insert now c tmo T else T) (pnd(c \<mapsto> p))"
proof -
  have inv: "tset_inv T" and fresh: "deadlines T c = None"
    using assms(1,2) by (auto simp: tmo_ok_def) (metis not_None_eq option.distinct(1))
  then show ?thesis
    using assms tset_inv_Insert [OF inv fresh] by (auto simp: tmo_ok_def deadlines_Insert [OF inv fresh])
qed

lemma tmo_ok_finish:
  assumes "tmo_ok T pnd" "pnd c = Some p" "pend_timed p \<longleftrightarrow> tmo > 0"
  shows "tmo_ok (if tmo > 0 then Delete c T else T) (pnd(c := None))"
  using assms by (auto simp: tmo_ok_def tset_inv_Delete deadlines_Delete)

lemma tmo_ok_cond:
  "tmo_ok T pnd \<Longrightarrow> pnd c = None \<Longrightarrow> tmo_ok T (pnd(c \<mapsto> PendCond k))"
  "tmo_ok T pnd \<Longrightarrow> pnd c = Some (PendCond k) \<Longrightarrow> tmo_ok T (pnd(c := None))"
  by (auto simp: tmo_ok_def)+

lemma sus_ok_yield:
  assumes inv: "sched_inv S" and sus: "sus_ok S pnd" and y: "coroutine_yield S sp = Inr T"
  shows "sus_ok T (pnd(s_running S \<mapsto> p))" "s_running T = -1"
proof -
  obtain C D where CD: "slot S (s_running S) = Some C" "s_running S \<noteq> -1" "s_running T = -1"
    "\<forall>j. slot T j = (if j = s_running S then Some D else slot S j)"
    "c_status D = COROUTINE_SUSPEND" "c_func D = c_func C" "c_size D = STACK_SIZE - nat (snd sp)"
    "take (c_size D) (c_stack D) = drop (nat (snd sp)) (s_stack S)" "s_cap T = s_cap S"
    by (rule yield_slots [OF inv y])
  show "sus_ok T (pnd(s_running S \<mapsto> p))"
    using sus CD(3-5) by (auto simp: sus_ok_def split: if_splits)
  show "s_running T = -1" by (rule CD(3))
qed

lemma sus_ok_resume:
  assumes inv: "sched_inv S" and sus: "sus_ok S pnd" and r: "coroutine_resume S c = Inr T"
  shows "sus_ok T pnd"
  using inv r
proof (cases rule: resume_cases)
  case dead
  with sus show ?thesis by simp
next
  case (go C stk)
  have sl: "slot T j = (if j = c then Some (C\<lparr>c_status := COROUTINE_RUNNING\<rparr>) else slot S j)" for j
    using go slot_range [OF go(1)] sched_invD(2) [OF inv] by (simp add: slot_set_slot)
  have run: "s_running T = c" using go by simp
  have ne: "j \<noteq> -1" if "slot S j = Some E" for j E using that by (auto simp: slot_def)
  have others: "c_status E = COROUTINE_SUSPEND \<and> pnd j \<noteq> None" if "slot S j = Some E" for j E
    using sus go(2) ne [OF that] that unfolding sus_ok_def by metis
  show ?thesis
    unfolding sus_ok_def sl run using sus others by (auto simp: sus_ok_def)
qed

lemma sus_ok_finish: "sus_ok S pnd \<Longrightarrow> sus_ok S (pnd(s_running S := None))"
  by (auto simp: sus_ok_def)

lemma cond_ok_block:
  assumes "cond_ok cm wl c pnd" "pnd c = None" "\<not> is_cond p" "c \<noteq> -1"
    "pnd (-1) = None"
  shows "cond_ok cm wl (-1) (pnd(c \<mapsto> p))"
proof -
  have "-1 \<notin> set (cm key)" "-1 \<notin> set wl" for key
    using assms(1,5) by (force simp: cond_ok_def)+
  then show ?thesis
    using assms unfolding cond_ok_def by (auto split: if_splits)
qed

lemma cond_ok_finish:
  assumes "cond_ok cm wl c pnd"
  shows "cond_ok cm wl c (pnd(c := None))"
  using assms unfolding cond_ok_def by auto

lemma sus_ok_main: "sus_ok S pnd \<Longrightarrow> pnd (-1) = None"
  by (auto simp: sus_ok_def slot_def)

lemma pend_wait_not_cond: "pend_wait p = Some x \<Longrightarrow> \<not> is_cond p"
  by (cases p) auto

subsection \<open>Blocking, finishing and resuming keep the invariant\<close>

lemma yield_defined:
  assumes "sched_inv S" "s_running S \<noteq> -1" "stack_fits sp"
  shows "\<exists>T. coroutine_yield S sp = Inr T"
  by (rule yield_shape [OF assms]) blast

lemma block_ok:
  assumes laws: "kernel_laws K interest can_watch" and inv: "winv interest w"
    and c: "running w = c" "c \<noteq> -1" "pend w c = None"
    and free: "watch (m_coIdMap (cs w) fd) d = -1" "can_watch (m_epoller (cs w)) fd" "stack_fits sp"
    and p: "pend_wait p = Some (fd, d)" "pend_timed p \<longleftrightarrow> tmo > 0"
  shows "\<exists>c'. AddEventAndYield (sys_epoll_ctl K) fd (dir_event d) sp (SetTimeoutGuard now c tmo (cs w)) = Inr (c', True) \<and>
     winv interest (w\<lparr>cs := c', pend := (pend w)(c \<mapsto> p)\<rparr>)"
proof -
  note D = winvD [OF inv]
  let ?g = "SetTimeoutGuard now c tmo (cs w)"
  let ?w' = "set_watch d c (m_coIdMap (cs w) fd)"
  obtain k' where k': "Update (sys_epoll_ctl K) fd (watcher_events ?w') (m_epoller (cs w)) = (k', 0)"
    "interest k' = (interest (m_epoller (cs w)))(fd :=
       (if watcher_events ?w' = 0 then None else Some (watcher_events ?w')))"
    by (rule Update_ok [OF kernel_lawsD(1) [OF laws]]) (use free in blast)
  obtain T where T: "coroutine_yield (m_schedule (cs w)) sp = Inr T"
    using yield_defined [OF D(1)] c free by blast
  let ?c' = "(set_watcher fd ?w' ?g)\<lparr>m_epoller := k', m_schedule := T\<rparr>"
  have add: "AddEventAndYield (sys_epoll_ctl K) fd (dir_event d) sp ?g = Inr (?c', True)"
    using free c k'(1) T
    by (simp add: AddEventAndYield_def SaveToCoIdMap_free coroutine_running_def GetEvents_def)
  have "winv interest (w\<lparr>cs := ?c', pend := (pend w)(c \<mapsto> p)\<rparr>)"
    unfolding winv_def
    using D c sched_inv_yield [OF D(1) T] sus_ok_yield(1) [OF D(1,2) T, of p]
      sus_ok_yield(2) [OF D(1,2) T]
      reg_ok_block [OF D(3) c(3,2) free(1) p(1)] tmo_ok_block [OF D(4) c(3) p(2), of now]
      cond_ok_block [of _ _ c "pend w" p] sus_ok_main [OF D(2)] pend_wait_not_cond [OF p(1)]
      poll_ok_update [OF D(6) k'(2)]
    by (auto simp: SetTimeoutGuard_def)
  with add show ?thesis by blast
qed

lemma finish_ok:
  assumes laws: "kernel_laws K interest can_watch" and inv: "winv interest w"
    and c: "running w = c" "pend w c = Some p"
    and p: "pend_wait p = Some (fd, d)" "pend_timed p \<longleftrightarrow> tmo > 0"
  shows "\<exists>c'. DeleteEvent (sys_epoll_ctl K) fd (dir_event d) (cs w) = Inr c' \<and>
     winv interest (w\<lparr>cs := SetTimeoutGuard_destruct c tmo c', pend := (pend w)(c := None)\<rparr>)"
proof -
  note D = winvD [OF inv]
  let ?w' = "set_watch d (-1) (m_coIdMap (cs w) fd)"
  have "watcher_events (m_coIdMap (cs w) fd) \<noteq> 0"
    using watcher_events_watched reg_ok_iff [OF D(3), of fd d c] c(2) p(1) by metis
  then have registered: "interest (m_epoller (cs w)) fd \<noteq> None"
    using D(6) by (simp add: poll_ok_def)
  obtain k' where k': "Update (sys_epoll_ctl K) fd (watcher_events ?w') (m_epoller (cs w)) = (k', 0)"
    "interest k' = (interest (m_epoller (cs w)))(fd :=
       (if watcher_events ?w' = 0 then None else Some (watcher_events ?w')))"
    by (rule Update_ok [OF kernel_lawsD(1) [OF laws]]) (use registered in blast)
  let ?c' = "set_watcher fd ?w' ((cs w)\<lparr>m_epoller := k'\<rparr>)"
  have del: "DeleteEvent (sys_epoll_ctl K) fd (dir_event d) (cs w) = Inr ?c'"
    using k'(1) by (simp add: DeleteEvent_def watcher_events_clear ResetInCoIdMap_dir)
  have "winv interest (w\<lparr>cs := SetTimeoutGuard_destruct c tmo ?c', pend := (pend w)(c := None)\<rparr>)"
    unfolding winv_def
    using D c sus_ok_finish [OF D(2)] reg_ok_finish [OF D(3) c(2) p(1)]
      tmo_ok_finish [OF D(4) c(2) p(2)] cond_ok_finish [of _ _ c "pend w"]
      poll_ok_update [OF D(6) k'(2)]
    by (auto simp: SetTimeoutGuard_destruct_def)
  with del show ?thesis by blast
qed

lemma resume_slot:
  assumes inv: "sched_inv S" and idle: "s_running S = -1" and c: "slot S c \<noteq> None"
  shows "\<exists>T. coroutine_resume S c = Inr T \<and> s_running T = c"
proof -
  from c obtain C where C: "slot S c = Some C" by blast
  obtain T where T: "coroutine_resume S c = Inr T"
    using resume_defined [OF inv idle] slot_range [OF C] by blast
  from inv T have "s_running T = c"
    by (cases rule: resume_cases) (use C in auto)
  with T show ?thesis by blast
qed

text \<open>Resuming a waiting coroutine from the main loop, which moves on to \<open>pc'\<close>.\<close>

lemma resume_ok:
  assumes inv: "winv interest w" and idle: "running w = -1" and c: "pend w c \<noteq> None"
    and cond: "cond_ok (m_conditionMap (cs w)) (wait_list pc' (m_waitResumeList (cs w))) c (pend w)"
    and pc': "(\<exists>t. pc' = Timeouts t) \<longleftrightarrow> (\<exists>t. pc w = Timeouts t)"
      "\<And>k. pc' = Resumes k \<Longrightarrow> k \<le> length (m_waitResumeList (cs w))"
  shows "\<exists>c'. resume_in c (cs w) = Inr c' \<and> winv interest (w\<lparr>cs := c', pc := pc'\<rparr>)"
proof -
  note D = winvD [OF inv]
  have "slot (m_schedule (cs w)) c \<noteq> None" using D(2) c by (auto simp: sus_ok_def)
  then obtain T where T: "coroutine_resume (m_schedule (cs w)) c = Inr T" "s_running T = c"
    using resume_slot [OF D(1) idle] by blast
  show ?thesis
    using D T cond pc' sched_inv_resume [OF D(1) T(1)] sus_ok_resume [OF D(1,2) T(1)]
    by (auto simp: resume_in_def winv_def)
qed

lemma cond_ok_io:
  assumes "cond_ok cm wl run pnd" "pnd c = Some p" "\<not> is_cond p"
    "run = -1" "pnd (-1) = None"
  shows "cond_ok cm wl c pnd"
proof -
  note D = cond_okD [OF assms(1)]
  have c: "c \<notin> set wl" "c \<notin> set (cm key)" for key
    using D(3) [of c key] D(4) [of c] assms(2,3) by auto
  show ?thesis
  proof (rule cond_okI)
    show "x = c \<or> x \<in> set wl \<or> x \<in> set (cm (cond_key k))" if "pnd x = Some (PendCond k)" for x k
      using D(5) [OF that] that assms(4,5) by auto
  qed (use D c in auto)
qed

subsection \<open>The main loop keeps the invariant\<close>

lemma cond_ok_fresh:
  assumes ok: "cond_ok cm wl (-1) pnd" and "pnd c = None" "pnd (-1) = None"
  shows "cond_ok cm wl c pnd"
proof -
  note D = cond_okD [OF ok]
  show ?thesis
  proof (rule cond_okI)
    show "x = c \<or> x \<in> set wl \<or> x \<in> set (cm (cond_key k))" if "pnd x = Some (PendCond k)" for x k
      using D(5) [OF that] that assms(3) by auto
    show "x \<noteq> c \<and> x \<notin> set wl \<and> (\<exists>k. pnd x = Some (PendCond k) \<and> cond_key k = key)"
      if "x \<in> set (cm key)" for key x
      using D(3) [OF that] assms(2) by auto
    show "x \<noteq> c \<and> (\<exists>k. pnd x = Some (PendCond k))" if "x \<in> set wl" for x
      using D(4) [OF that] assms(2) by auto
  qed (use D in auto)
qed

lemma spawn_ok:
  assumes inv: "winv interest w" and idle: "running w = -1"
    and pc': "wait_list pc' (m_waitResumeList (cs w)) = wait_list (pc w) (m_waitResumeList (cs w))"
      "(\<exists>t. pc' = Timeouts t) \<longleftrightarrow> (\<exists>t. pc w = Timeouts t)" "\<And>k. pc' \<noteq> Resumes k"
  shows "\<exists>c'. NewCoroutine f (cs w) = Inr c' \<and> winv interest (w\<lparr>cs := c', pc := pc'\<rparr>)"
proof -
  note D = winvD [OF inv]
  obtain cid S where new: "coroutine_new (m_schedule (cs w)) f = Inr (cid, S)"
    using coroutine_new_defined [OF D(1)] by blast
  note N = coroutine_newD [OF D(1) new]
  have Sinv: "sched_inv S" by (rule sched_inv_new [OF D(1) new])
  have "s_running S = -1" using N(6) idle by simp
  then obtain T where T: "coroutine_resume S (int cid) = Inr T" "s_running T = int cid"
    using resume_slot [OF Sinv, of "int cid"] N(4) by auto
  have fresh: "pend w (int cid) = None"
    using N(1) D(2) by (auto simp: sus_ok_def)
  have slotT: "slot T j = slot (m_schedule (cs w)) j" if "j \<noteq> int cid" for j
    using resume_frame [OF Sinv T(1), of j] N(4) [of j] that by simp
  have "slot T (int cid) \<noteq> None"
    using running_slot [OF sched_inv_resume [OF Sinv T(1)]] T(2) by auto
  have "sus_ok T (pend w)"
    unfolding sus_ok_def
  proof (intro conjI allI impI)
    fix c assume c: "pend w c \<noteq> None"
    with fresh have "c \<noteq> int cid" by auto
    with c show "slot T c \<noteq> None" using D(2) slotT by (auto simp: sus_ok_def)
  next
    fix c C assume "slot T c = Some C \<and> c \<noteq> s_running T"
    then have c: "slot (m_schedule (cs w)) c = Some C" using T(2) slotT by auto
    then have "c \<noteq> running w" using idle by (auto simp: slot_def)
    with c show "c_status C = COROUTINE_SUSPEND" "pend w c \<noteq> None"
      using D(2) by (auto simp: sus_ok_def)
  qed
  moreover have "cond_ok (m_conditionMap (cs w)) (wait_list pc' (m_waitResumeList (cs w)))
      (int cid) (pend w)"
    using cond_ok_fresh [OF _ fresh sus_ok_main [OF D(2)]] D(5) idle pc' by simp
  ultimately show ?thesis
    using D T new idle pc' sched_inv_resume [OF Sinv T(1)]
    by (auto simp: NewCoroutine_def coroutine_running_def winv_def)
qed

lemma wait_list_step:
  assumes ok: "cond_ok cm (c # wl) (-1) pnd" and "pnd (-1) = None"
  shows "pnd c \<noteq> None" "cond_ok cm wl c pnd"
proof -
  note D = cond_okD [OF ok]
  show "pnd c \<noteq> None" using D(4) [of c] by auto
  show "cond_ok cm wl c pnd"
  proof (rule cond_okI)
    show "x = c \<or> x \<in> set wl \<or> x \<in> set (cm (cond_key k))" if "pnd x = Some (PendCond k)" for x k
      using D(5) [OF that] that assms(2) by auto
  qed (use D in auto)
qed

lemma watched_pending:
  assumes inv: "winv interest w" and c: "watch (m_coIdMap (cs w) fd) d = c" "c \<noteq> -1"
  obtains p where "pend w c = Some p" "pend_wait p = Some (fd, d)" "\<not> is_cond p"
  using reg_ok_iff [OF winvD(3) [OF inv], of fd d c] c pend_wait_not_cond by blast

lemma resume_watched_ok:
  assumes inv: "winv interest w" and idle: "running w = -1"
    and c: "watch (m_coIdMap (cs w) fd) d = c" "c \<noteq> -1"
    and pc': "wait_list pc' (m_waitResumeList (cs w)) = wait_list (pc w) (m_waitResumeList (cs w))"
      "(\<exists>t. pc' = Timeouts t) \<longleftrightarrow> (\<exists>t. pc w = Timeouts t)" "\<And>k. pc' \<noteq> Resumes k"
  shows "\<exists>c'. resume_in c (cs w) = Inr c' \<and> winv interest (w\<lparr>cs := c', pc := pc'\<rparr>)"
proof -
  note D = winvD [OF inv]
  obtain p where p: "pend w c = Some p" "pend_wait p = Some (fd, d)" "\<not> is_cond p"
    by (rule watched_pending [OF inv c])
  have "cond_ok (m_conditionMap (cs w)) (wait_list pc' (m_waitResumeList (cs w))) c (pend w)"
    using cond_ok_io [OF _ p(1,3) refl sus_ok_main [OF D(2)]] D(5) idle pc'(1) by simp
  then show ?thesis using resume_ok [OF inv idle _ _ pc'(2)] pc'(3) p(1) by simp
qed

lemma winv_pc:
  assumes inv: "winv interest w"
    and "wait_list pc' (m_waitResumeList (cs w)) = wait_list (pc w) (m_waitResumeList (cs w))"
      "(\<exists>t. pc' = Timeouts t) \<longleftrightarrow> (\<exists>t. pc w = Timeouts t)" "\<And>k. pc' \<noteq> Resumes k"
  shows "winv interest (w\<lparr>pc := pc'\<rparr>)"
  using winvD [OF inv] assms(2-4) by (auto simp: winv_def)

lemma main_step_new_ok:
  assumes inv: "winv interest w" and idle: "running w = -1" and pc: "pc w = NewFuncs k"
  shows "\<exists>w'. main_step evs now w = Inr w' \<and> winv interest w'"
proof (cases "k < length (m_coFuncList (cs w))")
  case True
  obtain c' where "NewCoroutine (m_coFuncList (cs w) ! k) (cs w) = Inr c'"
    "winv interest (w\<lparr>cs := c', pc := NewFuncs (Suc k)\<rparr>)"
    using spawn_ok [OF inv idle, of "NewFuncs (Suc k)"] pc by auto
  then show ?thesis using True pc by (simp add: main_step_def RunNewCoFunc_iter_def)
next
  case False
  then show ?thesis
    using pc winvD [OF inv] by (auto simp: main_step_def RunNewCoFunc_iter_def winv_def)
qed

lemma main_step_resumes_ok:
  assumes inv: "winv interest w" and idle: "running w = -1" and pc: "pc w = Resumes k"
  shows "\<exists>w'. main_step evs now w = Inr w' \<and> winv interest w'"
proof (cases "k < length (m_waitResumeList (cs w))")
  case True
  let ?l = "m_waitResumeList (cs w)"
  note D = winvD [OF inv]
  have split: "drop k ?l = ?l ! k # drop (Suc k) ?l" using True by (simp add: Cons_nth_drop_Suc)
  have "cond_ok (m_conditionMap (cs w)) (?l ! k # drop (Suc k) ?l) (-1) (pend w)"
    using D(5) pc idle split by simp
  from wait_list_step [OF this sus_ok_main [OF D(2)]]
  obtain c' where "resume_in (?l ! k) (cs w) = Inr c'"
    "winv interest (w\<lparr>cs := c', pc := Resumes (Suc k)\<rparr>)"
    using resume_ok [OF inv idle, of "?l ! k" "Resumes (Suc k)"] pc True by auto
  then show ?thesis using True pc by (simp add: main_step_def RunWaitResumeCo_iter_def)
next
  case False
  then show ?thesis
    using pc winvD [OF inv] by (auto simp: main_step_def RunWaitResumeCo_iter_def winv_def)
qed

lemma main_step_event_ok:
  assumes inv: "winv interest w" and idle: "running w = -1" and pc: "pc w = Events ((fd, ev) # l)"
  shows "\<exists>w'. main_step evs now w = Inr w' \<and> winv interest w'"
proof -
  let ?r = "m_readCoId (m_coIdMap (cs w) fd)"
  have pcs: "winv interest (w\<lparr>cs := cs w, pc := Events l\<rparr>)"
    "winv interest (w\<lparr>cs := cs w, pc := EventWrite fd ev l\<rparr>)"
    using winv_pc [OF inv] pc by auto
  have "\<exists>c'. resume_in ?r (cs w) = Inr c' \<and> winv interest (w\<lparr>cs := c', pc := EventWrite fd ev l\<rparr>)"
    if "HasReadCoroutine (m_coIdMap (cs w) fd)"
    using resume_watched_ok [OF inv idle, of fd In ?r "EventWrite fd ev l"] pc that
    by (simp add: HasReadCoroutine_def)
  then show ?thesis
    using pcs pc by (auto simp: main_step_def EventHandler_read_def Let_def)
qed

lemma main_step_event_write_ok:
  assumes inv: "winv interest w" and idle: "running w = -1" and pc: "pc w = EventWrite fd ev l"
  shows "\<exists>w'. main_step evs now w = Inr w' \<and> winv interest w'"
proof -
  let ?r = "m_writeCoId (m_coIdMap (cs w) fd)"
  have pcs: "winv interest (w\<lparr>cs := cs w, pc := Events l\<rparr>)"
    using winv_pc [OF inv] pc by auto
  have "\<exists>c'. resume_in ?r (cs w) = Inr c' \<and> winv interest (w\<lparr>cs := c', pc := Events l\<rparr>)"
    if "HasWriteCoroutine (m_coIdMap (cs w) fd)"
    using resume_watched_ok [OF inv idle, of fd Out ?r "Events l"] pc that
    by (simp add: HasWriteCoroutine_def)
  then show ?thesis
    using pcs pc by (auto simp: main_step_def EventHandler_write_def Let_def)
qed

lemma expired_pending:
  assumes inv: "winv interest w" and c: "GetExpired t (m_timeouts (cs w)) = c" "c \<noteq> -1"
  obtains p where "pend w c = Some p" "pend_timed p" "\<not> is_cond p"
proof -
  have T: "tset_inv (m_timeouts (cs w))"
    and iff: "\<And>c. deadlines (m_timeouts (cs w)) c \<noteq> None \<longleftrightarrow> (\<exists>p. pend w c = Some p \<and> pend_timed p)"
    using winvD(4) [OF inv] by (auto simp: tmo_ok_def)
  obtain p where "pend w c = Some p" "pend_timed p"
    using timeouts.expired_Some [OF T c] iff [of c] by auto
  moreover from this have "\<not> is_cond p" by (cases p) auto
  ultimately show thesis by (rule that)
qed

lemma main_step_timeouts_ok:
  assumes inv: "winv interest w" and idle: "running w = -1" and pc: "pc w = Timeouts t"
  shows "\<exists>w'. main_step evs now w = Inr w' \<and> winv interest w'"
proof (cases "GetExpired t (m_timeouts (cs w)) = -1")
  case True
  then show ?thesis
    using pc winvD [OF inv] by (auto simp: main_step_def RunTimeoutCo_iter_def winv_def)
next
  case False
  let ?c = "GetExpired t (m_timeouts (cs w))"
  note D = winvD [OF inv]
  obtain p where p: "pend w ?c = Some p" "pend_timed p" "\<not> is_cond p"
    by (rule expired_pending [OF inv refl False])
  have "cond_ok (m_conditionMap (cs w)) (wait_list (pc w) (m_waitResumeList (cs w))) ?c (pend w)"
    using cond_ok_io [OF _ p(1,3) refl sus_ok_main [OF D(2)]] D(5) idle by simp
  then obtain c' where "resume_in ?c (cs w) = Inr c'" "winv interest (w\<lparr>cs := c', pc := pc w\<rparr>)"
    using resume_ok [OF inv idle, of ?c "pc w"] p(1) pc by auto
  then show ?thesis
    using False pc by (simp add: main_step_def RunTimeoutCo_iter_def Let_def)
qed

lemma main_step_ok:
  assumes inv: "winv interest w" and idle: "running w = -1"
    and evs: "case evs of Inl e \<Rightarrow> pc w = Polling \<longrightarrow> e = EINTR | Inr _ \<Rightarrow> True"
  shows "\<exists>w'. main_step evs now w = Inr w' \<and> winv interest w'"
proof (cases "pc w")
  case Polling
  then show ?thesis
    using evs winv_pc [OF inv] by (auto simp: main_step_def split: sum.splits)
next
  case (Events l)
  show ?thesis
  proof (cases l)
    case Nil
    then show ?thesis
      using Events winvD [OF inv] by (auto simp: main_step_def RunTimeoutCo_begin_def winv_def)
  next
    case (Cons e es)
    then show ?thesis
      using Events main_step_event_ok [OF inv idle] by (cases e) auto
  qed
qed (use main_step_new_ok [OF inv idle] main_step_resumes_ok [OF inv idle]
    main_step_event_write_ok [OF inv idle] main_step_timeouts_ok [OF inv idle] in auto)

subsection \<open>The running coroutine keeps the invariant\<close>

lemma world_update_order [simp]:
  "w\<lparr>pend := p, cs := c\<rparr> = w\<lparr>cs := c, pend := p\<rparr>" "w\<lparr>retv := r, cs := c\<rparr> = w\<lparr>cs := c, retv := r\<rparr>"
  "w\<lparr>retv := r, pend := p\<rparr> = w\<lparr>pend := p, retv := r\<rparr>"
  by simp_all

lemma winv_retv [simp]: "winv interest (w\<lparr>retv := r\<rparr>) = winv interest w"
  by (simp add: winv_def)

lemma after_call_returned [simp]:
  "after_call c p w (Inr (x, Returned n)) = Inr (w\<lparr>cs := x, retv := (retv w)(c \<mapsto> n)\<rparr>)"
  by (simp add: after_call_def)

lemma after_call_blocked [simp]:
  "after_call c p w (Inr (x, Blocked)) = Inr (w\<lparr>cs := x, pend := (pend w)(c \<mapsto> p)\<rparr>)"
  by (simp add: after_call_def)

text \<open>The timeout of a call and the reading of the clock for it.\<close>

fun call_args :: "'f label \<Rightarrow> (int \<times> timestamp) option" where
  "call_args (LRead fd tmo r now sp r2) = Some (tmo, now)"
| "call_args (LAccept fd tmo r now sp r2) = Some (tmo, now)"
| "call_args (LWrite fd n nb tmo r now sp r2) = Some (tmo, now)"
| "call_args (LConnect fd tmo r now sp r2) = Some (tmo, now)"
| "call_args _ = None"

text \<open>The call that a coroutine is inside of when it waits.\<close>

fun call_pending :: "'f label \<Rightarrow> pending" where
  "call_pending (LRead fd tmo r now sp r2) = PendIO fd In tmo"
| "call_pending (LAccept fd tmo r now sp r2) = PendIO fd In tmo"
| "call_pending (LWrite fd n nb tmo r now sp r2) = PendIO fd Out tmo"
| "call_pending (LConnect fd tmo r now sp r2) = PendConnect fd tmo"
| "call_pending (LWait cnd sp) = PendCond cnd"
| "call_pending _ = PendCond 0"

text \<open>A call that does not wait returns a value and changes nothing else.\<close>

lemma call_returns:
  assumes "call_args l \<noteq> None" "blocks_on l = None"
  shows "\<exists>n. label_step K w l = Inr (w\<lparr>retv := (retv w)(running w \<mapsto> n)\<rparr>)"
proof (cases l)
  case (LRead fd tmo r now sp r2)
  then show ?thesis using assms by (cases r) (auto simp: Read_def split: if_splits)
next
  case (LAccept fd tmo r now sp r2)
  then show ?thesis using assms by (cases r) (auto simp: Accept_def split: if_splits)
next
  case (LWrite fd n nb tmo r now sp r2)
  then show ?thesis using assms by (cases r) (auto simp: Write_def split: if_splits)
next
  case (LConnect fd tmo r now sp r2)
  then show ?thesis using assms by (cases r) (auto simp: Connect_def split: if_splits)
qed (use assms in simp_all)

text \<open>A call that waits registers its descriptor, arms its timeout and yields.\<close>

lemma call_blocks:
  assumes laws: "kernel_laws K interest can_watch" and inv: "winv interest w"
    and c: "running w \<noteq> -1" "pend w (running w) = None"
    and l: "call_args l = Some (tmo, now)" "blocks_on l = Some (fd, d, sp)"
    and free: "watch (m_coIdMap (cs w) fd) d = -1" "can_watch (m_epoller (cs w)) fd" "stack_fits sp"
  shows "\<exists>c'. AddEventAndYield (sys_epoll_ctl K) fd (dir_event d) sp
        (SetTimeoutGuard now (running w) tmo (cs w)) = Inr (c', True) \<and>
      label_step K w l = Inr (w\<lparr>cs := c', pend := (pend w)(running w \<mapsto> call_pending l)\<rparr>) \<and>
      winv interest (w\<lparr>cs := c', pend := (pend w)(running w \<mapsto> call_pending l)\<rparr>)"
proof -
  have "pend_wait (call_pending l) = Some (fd, d)" "pend_timed (call_pending l) \<longleftrightarrow> tmo > 0"
    using l by (cases l; auto split: if_splits)+
  note blk = block_ok [OF laws inv refl c free this, of now]
  show ?thesis
  proof (cases l)
    case (LRead fd' tmo' r now' sp' r2)
    then show ?thesis
      using blk l
      by (cases r) (auto simp: Read_def Let_def coroutine_running_def split: if_splits)
  next
    case (LAccept fd' tmo' r now' sp' r2)
    then show ?thesis
      using blk l
      by (cases r) (auto simp: Accept_def Let_def coroutine_running_def split: if_splits)
  next
    case (LWrite fd' n nb tmo' r now' sp' r2)
    then show ?thesis
      using blk l
      by (cases r) (auto simp: Write_def Let_def coroutine_running_def split: if_splits)
  next
    case (LConnect fd' tmo' r now' sp' r2)
    then show ?thesis
      using blk l
      by (cases r) (auto simp: Connect_def Let_def coroutine_running_def errno_defs split: if_splits)
  qed (use l in simp_all)
qed

lemma call_rule:
  "call_args l \<noteq> None \<Longrightarrow> rule_ok can_watch w l =
     (case blocks_on l of None \<Rightarrow> True | Some (fd, d, sp) \<Rightarrow>
        watch (m_coIdMap (cs w) fd) d = -1 \<and> can_watch (m_epoller (cs w)) fd \<and> stack_fits sp)"
  "call_args l \<noteq> None \<Longrightarrow> enabled w l = (running w \<noteq> -1 \<and> pend w (running w) = None)"
  by (cases l; simp)+

lemma call_ok:
  assumes laws: "kernel_laws K interest can_watch" and inv: "winv interest w"
    and l: "call_args l \<noteq> None" "enabled w l" "rule_ok can_watch w l"
  shows "\<exists>w'. label_step K w l = Inr w' \<and> winv interest w'"
proof (cases "blocks_on l")
  case None
  then show ?thesis using call_returns [OF l(1), of K w] inv by auto
next
  case (Some b)
  then show ?thesis
    using call_blocks [OF laws inv, of l] l call_rule(1) [OF l(1), of can_watch w] call_rule(2) [OF l(1), of w]
    by (cases b) fastforce
qed

text \<open>What a resumed coroutine does: it gets the value of the call, and the registration and the
  timeout are gone.\<close>

lemma finish_call_IO:
  assumes "pend w cid = Some (PendIO fd d tmo)"
  shows "finish_call ctl cid r w =
    bind_res (DeleteEvent ctl fd (dir_event d) (cs w))
      (\<lambda>c'. Inr (w\<lparr>cs := SetTimeoutGuard_destruct cid tmo c', pend := (pend w)(cid := None),
         retv := (retv w)(cid \<mapsto> (if \<not> m_handlingTimeout (cs w) then sys_value r else - ETIME))\<rparr>))"
  using assms by (simp add: finish_call_def io_resumed_def after_call_def bind_res_def Let_def split: sum.split)

lemma finish_call_Connect:
  assumes "pend w cid = Some (PendConnect fd tmo)"
  shows "finish_call ctl cid r w =
    bind_res (DeleteEvent ctl fd (dir_event Out) (cs w))
      (\<lambda>c'. Inr (w\<lparr>cs := SetTimeoutGuard_destruct cid tmo c', pend := (pend w)(cid := None),
         retv := (retv w)(cid \<mapsto> - (if \<not> m_handlingTimeout (cs w)
           then (case r of SysOk e \<Rightarrow> e | SysErr e \<Rightarrow> e) else ETIME))\<rparr>))"
  using assms by (simp add: finish_call_def connect_resumed_def after_call_def bind_res_def Let_def split: sum.split)

lemma finish_call_ok:
  assumes laws: "kernel_laws K interest can_watch" and inv: "winv interest w"
    and c: "running w \<noteq> -1" "pend w (running w) = Some p"
  shows "\<exists>w'. label_step K w (LFinish r) = Inr w' \<and> winv interest w'"
proof (cases p)
  case (PendIO fd d tmo)
  then show ?thesis
    using finish_ok [OF laws inv refl c(2), of fd d tmo] c
    by (auto simp: finish_call_def io_resumed_def Let_def)
next
  case (PendConnect fd tmo)
  then show ?thesis
    using finish_ok [OF laws inv refl c(2), of fd Out tmo] c
    by (auto simp: finish_call_def connect_resumed_def Let_def)
next
  case (PendCond k)
  then show ?thesis
    using c winvD [OF inv] sus_ok_finish [OF winvD(2) [OF inv]]
      reg_ok_cond(2) [OF winvD(3) [OF inv]] tmo_ok_cond(2) [OF winvD(4) [OF inv]]
      cond_ok_finish [OF winvD(5) [OF inv]]
    by (auto simp: finish_call_def winv_def)
qed

lemma cond_ok_wait:
  assumes ok: "cond_ok cm wl c pnd" and c: "pnd c = None" "c \<noteq> -1" and main: "pnd (-1) = None"
  shows "cond_ok (cm(cond_key k := fst (set_insert c (cm (cond_key k))))) wl (-1)
     (pnd(c \<mapsto> PendCond k))"
proof -
  note D = cond_okD [OF ok]
  have not: "c \<notin> set wl" "c \<notin> set (cm key)" "-1 \<notin> set wl" "-1 \<notin> set (cm key)" for key
    using D(3) [of c key] D(4) [of c] D(3) [of "-1" key] D(4) [of "-1"] c main by auto
  let ?l = "fst (set_insert c (cm (cond_key k)))"
  have l: "set ?l = insert c (set (cm (cond_key k)))" "distinct ?l"
    using not D(2) by (auto simp: set_insert_def set_insort_key distinct_insort)
  show ?thesis
  proof (rule cond_okI)
    fix x j assume "(pnd(c \<mapsto> PendCond k)) x = Some (PendCond j)"
    then have "x = c \<and> j = k \<or> x \<noteq> c \<and> (x \<in> set wl \<or> x \<in> set (cm (cond_key j)))"
      using D(5) [of x j] by (cases "x = c") auto
    then show "x = -1 \<or> x \<in> set wl \<or> x \<in> set ((cm(cond_key k := ?l)) (cond_key j))"
      using l(1) by (cases "cond_key j = cond_key k") auto
  next
    fix key x assume "x \<in> set ((cm(cond_key k := ?l)) key)"
    then show "x \<noteq> -1 \<and> x \<notin> set wl \<and>
        (\<exists>j. (pnd(c \<mapsto> PendCond k)) x = Some (PendCond j) \<and> cond_key j = key)"
      using D(3) [of x key] D(3) [of x "cond_key k"] l not c by (auto split: if_splits)
  next
    fix x assume "x \<in> set wl"
    then show "x \<noteq> -1 \<and> (\<exists>j. (pnd(c \<mapsto> PendCond k)) x = Some (PendCond j))"
      using D(4) [of x] not by (cases "x = -1") auto
  qed (use D l in auto)
qed

lemma wait_ok:
  assumes inv: "winv interest w" and c: "running w \<noteq> -1" "pend w (running w) = None"
    and fits: "stack_fits sp"
  shows "\<exists>w'. label_step K w (LWait k sp) = Inr w' \<and> winv interest w'"
proof -
  note D = winvD [OF inv]
  obtain T where T: "coroutine_yield (m_schedule (cs w)) sp = Inr T"
    using yield_defined [OF D(1)] c fits by blast
  show ?thesis
    using D T c sched_inv_yield [OF D(1) T] sus_ok_yield(1) [OF D(1,2) T, of "PendCond k"]
      sus_ok_yield(2) [OF D(1,2) T] reg_ok_cond(1) [OF D(3) c(2), of k]
      tmo_ok_cond(1) [OF D(4) c(2), of k] cond_ok_wait [OF D(5) c(2,1) sus_ok_main [OF D(2)], of k]
    by (auto simp: ConditionWait_def Let_def coroutine_running_def winv_def)
qed

lemma cond_ok_notify:
  assumes ok: "cond_ok cm wl c pnd"
  shows "cond_ok (cm(key := [])) (wl @ cm key) c pnd"
proof -
  note D = cond_okD [OF ok]
  have disj: "set wl \<inter> set (cm key) = {}" using D(3) by blast
  have other: "x \<notin> set (cm key)" if "x \<in> set (cm k)" "k \<noteq> key" for x k
    using D(3) [of x key] D(3) [OF that(1)] that(2) by auto
  show ?thesis
  proof (rule cond_okI)
    fix k x assume "x \<in> set ((cm(key := [])) k)"
    then have x: "x \<in> set (cm k)" "k \<noteq> key" by (auto split: if_splits)
    then show "x \<noteq> c \<and> x \<notin> set (wl @ cm key) \<and>
        (\<exists>j. pnd x = Some (PendCond j) \<and> cond_key j = k)"
      using D(3) [OF x(1)] other [OF x] by auto
  next
    fix x j assume "pnd x = Some (PendCond j)"
    then show "x = c \<or> x \<in> set (wl @ cm key) \<or> x \<in> set ((cm(key := [])) (cond_key j))"
      using D(5) [of x j] by (cases "cond_key j = key") auto
  next
    fix x assume "x \<in> set (wl @ cm key)"
    then show "x \<noteq> c \<and> (\<exists>j. pnd x = Some (PendCond j))"
      using D(3) [of x key] D(4) [of x] by auto
  qed (use D(1,2) disj in auto)
qed

lemma notify_ok:
  assumes inv: "winv interest w" and c: "running w \<noteq> -1"
  shows "winv interest (w\<lparr>cs := ConditionNotify k (cs w)\<rparr>)"
proof -
  have wl: "wait_list (pc w) (m_waitResumeList (cs w) @ l) =
      wait_list (pc w) (m_waitResumeList (cs w)) @ l" for l
    using winvD(8) [OF inv] by (cases "pc w") auto
  show ?thesis
    using winvD [OF inv] cond_ok_notify [OF winvD(5) [OF inv], of "cond_key k"]
    by (auto simp: winv_def ConditionNotify_def Let_def wl)
qed

lemma cond_ok_stop:
  assumes ok: "cond_ok cm wl c pnd" and c: "pnd c = None" and main: "pnd (-1) = None"
  shows "cond_ok cm wl (-1) pnd"
proof -
  note D = cond_okD [OF ok]
  show ?thesis
  proof (rule cond_okI)
    show "x = -1 \<or> x \<in> set wl \<or> x \<in> set (cm (cond_key k))" if "pnd x = Some (PendCond k)" for x k
      using D(5) [OF that] that c by auto
    show "x \<noteq> -1 \<and> x \<notin> set wl \<and> (\<exists>k. pnd x = Some (PendCond k) \<and> cond_key k = key)"
      if "x \<in> set (cm key)" for key x
      using D(3) [OF that] main by auto
    show "x \<noteq> -1 \<and> (\<exists>k. pnd x = Some (PendCond k))" if "x \<in> set wl" for x
      using D(4) [OF that] main by auto
  qed (use D in auto)
qed

lemma return_ok:
  assumes inv: "winv interest w" and c: "running w \<noteq> -1" "pend w (running w) = None"
  shows "\<exists>w'. label_step K w LReturn = Inr w' \<and> winv interest w'"
proof -
  note D = winvD [OF inv]
  let ?S = "m_schedule (cs w)" and ?T = "mainfunc_return (m_schedule (cs w))"
  obtain C where C: "slot ?S (running w) = Some C" using sched_invD(5) [OF D(1) c(1)] by blast
  have sl: "slot ?T j = (if j = running w then None else slot ?S j)" for j
    using slot_range [OF C] sched_invD(2) [OF D(1)] by (simp add: mainfunc_return_def slot_set_slot)
  have run: "s_running ?T = -1" by (simp add: mainfunc_return_def)
  have "sus_ok ?T (pend w)"
    unfolding sus_ok_def sl run using D(2) c(2) by (auto simp: sus_ok_def split: if_splits)
  then show ?thesis
    using D run sched_inv_clear [OF D(1) C] cond_ok_stop [OF D(5) c(2) sus_ok_main [OF D(2)]]
    by (auto simp: winv_def)
qed

lemma stack_ok:
  assumes inv: "winv interest w" and len: "length stk = STACK_SIZE"
  shows "\<exists>w'. label_step K w (LStack stk) = Inr w' \<and> winv interest w'"
proof -
  note D = winvD [OF inv]
  let ?T = "(m_schedule (cs w))\<lparr>s_stack := stk\<rparr>"
  have "sched_inv ?T" using D(1) len by (simp add: sched_inv_def)
  moreover have "sus_ok ?T (pend w)" using D(2) by (simp add: sus_ok_def)
  ultimately show ?thesis using D by (simp add: winv_def)
qed

lemma new_ok:
  assumes inv: "winv interest w" and en: "enabled w (LNew f)"
  shows "\<exists>w'. label_step K w (LNew f) = Inr w' \<and> winv interest w'"
proof (cases "running w = -1")
  case True
  with en have pc: "pc w = NewFuncs 0" by simp
  obtain c' where c': "NewCoroutine f (cs w) = Inr c'" "winv interest (w\<lparr>cs := c', pc := pc w\<rparr>)"
    using spawn_ok [OF inv True, of "pc w" f] pc by auto
  have "w\<lparr>cs := c', pc := pc w\<rparr> = w\<lparr>cs := c'\<rparr>" by (cases w) simp
  with c' show ?thesis by simp
next
  case False
  then show ?thesis
    using winvD [OF inv] by (auto simp: NewCoroutine_def coroutine_running_def winv_def)
qed

lemma kernel_ok:
  assumes "winv interest w" "interest k' = interest (m_epoller (cs w))"
  shows "winv interest (w\<lparr>cs := (cs w)\<lparr>m_epoller := k'\<rparr>\<rparr>)"
  using winvD [OF assms(1)] assms(2) by (simp add: winv_def poll_ok_def)

lemma close_ok:
  assumes laws: "kernel_laws K interest can_watch" and inv: "winv interest w"
    and free: "watch (m_coIdMap (cs w) fd) In = -1" "watch (m_coIdMap (cs w) fd) Out = -1"
  shows "winv interest (w\<lparr>cs := (cs w)\<lparr>m_epoller := sys_close K fd (m_epoller (cs w))\<rparr>\<rparr>)"
proof (rule kernel_ok [OF inv])
  have "interest (m_epoller (cs w)) fd = None"
    using winvD(6) [OF inv] watcher_events_free [OF free] by (simp add: poll_ok_def)
  then show "interest (sys_close K fd (m_epoller (cs w))) = interest (m_epoller (cs w))"
    using kernel_lawsD(2) [OF laws, of fd "m_epoller (cs w)"] by (auto simp: fun_upd_idem)
qed

lemma world_step_ok:
  assumes laws: "kernel_laws K interest can_watch" and inv: "winv interest w"
    and rule: "enabled w l \<longrightarrow> rule_ok can_watch w l"
  shows "\<exists>w'. world_step K w l = Inr w' \<and> winv interest w'"
proof (cases "enabled w l")
  case False
  then show ?thesis using inv by (simp add: world_step_def)
next
  case True
  have "\<exists>w'. label_step K w l = Inr w' \<and> winv interest w'"
  proof (cases l)
    case (LMain evs now)
    then show ?thesis using True rule main_step_ok [OF inv] by auto
  next
    case (LFinish r)
    then show ?thesis using True finish_call_ok [OF laws inv] by auto
  next
    case (LNotify k)
    then show ?thesis using True notify_ok [OF inv] by auto
  next
    case LGetCondition
    then show ?thesis using True rule winvD [OF inv] by (auto simp: GetCondition_def winv_def)
  next
    case (LNew f)
    then show ?thesis using True new_ok [OF inv] by simp
  next
    case (LClose fd)
    then show ?thesis using True rule close_ok [OF laws inv] by simp
  next
    case (LOther n)
    then show ?thesis using kernel_ok [OF inv kernel_lawsD(3) [OF laws]] by simp
  next
    case (LWait k sp)
    then show ?thesis using True rule wait_ok [OF inv] by auto
  qed (use True rule call_ok [OF laws inv, of l] return_ok [OF inv] stack_ok [OF inv] in auto)
  then show ?thesis using True by (simp add: world_step_def)
qed

lemma winv_init:
  fixes k :: 'k
  assumes "length mem = STACK_SIZE" "interest k = Map.empty"
  shows "winv interest (world_init mem k :: ('a, 'k) world)"
proof -
  let ?S = "coroutine_open mem :: 'a schedule"
  have slots: "slot ?S c = None" for c
    by (auto simp: slot_def coroutine_open_def)
  have run: "s_running ?S = -1" by (simp add: coroutine_open_def)
  have watch: "watch FdWatcher_init d = -1" for d
    by (cases d) (simp_all add: FdWatcher_init_def)
  have "watcher_events FdWatcher_init = 0"
    by (simp add: watcher_events_def FdWatcher_init_def HasReadCoroutine_def HasWriteCoroutine_def)
  then show ?thesis
    using assms sched_inv_open [OF assms(1), where 'a = 'a] tset_inv_init
    by (auto simp: winv_def world_init_def CoSocket_init_def sus_ok_def reg_ok_def tmo_ok_def
        cond_ok_def poll_ok_def deadlines_def TimeoutSet_init_def slots run watch)
qed

end
