(* ===== verification/Loop_Properties.thy ===== *)
theory Loop_Properties
  imports Loop_Invariant
begin

text \<open>
  What the event loop guarantees: it never aborts or fails an assertion, every wake-up goes to
  the coroutine that waits for it, no waiting coroutine is forgotten, and the timeout pass ends.
  The last part states how the guarantees fail when the usage rules are broken.
\<close>

lemma world_run_ok:
  assumes laws: "kernel_laws K interest can_watch"
  shows "winv interest w \<Longrightarrow> follows_rules can_watch K w ls \<Longrightarrow>
    \<exists>w'. world_run K w ls = Inr w' \<and> winv interest w'"
proof (induction ls arbitrary: w)
  case Nil
  then show ?case by simp
next
  case (Cons l ls)
  obtain u where "world_step K w l = Inr u" "winv interest u"
    using world_step_ok [OF laws Cons.prems(1), of l] Cons.prems(2) by auto
  then show ?case using Cons.IH [of u] Cons.prems(2) by simp
qed

lemma reachable_winv:
  assumes "kernel_laws K interest can_watch" "length mem = STACK_SIZE" "interest k = Map.empty"
    and "follows_rules can_watch K (world_init mem k) ls" "world_run K (world_init mem k) ls = Inr w"
  shows "winv interest w"
  using world_run_ok [OF assms(1) winv_init [of mem interest k, OF assms(2,3)] assms(4)] assms(5) by auto

abbreviation zero_stack :: bytes where
  "zero_stack \<equiv> replicate STACK_SIZE 0"

text \<open>Runs that start from the machine's initial state are evaluated with these.\<close>

lemmas demo_eval = world_step_def world_init_def CoSocket_init_def NewCoroutine_def
  coroutine_new_def Let_def coroutine_running_def coroutine_resume_def slot_def set_slot_def
  co_new_def Read_def SetTimeoutGuard_def AddEventAndYield_def SaveToCoIdMap_def
  FdWatcher_init_def HasReadCoroutine_def HasWriteCoroutine_def SetReadCoId_def
  set_watcher_def GetEvents_def watcher_events_def Update_def EpollCtl_def
  coroutine_yield_def save_stack_fits main_step_def RunNewCoFunc_iter_def RunWaitResumeCo_iter_def
  RunTimeoutCo_begin_def RunTimeoutCo_iter_def GetExpired_def Insert_def TimeoutSet_init_def
  set_insert_def map_insert_def AddMillisecond_def ts_greater_def resume_in_def
  EventHandler_read_def EventHandler_write_def error_event_def
  finish_call_def io_resumed_def DeleteEvent_def ResetInCoIdMap_def ResetReadCoId_def
  SetTimeoutGuard_destruct_def Delete_def mainfunc_return_def after_call_def stack_fits_def

lemma demo_open:
  "coroutine_open zero_stack = \<lparr>s_stack = zero_stack, s_nco = 0, s_cap = 16, s_running = -1,
     s_co = None # None # replicate 14 None\<rparr>"
  by (simp add: coroutine_open_def DEFAULT_COROUTINE_def numeral_eq_Suc)

lemma demo_probe:
  "probe_slot \<lparr>s_stack = stk, s_nco = 0, s_cap = 16, s_running = -1, s_co = None # rest\<rparr> 0 = Some 0"
  "probe_slot \<lparr>s_stack = stk, s_nco = Suc 0, s_cap = 16, s_running = -1, s_co = c # None # rest\<rparr> 0 = Some 1"
  by (simp_all add: probe_slot.simps [of _ 0])

lemma demo_stack: "9 \<le> STACK_SIZE"
  by (simp add: STACK_SIZE_def)

text \<open>A coroutine is started by the main program and blocks in a read of descriptor 5.\<close>

definition demo_labels :: "unit label list" where
  "demo_labels = [LNew (), LRead 5 100 (SysErr EAGAIN) (Timestamp 3 0) (20, 9) (SysOk 0)]"

text \<open>One pass of the loop later the descriptor is ready; the coroutine reads, closes it and ends.\<close>

definition demo_polled :: "unit label list" where
  "demo_polled = demo_labels @ [LMain (Inr []) (Timestamp 3 0), LMain (Inr []) (Timestamp 3 0),
     LMain (Inr [(5, EPOLLIN)]) (Timestamp 3 0)]"

definition demo_served :: "unit label list" where
  "demo_served = demo_polled @ [LMain (Inr []) (Timestamp 3 0), LFinish (SysOk 12), LClose 5, LReturn]"

lemma demo_blocked:
  "follows_rules table_watch table_kernel (world_init zero_stack fresh_table) demo_labels \<and>
   (\<exists>w. world_run table_kernel (world_init zero_stack fresh_table) demo_labels = Inr w \<and>
     pend w 0 = Some (PendIO 5 In 100) \<and> running w = -1)"
  by (simp add: demo_labels_def demo_open demo_probe demo_stack demo_eval del: bind_res_Inr assert_that_Inr)


lemma demo_done:
  "follows_rules table_watch table_kernel (world_init zero_stack fresh_table) demo_served \<and>
   (\<exists>w. world_run table_kernel (world_init zero_stack fresh_table) demo_served = Inr w \<and>
     retv w 0 = Some 12 \<and> s_nco (m_schedule (cs w)) = 0)"
  by (simp add: demo_served_def demo_polled_def demo_labels_def demo_open demo_probe demo_stack demo_eval
      del: bind_res_Inr assert_that_Inr)

subsection \<open>Safety\<close>

text \<open>
  C1: the event loop is safe as long as its rules are kept. Start from a new \<open>CoSocket\<close> and let
  the main loop, the coroutines and the kernel take steps in any order, such that no two
  coroutines wait for the same direction of a descriptor, a descriptor that is waited for can be
  registered with \<open>epoll\<close> (\<open>can_watch\<close>: it is open, supports polling, and neither memory nor the
  limit of watches is exhausted) and is not closed meanwhile, the frames of a coroutine that yields
  are inside the stack, \<open>epoll_wait\<close> fails with \<open>EINTR\<close> only and fewer than \<open>2^64\<close>
  conditions are made. Then no step aborts the process or fails an assertion of the coroutine
  library, and after every step the schedule, the watched descriptors, the timeout queue, the
  condition lists and the kernel's interest list agree with the calls that the suspended coroutines
  are inside of. In other words, an abort or a failed assertion only ever happens in a run in which
  a rule was broken before or is broken by that step.
\<close>

theorem event_loop_safe:
  assumes "kernel_laws K interest can_watch" "length mem = STACK_SIZE" "interest k = Map.empty"
    and "follows_rules can_watch K (world_init mem k) ls"
  shows "\<exists>w. world_run K (world_init mem k) ls = Inr w \<and> winv interest w"
  using world_run_ok [OF assms(1) winv_init [of mem interest k, OF assms(2,3)] assms(4)] by blast

theorem event_loop_safe_witness:
  "\<exists>w. world_run table_kernel (world_init zero_stack fresh_table) demo_served = Inr w \<and> winv fst w \<and>
     retv w 0 = Some 12 \<and> s_nco (m_schedule (cs w)) = 0"
  using event_loop_safe [OF table_kernel_laws, of zero_stack fresh_table demo_served] demo_done by auto






subsection \<open>Nothing that waits is forgotten\<close>

text \<open>
  C2: no lost coroutine. In every state that is reached with the rules kept (no second waiter for a
  direction of a descriptor, no close of a descriptor somebody waits for, and the others of
  \<open>rule_ok\<close>) each coroutine other than the running one is suspended inside a call and can be
  resumed: if it waits for a descriptor, the watcher table
  names it and the kernel is asked for that event; if the call has a timeout, a deadline is armed
  for it; if it waits for a condition, it is in the waiting list of that condition or among those
  that \<open>RunWaitResumeCo\<close> will resume.
\<close>

theorem suspended_has_waker:
  assumes "kernel_laws K interest can_watch" "length mem = STACK_SIZE" "interest k = Map.empty"
    and "follows_rules can_watch K (world_init mem k) ls" "world_run K (world_init mem k) ls = Inr w"
    and c: "slot (m_schedule (cs w)) c \<noteq> None" "c \<noteq> running w"
  shows "\<exists>p. pend w c = Some p \<and>
     (\<forall>fd d. pend_wait p = Some (fd, d) \<longrightarrow>
        watch (m_coIdMap (cs w) fd) d = c \<and>
        (\<exists>ev. interest (m_epoller (cs w)) fd = Some ev \<and> ev AND dir_event d \<noteq> 0)) \<and>
     (pend_timed p \<longrightarrow> deadlines (m_timeouts (cs w)) c \<noteq> None) \<and>
     (\<forall>q. p = PendCond q \<longrightarrow>
        c \<in> set (wait_list (pc w) (m_waitResumeList (cs w))) \<or>
        c \<in> set (m_conditionMap (cs w) (cond_key q)))"
proof -
  note D = winvD [OF reachable_winv [OF assms(1-5)]]
  from c obtain C where "slot (m_schedule (cs w)) c = Some C" by blast
  with c D(2) obtain p where p: "pend w c = Some p" unfolding sus_ok_def by blast
  have "watch (m_coIdMap (cs w) fd) d = c \<and>
      (\<exists>ev. interest (m_epoller (cs w)) fd = Some ev \<and> ev AND dir_event d \<noteq> 0)"
    if "pend_wait p = Some (fd, d)" for fd d
  proof -
    have w: "watch (m_coIdMap (cs w) fd) d = c" "c \<noteq> -1"
      using reg_ok_iff [OF D(3), of fd d c] p that by auto
    then have "watcher_events (m_coIdMap (cs w) fd) AND dir_event d \<noteq> 0"
      by (cases d) (auto simp: watcher_events_def HasReadCoroutine_def HasWriteCoroutine_def epoll_flags)
    then show ?thesis using D(6) w by (auto simp: poll_ok_def)
  qed
  then show ?thesis
    using p D(4) cond_okD(5) [OF D(5), of c] c(2) unfolding tmo_ok_def by blast
qed

theorem suspended_has_waker_witness:
  "\<exists>w. world_run table_kernel (world_init zero_stack fresh_table) demo_labels = Inr w \<and>
     deadlines (m_timeouts (cs w)) 0 \<noteq> None \<and> fst (m_epoller (cs w)) 5 \<noteq> None"
proof -
  obtain w where f: "follows_rules table_watch table_kernel (world_init zero_stack fresh_table) demo_labels"
    and w: "world_run table_kernel (world_init zero_stack fresh_table) demo_labels = Inr w"
    "pend w 0 = Some (PendIO 5 In 100)" "running w = -1"
    using demo_blocked by blast
  have inv: "winv fst w" by (rule reachable_winv [OF table_kernel_laws _ _ f w(1)]) simp_all
  have "slot (m_schedule (cs w)) 0 \<noteq> None" using winvD(2) [OF inv] w(2) by (auto simp: sus_ok_def)
  from suspended_has_waker [OF table_kernel_laws _ _ f w(1) this] w show ?thesis by auto
qed

text \<open>
  C27: a notification reaches every waiter. When, with the rules kept, the running coroutine calls
  \<open>ConditionNotify\<close>, each coroutine blocked in \<open>ConditionWait\<close> on that condition is among
  those the main loop will resume, each of them once, and the waiting list of the condition is
  empty.
\<close>

theorem notify_reaches_all:
  assumes "kernel_laws K interest can_watch" "length mem = STACK_SIZE" "interest k = Map.empty"
    and run: "follows_rules can_watch K (world_init mem k) ls" "world_run K (world_init mem k) ls = Inr w"
    and en: "running w \<noteq> -1" "pend w (running w) = None"
    and step: "world_step K w (LNotify q) = Inr w'"
  shows "(\<forall>c. pend w c = Some (PendCond q) \<longrightarrow>
            c \<in> set (wait_list (pc w') (m_waitResumeList (cs w')))) \<and>
     distinct (wait_list (pc w') (m_waitResumeList (cs w'))) \<and>
     m_conditionMap (cs w') (cond_key q) = []"
proof -
  have w': "w' = w\<lparr>cs := ConditionNotify q (cs w)\<rparr>" using step en by (simp add: world_step_def)
  have inv': "winv interest w'"
    using reachable_winv [OF assms(1-5)] notify_ok [of interest w q] en(1) w' by simp
  have e: "m_conditionMap (cs w') (cond_key q) = []"
    by (simp add: w' ConditionNotify_def Let_def)
  have "c \<in> set (wait_list (pc w') (m_waitResumeList (cs w')))" if "pend w c = Some (PendCond q)" for c
  proof -
    have "pend w' c = Some (PendCond q)" "running w' = running w"
      using that w' by (simp_all add: ConditionNotify_def Let_def)
    then show ?thesis
      using cond_okD(5) [OF winvD(5) [OF inv'], of c q] e that en(2) by auto
  qed
  then show ?thesis using cond_okD(1) [OF winvD(5) [OF inv']] e by blast
qed

text \<open>One coroutine waits on condition 7, a second one is running.\<close>

definition demo_cond_labels :: "unit label list" where
  "demo_cond_labels = [LNew (), LWait 7 (20, 9), LNew ()]"

lemma demo_cond:
  "follows_rules table_watch table_kernel (world_init zero_stack fresh_table) demo_cond_labels \<and>
   (\<exists>w. world_run table_kernel (world_init zero_stack fresh_table) demo_cond_labels = Inr w \<and>
     pend w 0 = Some (PendCond 7) \<and> running w \<noteq> -1 \<and> pend w (running w) = None)"
  by (simp add: demo_cond_labels_def ConditionWait_def demo_open demo_probe demo_stack demo_eval
      del: bind_res_Inr assert_that_Inr)

theorem notify_reaches_all_witness:
  "\<exists>w w'. world_run table_kernel (world_init zero_stack fresh_table) demo_cond_labels = Inr w \<and>
     world_step table_kernel w (LNotify 7) = Inr w' \<and>
     0 \<in> set (wait_list (pc w') (m_waitResumeList (cs w')))"
proof -
  obtain w where f: "follows_rules table_watch table_kernel (world_init zero_stack fresh_table) demo_cond_labels"
    and w: "world_run table_kernel (world_init zero_stack fresh_table) demo_cond_labels = Inr w"
    "pend w 0 = Some (PendCond 7)" "running w \<noteq> -1" "pend w (running w) = None"
    using demo_cond by blast
  have inv: "winv fst w" by (rule reachable_winv [OF table_kernel_laws _ _ f w(1)]) simp_all
  obtain w' where w': "world_step table_kernel w (LNotify 7) = Inr w'"
    using world_step_ok [OF table_kernel_laws inv, of "LNotify 7"] by auto
  from notify_reaches_all [OF table_kernel_laws _ _ f w(1,3,4) w'] w w' show ?thesis by auto
qed

subsection \<open>When a rule is broken\<close>

lemma SaveToCoIdMap_taken:
  "m_readCoId (m_coIdMap c fd) \<noteq> -1 \<Longrightarrow> SaveToCoIdMap fd EPOLLIN c = (c, False)"
  by (simp add: SaveToCoIdMap_def HasReadCoroutine_def Let_def)

text \<open>
  C28: a second reader makes the loop forget the first one. In a state that was reached with the
  rules kept, let a coroutine be suspended in \<open>Read\<close> or \<open>Accept\<close> on a descriptor, and let the
  running coroutine read the same descriptor with nothing to be read. Its call does not wait, it
  returns what the second try of the system call returns (or a timeout, if the loop is in its timeout
  pass), and it takes the first coroutine's registration with it: that one is still inside its
  call, but \<open>m_coIdMap\<close> does not name it any more, the kernel is not asked for readability, and
  if its call has no timeout no deadline is armed for it either.
\<close>

theorem second_reader_forgets_first:
  assumes "kernel_laws K interest can_watch" "length mem = STACK_SIZE" "interest k = Map.empty"
    and "follows_rules can_watch K (world_init mem k) ls" "world_run K (world_init mem k) ls = Inr w"
    and run: "running w \<noteq> -1" "pend w (running w) = None"
    and first: "pend w c = Some (PendIO fd In tmo0)" and r: "io_waits r"
  shows "\<exists>w'. world_step K w (LRead fd tmo r now sp r2) = Inr w' \<and> running w' = running w \<and>
     retv w' (running w) = Some (if m_handlingTimeout (cs w) then - ETIME else sys_value r2) \<and>
     pend w' = pend w \<and> m_schedule (cs w') = m_schedule (cs w) \<and>
     watch (m_coIdMap (cs w') fd) In = -1 \<and>
     (\<forall>ev. interest (m_epoller (cs w')) fd = Some ev \<longrightarrow> ev AND EPOLLIN = 0) \<and>
     (tmo0 \<le> 0 \<longrightarrow> deadlines (m_timeouts (cs w')) c = None)"
proof -
  have inv: "winv interest w" by (rule reachable_winv [OF assms(1-5)])
  note D = winvD [OF inv]
  let ?g = "SetTimeoutGuard now (running w) tmo (cs w)" and ?c = "running w"
  let ?w' = "set_watch In (-1) (m_coIdMap (cs w) fd)"
  have c: "m_readCoId (m_coIdMap (cs w) fd) = c" "c \<noteq> -1" "c \<noteq> ?c"
    using reg_ok_iff [OF D(3), of fd In c] first run by auto
  have "interest (m_epoller (cs w)) fd \<noteq> None"
    using D(6) watcher_events_watched [of _ In] c by (simp add: poll_ok_def)
  then obtain k' where k': "Update (sys_epoll_ctl K) fd (watcher_events ?w') (m_epoller (cs w)) = (k', 0)"
    "interest k' = (interest (m_epoller (cs w)))(fd :=
       (if watcher_events ?w' = 0 then None else Some (watcher_events ?w')))"
    using Update_ok [OF kernel_lawsD(1) [OF assms(1)]] by metis
  let ?x = "SetTimeoutGuard_destruct ?c tmo (set_watcher fd ?w' (?g\<lparr>m_epoller := k'\<rparr>))"
  have del: "DeleteEvent (sys_epoll_ctl K) fd EPOLLIN ?g = Inr (set_watcher fd ?w' (?g\<lparr>m_epoller := k'\<rparr>))"
    using k'(1) watcher_events_clear [of _ In] by (simp add: DeleteEvent_def ResetInCoIdMap_dir [of _ In, simplified])
  have "world_step K w (LRead fd tmo r now sp r2) = Inr (w\<lparr>cs := ?x,
      retv := (retv w)(?c \<mapsto> (if m_handlingTimeout (cs w) then - ETIME else sys_value r2))\<rparr>)"
    using run r c(1,2) del
    by (cases r) (auto simp: world_step_def Read_def AddEventAndYield_def SaveToCoIdMap_taken
        coroutine_running_def io_resumed_def Let_def)
  moreover have "watcher_events ?w' AND EPOLLIN = 0"
    by (simp add: watcher_events_def HasReadCoroutine_def HasWriteCoroutine_def)
  moreover have "deadlines (m_timeouts (cs w)) c = None \<and> tset_inv (m_timeouts (cs w)) \<and>
      deadlines (m_timeouts (cs w)) ?c = None" if "tmo0 \<le> 0"
    using D(4) first that run(2) unfolding tmo_ok_def
    by (metis not_None_eq option.distinct(1) option.inject pend_timed.simps(1) linorder_not_less)
  ultimately show ?thesis
    using k'(2) c(3) by (auto simp: SetTimeoutGuard_def SetTimeoutGuard_destruct_def deadlines_Delete deadlines_Insert
        tset_inv_Insert split: if_splits)
qed

text \<open>The coroutine of \<open>demo_labels\<close>, and another one that reads descriptor 5 as well.\<close>

lemma demo_two:
  "follows_rules table_watch table_kernel (world_init zero_stack fresh_table)
     [LNew (), LRead 5 (-1) (SysErr EAGAIN) (Timestamp 3 0) (20, 9) (SysOk 0), LNew ()] \<and>
   (\<exists>w. world_run table_kernel (world_init zero_stack fresh_table)
     [LNew (), LRead 5 (-1) (SysErr EAGAIN) (Timestamp 3 0) (20, 9) (SysOk 0), LNew ()] = Inr w \<and>
     pend w 0 = Some (PendIO 5 In (-1)) \<and> running w = 1 \<and> pend w 1 = None)"
  by (simp add: demo_open demo_probe demo_stack demo_eval del: bind_res_Inr assert_that_Inr)

theorem second_reader_forgets_first_witness:
  "\<exists>w w'. world_run table_kernel (world_init zero_stack fresh_table)
       [LNew (), LRead 5 (-1) (SysErr EAGAIN) (Timestamp 3 0) (20, 9) (SysOk 0), LNew ()] = Inr w \<and>
     world_step table_kernel w (LRead 5 (-1) (SysErr EAGAIN) (Timestamp 3 0) (20, 9) (SysErr EAGAIN)) = Inr w' \<and>
     pend w' 0 = Some (PendIO 5 In (-1)) \<and> watch (m_coIdMap (cs w') 5) In = -1 \<and>
     deadlines (m_timeouts (cs w')) 0 = None"
proof -
  let ?ls = "[LNew (), LRead 5 (-1) (SysErr EAGAIN) (Timestamp 3 0) (20, 9) (SysOk 0), LNew ()]"
  obtain w where f: "follows_rules table_watch table_kernel (world_init zero_stack fresh_table) ?ls"
    and w: "world_run table_kernel (world_init zero_stack fresh_table) ?ls = Inr w"
    "pend w 0 = Some (PendIO 5 In (-1))" "running w = 1" "pend w 1 = None"
    using demo_two by blast
  show ?thesis
    using second_reader_forgets_first [OF table_kernel_laws _ _ f w(1), of 0 5 "-1" "SysErr EAGAIN" "-1" "Timestamp 3 0" "(20, 9)" "SysErr EAGAIN"] w
    by auto
qed

text \<open>
  A descriptor that is closed while a coroutine waits for it: when that coroutine is resumed, by its
  timeout say, the kernel does not know the descriptor any more (\<open>EBADF\<close>), and \<open>DeleteEvent\<close> aborts.
\<close>

lemma closed_descriptor_aborts:
  assumes "running w \<noteq> -1" "pend w (running w) = Some (PendIO fd d tmo)"
    and "\<And>op ev. sys_epoll_ctl K (m_epoller (cs w)) op fd ev = (m_epoller (cs w), Some EBADF)"
  shows "world_step K w (LFinish r) = Inl Abort"
  using assms by (simp add: world_step_def finish_call_IO DeleteEvent_def Update_def EpollCtl_def Let_def errno_defs)

lemma closed_descriptor_run:
  "world_run table_kernel (world_init zero_stack fresh_table)
     (demo_labels @ [LNew (), LClose 5, LReturn, LMain (Inr []) (Timestamp 10 0), LMain (Inr []) (Timestamp 10 0),
      LMain (Inr []) (Timestamp 10 0), LMain (Inr []) (Timestamp 10 0), LMain (Inr []) (Timestamp 10 0),
      LFinish (SysOk 0)]) = Inl Abort"
  by (simp add: demo_labels_def errno_defs demo_open demo_probe demo_stack demo_eval
      del: bind_res_Inr assert_that_Inr ts_greater_iff)

text \<open>The other rules: a descriptor that cannot be registered, a stack that has overflowed, another
  error of \<open>epoll_wait\<close>, and the last condition.\<close>

lemma rules_needed:
  "world_run table_kernel (world_init zero_stack (Map.empty, [5])) demo_labels = Inl Abort"
  "world_run table_kernel (world_init zero_stack fresh_table) [LNew (), LWait 7 (20, -1)] = Inl AssertFail"
  "world_run table_kernel (world_init zero_stack fresh_table) [LNew (), LWait 7 (0, 9)] = Inl AssertFail"
  "world_run table_kernel (world_init zero_stack fresh_table)
     [LMain (Inr []) (Timestamp 3 0), LMain (Inr []) (Timestamp 3 0), LMain (Inl EBADF) (Timestamp 3 0)] = Inl Abort"
  "GetCondition (c\<lparr>m_conditionCounter := 0xFFFFFFFFFFFFFFFF\<rparr>) = Inl Abort"
  by (simp_all add: demo_labels_def demo_open demo_probe demo_stack demo_eval ConditionWait_def GetCondition_def
      save_stack_def errno_defs del: bind_res_Inr assert_that_Inr)

subsection \<open>The end\<close>

text \<open>The destructor gives back every coroutine that has not ended, whatever it waits for, and each of them once.\<close>

lemma destructor_deletes_all:
  assumes "kernel_laws K interest can_watch" "length mem = STACK_SIZE" "interest k = Map.empty"
    and "follows_rules can_watch K (world_init mem k) ls" "world_run K (world_init mem k) ls = Inr w"
  shows "set (CoSocket_destruct (cs w)) = {C. \<exists>c. slot (m_schedule (cs w)) c = Some C}"
    "length (CoSocket_destruct (cs w)) = s_nco (m_schedule (cs w))"
  using coroutine_close_all [OF winvD(1) [OF reachable_winv [OF assms]]] by (simp_all add: CoSocket_destruct_def)

subsection \<open>The timeout pass ends\<close>

text \<open>The coroutines whose deadline has passed at \<open>t\<close>, the running one left out.\<close>

definition due_left :: "timestamp \<Rightarrow> ('f, 'k) world \<Rightarrow> int set" where
  "due_left t w = timeouts.due t (m_timeouts (cs w)) - {running w}"

text \<open>The clock does not run backwards: a timeout armed during the pass starts at \<open>t\<close> or later.\<close>

definition clock_ok :: "timestamp \<Rightarrow> 'f label \<Rightarrow> bool" where
  "clock_ok t l \<longleftrightarrow> (case call_args l of None \<Rightarrow> True | Some (tmo, now) \<Rightarrow> t \<le> now)"

lemma AddEventAndYield_sel:
  assumes "AddEventAndYield ctl fd ev sp c = Inr (c', True)"
  shows "m_timeouts c' = m_timeouts c" "s_running (m_schedule c') = -1"
proof -
  have s: "m_timeouts (fst (SaveToCoIdMap fd ev c)) = m_timeouts c"
    by (simp add: SaveToCoIdMap_def Let_def)
  show "m_timeouts c' = m_timeouts c" "s_running (m_schedule c') = -1"
    using assms s
    by (auto simp: AddEventAndYield_def Let_def coroutine_yield_def split: prod.splits if_splits option.splits)
qed

lemma call_effect:
  assumes laws: "kernel_laws K interest can_watch" and inv: "winv interest w"
    and en: "enabled w l" "rule_ok can_watch w l" "call_args l = Some (tmo, now)" and step: "world_step K w l = Inr w'"
  shows "pc w' = pc w \<and> (running w' = running w \<and> m_timeouts (cs w') = m_timeouts (cs w) \<or>
     running w' = -1 \<and> running w \<noteq> -1 \<and> pend w (running w) = None \<and>
     m_timeouts (cs w') = (if tmo > 0 then Insert now (running w) tmo (m_timeouts (cs w))
                           else m_timeouts (cs w)))"
proof (cases "blocks_on l")
  case None
  then show ?thesis using call_returns [of l K w] en step by (auto simp: world_step_def)
next
  case (Some b)
  obtain fd d sp where b: "blocks_on l = Some (fd, d, sp)" using Some by (cases b) auto
  have c: "running w \<noteq> -1" "pend w (running w) = None" "watch (m_coIdMap (cs w) fd) d = -1"
    "can_watch (m_epoller (cs w)) fd" "stack_fits sp"
    using en b call_rule(1) [of l can_watch w] call_rule(2) [of l w] by auto
  obtain c' where "AddEventAndYield (sys_epoll_ctl K) fd (dir_event d) sp
        (SetTimeoutGuard now (running w) tmo (cs w)) = Inr (c', True)"
    "label_step K w l = Inr (w\<lparr>cs := c', pend := (pend w)(running w \<mapsto> call_pending l)\<rparr>)"
    using call_blocks [OF laws inv c(1,2) en(3) b c(3-5)] by blast
  then show ?thesis
    using AddEventAndYield_sel [of "sys_epoll_ctl K" fd "dir_event d" sp _ c'] c en step
    by (auto simp: world_step_def SetTimeoutGuard_def)
qed

lemma due_pending:
  assumes inv: "winv interest w" and "c \<in> timeouts.due t (m_timeouts (cs w))"
  shows "\<exists>p. pend w c = Some p"
  using assms winvD(4) [OF inv] by (auto simp: timeouts.due_def tmo_ok_def)

lemma due_call:
  assumes laws: "kernel_laws K interest can_watch" and inv: "winv interest w"
    and en: "enabled w l" "rule_ok can_watch w l" "call_args l = Some (tmo, now)" "t \<le> now"
    and step: "world_step K w l = Inr w'"
  shows "due_left t w' = due_left t w"
proof -
  let ?T = "m_timeouts (cs w)" and ?c = "running w"
  have T: "tset_inv ?T" using winvD(4) [OF inv] by (simp add: tmo_ok_def)
  consider (same) "running w' = ?c" "m_timeouts (cs w') = ?T"
    | (blocked) "running w' = -1" "pend w ?c = None"
      "m_timeouts (cs w') = (if tmo > 0 then Insert now ?c tmo ?T else ?T)"
    using call_effect [OF laws inv en(1-3) step] by argo
  then show ?thesis
  proof cases
    case blocked
    have d: "deadlines ?T ?c = None"
      using winvD(4) [OF inv] blocked(2) unfolding tmo_ok_def by (metis option.distinct(1))
    have m: "-1 \<notin> timeouts.due t ?T"
      using due_pending [OF inv, of "-1"] sus_ok_main [OF winvD(2) [OF inv]] by auto
    have c: "?c \<notin> timeouts.due t ?T" using d by (simp add: timeouts.due_def)
    have "timeouts.due t (m_timeouts (cs w')) = timeouts.due t ?T"
      using timeouts.due_ins [OF T d en(4)] blocked(3) by simp
    then show ?thesis using m c blocked(1) by (simp add: due_left_def)
  qed (simp add: due_left_def)
qed

lemma due_finish:
  assumes inv: "winv interest w" and en: "enabled w (LFinish r)"
    and step: "world_step K w (LFinish r) = Inr w'"
  shows "due_left t w' = due_left t w"
proof -
  let ?T = "m_timeouts (cs w)"
  have T: "tset_inv ?T" using winvD(4) [OF inv] by (simp add: tmo_ok_def)
  have del: "m_timeouts c' = m_timeouts (cs w) \<and> m_schedule c' = m_schedule (cs w)"
    if "DeleteEvent (sys_epoll_ctl K) fd ev (cs w) = Inr c'" for fd ev c'
    using that
    by (auto simp: DeleteEvent_def ResetInCoIdMap_def Let_def split: prod.splits if_splits)
  from en obtain p where p: "pend w (running w) = Some p" by auto
  have "running w' = running w \<and>
      (m_timeouts (cs w') = ?T \<or> m_timeouts (cs w') = Delete (running w) ?T)"
  proof (cases p)
    case (PendIO fd d tmo)
    then show ?thesis
      using step en p by (auto simp: world_step_def finish_call_IO SetTimeoutGuard_destruct_def dest!: del)
  next
    case (PendConnect fd tmo)
    then show ?thesis
      using step en p by (auto simp: world_step_def finish_call_Connect SetTimeoutGuard_destruct_def dest!: del)
  next
    case (PendCond k)
    then show ?thesis using step en p by (auto simp: world_step_def finish_call_def)
  qed
  then show ?thesis using timeouts.due_del [OF T] by (auto simp: due_left_def)
qed

lemma due_main:
  assumes inv: "winv interest w" and en: "enabled w (LMain evs now)" and pc: "pc w = Timeouts t"
    and step: "world_step K w (LMain evs now) = Inr w'" and pc': "pc w' = Timeouts t"
  shows "due_left t w' \<subset> due_left t w"
proof -
  let ?T = "m_timeouts (cs w)"
  let ?c = "GetExpired t ?T"
  have T: "tset_inv ?T" using winvD(4) [OF inv] by (simp add: tmo_ok_def)
  have idle: "running w = -1" using en by simp
  have c: "?c \<noteq> -1"
    using step en pc pc' by (auto simp: world_step_def main_step_def RunTimeoutCo_iter_def)
  obtain p where p: "pend w ?c = Some p" by (rule expired_pending [OF inv refl c])
  have "slot (m_schedule (cs w)) ?c \<noteq> None" using winvD(2) [OF inv] p by (auto simp: sus_ok_def)
  then obtain S where "coroutine_resume (m_schedule (cs w)) ?c = Inr S" "s_running S = ?c"
    using resume_slot [OF winvD(1) [OF inv] idle] by blast
  then have w': "running w' = ?c" "m_timeouts (cs w') = ?T"
    using step en pc c
    by (auto simp: world_step_def main_step_def RunTimeoutCo_iter_def resume_in_def Let_def)
  have due: "?c \<in> timeouts.due t ?T"
    using timeouts.expired_Some [OF T refl c] by (auto simp: timeouts.due_def)
  have "-1 \<notin> timeouts.due t ?T"
    using due_pending [OF inv, of "-1"] sus_ok_main [OF winvD(2) [OF inv]] by auto
  then show ?thesis using due c unfolding due_left_def w' idle by blast
qed

lemma due_other:
  assumes inv: "winv interest w" and en: "enabled w l" and pc: "pc w = Timeouts t"
    and l: "call_args l = None" "\<And>r. l \<noteq> LFinish r" "\<And>evs now. l \<noteq> LMain evs now"
    and step: "world_step K w l = Inr w'"
  shows "due_left t w' = due_left t w"
proof -
  let ?T = "m_timeouts (cs w)" and ?c = "running w"
  have m: "-1 \<notin> timeouts.due t ?T"
    using due_pending [OF inv, of "-1"] sus_ok_main [OF winvD(2) [OF inv]] by auto
  have c: "?c \<notin> timeouts.due t ?T" if "pend w ?c = None"
    using due_pending [OF inv, of ?c] that by auto
  have "m_timeouts (cs w') = ?T \<and> (running w' = ?c \<or> running w' = -1 \<and> pend w ?c = None)"
    using step en pc l
    by (cases l) (auto simp: world_step_def ConditionWait_def ConditionNotify_def GetCondition_def
        NewCoroutine_def coroutine_running_def mainfunc_return_def coroutine_yield_def Let_def
        split: if_splits option.splits)
  then show ?thesis using m c by (auto simp: due_left_def)
qed

lemma due_step:
  assumes "kernel_laws K interest can_watch" "winv interest w" "pc w = Timeouts t" "pc w' = Timeouts t"
    "clock_ok t l" "world_step K w l = Inr w'" "enabled w l \<longrightarrow> rule_ok can_watch w l"
  shows "due_left t w' \<subseteq> due_left t w"
    and "enabled w l \<Longrightarrow> l = LMain evs now \<Longrightarrow> due_left t w' \<subset> due_left t w"
proof -
  show *: "enabled w l \<Longrightarrow> l = LMain evs now \<Longrightarrow> due_left t w' \<subset> due_left t w" for evs now
    using due_main [OF assms(2)] assms by blast
  show "due_left t w' \<subseteq> due_left t w"
  proof (cases "enabled w l")
    case False
    then show ?thesis using assms(6) by (simp add: world_step_def)
  next
    case True
    show ?thesis
    proof (cases "call_args l")
      case (Some a)
      then show ?thesis
        using due_call [OF assms(1,2) True, of "fst a" "snd a" t w'] assms(5-7) True
        by (auto simp: clock_ok_def split: prod.splits)
    next
      case None
      show ?thesis
      proof (cases "\<exists>r. l = LFinish r")
        case True
        then show ?thesis using due_finish [OF assms(2)] \<open>enabled w l\<close> assms(6) by blast
      next
        case False
        then show ?thesis
          using * due_other [OF assms(2) True assms(3) None] True assms(6) by blast
      qed
    qed
  qed
qed

fun is_main :: "'f label \<Rightarrow> bool" where
  "is_main (LMain evs now) = True"
| "is_main _ = False"

text \<open>The number of iterations of the loop of \<open>RunTimeoutCo\<close> in a run that stays inside it.\<close>

fun timeout_iterations :: "'k kernel \<Rightarrow> ('f, 'k) world \<Rightarrow> 'f label list \<Rightarrow> nat" where
  "timeout_iterations K w [] = 0"
| "timeout_iterations K w (l # ls) =
     (if enabled w l \<and> is_main l then 1 else 0) +
     (case world_step K w l of Inl _ \<Rightarrow> 0 | Inr w' \<Rightarrow> timeout_iterations K w' ls)"

fun stays_in :: "timestamp \<Rightarrow> 'k kernel \<Rightarrow> ('f, 'k) world \<Rightarrow> 'f label list \<Rightarrow> bool" where
  "stays_in t K w [] = (pc w = Timeouts t)"
| "stays_in t K w (l # ls) =
     (pc w = Timeouts t \<and> clock_ok t l \<and>
      (case world_step K w l of Inl _ \<Rightarrow> False | Inr w' \<Rightarrow> stays_in t K w' ls))"

lemma finite_due_left:
  assumes "winv interest w"
  shows "finite (due_left t w)"
  using timeouts.finite_due [of "m_timeouts (cs w)" t] winvD(4) [OF assms]
  by (simp add: due_left_def tmo_ok_def)

lemma stays_in_pc: "stays_in t K w ls \<Longrightarrow> pc w = Timeouts t"
  by (cases ls) auto

lemma timeout_iterations_bound:
  assumes laws: "kernel_laws K interest can_watch"
  shows "winv interest w \<Longrightarrow> follows_rules can_watch K w ls \<Longrightarrow> stays_in t K w ls \<Longrightarrow>
    timeout_iterations K w ls \<le> card (due_left t w)"
proof (induction ls arbitrary: w)
  case Nil
  then show ?case by simp
next
  case (Cons l ls)
  obtain w' where w': "world_step K w l = Inr w'" "winv interest w'"
    using world_step_ok [OF laws Cons.prems(1), of l] Cons.prems(2) by auto
  have st: "stays_in t K w' ls" "pc w = Timeouts t" "clock_ok t l" "follows_rules can_watch K w' ls"
    "enabled w l \<longrightarrow> rule_ok can_watch w l"
    using Cons.prems(2,3) w' by auto
  note ds = due_step [OF laws Cons.prems(1) st(2) stays_in_pc [OF st(1)] st(3) w'(1) st(5)]
  have IH: "timeout_iterations K w' ls \<le> card (due_left t w')" by (rule Cons.IH [OF w'(2) st(4,1)])
  have "(if enabled w l \<and> is_main l then 1 else 0) + card (due_left t w') \<le> card (due_left t w)"
  proof (cases "enabled w l \<and> is_main l")
    case True
    then obtain evs now where "l = LMain evs now" by (cases l) auto
    then have "due_left t w' \<subset> due_left t w" using ds(2) True by blast
    then have "card (due_left t w') < card (due_left t w)"
      by (rule psubset_card_mono [OF finite_due_left [OF Cons.prems(1)]])
    then show ?thesis using True by simp
  next
    case False
    have "card (due_left t w') \<le> card (due_left t w)"
      by (rule card_mono [OF finite_due_left [OF Cons.prems(1)] ds(1)])
    then show ?thesis using False by auto
  qed
  then show ?case using IH w'(1) by simp
qed

text \<open>
  C26: the loop of \<open>RunTimeoutCo\<close> ends. While a run stays inside it, whatever the resumed
  coroutines do (re-arming timeouts included) as long as the rules are kept and the clock does not run backwards, the
  loop resumes at most as many coroutines as had an expired deadline when it was entered.
\<close>

theorem timeout_pass_bounded:
  assumes "kernel_laws K interest can_watch" "length mem = STACK_SIZE" "interest k = Map.empty"
    and "follows_rules can_watch K (world_init mem k) ls0" "world_run K (world_init mem k) ls0 = Inr w"
    and "follows_rules can_watch K w ls" "stays_in t K w ls"
  shows "timeout_iterations K w ls \<le> card (due_left t w)"
  using timeout_iterations_bound [OF assms(1) reachable_winv [OF assms(1-5)] assms(6,7)] .

text \<open>The blocked coroutine of \<open>demo_labels\<close>, and the main loop one pass later at the entry of
  \<open>RunTimeoutCo\<close>, long after the deadline.\<close>

definition demo_timeout_labels :: "unit label list" where
  "demo_timeout_labels =
     demo_labels @ [LMain (Inr []) (Timestamp 10 0), LMain (Inr []) (Timestamp 10 0),
       LMain (Inr []) (Timestamp 10 0), LMain (Inr []) (Timestamp 10 0)]"

definition demo_timeout_pass :: "unit label list" where
  "demo_timeout_pass = [LMain (Inr []) (Timestamp 10 0), LFinish (SysOk 0), LReturn]"

lemma demo_timeout:
  "follows_rules table_watch table_kernel (world_init zero_stack fresh_table) demo_timeout_labels \<and>
   (\<exists>w. world_run table_kernel (world_init zero_stack fresh_table) demo_timeout_labels = Inr w \<and>
     follows_rules table_watch table_kernel w demo_timeout_pass \<and>
     stays_in (Timestamp 10 0) table_kernel w demo_timeout_pass \<and>
     timeout_iterations table_kernel w demo_timeout_pass = 1)"
  by (simp add: demo_timeout_labels_def demo_timeout_pass_def demo_labels_def demo_open demo_probe demo_stack
      demo_eval clock_ok_def del: bind_res_Inr assert_that_Inr ts_greater_iff)

theorem timeout_pass_bounded_witness:
  "\<exists>w. world_run table_kernel (world_init zero_stack fresh_table) demo_timeout_labels = Inr w \<and>
     timeout_iterations table_kernel w demo_timeout_pass = 1 \<and>
     1 \<le> card (due_left (Timestamp 10 0) w)"
proof -
  obtain w where f: "follows_rules table_watch table_kernel (world_init zero_stack fresh_table) demo_timeout_labels"
    and w: "world_run table_kernel (world_init zero_stack fresh_table) demo_timeout_labels = Inr w"
    "follows_rules table_watch table_kernel w demo_timeout_pass"
    "stays_in (Timestamp 10 0) table_kernel w demo_timeout_pass"
    "timeout_iterations table_kernel w demo_timeout_pass = 1"
    using demo_timeout by blast
  show ?thesis
    using timeout_pass_bounded [OF table_kernel_laws _ _ f w(1,2,3)] w by auto
qed

end
