(* ===== verification/Tcp_Server.thy ===== *)
theory Tcp_Server
  imports Co_Prelude
begin

text \<open>
  \<open>net/TcpServer.cpp\<close>, \<open>net/TcpConnector.cpp\<close>, \<open>net/TcpClient.cpp\<close> and \<open>net/Timer.cpp\<close>. The results of
  the system calls are arguments; the calls that change something outside the process (closing a
  descriptor, setting its flags) are returned as a list. The master process and the monitoring of its
  slaves are a step relation whose environment is the set of child processes.
\<close>

section \<open>Connections\<close>

datatype syscall = CloseFd int | SetFlags int int

record TcpConnector =
  m_fd :: int

definition TcpConnector_new :: "int \<Rightarrow> TcpConnector" where
  "TcpConnector_new fd = \<lparr>m_fd = fd\<rparr>"

definition TcpConnector_Close :: "TcpConnector \<Rightarrow> TcpConnector \<times> syscall list" where
  "TcpConnector_Close c = (c\<lparr>m_fd := -1\<rparr>, if m_fd c \<ge> 0 then [CloseFd (m_fd c)] else [])"

definition TcpConnector_destruct :: "TcpConnector \<Rightarrow> syscall list" where
  "TcpConnector_destruct c = snd (TcpConnector_Close c)"

text \<open>The constructor of a client ends the process if there is no socket.\<close>

record TcpClient =
  client_fd :: int

definition TcpClient_new :: "int \<Rightarrow> TcpClient option" where
  "TcpClient_new socket_result = (if socket_result < 0 then None else Some \<lparr>client_fd = socket_result\<rparr>)"

definition TcpClient_Close :: "TcpClient \<Rightarrow> TcpClient \<times> syscall list" where
  "TcpClient_Close c = (c\<lparr>client_fd := -1\<rparr>, if client_fd c \<ge> 0 then [CloseFd (client_fd c)] else [])"

definition TcpClient_destruct :: "TcpClient \<Rightarrow> syscall list" where
  "TcpClient_destruct c = snd (TcpClient_Close c)"

section \<open>Timer\<close>

definition timer_spec :: "int \<Rightarrow> int \<times> int" where
  "timer_spec ms = (ms sdiv 1000, ms smod 1000 * 1000000)"

text \<open>
  \<open>settime\<close> is \<open>timerfd_settime\<close> with the value of the timer. When it succeeds, \<open>Wait\<close> reads from the
  descriptor without a timeout; the result is the value the timer was set to then.
\<close>

definition Timer_Wait :: "(int \<times> int \<Rightarrow> int) \<Rightarrow> int \<Rightarrow> (int \<times> int) option" where
  "Timer_Wait settime ms = (if settime (timer_spec ms) < 0 then None else Some (timer_spec ms))"

section \<open>The server\<close>

record 'h TcpServer =
  m_listenFd :: "int list"
  m_ports :: "u16 list"
  m_numSlaveExpected :: int
  m_numSlaveRunning :: int
  m_handleRequest :: "'h option"

definition TcpServer_new :: "'h TcpServer" where
  "TcpServer_new = \<lparr>m_listenFd = [], m_ports = [], m_numSlaveExpected = 0, m_numSlaveRunning = 0, m_handleRequest = None\<rparr>"

definition TcpServer_destruct :: "'h TcpServer \<Rightarrow> syscall list" where
  "TcpServer_destruct s = map CloseFd (m_listenFd s)"

definition Bind :: "int \<Rightarrow> int \<Rightarrow> u16 \<Rightarrow> 'h TcpServer \<Rightarrow> bool \<times> 'h TcpServer" where
  "Bind socket_result bind_result port s =
     (if bind_result < 0 then (False, s)
      else (True, s\<lparr>m_ports := m_ports s @ [port], m_listenFd := m_listenFd s @ [socket_result]\<rparr>))"

definition SetRequestHandler :: "'h \<Rightarrow> 'h TcpServer \<Rightarrow> 'h TcpServer" where
  "SetRequestHandler h s = s\<lparr>m_handleRequest := Some h\<rparr>"

definition Listen :: "(int \<Rightarrow> int) \<Rightarrow> 'h TcpServer \<Rightarrow> bool" where
  "Listen listen_result s = list_all (\<lambda>fd. \<not> listen_result fd < 0) (m_listenFd s)"

text \<open>
  The loop of \<open>ForkSlaves\<close> in the parent: \<open>forks i\<close> is what the \<open>i\<close>-th \<open>fork\<close> returns. \<open>None\<close> is the child,
  which goes into \<open>SlaveRun\<close> and does not come back.
\<close>

fun fork_loop :: "(nat \<Rightarrow> int) \<Rightarrow> nat \<Rightarrow> nat \<Rightarrow> int list \<Rightarrow> int list option" where
  "fork_loop forks i 0 childIds = Some childIds"
| "fork_loop forks i (Suc n) childIds =
     (if forks i = 0 then None
      else fork_loop forks (Suc i) n (if forks i > 0 then childIds @ [forks i] else childIds))"

definition ForkSlaves :: "(nat \<Rightarrow> int) \<Rightarrow> int \<Rightarrow> int list \<Rightarrow> 'h TcpServer \<Rightarrow> (bool \<times> 'h TcpServer) option" where
  "ForkSlaves forks numSlaves childIds0 s =
     (case fork_loop forks 0 (nat numSlaves) childIds0 of
        None \<Rightarrow> None
      | Some childIds \<Rightarrow>
          Some (childIds \<noteq> [], s\<lparr>m_numSlaveRunning := m_numSlaveRunning s + int (length childIds)\<rparr>))"

definition ListenAndFork ::
  "(int \<Rightarrow> int) \<Rightarrow> (nat \<Rightarrow> int) \<Rightarrow> int \<Rightarrow> int list \<Rightarrow> 'h TcpServer \<Rightarrow> (bool \<times> 'h TcpServer) option" where
  "ListenAndFork listen_result forks numSlaves childIds s =
     (if \<not> Listen listen_result s then Some (False, s)
      else
        let n = (if numSlaves < 1 then 1 else numSlaves) in
        ForkSlaves forks n childIds (s\<lparr>m_numSlaveExpected := n\<rparr>))"

text \<open>\<open>MonitorSlavesLoop\<close>: the two halves of a round, before and after the call of \<open>waitpid\<close>.\<close>

definition monitor_need :: "'h TcpServer \<Rightarrow> int" where
  "monitor_need s = m_numSlaveExpected s - m_numSlaveRunning s"

definition monitor_fork :: "(nat \<Rightarrow> int) \<Rightarrow> 'h TcpServer \<Rightarrow> 'h TcpServer option" where
  "monitor_fork forks s = (if monitor_need s > 0 then map_option snd (ForkSlaves forks (monitor_need s) [] s) else Some s)"

definition monitor_wait :: "int \<Rightarrow> 'h TcpServer \<Rightarrow> 'h TcpServer" where
  "monitor_wait waitpid_result s =
     (if waitpid_result \<noteq> 0 then s\<lparr>m_numSlaveRunning := m_numSlaveRunning s - 1\<rparr> else s)"

text \<open>The loop itself, for the given results of \<open>fork\<close> and \<open>waitpid\<close> in its first rounds; \<open>None\<close> is a child.\<close>

fun MonitorSlavesLoop :: "((nat \<Rightarrow> int) \<times> int) list \<Rightarrow> 'h TcpServer \<Rightarrow> 'h TcpServer option" where
  "MonitorSlavesLoop [] s = Some s"
| "MonitorSlavesLoop ((forks, waitpid_result) # rounds) s =
     (case monitor_fork forks s of
        None \<Rightarrow> None
      | Some s1 \<Rightarrow> MonitorSlavesLoop rounds (monitor_wait waitpid_result s1))"

text \<open>\<open>SlaveRun\<close> starts a coroutine for each of these calls of \<open>DoAccept\<close>, in this order.\<close>

definition SlaveRun :: "'h TcpServer \<Rightarrow> (int \<times> u16) list" where
  "SlaveRun s = map (\<lambda>i. (m_listenFd s ! i, m_ports s ! i)) [0..<length (m_listenFd s)]"

definition O_NONBLOCK :: int where
  "O_NONBLOCK = 2048"

text \<open>One round of the loop of \<open>DoAccept\<close>: what it calls, and the coroutine it starts.\<close>

definition DoAccept_iter ::
  "int \<Rightarrow> int \<Rightarrow> u16 \<Rightarrow> 'h TcpServer \<Rightarrow> syscall list \<times> ('h \<times> TcpConnector \<times> u16) option" where
  "DoAccept_iter sockFd flags port s =
     (if sockFd \<ge> 0 then
        let connector = TcpConnector_new sockFd; set = SetFlags sockFd (flags OR O_NONBLOCK) in
        case m_handleRequest s of
          Some h \<Rightarrow> ([set], Some (h, connector, port))
        | None \<Rightarrow> ([set, CloseFd sockFd] @ TcpConnector_destruct connector, None)
      else ([], None))"

section \<open>Descriptors\<close>

text \<open>Closing any number of times and destroying the object closes the descriptor once.\<close>

fun Close_times :: "nat \<Rightarrow> TcpConnector \<Rightarrow> TcpConnector \<times> syscall list" where
  "Close_times 0 c = (c, [])"
| "Close_times (Suc n) c =
     (let (c1, l1) = TcpConnector_Close c; (c2, l2) = Close_times n c1 in (c2, l1 @ l2))"

lemma Close_times_closed [simp]: "Close_times n \<lparr>m_fd = -1\<rparr> = (\<lparr>m_fd = -1\<rparr>, [])"
  by (induction n) (simp_all add: TcpConnector_Close_def)

lemma connector_closed_once:
  assumes "0 \<le> fd" "Close_times n (TcpConnector_new fd) = (c, l)"
  shows "l @ TcpConnector_destruct c = [CloseFd fd]"
  using assms
  by (cases n) (auto simp: TcpConnector_new_def TcpConnector_Close_def TcpConnector_destruct_def)

text \<open>Without a handler for requests the descriptor of a new connection is closed twice.\<close>

lemma accept_without_handler_closes_twice:
  assumes "0 \<le> fd" "m_handleRequest s = None"
  shows "fst (DoAccept_iter fd flags port s) = [SetFlags fd (flags OR O_NONBLOCK), CloseFd fd, CloseFd fd]"
  using assms by (simp add: DoAccept_iter_def TcpConnector_destruct_def TcpConnector_Close_def TcpConnector_new_def Let_def)

section \<open>The timer\<close>

lemma quot_rem_1000:
  fixes ms :: int
  shows "ms sdiv 1000 = (if 0 \<le> ms then ms div 1000 else - (- ms div 1000))"
    and "ms smod 1000 = (if 0 \<le> ms then ms mod 1000 else - (- ms mod 1000))"
  by (auto simp: signed_divide_int_def signed_modulo_int_def sgn_if abs_if algebra_simps minus_div_mult_eq_mod)

lemma timer_quot_rem: "(ms :: int) sdiv 1000 * 1000 + ms smod 1000 = ms"
  using div_mult_mod_eq [of ms 1000] div_mult_mod_eq [of "- ms" 1000] unfolding quot_rem_1000
  by (simp only: split: if_splits) linarith+

text \<open>
  \<open>Wait\<close> hands \<open>timerfd_settime\<close> the given number of milliseconds, split into seconds and a number of
  nanoseconds below a second. The value is zero, which switches the timer off, only for 0; a
  negative number gives a value that is not positive.
\<close>

theorem timer_spec_value:
  assumes "timer_spec ms = (sec, nsec)"
  shows "sec * 1000000000 + nsec = ms * 1000000 \<and> \<bar>nsec\<bar> < 1000000000 \<and> (0 \<le> ms \<longrightarrow> 0 \<le> sec \<and> 0 \<le> nsec) \<and>
    (ms < 0 \<longrightarrow> sec \<le> 0 \<and> nsec \<le> 0) \<and> (sec = 0 \<and> nsec = 0 \<longleftrightarrow> ms = 0)"
proof -
  obtain r where r: "sec = ms sdiv 1000" "r = ms smod 1000" "nsec = r * 1000000"
    using assms by (auto simp: timer_spec_def)
  have "sec * 1000 + r = ms"
    unfolding r(1,2) by (rule timer_quot_rem)
  moreover have "\<bar>r\<bar> < 1000" "0 \<le> ms \<Longrightarrow> 0 \<le> sec \<and> 0 \<le> r" "ms < 0 \<Longrightarrow> sec \<le> 0 \<and> r \<le> 0"
    using r(1,2) by (auto simp: quot_rem_1000 pos_imp_zdiv_nonneg_iff)
  moreover have "sec = 0 \<and> r = 0" if "ms = 0"
    using r(1,2) that by (simp add: quot_rem_1000)
  ultimately show ?thesis
    using r(3) by (cases "0 \<le> ms") (auto simp: algebra_simps)
qed

theorem timer_spec_value_witness:
  "timer_spec 2500 = (2, 500000000) \<and> (2::int) * 1000000000 + 500000000 = 2500 * 1000000"
  using timer_spec_value [of 2500 2 500000000] by (simp add: timer_spec_def quot_rem_1000)

section \<open>The master process\<close>

text \<open>
  What the master does after \<open>ListenAndFork\<close>: rounds of forking and waiting. \<open>C\<close> are its children that
  have not been waited for, \<open>Z\<close> those of them that have ended, \<open>e\<close> counts the calls of \<open>waitpid\<close> that failed
  because there was no child at all, and \<open>w\<close> tells whether \<open>waitpid\<close> is the next call. As
  documented, \<open>fork\<close> returns the number of a process that is no child yet, or \<open>-1\<close>; \<open>waitpid\<close> returns a
  child that has ended, 0 if there is none, and \<open>-1\<close> if there are no children.
\<close>

definition new_pids :: "(nat \<Rightarrow> int) \<Rightarrow> nat \<Rightarrow> int list" where
  "new_pids forks n = filter (\<lambda>p. 0 < p) (map forks [0..<n])"

definition forks_ok :: "(nat \<Rightarrow> int) \<Rightarrow> nat \<Rightarrow> int set \<Rightarrow> bool" where
  "forks_ok forks n C \<longleftrightarrow> (\<forall>i<n. forks i \<noteq> 0) \<and> distinct (new_pids forks n) \<and> set (new_pids forks n) \<inter> C = {}"

inductive master :: "'h TcpServer \<Rightarrow> int set \<Rightarrow> int set \<Rightarrow> nat \<Rightarrow> bool \<Rightarrow> bool" where
  start: "forks_ok forks (nat (max 1 n)) {} \<Longrightarrow> m_numSlaveRunning s0 = 0 \<Longrightarrow>
    ListenAndFork listen_result forks n [] s0 = Some (True, s) \<Longrightarrow>
    master s (set (new_pids forks (nat (max 1 n)))) {} 0 False"
| fork: "master s C Z e False \<Longrightarrow> forks_ok forks (nat (monitor_need s)) C \<Longrightarrow> monitor_fork forks s = Some s' \<Longrightarrow>
    master s' (C \<union> set (new_pids forks (nat (monitor_need s)))) Z e True"
| exits: "master s C Z e w \<Longrightarrow> p \<in> C \<Longrightarrow> master s C (insert p Z) e w"
| reap: "master s C Z e True \<Longrightarrow> p \<in> Z \<Longrightarrow> master (monitor_wait p s) (C - {p}) (Z - {p}) e False"
| none_ended: "master s C {} e True \<Longrightarrow> C \<noteq> {} \<Longrightarrow> master (monitor_wait 0 s) C {} e False"
| no_child: "master s {} {} e True \<Longrightarrow> master (monitor_wait (-1) s) {} {} (Suc e) False"

lemma fork_loop_pids:
  "\<forall>j<n. forks (i + j) \<noteq> 0 \<Longrightarrow>
    fork_loop forks i n cs = Some (cs @ filter (\<lambda>p. 0 < p) (map forks [i..<i + n]))"
proof (induction n arbitrary: i cs)
  case (Suc n)
  have "\<forall>j<n. forks (Suc i + j) \<noteq> 0" "forks i \<noteq> 0"
    using Suc.prems by (auto dest: spec [of _ "Suc _"] spec [of _ 0])
  then show ?case
    using Suc.IH [of "Suc i"] by (simp add: upt_conv_Cons del: upt_Suc)
qed simp

lemma ForkSlaves_parent:
  assumes "forks_ok forks (nat n) C"
  shows "ForkSlaves forks n [] s = Some (new_pids forks (nat n) \<noteq> [],
    s\<lparr>m_numSlaveRunning := m_numSlaveRunning s + int (card (set (new_pids forks (nat n))))\<rparr>)"
proof -
  have "fork_loop forks 0 (nat n) [] = Some (new_pids forks (nat n))"
    using assms fork_loop_pids [of "nat n" forks 0 "[]"] by (simp add: forks_ok_def new_pids_def)
  moreover have "card (set (new_pids forks (nat n))) = length (new_pids forks (nat n))"
    using assms distinct_card forks_ok_def by blast
  ultimately show ?thesis
    by (simp add: ForkSlaves_def)
qed

lemma new_pids_le: "card (set (new_pids forks n)) \<le> n"
  using card_length [of "new_pids forks n"] length_filter_le [of "\<lambda>p. 0 < p" "map forks [0..<n]"]
  by (simp add: new_pids_def)

lemma new_pids_none [simp]: "new_pids forks 0 = []"
  by (simp add: new_pids_def)

lemma new_pids_positive: "p \<in> set (new_pids forks n) \<Longrightarrow> 0 < p"
  by (auto simp: new_pids_def)

lemma new_pids_all: "\<forall>i<n. 0 < forks i \<Longrightarrow> new_pids forks n = map forks [0..<n]"
  by (simp add: new_pids_def)

text \<open>What a fork phase does to the count, and to the number of children.\<close>

lemma monitor_fork_parent:
  assumes "forks_ok forks (nat (monitor_need s)) C" "monitor_fork forks s = Some s'" "finite C"
  shows "m_numSlaveExpected s' = m_numSlaveExpected s \<and>
    m_numSlaveRunning s' = m_numSlaveRunning s + int (card (set (new_pids forks (nat (monitor_need s))))) \<and>
    card (C \<union> set (new_pids forks (nat (monitor_need s)))) = card C + card (set (new_pids forks (nat (monitor_need s))))"
proof -
  have "card (C \<union> set (new_pids forks (nat (monitor_need s)))) = card C + card (set (new_pids forks (nat (monitor_need s))))"
    using assms by (intro card_Un_disjoint) (auto simp: forks_ok_def)
  then show ?thesis
    using assms(2) by (auto simp: monitor_fork_def ForkSlaves_parent [OF assms(1)] split: if_splits)
qed

text \<open>As long as every \<open>fork\<close> succeeds, the loop is never more than one slave behind, whatever \<open>waitpid\<close> reports.\<close>

lemma monitor_keeps_up:
  assumes "\<forall>(forks, waited) \<in> set rounds. \<forall>i. 0 < forks i"
  shows "m_numSlaveRunning s \<le> m_numSlaveExpected s \<Longrightarrow>
    \<exists>s'. MonitorSlavesLoop rounds s = Some s' \<and> m_numSlaveExpected s' = m_numSlaveExpected s \<and> m_numSlaveRunning s' \<le> m_numSlaveExpected s \<and>
      (rounds \<noteq> [] \<longrightarrow> m_numSlaveExpected s - 1 \<le> m_numSlaveRunning s')"
  using assms
proof (induction rounds arbitrary: s)
  case (Cons r rounds)
  obtain forks waited where r: "r = (forks, waited)" by (cases r)
  have f: "\<forall>i. 0 < forks i" using Cons.prems(2) r by auto
  then have "\<forall>j<n. forks (0 + j) \<noteq> 0" for n by (metis less_irrefl)
  from fork_loop_pids [OF this, of "nat (monitor_need s)" "[]"]
  have "\<exists>s1. monitor_fork forks s = Some s1 \<and> m_numSlaveExpected s1 = m_numSlaveExpected s \<and> m_numSlaveRunning s1 = m_numSlaveExpected s"
    using f Cons.prems(1) by (cases "0 < monitor_need s") (simp_all add: monitor_fork_def ForkSlaves_def monitor_need_def)
  then obtain s1 where s1: "monitor_fork forks s = Some s1" "m_numSlaveExpected s1 = m_numSlaveExpected s" "m_numSlaveRunning s1 = m_numSlaveExpected s"
    by blast
  let ?s = "monitor_wait waited s1"
  have s2: "m_numSlaveExpected ?s = m_numSlaveExpected s" "m_numSlaveRunning ?s \<le> m_numSlaveExpected s" "m_numSlaveExpected s - 1 \<le> m_numSlaveRunning ?s"
    using s1 by (simp_all add: monitor_wait_def)
  show ?case
    using Cons.IH [of ?s] Cons.prems(2) s1(1) s2 r by (cases rounds) auto
qed simp

lemma master_count:
  "master s C Z e w \<Longrightarrow> finite C \<and> Z \<subseteq> C \<and> (\<forall>p\<in>C. 0 < p) \<and> m_numSlaveRunning s = int (card C) - int e \<and>
    int (card C) \<le> m_numSlaveExpected s + int e"
proof (induction rule: master.induct)
  case (start forks n s0 listen_result s)
  let ?n = "max 1 n"
  have "ForkSlaves forks ?n [] (s0\<lparr>m_numSlaveExpected := ?n\<rparr>) = Some (True, s)"
    using start.hyps(3) by (auto simp: ListenAndFork_def Let_def max_def split: if_splits)
  then show ?case
    using start.hyps(2) new_pids_le [of forks "nat ?n"] by (auto simp: ForkSlaves_parent [OF start.hyps(1)] new_pids_positive)
next
  case (fork s C Z e forks s')
  then show ?case
    using monitor_fork_parent [OF fork.hyps(2,3)] new_pids_le [of forks "nat (monitor_need s)"]
    by (auto simp: monitor_need_def new_pids_positive)
next
  case (reap s C Z e p)
  then have "p \<in> C" "finite C" by auto
  then have "0 < p" "card C > 0" "card (C - {p}) = card C - 1"
    using reap by (auto simp: card_gt_0_iff)
  then show ?case
    using reap by (auto simp: monitor_wait_def)
qed (auto simp: monitor_wait_def)

text \<open>
  C30: The master counts its slaves. The count is the number of the children it has not waited for, less
  the number of times \<open>waitpid\<close> failed for lack of children; so without such a failure the count is
  right, there are never more slaves than expected, and after a round in which every \<open>fork\<close>
  succeeds there are exactly as many as expected. With \<open>e\<close> failures there can be \<open>e\<close> more.
\<close>

theorem slaves_counted:
  assumes "master s C Z e False"
  shows "m_numSlaveRunning s = int (card C) - int e \<and> int (card C) \<le> m_numSlaveExpected s + int e \<and>
    (forks_ok forks (nat (monitor_need s)) C \<and> (\<forall>i < nat (monitor_need s). 0 < forks i) \<and> monitor_fork forks s = Some s' \<longrightarrow>
       m_numSlaveRunning s' = m_numSlaveExpected s \<and>
       int (card (C \<union> set (new_pids forks (nat (monitor_need s))))) = m_numSlaveExpected s + int e)"
proof -
  note inv = master_count [OF assms]
  have "m_numSlaveRunning s' = m_numSlaveExpected s \<and>
       int (card (C \<union> set (new_pids forks (nat (monitor_need s))))) = m_numSlaveExpected s + int e"
    if f: "forks_ok forks (nat (monitor_need s)) C" "\<forall>i < nat (monitor_need s). 0 < forks i" "monitor_fork forks s = Some s'"
  proof -
    have "card (set (new_pids forks (nat (monitor_need s)))) = nat (monitor_need s)"
      using f(1,2) new_pids_all [OF f(2)] distinct_card [of "new_pids forks (nat (monitor_need s))"] by (simp add: forks_ok_def)
    moreover have "0 \<le> monitor_need s"
      using inv by (simp add: monitor_need_def)
    ultimately show ?thesis
      using monitor_fork_parent [OF f(1,3)] inv by (simp add: monitor_need_def)
  qed
  then show ?thesis using inv by blast
qed

lemma master_one_slave: "master (TcpServer_new\<lparr>m_numSlaveExpected := 1, m_numSlaveRunning := 1\<rparr>) {5} {} 0 False"
  using master.start [of "\<lambda>_. 5" 1 TcpServer_new "\<lambda>_. 0"]
  by (simp add: forks_ok_def new_pids_def ListenAndFork_def Listen_def ForkSlaves_def TcpServer_new_def)

lemmas master_defs = forks_ok_def new_pids_def monitor_fork_def monitor_need_def ForkSlaves_def monitor_wait_def TcpServer_new_def

lemma master_slave_ended: "master (TcpServer_new\<lparr>m_numSlaveExpected := 1, m_numSlaveRunning := 0\<rparr>) {} {} 0 False"
proof -
  let ?s = "TcpServer_new\<lparr>m_numSlaveExpected := 1, m_numSlaveRunning := 1\<rparr>"
  have "master ?s {5} {} 0 True"
    using master.fork [OF master_one_slave, of "\<lambda>_. 1" ?s] by (simp add: master_defs)
  then have "master ?s {5} {5} 0 True"
    using master.exits [of ?s "{5}" "{}" 0 True 5] by simp
  from master.reap [OF this, of 5] show ?thesis
    by (simp add: master_defs)
qed

theorem slaves_counted_witness:
  "master (TcpServer_new\<lparr>m_numSlaveExpected := 1, m_numSlaveRunning := 0\<rparr>) {} {} 0 False \<and>
   monitor_fork (\<lambda>_. 7) (TcpServer_new\<lparr>m_numSlaveExpected := 1, m_numSlaveRunning := 0\<rparr>) =
     Some (TcpServer_new\<lparr>m_numSlaveExpected := 1, m_numSlaveRunning := 1\<rparr>) \<and>
   int (card ({} \<union> set (new_pids (\<lambda>_. 7) 1))) = 1 + int 0"
  using slaves_counted [OF master_slave_ended, of "\<lambda>_. 7" "TcpServer_new\<lparr>m_numSlaveExpected := 1, m_numSlaveRunning := 1\<rparr>"]
    master_slave_ended
  by (simp add: master_defs)

text \<open>
  The count does drift: when the only slave has ended and could not be started again, the failed
  \<open>waitpid\<close> is counted as the end of another one, and two slaves are started where one was asked for.
\<close>

lemma slaves_overshoot: "\<exists>s. master s {7, 8} {} 1 True \<and> m_numSlaveExpected s = 1"
proof -
  let ?s = "\<lambda>n. TcpServer_new\<lparr>m_numSlaveExpected := 1, m_numSlaveRunning := n\<rparr>"
  have "master (?s 0) {} {} 0 False"
    by (rule master_slave_ended)
  then have "master (?s 0) {} {} 0 True"
    using master.fork [of "?s 0" "{}" "{}" 0 "\<lambda>_. -1" "?s 0"] by (simp add: master_defs)
  then have "master (?s (-1)) {} {} 1 False"
    using master.no_child [of "?s 0" 0] by (simp add: master_defs)
  then have "master (?s 1) {7, 8} {} 1 True"
    using master.fork [of "?s (-1)" "{}" "{}" 1 "\<lambda>i. 7 + int i" "?s 1"] by (simp add: master_defs upt_rec numeral_2_eq_2)
  then show ?thesis by (auto simp: TcpServer_new_def)
qed

end
