(* ===== verification/Tcp_Slave.thy ===== *)
theory Tcp_Slave
  imports Tcp_Server Loop_Properties
begin

text \<open>
  A slave of \<open>net/TcpServer.cpp\<close> on the event loop of \<open>net/CoSocket.cpp\<close>: the coroutines that \<open>SlaveRun\<close> starts run \<open>DoAccept\<close>, which
  blocks in \<open>Accept\<close> and hands every connection to a new coroutine. The steps of a slave are steps of the world of theory \<open>Event_Loop\<close>, so they
  may be interleaved with those of all other coroutines.
\<close>

section \<open>The code as steps\<close>

text \<open>What the coroutines of a slave run: \<open>DoAccept\<close> for a listening socket, or the handler for a connection.\<close>

datatype 'h slave_func = Accepting int u16 | Handling 'h TcpConnector u16

text \<open>The call of \<open>Accept\<close> in \<open>DoAccept\<close>, without a timeout; \<open>r\<close> is the result of the system call. \<open>sp\<close> is the position in the stack if it blocks.\<close>

definition accept_call :: "timestamp \<Rightarrow> stack_at \<Rightarrow> int \<Rightarrow> sysres \<Rightarrow> 'f label" where
  "accept_call now sp fd r = LAccept fd (-1) r now sp (SysErr EAGAIN)"

text \<open>\<open>SpawnOnNewRequest\<close>, and the system calls of \<open>DoAccept\<close> as steps of the world.\<close>

definition SpawnOnNewRequest :: "'h \<Rightarrow> TcpConnector \<Rightarrow> u16 \<Rightarrow> 'h slave_func label" where
  "SpawnOnNewRequest h connector port = LNew (Handling h connector port)"

fun syscall_step :: "syscall \<Rightarrow> 'f label list" where
  "syscall_step (CloseFd fd) = [LClose fd]"
| "syscall_step (SetFlags fd flags) = []"

text \<open>
  The body of the loop once \<open>Accept\<close> has returned: it looks at the value that \<open>Accept\<close> gave to the running coroutine, and does nothing for a
  negative one. \<open>flags\<close> is what \<open>fcntl\<close> returns for a descriptor.
\<close>

definition after_accept ::
  "'k kernel \<Rightarrow> 'h TcpServer \<Rightarrow> u16 \<Rightarrow> (int \<Rightarrow> int) \<Rightarrow> ('h slave_func, 'k) world \<Rightarrow> ('h slave_func, 'k) world res" where
  "after_accept K s port flags w =
     (case retv w (running w) of
        None \<Rightarrow> Inr w
      | Some sockFd \<Rightarrow>
          (let (calls, spawn) = DoAccept_iter sockFd (flags sockFd) port s in
           world_run K w (concat (map syscall_step calls) @
             (case spawn of Some (h, connector, p) \<Rightarrow> [SpawnOnNewRequest h connector p] | None \<Rightarrow> []))))"

text \<open>
  The loop of \<open>DoAccept\<close>, from its head on, for the results that the next calls of \<open>accept\<close> have: it goes round without a break until \<open>Accept\<close>
  waits. When the list is used up, the next call has not been made yet.
\<close>

fun DoAccept ::
  "'k kernel \<Rightarrow> timestamp \<Rightarrow> stack_at \<Rightarrow> 'h TcpServer \<Rightarrow> int \<Rightarrow> u16 \<Rightarrow> (int \<Rightarrow> int) \<Rightarrow> sysres list \<Rightarrow>
     ('h slave_func, 'k) world \<Rightarrow> ('h slave_func, 'k) world res" where
  "DoAccept K now sp s fd port flags [] w = Inr w"
| "DoAccept K now sp s fd port flags (r # rs) w =
     bind_res (world_step K w (accept_call now sp fd r))
       (\<lambda>w1. if pend w1 (running w) \<noteq> None then Inr w1
             else bind_res (after_accept K s port flags w1) (DoAccept K now sp s fd port flags rs))"

text \<open>The coroutine was resumed inside \<open>Accept\<close>, which tries \<open>accept\<close> again, with the result \<open>r\<close>; the loop goes on.\<close>

definition DoAccept_resumed ::
  "'k kernel \<Rightarrow> timestamp \<Rightarrow> stack_at \<Rightarrow> 'h TcpServer \<Rightarrow> int \<Rightarrow> u16 \<Rightarrow> (int \<Rightarrow> int) \<Rightarrow> sysres \<Rightarrow> sysres list \<Rightarrow>
     ('h slave_func, 'k) world \<Rightarrow> ('h slave_func, 'k) world res" where
  "DoAccept_resumed K now sp s fd port flags r rs w =
     bind_res (world_step K w (LFinish r))
       (\<lambda>w1. bind_res (after_accept K s port flags w1) (DoAccept K now sp s fd port flags rs))"

text \<open>The start of a slave: a coroutine for every listening socket, each of which runs until it blocks; \<open>firsts\<close> has the results of \<open>accept\<close> on a socket.\<close>

fun slave_start ::
  "'k kernel \<Rightarrow> timestamp \<Rightarrow> stack_at \<Rightarrow> 'h TcpServer \<Rightarrow> (int \<Rightarrow> int) \<Rightarrow> (int \<Rightarrow> sysres list) \<Rightarrow> (int \<times> u16) list \<Rightarrow>
     ('h slave_func, 'k) world \<Rightarrow> ('h slave_func, 'k) world res" where
  "slave_start K now sp s flags firsts [] w = Inr w"
| "slave_start K now sp s flags firsts ((fd, port) # ps) w =
     bind_res (world_step K w (LNew (Accepting fd port)))
       (\<lambda>w1. bind_res (DoAccept K now sp s fd port flags (firsts fd) w1) (slave_start K now sp s flags firsts ps))"

text \<open>The connections among the results of \<open>accept\<close>, and what the system call may return at all.\<close>

fun connections :: "sysres list \<Rightarrow> int list" where
  "connections [] = []"
| "connections (SysOk n # rs) = n # connections rs"
| "connections (SysErr e # rs) = connections rs"

fun sysres_ok :: "sysres \<Rightarrow> bool" where
  "sysres_ok (SysOk n) \<longleftrightarrow> 0 \<le> n"
| "sysres_ok (SysErr e) \<longleftrightarrow> 0 < e"

section \<open>Single steps\<close>

text \<open>What a step leaves alone: the functions to be started and the point of the loop.\<close>

definition same_queue :: "('f, 'k) world \<Rightarrow> ('f, 'k) world \<Rightarrow> bool" where
  "same_queue w w' \<longleftrightarrow> m_coFuncList (cs w') = m_coFuncList (cs w) \<and> pc w' = pc w"

lemma AddEventAndYield_funcs: "AddEventAndYield ctl fd ev sp c = Inr (c', b) \<Longrightarrow> m_coFuncList c' = m_coFuncList c"
  by (auto simp: AddEventAndYield_def SaveToCoIdMap_def Let_def split: prod.splits if_splits)

lemma DeleteEvent_funcs:
  "DeleteEvent ctl fd ev c = Inr c' \<Longrightarrow> m_coFuncList c' = m_coFuncList c \<and> m_schedule c' = m_schedule c"
  by (auto simp: DeleteEvent_def ResetInCoIdMap_def Let_def split: prod.splits if_splits)

text \<open>A coroutine that is started from the main program or by the loop.\<close>

lemma NewCoroutine_starts:
  assumes inv: "winv interest w" and idle: "running w = -1" and new: "NewCoroutine f (cs w) = Inr c'"
  shows "s_running (m_schedule c') \<noteq> -1" "pend w (s_running (m_schedule c')) = None" "m_coFuncList c' = m_coFuncList (cs w)"
    "\<exists>C. slot (m_schedule c') (s_running (m_schedule c')) = Some C \<and> c_func C = f"
    "\<And>j. j \<noteq> s_running (m_schedule c') \<Longrightarrow> slot (m_schedule c') j = slot (m_schedule (cs w)) j"
proof -
  note D = winvD [OF inv]
  obtain cid S T where n: "coroutine_new (m_schedule (cs w)) f = Inr (cid, S)" and r: "coroutine_resume S (int cid) = Inr T"
    and c': "c' = (cs w)\<lparr>m_schedule := T\<rparr>"
    using new idle by (auto simp: NewCoroutine_def coroutine_running_def)
  note N = coroutine_newD [OF D(1) n]
  have Sinv: "sched_inv S" by (rule sched_inv_new [OF D(1) n])
  have slot: "slot S (int cid) = Some (co_new f)" using N(4) by simp
  have T: "s_running T = int cid" "\<exists>C. slot T (int cid) = Some C \<and> c_func C = f"
    using Sinv r slot slot_range [OF slot] sched_invD(2) [OF Sinv]
    by (auto elim!: resume_cases simp: slot_set_slot co_new_def)
  show "s_running (m_schedule c') \<noteq> -1" "pend w (s_running (m_schedule c')) = None" "m_coFuncList c' = m_coFuncList (cs w)"
    "\<exists>C. slot (m_schedule c') (s_running (m_schedule c')) = Some C \<and> c_func C = f"
    using T N(1) D(2) unfolding c' by (auto simp: sus_ok_def)
  show "slot (m_schedule c') j = slot (m_schedule (cs w)) j" if "j \<noteq> s_running (m_schedule c')" for j
    using resume_frame [OF Sinv r, of j] N(4) [of j] that T(1) unfolding c' by simp
qed

lemma step_new_idle:
  assumes inv: "winv interest w" and idle: "running w = -1" "pc w = NewFuncs 0"
  obtains w' where "world_step K w (LNew f) = Inr w'" "winv interest w'" "same_queue w w'" "running w' \<noteq> -1" "pend w (running w') = None"
    "pend w' = pend w" "\<exists>C. slot (m_schedule (cs w')) (running w') = Some C \<and> c_func C = f"
    "\<And>j. j \<noteq> running w' \<Longrightarrow> slot (m_schedule (cs w')) j = slot (m_schedule (cs w)) j"
proof -
  have en: "enabled w (LNew f)" using idle by simp
  obtain w' where w': "label_step K w (LNew f) = Inr w'" "winv interest w'"
    using new_ok [OF inv en, of K] by blast
  have step: "world_step K w (LNew f) = Inr w'"
    using en w'(1) by (simp only: world_step_def if_True)
  obtain c' where c': "NewCoroutine f (cs w) = Inr c'" "w' = w\<lparr>cs := c'\<rparr>"
    using w'(1) by (cases "NewCoroutine f (cs w)") auto
  show thesis
    by (rule that [OF step w'(2)]) (use NewCoroutine_starts [OF inv idle(1) c'(1)] c'(2) in \<open>simp_all add: same_queue_def\<close>)
qed

text \<open>A call of \<open>Accept\<close> that blocks.\<close>

lemma step_accept_blocks:
  fixes w :: "('f, 'k) world"
  assumes laws: "kernel_laws K interest can_watch" and inv: "winv interest w" and c: "running w \<noteq> -1" "pend w (running w) = None"
    and free: "\<And>j p. pend w j = Some p \<Longrightarrow> pend_wait p \<noteq> Some (fd, In)"
    and fits: "can_watch (m_epoller (cs w)) fd" "stack_fits sp" and r: "accept_waits r"
  obtains w' where "world_step K w (accept_call now sp fd r) = Inr w'" "winv interest w'" "same_queue w w'" "running w' = -1"
    "pend w' = (pend w)(running w \<mapsto> PendIO fd In (-1))"
    "\<And>j. map_option c_func (slot (m_schedule (cs w')) j) = map_option c_func (slot (m_schedule (cs w)) j)"
proof -
  let ?l = "accept_call now sp fd r :: 'f label"
  have f: "watch (m_coIdMap (cs w) fd) In = -1"
    using reg_ok_iff [OF winvD(3) [OF inv], of fd In "watch (m_coIdMap (cs w) fd) In"] free by blast
  have l: "call_args ?l = Some (-1, now)" "blocks_on ?l = Some (fd, In, sp)" "call_pending ?l = PendIO fd In (-1)" "enabled w ?l"
    using c r by (simp_all add: accept_call_def)
  obtain c' where c': "AddEventAndYield (sys_epoll_ctl K) fd EPOLLIN sp (cs w) = Inr (c', True)"
    "label_step K w ?l = Inr (w\<lparr>cs := c', pend := (pend w)(running w \<mapsto> PendIO fd In (-1))\<rparr>)"
    "winv interest (w\<lparr>cs := c', pend := (pend w)(running w \<mapsto> PendIO fd In (-1))\<rparr>)"
    using call_blocks [OF laws inv c l(1,2) f fits] l(3) by (auto simp: SetTimeoutGuard_def)
  have s: "world_step K w ?l = Inr (w\<lparr>cs := c', pend := (pend w)(running w \<mapsto> PendIO fd In (-1))\<rparr>)"
    using l(4) c'(2) by (simp add: world_step_def)
  obtain T where T: "coroutine_yield (m_schedule (cs w)) sp = Inr T" "m_schedule c' = T"
    using c'(1) by (auto simp: AddEventAndYield_def SaveToCoIdMap_def Let_def split: prod.splits if_splits)
  have "map_option c_func (slot T j) = map_option c_func (slot (m_schedule (cs w)) j)" for j
    by (rule yield_slots [OF winvD(1) [OF inv] T(1)]) simp
  then show thesis
    using that [OF s c'(3)] AddEventAndYield_funcs [OF c'(1)] AddEventAndYield_sel(2) [OF c'(1)] T(2) by (simp add: same_queue_def)
qed

text \<open>An event on the descriptor resumes the coroutine that waits in \<open>Accept\<close>, and the call returns.\<close>

lemma step_event:
  assumes inv: "winv interest w" and idle: "running w = -1" "pc w = Events ((fd, ev) # l)" and ev: "ev AND EPOLLIN \<noteq> 0"
    and c: "pend w c = Some (PendIO fd In tmo)"
  obtains w' where "world_step K w (LMain (Inr evs) now) = Inr w'" "winv interest w'" "running w' = c" "pend w' = pend w"
    "pc w' = EventWrite fd ev l" "m_coFuncList (cs w') = m_coFuncList (cs w)"
proof -
  have r: "m_readCoId (m_coIdMap (cs w) fd) = c" "c \<noteq> -1"
    using reg_ok_iff [OF winvD(3) [OF inv], of fd In c] c by auto
  obtain c' where c': "resume_in c (cs w) = Inr c'" "winv interest (w\<lparr>cs := c', pc := EventWrite fd ev l\<rparr>)"
    using resume_watched_ok [OF inv idle(1), of fd In c "EventWrite fd ev l"] r idle(2) by auto
  have "slot (m_schedule (cs w)) c \<noteq> None"
    using winvD(2) [OF inv] c by (auto simp: sus_ok_def)
  then obtain T where "coroutine_resume (m_schedule (cs w)) c = Inr T" "s_running T = c"
    using resume_slot [OF winvD(1) [OF inv] idle(1)] by blast
  then have "s_running (m_schedule c') = c" "m_coFuncList c' = m_coFuncList (cs w)"
    using c'(1) by (auto simp: resume_in_def)
  then show thesis
    by (intro that [OF _ c'(2)]) (use c'(1) r idle ev in \<open>auto simp: world_step_def main_step_def EventHandler_read_def HasReadCoroutine_def Let_def split: sum.splits\<close>)
qed

lemma step_finish:
  assumes laws: "kernel_laws K interest can_watch" and inv: "winv interest w" and c: "running w \<noteq> -1" "pend w (running w) = Some (PendIO fd d tmo)"
    and pc: "\<And>t. pc w \<noteq> Timeouts t"
  obtains w' where "world_step K w (LFinish r) = Inr w'" "winv interest w'" "same_queue w w'" "running w' = running w"
    "pend w' = (pend w)(running w := None)" "retv w' (running w) = Some (sys_value r)"
proof -
  obtain c' where c': "DeleteEvent (sys_epoll_ctl K) fd (dir_event d) (cs w) = Inr c'"
    "winv interest (w\<lparr>cs := SetTimeoutGuard_destruct (running w) tmo c', pend := (pend w)(running w := None)\<rparr>)"
    using finish_ok [OF laws inv refl c(2), of fd d tmo] by auto
  let ?v = "w\<lparr>cs := SetTimeoutGuard_destruct (running w) tmo c', pend := (pend w)(running w := None)\<rparr>"
  have s: "world_step K w (LFinish r) = Inr (?v\<lparr>retv := (retv w)(running w \<mapsto> sys_value r)\<rparr>)"
    using c c'(1) winvD(7) [OF inv] pc by (simp add: world_step_def finish_call_IO)
  show thesis
    by (rule that [OF s]) (use c'(2) DeleteEvent_funcs [OF c'(1)] in \<open>simp_all add: same_queue_def SetTimeoutGuard_destruct_def\<close>)
qed

lemma step_new_running:
  assumes "winv interest w" "running w \<noteq> -1" "pend w (running w) = None"
  shows "world_step K w (LNew f) = Inr (w\<lparr>cs := (cs w)\<lparr>m_coFuncList := m_coFuncList (cs w) @ [f]\<rparr>\<rparr>)"
    "winv interest (w\<lparr>cs := (cs w)\<lparr>m_coFuncList := m_coFuncList (cs w) @ [f]\<rparr>\<rparr>)"
  using assms winvD [OF assms(1)] by (auto simp: world_step_def NewCoroutine_def coroutine_running_def winv_def)

text \<open>A call of \<open>Accept\<close> that returns at once, with a connection or with an error.\<close>

lemma step_accept_returns:
  assumes "running w \<noteq> -1" "pend w (running w) = None" "\<not> accept_waits r"
  shows "world_step K w (accept_call now sp fd r) = Inr (w\<lparr>retv := (retv w)(running w \<mapsto> sys_value r)\<rparr>)"
  using assms by (cases r) (auto simp: world_step_def accept_call_def Accept_def)

section \<open>Accepting\<close>

definition nobody_reads :: "int \<Rightarrow> ('f, 'k) world \<Rightarrow> bool" where
  "nobody_reads fd w \<longleftrightarrow> (\<forall>j p. pend w j = Some p \<longrightarrow> pend_wait p \<noteq> Some (fd, In))"

definition func_of :: "('f, 'k) world \<Rightarrow> int \<Rightarrow> 'f option" where
  "func_of w c = map_option c_func (slot (m_schedule (cs w)) c)"

text \<open>What differs between two states of a coroutine that has gone through the body of the loop: the functions \<open>fs\<close> were queued.\<close>

definition queued :: "'f list \<Rightarrow> ('f, 'k) world \<Rightarrow> ('f, 'k) world \<Rightarrow> bool" where
  "queued fs w w' \<longleftrightarrow> m_coFuncList (cs w') = m_coFuncList (cs w) @ fs \<and> pc w' = pc w \<and> pend w' = pend w \<and>
     m_schedule (cs w') = m_schedule (cs w)"

definition handlers :: "'h \<Rightarrow> u16 \<Rightarrow> sysres list \<Rightarrow> 'h slave_func list" where
  "handlers h port rs = map (\<lambda>x. Handling h (TcpConnector_new x) port) (connections rs)"

lemma handlers_Cons: "handlers h port (r # rs) = handlers h port [r] @ handlers h port rs"
  by (cases r) (simp_all add: handlers_def)

lemma after_accept_queues:
  assumes inv: "winv interest w" "running w \<noteq> -1" "pend w (running w) = None" and h: "m_handleRequest s = Some h"
    and r: "retv w (running w) = Some (sys_value r)" "sysres_ok r"
  obtains w' where "after_accept K s port flags w = Inr w'" "winv interest w'" "queued (handlers h port [r]) w w'"
proof (cases r)
  case (SysOk n)
  let ?f = "Handling h (TcpConnector_new n) port"
  show thesis
    by (rule that [OF _ step_new_running(2) [OF inv, of ?f]])
      (use SysOk r h step_new_running(1) [OF inv, of K ?f] in
        \<open>simp_all add: after_accept_def DoAccept_iter_def SpawnOnNewRequest_def queued_def handlers_def Let_def\<close>)
next
  case (SysErr e)
  show thesis
    by (rule that [OF _ inv(1)]) (use SysErr r in \<open>simp_all add: after_accept_def DoAccept_iter_def queued_def handlers_def\<close>)
qed

text \<open>The loop for results none of which makes it wait: the coroutine keeps running, and the handlers of the connections are queued.\<close>

lemma DoAccept_goes_on:
  assumes laws: "kernel_laws K interest can_watch" and h: "m_handleRequest s = Some h"
  shows "winv interest w \<Longrightarrow> running w \<noteq> -1 \<Longrightarrow> pend w (running w) = None \<Longrightarrow> list_all (\<lambda>r. \<not> accept_waits r \<and> sysres_ok r) rs \<Longrightarrow>
    \<exists>w'. (\<forall>more. DoAccept K now sp s fd port flags (rs @ more) w = DoAccept K now sp s fd port flags more w') \<and>
      winv interest w' \<and> queued (handlers h port rs) w w'"
proof (induction rs arbitrary: w)
  case Nil
  then show ?case by (auto simp: queued_def handlers_def)
next
  case (Cons r rs)
  let ?w = "w\<lparr>retv := (retv w)(running w \<mapsto> sys_value r)\<rparr>"
  have s: "world_step K w (accept_call now sp fd r) = Inr ?w"
    using step_accept_returns [of w r K now sp fd] Cons.prems by simp
  obtain w1 where w1: "after_accept K s port flags ?w = Inr w1" "winv interest w1" "queued (handlers h port [r]) ?w w1"
    by (rule after_accept_queues [OF _ _ _ h, of interest ?w r K port flags]) (use Cons.prems in simp_all)
  have q: "running w1 = running w" "pend w1 = pend w" "queued (handlers h port [r]) w w1"
    using w1(3) by (auto simp: queued_def)
  obtain w' where w': "\<forall>more. DoAccept K now sp s fd port flags (rs @ more) w1 = DoAccept K now sp s fd port flags more w'"
    "winv interest w'" "queued (handlers h port rs) w1 w'"
    using Cons.IH [OF w1(2)] q(1,2) Cons.prems by auto
  have "queued (handlers h port (r # rs)) w w'"
    using q(3) w'(3) by (simp add: queued_def handlers_Cons [of h port r rs])
  then show ?case
    using s w1(1) w' Cons.prems(3) by auto
qed

lemma DoAccept_run:
  assumes laws: "kernel_laws K interest can_watch" and h: "m_handleRequest s = Some h"
    and w: "winv interest w" "running w \<noteq> -1" "pend w (running w) = None" "nobody_reads fd w"
    and rs: "list_all (\<lambda>r. \<not> accept_waits r \<and> sysres_ok r) rs" "accept_waits r'" and ok: "\<And>k. can_watch k fd" "stack_fits sp"
  obtains w' where "DoAccept K now sp s fd port flags (rs @ [r']) w = Inr w'" "winv interest w'" "running w' = -1"
    "pend w' = (pend w)(running w \<mapsto> PendIO fd In (-1))" "pc w' = pc w"
    "m_coFuncList (cs w') = m_coFuncList (cs w) @ handlers h port rs" "func_of w' = func_of w"
proof -
  obtain w1 where w1: "\<forall>more. DoAccept K now sp s fd port flags (rs @ more) w = DoAccept K now sp s fd port flags more w1"
    "winv interest w1" "queued (handlers h port rs) w w1"
    using DoAccept_goes_on [OF laws h w(1-3) rs(1), of now sp fd port flags] by blast
  obtain w' where w': "world_step K w1 (accept_call now sp fd r') = Inr w'" "winv interest w'" "same_queue w1 w'" "running w' = -1"
    "pend w' = (pend w1)(running w1 \<mapsto> PendIO fd In (-1))"
    "\<And>j. map_option c_func (slot (m_schedule (cs w')) j) = map_option c_func (slot (m_schedule (cs w1)) j)"
    by (rule step_accept_blocks [OF laws w1(2) _ _ _ ok rs(2), of now])
      (use w w1(3) in \<open>auto simp: queued_def nobody_reads_def\<close>)
  show thesis
    by (rule that [OF _ w'(2,4)]) (use w1 w' in \<open>auto simp: queued_def same_queue_def func_of_def fun_eq_iff\<close>)
qed

text \<open>The start of a slave brings every listening socket a coroutine that waits for connections.\<close>

definition first_ok :: "sysres list \<Rightarrow> bool" where
  "first_ok rs \<longleftrightarrow> (\<exists>rs0 r'. rs = rs0 @ [r'] \<and> list_all (\<lambda>r. \<not> accept_waits r \<and> sysres_ok r) rs0 \<and> accept_waits r')"

lemma start_run:
  assumes laws: "kernel_laws K interest can_watch" and h: "m_handleRequest s = Some h" and sp: "stack_fits sp"
  shows "winv interest w \<Longrightarrow> running w = -1 \<Longrightarrow> pc w = NewFuncs 0 \<Longrightarrow> distinct (map fst ps) \<Longrightarrow>
    list_all (\<lambda>p. nobody_reads (fst p) w \<and> (\<forall>k. can_watch k (fst p)) \<and> first_ok (firsts (fst p))) ps \<Longrightarrow>
    \<exists>w'. slave_start K now sp s flags firsts ps w = Inr w' \<and>
      winv interest w' \<and> running w' = -1 \<and> pc w' = NewFuncs 0 \<and>
      (\<forall>c. pend w c \<noteq> None \<longrightarrow> pend w' c = pend w c \<and> func_of w' c = func_of w c) \<and>
      (\<forall>(fd, port) \<in> set ps. \<exists>c. pend w' c = Some (PendIO fd In (-1)) \<and> func_of w' c = Some (Accepting fd port))"
proof (induction ps arbitrary: w)
  case (Cons p ps)
  obtain fd port where p: "p = (fd, port)" by (cases p)
  obtain w1 where w1: "world_step K w (LNew (Accepting fd port)) = Inr w1" "winv interest w1" "same_queue w w1" "running w1 \<noteq> -1"
    "pend w (running w1) = None" "pend w1 = pend w" "\<exists>C. slot (m_schedule (cs w1)) (running w1) = Some C \<and> c_func C = Accepting fd port"
    "\<And>j. j \<noteq> running w1 \<Longrightarrow> slot (m_schedule (cs w1)) j = slot (m_schedule (cs w)) j"
    by (rule step_new_idle [OF Cons.prems(1-3), of K "Accepting fd port"]) blast
  obtain rs r' where f: "firsts fd = rs @ [r']" "list_all (\<lambda>r. \<not> accept_waits r \<and> sysres_ok r) rs" "accept_waits r'"
    using Cons.prems(5) p by (auto simp: first_ok_def)
  obtain w2 where w2: "DoAccept K now sp s fd port flags (rs @ [r']) w1 = Inr w2" "winv interest w2" "running w2 = -1"
    "pend w2 = (pend w1)(running w1 \<mapsto> PendIO fd In (-1))" "pc w2 = pc w1" "func_of w2 = func_of w1"
    by (rule DoAccept_run [OF laws h w1(2,4) _ _ f(2,3) _ sp, of fd now port flags])
      (use w1(5,6) Cons.prems(5) p in \<open>auto simp: nobody_reads_def\<close>)
  have "func_of w1 c = func_of w c" if "pend w c \<noteq> None" for c
    using w1(8) [of c] w1(5) that by (cases "c = running w1") (simp_all add: func_of_def)
  with w1(7) have f1: "func_of w1 (running w1) = Some (Accepting fd port)" "\<And>c. pend w c \<noteq> None \<Longrightarrow> func_of w1 c = func_of w c"
    by (auto simp: func_of_def)
  have "list_all (\<lambda>p. nobody_reads (fst p) w2 \<and> (\<forall>k. can_watch k (fst p)) \<and> first_ok (firsts (fst p))) ps"
    using Cons.prems(4,5) p w2(4) w1(6) by (auto simp: list_all_iff nobody_reads_def split: if_splits)
  from Cons.IH [OF w2(2,3) _ _ this] obtain w' where w': "slave_start K now sp s flags firsts ps w2 = Inr w'"
      "winv interest w'" "running w' = -1" "pc w' = NewFuncs 0"
      "\<And>c. pend w2 c \<noteq> None \<Longrightarrow> pend w' c = pend w2 c \<and> func_of w' c = func_of w2 c"
      "\<forall>(fd, port) \<in> set ps. \<exists>c. pend w' c = Some (PendIO fd In (-1)) \<and> func_of w' c = Some (Accepting fd port)"
    using Cons.prems(3,4) w1(3) w2(5) by (auto simp: same_queue_def)
  have "pend w' (running w1) = Some (PendIO fd In (-1))" "func_of w' (running w1) = Some (Accepting fd port)"
    using w'(5) [of "running w1"] w2(4,6) f1(1) by simp_all
  moreover have "pend w' c = pend w c \<and> func_of w' c = func_of w c" if "pend w c \<noteq> None" for c
    using w'(5) [of c] that w1(5,6) w2(4,6) f1(2) [OF that] by auto
  ultimately show ?case
    using w1(1,3) w2(1) w' p f(1) by (auto simp: same_queue_def)
qed simp

text \<open>The sockets of a server: one port for each, and \<open>Bind\<close> with a new descriptor keeps it so.\<close>

definition server_ok :: "'h TcpServer \<Rightarrow> bool" where
  "server_ok s \<longleftrightarrow> length (m_ports s) = length (m_listenFd s) \<and> distinct (m_listenFd s)"

lemma server_ok_new: "server_ok TcpServer_new"
  by (simp add: server_ok_def TcpServer_new_def)

lemma server_ok_Bind: "server_ok s \<Longrightarrow> fd \<notin> set (m_listenFd s) \<Longrightarrow> server_ok (snd (Bind fd r port s))"
  by (simp add: server_ok_def Bind_def)

lemma SlaveRun_zip: "server_ok s \<Longrightarrow> SlaveRun s = zip (m_listenFd s) (m_ports s)"
  unfolding SlaveRun_def by (rule nth_equalityI) (simp_all add: server_ok_def)

lemma slave_listens:
  assumes "kernel_laws K interest can_watch" "length mem = STACK_SIZE" "interest k = Map.empty" "m_handleRequest s = Some h" "server_ok s"
    and "stack_fits sp" "\<And>fd k. fd \<in> set (m_listenFd s) \<Longrightarrow> can_watch k fd" "\<And>fd. first_ok (firsts fd)"
  shows "\<exists>w. slave_start K now sp s flags firsts (SlaveRun s) (world_init mem k) = Inr w \<and> winv interest w \<and> running w = -1 \<and> pc w = NewFuncs 0 \<and>
    (\<forall>(fd, port) \<in> set (zip (m_listenFd s) (m_ports s)). \<exists>c. pend w c = Some (PendIO fd In (-1)) \<and> func_of w c = Some (Accepting fd port))"
proof -
  let ?w = "world_init mem k" and ?ps = "zip (m_listenFd s) (m_ports s)"
  have r: "running ?w = -1" "pc ?w = NewFuncs 0"
    by (simp_all add: world_init_def CoSocket_init_def coroutine_open_def)
  have l: "list_all (\<lambda>p. nobody_reads (fst p) ?w \<and> (\<forall>k. can_watch k (fst p)) \<and> first_ok (firsts (fst p))) ?ps"
    using assms(7,8) by (auto simp: world_init_def nobody_reads_def list_all_iff dest: set_zip_leftD)
  have d: "distinct (map fst ?ps)"
    using assms(5) by (simp add: server_ok_def)
  show ?thesis
    using start_run [OF assms(1,4,6) winv_init [of mem interest k, OF assms(2,3)] r d l, of now flags] SlaveRun_zip [OF assms(5)]
    by auto
qed

text \<open>
  C8: A slave of a server takes the connections that are there. Whatever the coroutines of the slave have done so far with the rules of the event loop
  kept, when the kernel reports a listening socket, the coroutine that waits in \<open>Accept\<close> is resumed and goes round its loop until \<open>accept\<close> would block:
  for every result of \<open>accept\<close> that is a descriptor, in this order, the handler is queued once with a connector for that descriptor, for every error
  nothing is queued, and then the coroutine waits for the next connections as before. The listening socket is assumed to stay registrable, and the
  results of \<open>accept\<close> to be descriptors or errnos. And the pass of the loop over the queue starts a new coroutine for each function that is queued.
\<close>

theorem slave_accepts:
  assumes "kernel_laws K interest can_watch" "length mem = STACK_SIZE" "interest k = Map.empty" "m_handleRequest s = Some h"
    and w: "follows_rules can_watch K (world_init mem k) ls" "world_run K (world_init mem k) ls = Inr w" "running w = -1"
    and ok: "\<And>k. can_watch k fd" "stack_fits sp"
  shows "(pc w = Events ((fd, ev) # l) \<and> ev AND EPOLLIN \<noteq> 0 \<and> pend w c = Some (PendIO fd In (-1)) \<and>
        sysres_ok r \<and> list_all (\<lambda>r. \<not> accept_waits r \<and> sysres_ok r) rs \<and> accept_waits r' \<longrightarrow>
      (\<exists>w1 w'. world_step K w (LMain (Inr []) now) = Inr w1 \<and> running w1 = c \<and>
        DoAccept_resumed K now sp s fd port flags r (rs @ [r']) w1 = Inr w' \<and>
        running w' = -1 \<and> pend w' = pend w \<and> pc w' = EventWrite fd ev l \<and>
        m_coFuncList (cs w') = m_coFuncList (cs w) @ map (\<lambda>x. Handling h (TcpConnector_new x) port) (connections (r # rs)))) \<and>
    (pc w = NewFuncs i \<and> i < length (m_coFuncList (cs w)) \<longrightarrow>
      (\<exists>w'. world_step K w (LMain (Inr []) now) = Inr w' \<and> running w' \<noteq> -1 \<and> pend w (running w') = None \<and> pc w' = NewFuncs (Suc i) \<and>
        func_of w' (running w') = Some (m_coFuncList (cs w) ! i)))"
proof (intro conjI impI)
  have inv: "winv interest w" by (rule reachable_winv [OF assms(1-3) w(1,2)])
  assume a: "pc w = Events ((fd, ev) # l) \<and> ev AND EPOLLIN \<noteq> 0 \<and> pend w c = Some (PendIO fd In (-1)) \<and>
    sysres_ok r \<and> list_all (\<lambda>r. \<not> accept_waits r \<and> sysres_ok r) rs \<and> accept_waits r'"
  obtain w1 where w1: "world_step K w (LMain (Inr []) now) = Inr w1" "winv interest w1" "running w1 = c" "pend w1 = pend w"
    "pc w1 = EventWrite fd ev l" "m_coFuncList (cs w1) = m_coFuncList (cs w)"
    by (rule step_event [OF inv w(3), of fd ev l c "-1" K "[]" now]) (use a in auto)
  note reg = reg_ok_iff [OF winvD(3) [OF inv], of fd In]
  have c: "c \<noteq> -1" "m_readCoId (m_coIdMap (cs w) fd) = c"
    using reg [of c] a by auto
  have only: "j = c" if "pend w j = Some p" "pend_wait p = Some (fd, In)" for j p
    using reg [of j] that c(2) by auto
  obtain w2 where w2: "world_step K w1 (LFinish r) = Inr w2" "winv interest w2" "same_queue w1 w2" "running w2 = running w1"
    "pend w2 = (pend w1)(running w1 := None)" "retv w2 (running w1) = Some (sys_value r)"
    by (rule step_finish [OF assms(1) w1(2), of fd In "-1" r]) (use a c w1 in auto)
  obtain w3 where w3: "after_accept K s port flags w2 = Inr w3" "winv interest w3" "queued (handlers h port [r]) w2 w3"
    by (rule after_accept_queues [OF w2(2) _ _ assms(4), of r K port flags]) (use w1 w2 c a in auto)
  obtain w' where w': "DoAccept K now sp s fd port flags (rs @ [r']) w3 = Inr w'" "running w' = -1"
    "pend w' = (pend w3)(running w3 \<mapsto> PendIO fd In (-1))" "pc w' = pc w3" "m_coFuncList (cs w') = m_coFuncList (cs w3) @ handlers h port rs"
    by (rule DoAccept_run [OF assms(1,4) w3(2) _ _ _ _ _ ok, of rs r' now port flags])
      (use a w1(3,4) w2(4,5) w3(3) c(1) only in \<open>auto simp: queued_def nobody_reads_def split: if_splits\<close>)
  have "pend w' = pend w" "running w3 = c"
    using a w1(3,4) w2(4,5) w3(3) w'(3) by (auto simp: queued_def fun_upd_idem)
  then show "\<exists>w1 w'. world_step K w (LMain (Inr []) now) = Inr w1 \<and> running w1 = c \<and>
        DoAccept_resumed K now sp s fd port flags r (rs @ [r']) w1 = Inr w' \<and>
        running w' = -1 \<and> pend w' = pend w \<and> pc w' = EventWrite fd ev l \<and>
        m_coFuncList (cs w') = m_coFuncList (cs w) @ map (\<lambda>x. Handling h (TcpConnector_new x) port) (connections (r # rs))"
    using w1 w2 w3 w' by (auto simp: DoAccept_resumed_def queued_def same_queue_def handlers_Cons [of h port r rs] simp flip: handlers_def)
next
  have inv: "winv interest w" by (rule reachable_winv [OF assms(1-3) w(1,2)])
  assume a: "pc w = NewFuncs i \<and> i < length (m_coFuncList (cs w))"
  obtain c' where c': "NewCoroutine (m_coFuncList (cs w) ! i) (cs w) = Inr c'"
    using spawn_ok [OF inv w(3), of "NewFuncs (Suc i)"] a by auto
  show "\<exists>w'. world_step K w (LMain (Inr []) now) = Inr w' \<and> running w' \<noteq> -1 \<and> pend w (running w') = None \<and> pc w' = NewFuncs (Suc i) \<and>
        func_of w' (running w') = Some (m_coFuncList (cs w) ! i)"
    using NewCoroutine_starts [OF inv w(3) c'] c' a w(3)
    by (auto simp: world_step_def main_step_def RunNewCoFunc_iter_def func_of_def)
qed

text \<open>A slave whose first coroutine waits for connections at socket 3, and that learns of connections there.\<close>

definition one_socket :: "unit TcpServer" where
  "one_socket = SetRequestHandler () (snd (Bind 3 0 80 TcpServer_new))"

definition one_socket_labels :: "unit slave_func label list" where
  "one_socket_labels = [LNew (Accepting 3 80), accept_call (Timestamp 3 0) (20, 9) 3 (SysErr EAGAIN),
     LMain (Inr []) (Timestamp 3 0), LMain (Inr []) (Timestamp 3 0), LMain (Inr [(3, EPOLLIN)]) (Timestamp 3 0)]"

lemma one_socket_handler: "m_handleRequest one_socket = Some ()"
  by (simp add: one_socket_def SetRequestHandler_def)

text \<open>A kernel that never runs out of anything.\<close>

definition free_ctl :: "(int \<rightharpoonup> u32) epoll_ctl" where
  "free_ctl m operation fd ev = (let ((m', _), r) = table_ctl (m, []) operation fd ev in (m', r))"

definition free_kernel :: "(int \<rightharpoonup> u32) kernel" where
  "free_kernel = \<lparr>sys_epoll_ctl = free_ctl, sys_close = (\<lambda>fd m. m(fd := None)), sys_other = (\<lambda>n m. m)\<rparr>"

lemma free_kernel_laws: "kernel_laws free_kernel (\<lambda>m. m) (\<lambda>m fd. True)"
  by (auto simp: kernel_laws_def free_kernel_def epoll_laws_def free_ctl_def)

lemma one_socket_event:
  "follows_rules (\<lambda>m fd. True) free_kernel (world_init zero_stack Map.empty) one_socket_labels \<and>
   (\<exists>w. world_run free_kernel (world_init zero_stack Map.empty) one_socket_labels = Inr w \<and>
     pend w 0 = Some (PendIO 3 In (-1)) \<and> running w = -1 \<and> pc w = Events [(3, EPOLLIN)] \<and> m_coFuncList (cs w) = [])"
  by (simp add: one_socket_labels_def accept_call_def free_kernel_def free_ctl_def Accept_def demo_open demo_probe demo_stack demo_eval
      del: bind_res_Inr assert_that_Inr)

theorem slave_accepts_witness:
  "\<exists>w w1 w'. world_run free_kernel (world_init zero_stack Map.empty) one_socket_labels = Inr w \<and>
     world_step free_kernel w (LMain (Inr []) (Timestamp 3 0)) = Inr w1 \<and>
     DoAccept_resumed free_kernel (Timestamp 3 0) (20, 9) one_socket 3 80 (\<lambda>_. 0) (SysOk 7) [SysErr EMFILE, SysOk 8, SysErr EAGAIN] w1 = Inr w' \<and>
     m_coFuncList (cs w') = [Handling () (TcpConnector_new 7) 80, Handling () (TcpConnector_new 8) 80] \<and>
     pend w' 0 = Some (PendIO 3 In (-1))"
proof -
  obtain w where f: "follows_rules (\<lambda>m fd. True) free_kernel (world_init zero_stack Map.empty) one_socket_labels"
    and w: "world_run free_kernel (world_init zero_stack Map.empty) one_socket_labels = Inr w"
    "pend w 0 = Some (PendIO 3 In (-1))" "running w = -1" "pc w = Events [(3, EPOLLIN)]" "m_coFuncList (cs w) = []"
    using one_socket_event by blast
  show ?thesis
    using slave_accepts [OF free_kernel_laws _ _ one_socket_handler f w(1,3), of "(20, 9)" 3 EPOLLIN "[]" 0 "SysOk 7" "[SysErr EMFILE, SysOk 8]"
        "SysErr EAGAIN" "Timestamp 3 0" 80 "\<lambda>_. 0"] w
    by (auto simp: stack_fits_def demo_stack errno_defs)
qed

text \<open>
  An error that \<open>Accept\<close> returns at once, as \<open>EMFILE\<close> when the process has no descriptor left, does not make \<open>DoAccept\<close> wait: as long as it lasts, the
  loop goes round and no other coroutine gets a turn.
\<close>

lemma accept_error_spins:
  assumes "kernel_laws K interest can_watch" "m_handleRequest s = Some h" "winv interest w" "running w \<noteq> -1" "pend w (running w) = None"
  shows "\<exists>w'. DoAccept K now sp s fd port flags (replicate n (SysErr EMFILE)) w = Inr w' \<and> running w' = running w \<and>
    m_coFuncList (cs w') = m_coFuncList (cs w)"
proof -
  have rs: "list_all (\<lambda>r. \<not> accept_waits r \<and> sysres_ok r) (replicate n (SysErr EMFILE))"
    by (simp add: list_all_iff errno_defs)
  have c: "connections (replicate n (SysErr EMFILE)) = []"
    by (induction n) simp_all
  obtain w' where "\<forall>more. DoAccept K now sp s fd port flags (replicate n (SysErr EMFILE) @ more) w = DoAccept K now sp s fd port flags more w'"
    "queued (handlers h port (replicate n (SysErr EMFILE))) w w'"
    using DoAccept_goes_on [OF assms rs, of now sp fd port flags] by blast
  then show ?thesis
    by (intro exI [of _ w']) (auto simp: queued_def handlers_def c dest: spec [of _ "[]"])
qed

end
