(* ===== verification/Http_Chars.thy ===== *)
theory Http_Chars
  imports Co_Prelude
begin

text \<open>
  The tables, enumerations and character classes of \<open>3rd/http-parser/http_parser.c\<close> and
  \<open>http_parser.h\<close>, for the build of the repository (\<open>HTTP_PARSER_STRICT\<close> is 1), and the
  transition function of URLs, \<open>parse_url_char\<close>. Characters are bytes; the comparisons of the
  code come out the same for signed and for unsigned characters.
\<close>

section \<open>Enumerations\<close>

datatype (plugins only: code) state =
    s_dead | s_start_req_or_res | s_res_or_resp_H | s_start_res
  | s_res_H | s_res_HT | s_res_HTT | s_res_HTTP
  | s_res_first_http_major | s_res_http_major | s_res_first_http_minor | s_res_http_minor
  | s_res_first_status_code | s_res_status_code | s_res_status_start | s_res_status
  | s_res_line_almost_done | s_start_req | s_req_method | s_req_spaces_before_url
  | s_req_schema | s_req_schema_slash | s_req_schema_slash_slash | s_req_server_start
  | s_req_server | s_req_server_with_at | s_req_path | s_req_query_string_start
  | s_req_query_string | s_req_fragment_start | s_req_fragment | s_req_http_start
  | s_req_http_H | s_req_http_HT | s_req_http_HTT | s_req_http_HTTP
  | s_req_first_http_major | s_req_http_major | s_req_first_http_minor | s_req_http_minor
  | s_req_line_almost_done | s_header_field_start | s_header_field | s_header_value_discard_ws
  | s_header_value_discard_ws_almost_done | s_header_value_discard_lws | s_header_value_start | s_header_value
  | s_header_value_lws | s_header_almost_done | s_chunk_size_start | s_chunk_size
  | s_chunk_parameters | s_chunk_size_almost_done | s_headers_almost_done | s_headers_done
  | s_chunk_data | s_chunk_data_almost_done | s_chunk_data_done | s_body_identity
  | s_body_identity_eof | s_message_done

text \<open>The order of the enumeration is used once: the states up to \<open>s_headers_done\<close> read the header.\<close>

definition PARSING_HEADER :: "state \<Rightarrow> bool" where
  "PARSING_HEADER s \<longleftrightarrow>
     s \<notin> {s_chunk_data, s_chunk_data_almost_done, s_chunk_data_done, s_body_identity,
           s_body_identity_eof, s_message_done}"

datatype (plugins only: code) header_states =
    h_general | h_C | h_CO
  | h_CON | h_matching_connection | h_matching_proxy_connection
  | h_matching_content_length | h_matching_transfer_encoding | h_matching_upgrade
  | h_connection | h_content_length | h_transfer_encoding
  | h_upgrade | h_matching_transfer_encoding_chunked | h_matching_connection_token_start
  | h_matching_connection_keep_alive | h_matching_connection_close | h_matching_connection_upgrade
  | h_matching_connection_token | h_transfer_encoding_chunked | h_connection_keep_alive
  | h_connection_close | h_connection_upgrade

datatype (plugins only: code) http_method =
    HTTP_DELETE | HTTP_GET | HTTP_HEAD | HTTP_POST | HTTP_PUT
  | HTTP_CONNECT | HTTP_OPTIONS | HTTP_TRACE | HTTP_COPY | HTTP_LOCK
  | HTTP_MKCOL | HTTP_MOVE | HTTP_PROPFIND | HTTP_PROPPATCH | HTTP_SEARCH
  | HTTP_UNLOCK | HTTP_BIND | HTTP_REBIND | HTTP_UNBIND | HTTP_ACL
  | HTTP_REPORT | HTTP_MKACTIVITY | HTTP_CHECKOUT | HTTP_MERGE | HTTP_MSEARCH
  | HTTP_NOTIFY | HTTP_SUBSCRIBE | HTTP_UNSUBSCRIBE | HTTP_PATCH | HTTP_PURGE
  | HTTP_MKCALENDAR | HTTP_LINK | HTTP_UNLINK

datatype http_parser_type = HTTP_REQUEST | HTTP_RESPONSE | HTTP_BOTH

datatype (plugins only: code) http_errno =
    HPE_OK | HPE_CB_message_begin | HPE_CB_url | HPE_CB_header_field
  | HPE_CB_header_value | HPE_CB_headers_complete | HPE_CB_body | HPE_CB_message_complete
  | HPE_CB_status | HPE_CB_chunk_header | HPE_CB_chunk_complete | HPE_INVALID_EOF_STATE
  | HPE_HEADER_OVERFLOW | HPE_CLOSED_CONNECTION | HPE_INVALID_VERSION | HPE_INVALID_STATUS
  | HPE_INVALID_METHOD | HPE_INVALID_URL | HPE_INVALID_HOST | HPE_INVALID_PORT
  | HPE_INVALID_PATH | HPE_INVALID_QUERY_STRING | HPE_INVALID_FRAGMENT | HPE_LF_EXPECTED
  | HPE_INVALID_HEADER_TOKEN | HPE_INVALID_CONTENT_LENGTH | HPE_UNEXPECTED_CONTENT_LENGTH | HPE_INVALID_CHUNK_SIZE
  | HPE_INVALID_CONSTANT | HPE_INVALID_INTERNAL_STATE | HPE_STRICT | HPE_PAUSED
  | HPE_UNKNOWN

definition F_CHUNKED :: u8 where "F_CHUNKED = 1"
definition F_CONNECTION_KEEP_ALIVE :: u8 where "F_CONNECTION_KEEP_ALIVE = 2"
definition F_CONNECTION_CLOSE :: u8 where "F_CONNECTION_CLOSE = 4"
definition F_CONNECTION_UPGRADE :: u8 where "F_CONNECTION_UPGRADE = 8"
definition F_TRAILING :: u8 where "F_TRAILING = 16"
definition F_UPGRADE :: u8 where "F_UPGRADE = 32"
definition F_SKIPBODY :: u8 where "F_SKIPBODY = 64"
definition F_CONTENTLENGTH :: u8 where "F_CONTENTLENGTH = 128"

lemmas flag_defs = F_CHUNKED_def F_CONNECTION_KEEP_ALIVE_def F_CONNECTION_CLOSE_def F_CONNECTION_UPGRADE_def F_TRAILING_def F_UPGRADE_def F_SKIPBODY_def F_CONTENTLENGTH_def

definition HTTP_MAX_HEADER_SIZE :: nat where
  "HTTP_MAX_HEADER_SIZE = 80 * 1024"

definition ULLONG_MAX :: u64 where
  "ULLONG_MAX = -1"

section \<open>Strings and tables\<close>

abbreviation ascii :: "char \<Rightarrow> u8" where
  "ascii c \<equiv> of_char c"

definition str :: "string \<Rightarrow> bytes" where
  "str s = map of_char s"

text \<open>Reading a C string: the byte after the last one is 0.\<close>

definition cstr_at :: "bytes \<Rightarrow> nat \<Rightarrow> u8" where
  "cstr_at s i = (if i < length s then s ! i else 0)"

definition PROXY_CONNECTION :: bytes where "PROXY_CONNECTION = str ''proxy-connection''"
definition CONNECTION :: bytes where "CONNECTION = str ''connection''"
definition CONTENT_LENGTH :: bytes where "CONTENT_LENGTH = str ''content-length''"
definition TRANSFER_ENCODING :: bytes where "TRANSFER_ENCODING = str ''transfer-encoding''"
definition UPGRADE :: bytes where "UPGRADE = str ''upgrade''"
definition CHUNKED :: bytes where "CHUNKED = str ''chunked''"
definition KEEP_ALIVE :: bytes where "KEEP_ALIVE = str ''keep-alive''"
definition CLOSE :: bytes where "CLOSE = str ''close''"

fun method_string :: "http_method \<Rightarrow> string" where
  "method_string HTTP_DELETE = ''DELETE''"
| "method_string HTTP_GET = ''GET''"
| "method_string HTTP_HEAD = ''HEAD''"
| "method_string HTTP_POST = ''POST''"
| "method_string HTTP_PUT = ''PUT''"
| "method_string HTTP_CONNECT = ''CONNECT''"
| "method_string HTTP_OPTIONS = ''OPTIONS''"
| "method_string HTTP_TRACE = ''TRACE''"
| "method_string HTTP_COPY = ''COPY''"
| "method_string HTTP_LOCK = ''LOCK''"
| "method_string HTTP_MKCOL = ''MKCOL''"
| "method_string HTTP_MOVE = ''MOVE''"
| "method_string HTTP_PROPFIND = ''PROPFIND''"
| "method_string HTTP_PROPPATCH = ''PROPPATCH''"
| "method_string HTTP_SEARCH = ''SEARCH''"
| "method_string HTTP_UNLOCK = ''UNLOCK''"
| "method_string HTTP_BIND = ''BIND''"
| "method_string HTTP_REBIND = ''REBIND''"
| "method_string HTTP_UNBIND = ''UNBIND''"
| "method_string HTTP_ACL = ''ACL''"
| "method_string HTTP_REPORT = ''REPORT''"
| "method_string HTTP_MKACTIVITY = ''MKACTIVITY''"
| "method_string HTTP_CHECKOUT = ''CHECKOUT''"
| "method_string HTTP_MERGE = ''MERGE''"
| "method_string HTTP_MSEARCH = ''M-SEARCH''"
| "method_string HTTP_NOTIFY = ''NOTIFY''"
| "method_string HTTP_SUBSCRIBE = ''SUBSCRIBE''"
| "method_string HTTP_UNSUBSCRIBE = ''UNSUBSCRIBE''"
| "method_string HTTP_PATCH = ''PATCH''"
| "method_string HTTP_PURGE = ''PURGE''"
| "method_string HTTP_MKCALENDAR = ''MKCALENDAR''"
| "method_string HTTP_LINK = ''LINK''"
| "method_string HTTP_UNLINK = ''UNLINK''"

definition http_method_str :: "http_method \<Rightarrow> bytes" where
  "http_method_str m = str (method_string m)"

text \<open>The lower-case character of a token character, 0 for the others.\<close>

definition tokens :: "u8 list" where
  "tokens =
    [0, 0, 0, 0, 0, 0, 0, 0, 0, 0, 0, 0, 0, 0, 0, 0,
     0, 0, 0, 0, 0, 0, 0, 0, 0, 0, 0, 0, 0, 0, 0, 0,
     0, 33, 0, 35, 36, 37, 38, 39, 0, 0, 42, 43, 0, 45, 46, 0,
     48, 49, 50, 51, 52, 53, 54, 55, 56, 57, 0, 0, 0, 0, 0, 0,
     0, 97, 98, 99, 100, 101, 102, 103, 104, 105, 106, 107, 108, 109, 110, 111,
     112, 113, 114, 115, 116, 117, 118, 119, 120, 121, 122, 0, 0, 0, 94, 95,
     96, 97, 98, 99, 100, 101, 102, 103, 104, 105, 106, 107, 108, 109, 110, 111,
     112, 113, 114, 115, 116, 117, 118, 119, 120, 121, 122, 0, 124, 0, 126, 0] @ replicate 128 0"

definition unhex :: "int list" where
  "unhex =
    [-1, -1, -1, -1, -1, -1, -1, -1, -1, -1, -1, -1, -1, -1, -1, -1,
     -1, -1, -1, -1, -1, -1, -1, -1, -1, -1, -1, -1, -1, -1, -1, -1,
     -1, -1, -1, -1, -1, -1, -1, -1, -1, -1, -1, -1, -1, -1, -1, -1,
     0, 1, 2, 3, 4, 5, 6, 7, 8, 9, -1, -1, -1, -1, -1, -1,
     -1, 10, 11, 12, 13, 14, 15, -1, -1, -1, -1, -1, -1, -1, -1, -1,
     -1, -1, -1, -1, -1, -1, -1, -1, -1, -1, -1, -1, -1, -1, -1, -1,
     -1, 10, 11, 12, 13, 14, 15, -1, -1, -1, -1, -1, -1, -1, -1, -1,
     -1, -1, -1, -1, -1, -1, -1, -1, -1, -1, -1, -1, -1, -1, -1, -1] @ replicate 128 0"

definition normal_url_char :: "u8 list" where
  "normal_url_char =
    [0, 0, 0, 0, 246, 255, 255, 127, 255, 255, 255, 255, 255, 255, 255, 127,
     0, 0, 0, 0, 0, 0, 0, 0, 0, 0, 0, 0, 0, 0, 0, 0]"

definition BIT_AT :: "u8 list \<Rightarrow> u8 \<Rightarrow> bool" where
  "BIT_AT a i \<longleftrightarrow> bit (a ! (unat i div 8)) (unat i mod 8)"

section \<open>Character classes\<close>

definition CR :: u8 where "CR = 13"
definition LF :: u8 where "LF = 10"

definition LOWER :: "u8 \<Rightarrow> u8" where
  "LOWER c = c OR 0x20"

definition IS_ALPHA :: "u8 \<Rightarrow> bool" where
  "IS_ALPHA c \<longleftrightarrow> LOWER c \<ge> ascii CHR ''a'' \<and> LOWER c \<le> ascii CHR ''z''"

definition IS_NUM :: "u8 \<Rightarrow> bool" where
  "IS_NUM c \<longleftrightarrow> c \<ge> ascii CHR ''0'' \<and> c \<le> ascii CHR ''9''"

definition IS_ALPHANUM :: "u8 \<Rightarrow> bool" where
  "IS_ALPHANUM c \<longleftrightarrow> IS_ALPHA c \<or> IS_NUM c"

definition IS_HEX :: "u8 \<Rightarrow> bool" where
  "IS_HEX c \<longleftrightarrow> IS_NUM c \<or> LOWER c \<ge> ascii CHR ''a'' \<and> LOWER c \<le> ascii CHR ''f''"

definition IS_MARK :: "u8 \<Rightarrow> bool" where
  "IS_MARK c \<longleftrightarrow> c = ascii CHR ''-'' \<or> c = ascii CHR ''_'' \<or> c = ascii CHR ''.'' \<or> c = ascii CHR ''!'' \<or>
     c = ascii CHR ''~'' \<or> c = ascii CHR ''*'' \<or> c = ascii CHR 0x27 \<or> c = ascii CHR ''('' \<or> c = ascii CHR '')''"

definition IS_USERINFO_CHAR :: "u8 \<Rightarrow> bool" where
  "IS_USERINFO_CHAR c \<longleftrightarrow> IS_ALPHANUM c \<or> IS_MARK c \<or> c = ascii CHR ''%'' \<or> c = ascii CHR '';'' \<or>
     c = ascii CHR '':'' \<or> c = ascii CHR ''&'' \<or> c = ascii CHR ''='' \<or> c = ascii CHR ''+'' \<or> c = ascii CHR ''$'' \<or> c = ascii CHR '',''"

definition TOKEN :: "u8 \<Rightarrow> u8" where
  "TOKEN c = tokens ! unat c"

definition IS_URL_CHAR :: "u8 \<Rightarrow> bool" where
  "IS_URL_CHAR c \<longleftrightarrow> BIT_AT normal_url_char c"

definition IS_HOST_CHAR :: "u8 \<Rightarrow> bool" where
  "IS_HOST_CHAR c \<longleftrightarrow> IS_ALPHANUM c \<or> c = ascii CHR ''.'' \<or> c = ascii CHR ''-''"

definition IS_HEADER_CHAR :: "u8 \<Rightarrow> bool" where
  "IS_HEADER_CHAR ch \<longleftrightarrow> ch = CR \<or> ch = LF \<or> ch = 9 \<or> ch > 31 \<and> ch \<noteq> 127"

definition digit :: "u8 \<Rightarrow> nat" where
  "digit ch = unat (ch - ascii CHR ''0'')"

section \<open>The URL automaton\<close>

text \<open>\<open>url_server\<close> is the code that \<open>s_req_server_with_at\<close> falls through to.\<close>

definition url_server :: "u8 \<Rightarrow> state" where
  "url_server ch =
     (if ch = ascii CHR ''/'' then s_req_path
      else if ch = ascii CHR ''?'' then s_req_query_string_start
      else if ch = ascii CHR ''@'' then s_req_server_with_at
      else if IS_USERINFO_CHAR ch \<or> ch = ascii CHR ''['' \<or> ch = ascii CHR '']'' then s_req_server
      else s_dead)"

definition parse_url_char :: "state \<Rightarrow> u8 \<Rightarrow> state" where
  "parse_url_char s ch =
     (if ch = ascii CHR '' '' \<or> ch = CR \<or> ch = LF then s_dead
      else if ch = 9 \<or> ch = 12 then s_dead
      else
        (case s of
           s_req_spaces_before_url \<Rightarrow>
             if ch = ascii CHR ''/'' \<or> ch = ascii CHR ''*'' then s_req_path
             else if IS_ALPHA ch then s_req_schema
             else s_dead
         | s_req_schema \<Rightarrow>
             if IS_ALPHA ch then s
             else if ch = ascii CHR '':'' then s_req_schema_slash
             else s_dead
         | s_req_schema_slash \<Rightarrow> if ch = ascii CHR ''/'' then s_req_schema_slash_slash else s_dead
         | s_req_schema_slash_slash \<Rightarrow> if ch = ascii CHR ''/'' then s_req_server_start else s_dead
         | s_req_server_with_at \<Rightarrow> if ch = ascii CHR ''@'' then s_dead else url_server ch
         | s_req_server_start \<Rightarrow> url_server ch
         | s_req_server \<Rightarrow> url_server ch
         | s_req_path \<Rightarrow>
             if IS_URL_CHAR ch then s
             else if ch = ascii CHR ''?'' then s_req_query_string_start
             else if ch = ascii CHR ''#'' then s_req_fragment_start
             else s_dead
         | s_req_query_string_start \<Rightarrow>
             if IS_URL_CHAR ch then s_req_query_string
             else if ch = ascii CHR ''?'' then s_req_query_string
             else if ch = ascii CHR ''#'' then s_req_fragment_start
             else s_dead
         | s_req_query_string \<Rightarrow>
             if IS_URL_CHAR ch then s_req_query_string
             else if ch = ascii CHR ''?'' then s_req_query_string
             else if ch = ascii CHR ''#'' then s_req_fragment_start
             else s_dead
         | s_req_fragment_start \<Rightarrow>
             if IS_URL_CHAR ch then s_req_fragment
             else if ch = ascii CHR ''?'' then s_req_fragment
             else if ch = ascii CHR ''#'' then s
             else s_dead
         | s_req_fragment \<Rightarrow>
             if IS_URL_CHAR ch then s
             else if ch = ascii CHR ''?'' \<or> ch = ascii CHR ''#'' then s
             else s_dead
         | _ \<Rightarrow> s_dead))"

text \<open>The states inside a URL; the automaton stays among them or fails.\<close>

definition url_states :: "state set" where
  "url_states = {s_req_schema, s_req_schema_slash, s_req_schema_slash_slash, s_req_server_start,
     s_req_server, s_req_server_with_at, s_req_path, s_req_query_string_start,
     s_req_query_string, s_req_fragment_start, s_req_fragment}"

lemma parse_url_char_states: "parse_url_char s ch \<in> insert s_dead url_states"
  by (cases s) (simp_all add: parse_url_char_def url_server_def url_states_def)

end
