(* ===== verification/Http_Exec.thy ===== *)
theory Http_Exec
  imports Http_Chars
begin

text \<open>
  \<open>http_parser_execute\<close> of \<open>3rd/http-parser/http_parser.c\<close>: the streaming HTTP parser. The local
  variables of the function are the record \<open>exec\<close>, the pointer \<open>p\<close> is an offset into the data,
  a mark is an offset or \<open>None\<close>. How control leaves the big switch is the datatype
  \<open>ctl\<close>. The callbacks are parameters: arbitrary functions of the parser, the bytes and the
  application's data, which return a value and may pause the parser. A failed \<open>assert\<close> is
  \<open>Assert_fail\<close>, although release builds do not check it.
\<close>

section \<open>The parser and its callbacks\<close>

record http_parser =
  ptype :: http_parser_type
  flags :: u8
  hstate :: state
  header_state :: header_states
  index :: nat
  lenient_http_headers :: bool
  nread :: u32
  content_length :: u64
  http_major :: nat
  http_minor :: nat
  status_code :: nat
  hmethod :: http_method
  herrno :: http_errno
  upgrade :: bool

datatype data_cb = header_field | header_value | url | body | status

datatype notify_cb = message_begin | headers_complete | message_complete | chunk_header | chunk_complete

type_synonym 'u http_cb = "http_parser \<Rightarrow> 'u \<Rightarrow> int \<times> bool \<times> 'u"
type_synonym 'u http_data_cb = "http_parser \<Rightarrow> bytes \<Rightarrow> 'u \<Rightarrow> int \<times> bool \<times> 'u"

record 'u http_parser_settings =
  on_notify :: "notify_cb \<Rightarrow> 'u http_cb option"
  on_data :: "data_cb \<Rightarrow> 'u http_data_cb option"

definition http_parser_settings_init :: "'u http_parser_settings" where
  "http_parser_settings_init = \<lparr>on_notify = (\<lambda>_. None), on_data = (\<lambda>_. None)\<rparr>"

fun notify_errno :: "notify_cb \<Rightarrow> http_errno" where
  "notify_errno message_begin = HPE_CB_message_begin"
| "notify_errno headers_complete = HPE_CB_headers_complete"
| "notify_errno message_complete = HPE_CB_message_complete"
| "notify_errno chunk_header = HPE_CB_chunk_header"
| "notify_errno chunk_complete = HPE_CB_chunk_complete"

fun data_errno :: "data_cb \<Rightarrow> http_errno" where
  "data_errno header_field = HPE_CB_header_field"
| "data_errno header_value = HPE_CB_header_value"
| "data_errno url = HPE_CB_url"
| "data_errno body = HPE_CB_body"
| "data_errno status = HPE_CB_status"

definition http_parser_init :: "http_parser_type \<Rightarrow> http_parser" where
  "http_parser_init t =
     \<lparr>ptype = t, flags = 0,
      hstate = (case t of HTTP_REQUEST \<Rightarrow> s_start_req | HTTP_RESPONSE \<Rightarrow> s_start_res | HTTP_BOTH \<Rightarrow> s_start_req_or_res),
      header_state = h_general, index = 0, lenient_http_headers = False, nread = 0,
      content_length = 0, http_major = 0, http_minor = 0, status_code = 0,
      hmethod = HTTP_DELETE, herrno = HPE_OK, upgrade = False\<rparr>"

definition has_flag :: "u8 \<Rightarrow> http_parser \<Rightarrow> bool" where
  "has_flag f pr \<longleftrightarrow> flags pr AND f \<noteq> 0"

definition add_flag :: "u8 \<Rightarrow> http_parser \<Rightarrow> http_parser" where
  "add_flag f pr = pr\<lparr>flags := flags pr OR f\<rparr>"

definition http_message_needs_eof :: "http_parser \<Rightarrow> bool" where
  "http_message_needs_eof pr =
     (if ptype pr = HTTP_REQUEST then False
      else if status_code pr div 100 = 1 \<or> status_code pr = 204 \<or> status_code pr = 304 \<or>
        has_flag F_SKIPBODY pr then False
      else if has_flag F_CHUNKED pr \<or> content_length pr \<noteq> ULLONG_MAX then False
      else True)"

definition http_should_keep_alive :: "http_parser \<Rightarrow> bool" where
  "http_should_keep_alive pr =
     (if http_major pr > 0 \<and> http_minor pr > 0 then
        if has_flag F_CONNECTION_CLOSE pr then False else \<not> http_message_needs_eof pr
      else
        if \<not> has_flag F_CONNECTION_KEEP_ALIVE pr then False else \<not> http_message_needs_eof pr)"

definition start_state :: "http_parser \<Rightarrow> state" where
  "start_state pr = (if ptype pr = HTTP_REQUEST then s_start_req else s_start_res)"

definition NEW_MESSAGE :: "http_parser \<Rightarrow> state" where
  "NEW_MESSAGE pr = (if http_should_keep_alive pr then start_state pr else s_dead)"

definition http_parser_pause :: "http_parser \<Rightarrow> bool \<Rightarrow> http_parser option" where
  "http_parser_pause pr paused =
     (if herrno pr = HPE_OK \<or> herrno pr = HPE_PAUSED
      then Some (pr\<lparr>herrno := (if paused then HPE_PAUSED else HPE_OK)\<rparr>)
      else None)"

definition http_body_is_final :: "http_parser \<Rightarrow> bool" where
  "http_body_is_final pr \<longleftrightarrow> hstate pr = s_message_done"

section \<open>Local state and control flow\<close>

record 'u exec =
  hp :: http_parser
  usr :: 'u
  pos :: nat
  p_state :: state
  marks :: "data_cb \<Rightarrow> nat option"

datatype 'u ctl = Break "'u exec" | Reexecute "'u exec" | Goto_error "'u exec" | Return "'u exec" nat | Assert_fail

definition SET_ERRNO :: "http_errno \<Rightarrow> 'u exec \<Rightarrow> 'u exec" where
  "SET_ERRNO e s = s\<lparr>hp := (hp s)\<lparr>herrno := e\<rparr>\<rparr>"

definition error :: "http_errno \<Rightarrow> 'u exec \<Rightarrow> 'u ctl" where
  "error e s = Goto_error (SET_ERRNO e s)"

definition UPDATE_STATE :: "state \<Rightarrow> 'u exec \<Rightarrow> 'u exec" where
  "UPDATE_STATE v s = s\<lparr>p_state := v\<rparr>"

definition on_hp :: "(http_parser \<Rightarrow> http_parser) \<Rightarrow> 'u exec \<Rightarrow> 'u exec" where
  "on_hp f s = s\<lparr>hp := f (hp s)\<rparr>"

definition MARK :: "data_cb \<Rightarrow> 'u exec \<Rightarrow> 'u exec" where
  "MARK f s = (if marks s f = None then s\<lparr>marks := (marks s)(f := Some (pos s))\<rparr> else s)"

definition STRICT_CHECK :: "bool \<Rightarrow> 'u exec \<Rightarrow> 'u ctl \<Rightarrow> 'u ctl" where
  "STRICT_CHECK cond s k = (if cond then error HPE_STRICT s else k)"

definition COUNT_HEADER_SIZE :: "nat \<Rightarrow> 'u exec \<Rightarrow> ('u exec \<Rightarrow> 'u ctl) \<Rightarrow> 'u ctl" where
  "COUNT_HEADER_SIZE v s k =
     (let s' = on_hp (\<lambda>pr. pr\<lparr>nread := nread pr + of_nat v\<rparr>) s in
      if unat (nread (hp s')) > HTTP_MAX_HEADER_SIZE then error HPE_HEADER_OVERFLOW s' else k s')"

text \<open>
  What the three lines around a callback do: the state is stored, the callback runs and may
  pause, a non-zero result is an error.
\<close>

definition after_callback :: "http_errno \<Rightarrow> http_parser \<Rightarrow> int \<times> bool \<times> 'u \<Rightarrow> 'u exec \<Rightarrow> 'u exec" where
  "after_callback e pr r s =
     (let (ret, paused, u) = r;
          pr1 = (if paused then pr\<lparr>herrno := HPE_PAUSED\<rparr> else pr);
          pr2 = (if ret \<noteq> 0 then pr1\<lparr>herrno := e\<rparr> else pr1)
      in s\<lparr>hp := pr2, usr := u, p_state := hstate pr2\<rparr>)"

definition CALLBACK_NOTIFY_ER ::
  "'u http_parser_settings \<Rightarrow> notify_cb \<Rightarrow> nat \<Rightarrow> 'u exec \<Rightarrow> ('u exec \<Rightarrow> 'u ctl) \<Rightarrow> 'u ctl" where
  "CALLBACK_NOTIFY_ER S f er s k =
     (if herrno (hp s) \<noteq> HPE_OK then Assert_fail
      else case on_notify S f of
        None \<Rightarrow> k s
      | Some cb \<Rightarrow>
          let pr = (hp s)\<lparr>hstate := p_state s\<rparr>;
              s' = after_callback (notify_errno f) pr (cb pr (usr s)) s
          in if herrno (hp s') \<noteq> HPE_OK then Return s' er else k s')"

definition CALLBACK_NOTIFY ::
  "'u http_parser_settings \<Rightarrow> notify_cb \<Rightarrow> 'u exec \<Rightarrow> ('u exec \<Rightarrow> 'u ctl) \<Rightarrow> 'u ctl" where
  "CALLBACK_NOTIFY S f s k = CALLBACK_NOTIFY_ER S f (pos s + 1) s k"

definition CALLBACK_NOTIFY_NOADVANCE ::
  "'u http_parser_settings \<Rightarrow> notify_cb \<Rightarrow> 'u exec \<Rightarrow> ('u exec \<Rightarrow> 'u ctl) \<Rightarrow> 'u ctl" where
  "CALLBACK_NOTIFY_NOADVANCE S f s k = CALLBACK_NOTIFY_ER S f (pos s) s k"

text \<open>The bytes from the mark up to the offset \<open>stop\<close>.\<close>

definition CALLBACK_DATA_ER ::
  "'u http_parser_settings \<Rightarrow> bytes \<Rightarrow> data_cb \<Rightarrow> nat \<Rightarrow> nat \<Rightarrow> 'u exec \<Rightarrow> ('u exec \<Rightarrow> 'u ctl) \<Rightarrow> 'u ctl" where
  "CALLBACK_DATA_ER S data f stop er s k =
     (if herrno (hp s) \<noteq> HPE_OK then Assert_fail
      else case marks s f of
        None \<Rightarrow> k s
      | Some m \<Rightarrow>
          (case on_data S f of
             None \<Rightarrow> k (s\<lparr>marks := (marks s)(f := None)\<rparr>)
           | Some cb \<Rightarrow>
               let pr = (hp s)\<lparr>hstate := p_state s\<rparr>;
                   s' = after_callback (data_errno f) pr (cb pr (take (stop - m) (drop m data)) (usr s)) s
               in if herrno (hp s') \<noteq> HPE_OK then Return s' er
                  else k (s'\<lparr>marks := (marks s')(f := None)\<rparr>)))"

definition CALLBACK_DATA ::
  "'u http_parser_settings \<Rightarrow> bytes \<Rightarrow> data_cb \<Rightarrow> 'u exec \<Rightarrow> ('u exec \<Rightarrow> 'u ctl) \<Rightarrow> 'u ctl" where
  "CALLBACK_DATA S data f s k = CALLBACK_DATA_ER S data f (pos s) (pos s + 1) s k"

definition CALLBACK_DATA_NOADVANCE ::
  "'u http_parser_settings \<Rightarrow> bytes \<Rightarrow> data_cb \<Rightarrow> 'u exec \<Rightarrow> ('u exec \<Rightarrow> 'u ctl) \<Rightarrow> 'u ctl" where
  "CALLBACK_DATA_NOADVANCE S data f s k = CALLBACK_DATA_ER S data f (pos s) (pos s) s k"

end
