(* ===== verification/Http_States.thy ===== *)
theory Http_States
  imports Http_Exec
begin

text \<open>
  The cases of the switch in \<open>http_parser_execute\<close>, one definition for each state or group of
  states that share code. \<open>ch\<close> is the current byte.
\<close>

section \<open>Start of a message and status line\<close>

text \<open>\<open>s_dead\<close>, \<open>s_start_req_or_res\<close>, \<open>s_res_or_resp_H\<close> and \<open>s_start_res\<close>.\<close>

definition exec_dead :: "u8 \<Rightarrow> 'u exec \<Rightarrow> 'u ctl" where
  "exec_dead ch s = (if ch = CR \<or> ch = LF then Break s else error HPE_CLOSED_CONNECTION s)"

definition reset_message :: "http_parser \<Rightarrow> http_parser" where
  "reset_message pr = pr\<lparr>flags := 0, content_length := ULLONG_MAX\<rparr>"

definition exec_start_req_or_res :: "'u http_parser_settings \<Rightarrow> u8 \<Rightarrow> 'u exec \<Rightarrow> 'u ctl" where
  "exec_start_req_or_res S ch s =
     (if ch = CR \<or> ch = LF then Break s
      else
        let s1 = on_hp reset_message s in
        if ch = ascii CHR ''H''
        then CALLBACK_NOTIFY S message_begin (UPDATE_STATE s_res_or_resp_H s1) Break
        else Reexecute (UPDATE_STATE s_start_req (on_hp (\<lambda>pr. pr\<lparr>ptype := HTTP_REQUEST\<rparr>) s1)))"

definition exec_res_or_resp_H :: "u8 \<Rightarrow> 'u exec \<Rightarrow> 'u ctl" where
  "exec_res_or_resp_H ch s =
     (if ch = ascii CHR ''T''
      then Break (UPDATE_STATE s_res_HT (on_hp (\<lambda>pr. pr\<lparr>ptype := HTTP_RESPONSE\<rparr>) s))
      else if ch \<noteq> ascii CHR ''E'' then error HPE_INVALID_CONSTANT s
      else Break (UPDATE_STATE s_req_method
             (on_hp (\<lambda>pr. pr\<lparr>ptype := HTTP_REQUEST, hmethod := HTTP_HEAD, index := 2\<rparr>) s)))"

definition exec_start_res :: "'u http_parser_settings \<Rightarrow> u8 \<Rightarrow> 'u exec \<Rightarrow> 'u ctl" where
  "exec_start_res S ch s =
     (let s1 = on_hp reset_message s in
      if ch = ascii CHR ''H'' then CALLBACK_NOTIFY S message_begin (UPDATE_STATE s_res_H s1) Break
      else if ch = CR \<or> ch = LF then CALLBACK_NOTIFY S message_begin s1 Break
      else error HPE_INVALID_CONSTANT s1)"

text \<open>A state that checks one character and goes on to the next state.\<close>

definition exec_expect :: "u8 \<Rightarrow> state \<Rightarrow> u8 \<Rightarrow> 'u exec \<Rightarrow> 'u ctl" where
  "exec_expect want next ch s = STRICT_CHECK (ch \<noteq> want) s (Break (UPDATE_STATE next s))"

text \<open>The version numbers, shared by the status line and the request line.\<close>

definition exec_first_major :: "bool \<Rightarrow> state \<Rightarrow> u8 \<Rightarrow> 'u exec \<Rightarrow> 'u ctl" where
  "exec_first_major ok next ch s =
     (if \<not> ok then error HPE_INVALID_VERSION s
      else Break (UPDATE_STATE next (on_hp (\<lambda>pr. pr\<lparr>http_major := digit ch\<rparr>) s)))"

definition exec_major :: "state \<Rightarrow> u8 \<Rightarrow> 'u exec \<Rightarrow> 'u ctl" where
  "exec_major next ch s =
     (if ch = ascii CHR ''.'' then Break (UPDATE_STATE next s)
      else if \<not> IS_NUM ch then error HPE_INVALID_VERSION s
      else
        let s1 = on_hp (\<lambda>pr. pr\<lparr>http_major := http_major pr * 10 + digit ch\<rparr>) s in
        if http_major (hp s1) > 999 then error HPE_INVALID_VERSION s1 else Break s1)"

definition exec_first_minor :: "state \<Rightarrow> u8 \<Rightarrow> 'u exec \<Rightarrow> 'u ctl" where
  "exec_first_minor next ch s =
     (if \<not> IS_NUM ch then error HPE_INVALID_VERSION s
      else Break (UPDATE_STATE next (on_hp (\<lambda>pr. pr\<lparr>http_minor := digit ch\<rparr>) s)))"

definition exec_minor_digit :: "u8 \<Rightarrow> 'u exec \<Rightarrow> 'u ctl" where
  "exec_minor_digit ch s =
     (if \<not> IS_NUM ch then error HPE_INVALID_VERSION s
      else
        let s1 = on_hp (\<lambda>pr. pr\<lparr>http_minor := http_minor pr * 10 + digit ch\<rparr>) s in
        if http_minor (hp s1) > 999 then error HPE_INVALID_VERSION s1 else Break s1)"

definition exec_res_http_minor :: "u8 \<Rightarrow> 'u exec \<Rightarrow> 'u ctl" where
  "exec_res_http_minor ch s =
     (if ch = ascii CHR '' '' then Break (UPDATE_STATE s_res_first_status_code s)
      else exec_minor_digit ch s)"

definition exec_res_first_status_code :: "u8 \<Rightarrow> 'u exec \<Rightarrow> 'u ctl" where
  "exec_res_first_status_code ch s =
     (if \<not> IS_NUM ch then
        if ch = ascii CHR '' '' then Break s else error HPE_INVALID_STATUS s
      else Break (UPDATE_STATE s_res_status_code (on_hp (\<lambda>pr. pr\<lparr>status_code := digit ch\<rparr>) s)))"

definition exec_res_status_code :: "u8 \<Rightarrow> 'u exec \<Rightarrow> 'u ctl" where
  "exec_res_status_code ch s =
     (if \<not> IS_NUM ch then
        if ch = ascii CHR '' '' then Break (UPDATE_STATE s_res_status_start s)
        else if ch = CR then Break (UPDATE_STATE s_res_line_almost_done s)
        else if ch = LF then Break (UPDATE_STATE s_header_field_start s)
        else error HPE_INVALID_STATUS s
      else
        let s1 = on_hp (\<lambda>pr. pr\<lparr>status_code := status_code pr * 10 + digit ch\<rparr>) s in
        if status_code (hp s1) > 999 then error HPE_INVALID_STATUS s1 else Break s1)"

definition exec_res_status_start :: "u8 \<Rightarrow> 'u exec \<Rightarrow> 'u ctl" where
  "exec_res_status_start ch s =
     (if ch = CR then Break (UPDATE_STATE s_res_line_almost_done s)
      else if ch = LF then Break (UPDATE_STATE s_header_field_start s)
      else Break (on_hp (\<lambda>pr. pr\<lparr>index := 0\<rparr>) (UPDATE_STATE s_res_status (MARK status s))))"

definition exec_res_status :: "'u http_parser_settings \<Rightarrow> bytes \<Rightarrow> u8 \<Rightarrow> 'u exec \<Rightarrow> 'u ctl" where
  "exec_res_status S data ch s =
     (if ch = CR then CALLBACK_DATA S data status (UPDATE_STATE s_res_line_almost_done s) Break
      else if ch = LF then CALLBACK_DATA S data status (UPDATE_STATE s_header_field_start s) Break
      else Break s)"

definition exec_res_line_almost_done :: "u8 \<Rightarrow> 'u exec \<Rightarrow> 'u ctl" where [simp]:
  "exec_res_line_almost_done ch s = exec_expect LF s_header_field_start ch s"

section \<open>Request line\<close>

fun first_method :: "char \<Rightarrow> http_method option" where
  "first_method c =
     (if c = CHR ''A'' then Some HTTP_ACL
      else if c = CHR ''B'' then Some HTTP_BIND
      else if c = CHR ''C'' then Some HTTP_CONNECT
      else if c = CHR ''D'' then Some HTTP_DELETE
      else if c = CHR ''G'' then Some HTTP_GET
      else if c = CHR ''H'' then Some HTTP_HEAD
      else if c = CHR ''L'' then Some HTTP_LOCK
      else if c = CHR ''M'' then Some HTTP_MKCOL
      else if c = CHR ''N'' then Some HTTP_NOTIFY
      else if c = CHR ''O'' then Some HTTP_OPTIONS
      else if c = CHR ''P'' then Some HTTP_POST
      else if c = CHR ''R'' then Some HTTP_REPORT
      else if c = CHR ''S'' then Some HTTP_SUBSCRIBE
      else if c = CHR ''T'' then Some HTTP_TRACE
      else if c = CHR ''U'' then Some HTTP_UNLOCK
      else None)"

definition exec_start_req :: "'u http_parser_settings \<Rightarrow> u8 \<Rightarrow> 'u exec \<Rightarrow> 'u ctl" where
  "exec_start_req S ch s =
     (if ch = CR \<or> ch = LF then Break s
      else
        let s1 = on_hp reset_message s in
        if \<not> IS_ALPHA ch then error HPE_INVALID_METHOD s1
        else
          let s2 = on_hp (\<lambda>pr. pr\<lparr>hmethod := HTTP_DELETE, index := 1\<rparr>) s1 in
          case first_method (char_of (unat ch)) of
            None \<Rightarrow> error HPE_INVALID_METHOD s2
          | Some m \<Rightarrow>
              CALLBACK_NOTIFY S message_begin
                (UPDATE_STATE s_req_method (on_hp (\<lambda>pr. pr\<lparr>hmethod := m\<rparr>) s2)) Break)"

text \<open>The method that a character leads to where it differs from the current one.\<close>

definition switch_method :: "http_method \<Rightarrow> nat \<Rightarrow> char \<Rightarrow> http_method option" where
  "switch_method m i c =
     map_of
       [((HTTP_POST, 1, CHR ''U''), HTTP_PUT),
        ((HTTP_POST, 1, CHR ''A''), HTTP_PATCH),
        ((HTTP_CONNECT, 1, CHR ''H''), HTTP_CHECKOUT),
        ((HTTP_CONNECT, 2, CHR ''P''), HTTP_COPY),
        ((HTTP_MKCOL, 1, CHR ''O''), HTTP_MOVE),
        ((HTTP_MKCOL, 1, CHR ''E''), HTTP_MERGE),
        ((HTTP_MKCOL, 2, CHR ''A''), HTTP_MKACTIVITY),
        ((HTTP_MKCOL, 3, CHR ''A''), HTTP_MKCALENDAR),
        ((HTTP_SUBSCRIBE, 1, CHR ''E''), HTTP_SEARCH),
        ((HTTP_REPORT, 2, CHR ''B''), HTTP_REBIND),
        ((HTTP_POST, 1, CHR ''R''), HTTP_PROPFIND),
        ((HTTP_PROPFIND, 4, CHR ''P''), HTTP_PROPPATCH),
        ((HTTP_PUT, 2, CHR ''R''), HTTP_PURGE),
        ((HTTP_LOCK, 1, CHR ''I''), HTTP_LINK),
        ((HTTP_UNLOCK, 2, CHR ''S''), HTTP_UNSUBSCRIBE),
        ((HTTP_UNLOCK, 2, CHR ''B''), HTTP_UNBIND),
        ((HTTP_UNLOCK, 3, CHR ''I''), HTTP_UNLINK)] (m, i, c)"

definition next_index :: "http_parser \<Rightarrow> http_parser" where
  "next_index pr = pr\<lparr>index := (index pr + 1) mod 128\<rparr>"

definition exec_req_method :: "u8 \<Rightarrow> 'u exec \<Rightarrow> 'u ctl" where
  "exec_req_method ch s =
     (let pr = hp s; matcher = http_method_str (hmethod pr) in
      if ch = 0 then error HPE_INVALID_METHOD s
      else if ch = ascii CHR '' '' \<and> cstr_at matcher (index pr) = 0
        then Break (on_hp next_index (UPDATE_STATE s_req_spaces_before_url s))
      else if ch = cstr_at matcher (index pr) then Break (on_hp next_index s)
      else if IS_ALPHA ch then
        (case switch_method (hmethod pr) (index pr) (char_of (unat ch)) of
           Some m \<Rightarrow> Break (on_hp (\<lambda>pr. next_index (pr\<lparr>hmethod := m\<rparr>)) s)
         | None \<Rightarrow> error HPE_INVALID_METHOD s)
      else if ch = ascii CHR ''-'' \<and> index pr = 1 \<and> hmethod pr = HTTP_MKCOL
        then Break (on_hp (\<lambda>pr. next_index (pr\<lparr>hmethod := HTTP_MSEARCH\<rparr>)) s)
      else error HPE_INVALID_METHOD s)"

definition exec_url_char :: "u8 \<Rightarrow> 'u exec \<Rightarrow> 'u ctl" where
  "exec_url_char ch s =
     (let s1 = UPDATE_STATE (parse_url_char (p_state s) ch) s in
      if p_state s1 = s_dead then error HPE_INVALID_URL s1 else Break s1)"

definition exec_req_spaces_before_url :: "u8 \<Rightarrow> 'u exec \<Rightarrow> 'u ctl" where
  "exec_req_spaces_before_url ch s =
     (if ch = ascii CHR '' '' then Break s
      else
        let s1 = MARK url s;
            s2 = (if hmethod (hp s1) = HTTP_CONNECT then UPDATE_STATE s_req_server_start s1 else s1)
        in exec_url_char ch s2)"

definition exec_req_schema :: "u8 \<Rightarrow> 'u exec \<Rightarrow> 'u ctl" where
  "exec_req_schema ch s =
     (if ch = ascii CHR '' '' \<or> ch = CR \<or> ch = LF then error HPE_INVALID_URL s else exec_url_char ch s)"

definition exec_req_url :: "'u http_parser_settings \<Rightarrow> bytes \<Rightarrow> u8 \<Rightarrow> 'u exec \<Rightarrow> 'u ctl" where
  "exec_req_url S data ch s =
     (if ch = ascii CHR '' '' then CALLBACK_DATA S data url (UPDATE_STATE s_req_http_start s) Break
      else if ch = CR \<or> ch = LF then
        CALLBACK_DATA S data url
          (UPDATE_STATE (if ch = CR then s_req_line_almost_done else s_header_field_start)
            (on_hp (\<lambda>pr. pr\<lparr>http_major := 0, http_minor := 9\<rparr>) s)) Break
      else exec_url_char ch s)"

definition exec_req_http_start :: "u8 \<Rightarrow> 'u exec \<Rightarrow> 'u ctl" where
  "exec_req_http_start ch s =
     (if ch = ascii CHR ''H'' then Break (UPDATE_STATE s_req_http_H s)
      else if ch = ascii CHR '' '' then Break s
      else error HPE_INVALID_CONSTANT s)"

text \<open>The rest of \<open>HTTP/\<close> and of the version in the request line.\<close>

definition exec_req_http_H :: "u8 \<Rightarrow> 'u exec \<Rightarrow> 'u ctl" where [simp]:
  "exec_req_http_H ch s = exec_expect (ascii CHR ''T'') s_req_http_HT ch s"

definition exec_req_http_HT :: "u8 \<Rightarrow> 'u exec \<Rightarrow> 'u ctl" where [simp]:
  "exec_req_http_HT ch s = exec_expect (ascii CHR ''T'') s_req_http_HTT ch s"

definition exec_req_http_HTT :: "u8 \<Rightarrow> 'u exec \<Rightarrow> 'u ctl" where [simp]:
  "exec_req_http_HTT ch s = exec_expect (ascii CHR ''P'') s_req_http_HTTP ch s"

definition exec_req_http_HTTP :: "u8 \<Rightarrow> 'u exec \<Rightarrow> 'u ctl" where [simp]:
  "exec_req_http_HTTP ch s = exec_expect (ascii CHR ''/'') s_req_first_http_major ch s"

definition exec_req_first_http_major :: "u8 \<Rightarrow> 'u exec \<Rightarrow> 'u ctl" where [simp]:
  "exec_req_first_http_major ch s = exec_first_major (ascii CHR ''1'' \<le> ch \<and> ch \<le> ascii CHR ''9'') s_req_http_major ch s"

definition exec_req_http_major :: "u8 \<Rightarrow> 'u exec \<Rightarrow> 'u ctl" where [simp]:
  "exec_req_http_major ch s = exec_major s_req_first_http_minor ch s"

definition exec_req_first_http_minor :: "u8 \<Rightarrow> 'u exec \<Rightarrow> 'u ctl" where [simp]:
  "exec_req_first_http_minor ch s = exec_first_minor s_req_http_minor ch s"

definition exec_req_http_minor :: "u8 \<Rightarrow> 'u exec \<Rightarrow> 'u ctl" where
  "exec_req_http_minor ch s =
     (if ch = CR then Break (UPDATE_STATE s_req_line_almost_done s)
      else if ch = LF then Break (UPDATE_STATE s_header_field_start s)
      else exec_minor_digit ch s)"

definition exec_req_line_almost_done :: "u8 \<Rightarrow> 'u exec \<Rightarrow> 'u ctl" where
  "exec_req_line_almost_done ch s =
     (if ch \<noteq> LF then error HPE_LF_EXPECTED s else Break (UPDATE_STATE s_header_field_start s))"

section \<open>Header fields\<close>

definition exec_header_field_start :: "u8 \<Rightarrow> 'u exec \<Rightarrow> 'u ctl" where
  "exec_header_field_start ch s =
     (if ch = CR then Break (UPDATE_STATE s_headers_almost_done s)
      else if ch = LF then Reexecute (UPDATE_STATE s_headers_almost_done s)
      else
        let c = TOKEN ch in
        if c = 0 then error HPE_INVALID_HEADER_TOKEN s
        else
          let h = (if c = ascii CHR ''c'' then h_C
                   else if c = ascii CHR ''p'' then h_matching_proxy_connection
                   else if c = ascii CHR ''t'' then h_matching_transfer_encoding
                   else if c = ascii CHR ''u'' then h_matching_upgrade
                   else h_general)
          in Break (on_hp (\<lambda>pr. pr\<lparr>index := 0, header_state := h\<rparr>)
               (UPDATE_STATE s_header_field (MARK header_field s))))"

text \<open>Matching the next character of a known name: \<open>next\<close> after its last character.\<close>

definition match_name :: "bytes \<Rightarrow> header_states \<Rightarrow> u8 \<Rightarrow> http_parser \<Rightarrow> http_parser" where
  "match_name name next c pr0 =
     (let pr = next_index pr0 in
      if index pr > length name \<or> c \<noteq> cstr_at name (index pr) then pr\<lparr>header_state := h_general\<rparr>
      else if index pr = length name - 1 then pr\<lparr>header_state := next\<rparr>
      else pr)"

text \<open>
  The inner loops over a header line: they go on, stop with an error (and the parser as it is
  then), or run into a failed assertion.
\<close>

datatype 'a scan = Go 'a | Stop http_errno http_parser | Broken

text \<open>One character of a field name.\<close>

definition header_field_char :: "u8 \<Rightarrow> u8 \<Rightarrow> http_parser \<Rightarrow> http_parser scan" where
  "header_field_char ch c pr =
     (case header_state pr of
        h_general \<Rightarrow> Go pr
      | h_C \<Rightarrow> Go ((next_index pr)\<lparr>header_state := (if c = ascii CHR ''o'' then h_CO else h_general)\<rparr>)
      | h_CO \<Rightarrow> Go ((next_index pr)\<lparr>header_state := (if c = ascii CHR ''n'' then h_CON else h_general)\<rparr>)
      | h_CON \<Rightarrow>
          Go ((next_index pr)\<lparr>header_state :=
            (if c = ascii CHR ''n'' then h_matching_connection
             else if c = ascii CHR ''t'' then h_matching_content_length
             else h_general)\<rparr>)
      | h_matching_connection \<Rightarrow> Go (match_name CONNECTION h_connection c pr)
      | h_matching_proxy_connection \<Rightarrow> Go (match_name PROXY_CONNECTION h_connection c pr)
      | h_matching_content_length \<Rightarrow>
          let pr1 = match_name CONTENT_LENGTH h_content_length c pr in
          if header_state pr1 = h_content_length then
            if has_flag F_CONTENTLENGTH pr then Stop HPE_UNEXPECTED_CONTENT_LENGTH (next_index pr)
            else Go (add_flag F_CONTENTLENGTH pr1)
          else Go pr1
      | h_matching_transfer_encoding \<Rightarrow> Go (match_name TRANSFER_ENCODING h_transfer_encoding c pr)
      | h_matching_upgrade \<Rightarrow> Go (match_name UPGRADE h_upgrade c pr)
      | h_connection \<Rightarrow> Go (if ch \<noteq> ascii CHR '' '' then pr\<lparr>header_state := h_general\<rparr> else pr)
      | h_content_length \<Rightarrow> Go (if ch \<noteq> ascii CHR '' '' then pr\<lparr>header_state := h_general\<rparr> else pr)
      | h_transfer_encoding \<Rightarrow> Go (if ch \<noteq> ascii CHR '' '' then pr\<lparr>header_state := h_general\<rparr> else pr)
      | h_upgrade \<Rightarrow> Go (if ch \<noteq> ascii CHR '' '' then pr\<lparr>header_state := h_general\<rparr> else pr)
      | _ \<Rightarrow> Broken)"

text \<open>The inner loop, and where it stops.\<close>

function header_field_loop :: "bytes \<Rightarrow> nat \<Rightarrow> http_parser \<Rightarrow> nat \<times> http_parser scan" where
  "header_field_loop data p pr =
     (if p < length data then
        let ch = data ! p; c = TOKEN ch in
        if c = 0 then (p, Go pr)
        else case header_field_char ch c pr of
            Go pr' \<Rightarrow> header_field_loop data (Suc p) pr'
          | Stop e pr' \<Rightarrow> (p, Stop e pr')
          | Broken \<Rightarrow> (p, Broken)
      else (p, Go pr))"
  by auto
termination
  by (relation "measure (\<lambda>(data, p, _). length data - p)") auto

declare header_field_loop.simps [simp del]

definition exec_header_field :: "'u http_parser_settings \<Rightarrow> bytes \<Rightarrow> 'u exec \<Rightarrow> 'u ctl" where
  "exec_header_field S data s =
     (case header_field_loop data (pos s) (hp s) of
        (p, Broken) \<Rightarrow> Assert_fail
      | (p, Stop e pr) \<Rightarrow> error e (s\<lparr>pos := p, hp := pr\<rparr>)
      | (p, Go pr) \<Rightarrow>
          COUNT_HEADER_SIZE (p - pos s) (s\<lparr>pos := p, hp := pr\<rparr>)
            (\<lambda>s1. if p = length data then Break (s1\<lparr>pos := p - 1\<rparr>)
                  else if data ! p = ascii CHR '':''
                    then CALLBACK_DATA S data header_field (UPDATE_STATE s_header_value_discard_ws s1) Break
                  else error HPE_INVALID_HEADER_TOKEN s1))"

section \<open>Header values\<close>

text \<open>\<open>LOWER(c)\<close> is used for the comparisons.\<close>

definition exec_header_value_start :: "u8 \<Rightarrow> 'u exec \<Rightarrow> 'u ctl" where
  "exec_header_value_start ch s0 =
     (let s = on_hp (\<lambda>pr. pr\<lparr>index := 0\<rparr>) (UPDATE_STATE s_header_value (MARK header_value s0));
          c = LOWER ch;
          to = (\<lambda>h. Break (on_hp (\<lambda>pr. pr\<lparr>header_state := h\<rparr>) s))
      in case header_state (hp s) of
           h_upgrade \<Rightarrow> Break (on_hp (\<lambda>pr. (add_flag F_UPGRADE pr)\<lparr>header_state := h_general\<rparr>) s)
         | h_transfer_encoding \<Rightarrow>
             to (if c = ascii CHR ''c'' then h_matching_transfer_encoding_chunked else h_general)
         | h_content_length \<Rightarrow>
             if \<not> IS_NUM ch then error HPE_INVALID_CONTENT_LENGTH s
             else Break (on_hp (\<lambda>pr. pr\<lparr>content_length := of_nat (digit ch)\<rparr>) s)
         | h_connection \<Rightarrow>
             to (if c = ascii CHR ''k'' then h_matching_connection_keep_alive
                 else if c = ascii CHR ''c'' then h_matching_connection_close
                 else if c = ascii CHR ''u'' then h_matching_connection_upgrade
                 else h_matching_connection_token)
         | h_matching_connection_token_start \<Rightarrow> Break s
         | _ \<Rightarrow> to h_general)"

definition exec_header_value_discard_ws :: "u8 \<Rightarrow> 'u exec \<Rightarrow> 'u ctl" where
  "exec_header_value_discard_ws ch s =
     (if ch = ascii CHR '' '' \<or> ch = 9 then Break s
      else if ch = CR then Break (UPDATE_STATE s_header_value_discard_ws_almost_done s)
      else if ch = LF then Break (UPDATE_STATE s_header_value_discard_lws s)
      else exec_header_value_start ch s)"

text \<open>The position of the first \<open>c\<close> among the \<open>limit\<close> bytes from \<open>p\<close> on.\<close>

definition memchr :: "bytes \<Rightarrow> nat \<Rightarrow> u8 \<Rightarrow> nat \<Rightarrow> nat option" where
  "memchr data p c limit =
     (let w = take limit (drop p data); i = length (takeWhile (\<lambda>x. x \<noteq> c) w) in
      if i < length w then Some (p + i) else None)"

text \<open>Where the fast path for ordinary headers goes on.\<close>

definition skip_value :: "bytes \<Rightarrow> nat \<Rightarrow> nat" where
  "skip_value data p =
     (let limit = min (length data - p) HTTP_MAX_HEADER_SIZE in
      case memchr data p CR limit of
        Some p_cr \<Rightarrow>
          (case memchr data p LF limit of
             Some p_lf \<Rightarrow> if p_cr \<ge> p_lf then p_lf else p_cr
           | None \<Rightarrow> p_cr)
      | None \<Rightarrow> (case memchr data p LF limit of Some p_lf \<Rightarrow> p_lf | None \<Rightarrow> length data))"

definition match_value ::
  "bytes \<Rightarrow> header_states \<Rightarrow> header_states \<Rightarrow> u8 \<Rightarrow> header_states \<Rightarrow> http_parser \<Rightarrow> header_states \<times> http_parser" where
  "match_value name matched other c h pr0 =
     (let pr = next_index pr0 in
      if index pr > length name \<or> c \<noteq> cstr_at name (index pr) then (other, pr)
      else if index pr = length name - 1 then (matched, pr)
      else (h, pr))"

text \<open>The next decimal digit of the content length, at 64 bits, with the test for overflow.\<close>

definition content_length_digit :: "u8 \<Rightarrow> http_parser \<Rightarrow> http_parser option" where
  "content_length_digit ch pr =
     (let t = content_length pr * 10 + of_nat (digit ch) in
      if (ULLONG_MAX - 10) div 10 < content_length pr then None
      else Some (pr\<lparr>content_length := t\<rparr>))"

text \<open>
  One character of a value, in the states other than \<open>h_general\<close>.
\<close>

definition header_value_char ::
  "u8 \<Rightarrow> header_states \<Rightarrow> http_parser \<Rightarrow> (header_states \<times> http_parser) scan" where
  "header_value_char ch h pr =
     (let c = LOWER ch in
      case h of
        h_connection \<Rightarrow> Broken
      | h_transfer_encoding \<Rightarrow> Broken
      | h_content_length \<Rightarrow>
          if ch = ascii CHR '' '' then Go (h, pr)
          else if \<not> IS_NUM ch then Stop HPE_INVALID_CONTENT_LENGTH (pr\<lparr>header_state := h\<rparr>)
          else (case content_length_digit ch pr of
                  None \<Rightarrow> Stop HPE_INVALID_CONTENT_LENGTH (pr\<lparr>header_state := h\<rparr>)
                | Some pr' \<Rightarrow> Go (h, pr'))
      | h_matching_transfer_encoding_chunked \<Rightarrow>
          Go (match_value CHUNKED h_transfer_encoding_chunked h_general c h pr)
      | h_matching_connection_token_start \<Rightarrow>
          Go (if c = ascii CHR ''k'' then h_matching_connection_keep_alive
               else if c = ascii CHR ''c'' then h_matching_connection_close
               else if c = ascii CHR ''u'' then h_matching_connection_upgrade
               else if TOKEN c \<noteq> 0 then h_matching_connection_token
               else if c = ascii CHR '' '' \<or> c = 9 then h
               else h_general, pr)
      | h_matching_connection_keep_alive \<Rightarrow>
          Go (match_value KEEP_ALIVE h_connection_keep_alive h_matching_connection_token c h pr)
      | h_matching_connection_close \<Rightarrow>
          Go (match_value CLOSE h_connection_close h_matching_connection_token c h pr)
      | h_matching_connection_upgrade \<Rightarrow>
          Go (match_value UPGRADE h_connection_upgrade h_matching_connection_token c h pr)
      | h_matching_connection_token \<Rightarrow>
          Go (if ch = ascii CHR '','' then (h_matching_connection_token_start, pr\<lparr>index := 0\<rparr>) else (h, pr))
      | h_transfer_encoding_chunked \<Rightarrow> Go (if ch \<noteq> ascii CHR '' '' then h_general else h, pr)
      | h_connection_keep_alive \<Rightarrow>
          Go (if ch = ascii CHR '','' then (h_matching_connection_token_start, (add_flag F_CONNECTION_KEEP_ALIVE pr)\<lparr>index := 0\<rparr>)
               else if ch \<noteq> ascii CHR '' '' then (h_matching_connection_token, pr) else (h, pr))
      | h_connection_close \<Rightarrow>
          Go (if ch = ascii CHR '','' then (h_matching_connection_token_start, (add_flag F_CONNECTION_CLOSE pr)\<lparr>index := 0\<rparr>)
               else if ch \<noteq> ascii CHR '' '' then (h_matching_connection_token, pr) else (h, pr))
      | h_connection_upgrade \<Rightarrow>
          Go (if ch = ascii CHR '','' then (h_matching_connection_token_start, (add_flag F_CONNECTION_UPGRADE pr)\<lparr>index := 0\<rparr>)
               else if ch \<noteq> ascii CHR '' '' then (h_matching_connection_token, pr) else (h, pr))
      | _ \<Rightarrow> Go (h_general, pr))"


lemma memchr_bounds:
  assumes "memchr data p c limit = Some q"
  shows "p \<le> q" "q < length data" "data ! q = c"
proof -
  let ?w = "take limit (drop p data)"
  let ?i = "length (takeWhile (\<lambda>x. x \<noteq> c) ?w)"
  have q: "?i < length ?w" "q = p + ?i"
    using assms by (auto simp: memchr_def Let_def split: if_splits)
  then show "p \<le> q" "q < length data"
    by auto
  have "?w ! ?i = c"
    using nth_length_takeWhile [OF q(1)] by simp
  moreover have "p \<le> length data"
    using q(1) by auto
  ultimately show "data ! q = c"
    using q by simp
qed

lemma skip_value_bounds:
  assumes "p < length data" "data ! p \<noteq> CR" "data ! p \<noteq> LF"
  shows "p < skip_value data p" "skip_value data p \<le> length data"
proof -
  have "p < q \<and> q \<le> length data" if "memchr data p c l = Some q" "c = CR \<or> c = LF" for c l q
    using memchr_bounds [OF that(1)] that(2) assms by (cases "p = q") auto
  then show "p < skip_value data p" "skip_value data p \<le> length data"
    using assms(1) by (auto simp: skip_value_def Let_def split: option.splits)
qed

datatype value_end = At_end | At_CR | At_LF

function header_value_loop ::
  "bytes \<Rightarrow> nat \<Rightarrow> header_states \<Rightarrow> http_parser \<Rightarrow> nat \<times> (value_end \<times> header_states \<times> http_parser) scan" where
  "header_value_loop data p h pr =
     (if p < length data then
        let ch = data ! p in
        if ch = CR then (p, Go (At_CR, h, pr))
        else if ch = LF then (p, Go (At_LF, h, pr))
        else if \<not> lenient_http_headers pr \<and> \<not> IS_HEADER_CHAR ch
          then (p, Stop HPE_INVALID_HEADER_TOKEN pr)
        else if h = h_general then header_value_loop data (skip_value data p) h pr
        else case header_value_char ch h pr of
            Go (h', pr') \<Rightarrow> header_value_loop data (Suc p) h' pr'
          | Stop e pr' \<Rightarrow> (p, Stop e pr')
          | Broken \<Rightarrow> (p, Broken)
      else (p, Go (At_end, h, pr)))"
  by auto
termination
  by (relation "measure (\<lambda>(data, p, _). length data - p)") (auto simp: skip_value_bounds diff_less_mono2)

declare header_value_loop.simps [simp del]

text \<open>
  At a carriage return the loop is left and the code behind it runs; a line feed is looked at
  again in the next state.
\<close>

definition exec_header_value :: "'u http_parser_settings \<Rightarrow> bytes \<Rightarrow> 'u exec \<Rightarrow> 'u ctl" where
  "exec_header_value S data s =
     (case header_value_loop data (pos s) (header_state (hp s)) (hp s) of
        (p, Broken) \<Rightarrow> Assert_fail
      | (p, Stop e pr) \<Rightarrow> error e (s\<lparr>pos := p, hp := pr\<rparr>)
      | (p, Go (At_end, h, pr)) \<Rightarrow>
          COUNT_HEADER_SIZE (p - pos s) (s\<lparr>pos := p, hp := pr\<lparr>header_state := h\<rparr>\<rparr>)
            (\<lambda>s1. Break (s1\<lparr>pos := p - 1\<rparr>))
      | (p, Go (At_CR, h, pr)) \<Rightarrow>
          CALLBACK_DATA S data header_value
            (UPDATE_STATE s_header_almost_done (s\<lparr>pos := p, hp := pr\<lparr>header_state := h\<rparr>\<rparr>))
            (\<lambda>s1. COUNT_HEADER_SIZE (p - pos s) s1 Break)
      | (p, Go (At_LF, h, pr)) \<Rightarrow>
          COUNT_HEADER_SIZE (p - pos s) (UPDATE_STATE s_header_almost_done (s\<lparr>pos := p, hp := pr\<rparr>))
            (\<lambda>s1. CALLBACK_DATA_NOADVANCE S data header_value
                    (on_hp (\<lambda>pr. pr\<lparr>header_state := h\<rparr>) s1) Reexecute))"


section \<open>End of a header and of the headers\<close>

definition exec_header_almost_done :: "u8 \<Rightarrow> 'u exec \<Rightarrow> 'u ctl" where
  "exec_header_almost_done ch s =
     (if ch \<noteq> LF then error HPE_LF_EXPECTED s else Break (UPDATE_STATE s_header_value_lws s))"

text \<open>The flag that a finished header sets.\<close>

definition finish_header :: "http_parser \<Rightarrow> http_parser" where
  "finish_header pr =
     (case header_state pr of
        h_connection_keep_alive \<Rightarrow> add_flag F_CONNECTION_KEEP_ALIVE pr
      | h_connection_close \<Rightarrow> add_flag F_CONNECTION_CLOSE pr
      | h_transfer_encoding_chunked \<Rightarrow> add_flag F_CHUNKED pr
      | h_connection_upgrade \<Rightarrow> add_flag F_CONNECTION_UPGRADE pr
      | _ \<Rightarrow> pr)"

definition exec_header_value_lws :: "u8 \<Rightarrow> 'u exec \<Rightarrow> 'u ctl" where
  "exec_header_value_lws ch s =
     (if ch = ascii CHR '' '' \<or> ch = 9 then Reexecute (UPDATE_STATE s_header_value_start s)
      else Reexecute (UPDATE_STATE s_header_field_start (on_hp finish_header s)))"

definition exec_header_value_discard_ws_almost_done :: "u8 \<Rightarrow> 'u exec \<Rightarrow> 'u ctl" where [simp]:
  "exec_header_value_discard_ws_almost_done ch s = exec_expect LF s_header_value_discard_lws ch s"

definition exec_header_value_discard_lws :: "'u http_parser_settings \<Rightarrow> bytes \<Rightarrow> u8 \<Rightarrow> 'u exec \<Rightarrow> 'u ctl" where
  "exec_header_value_discard_lws S data ch s =
     (if ch = ascii CHR '' '' \<or> ch = 9 then Break (UPDATE_STATE s_header_value_discard_ws s)
      else CALLBACK_DATA_NOADVANCE S data header_value
             (UPDATE_STATE s_header_field_start (MARK header_value (on_hp finish_header s))) Reexecute)"

text \<open>
  The callback \<open>headers_complete\<close> is called outside the macros: the state is not stored before,
  and the result 1 means that there is no body.
\<close>

definition call_headers_complete :: "'u http_parser_settings \<Rightarrow> 'u exec \<Rightarrow> ('u exec \<Rightarrow> 'u ctl) \<Rightarrow> 'u ctl" where
  "call_headers_complete S s k =
     (case on_notify S headers_complete of
        None \<Rightarrow> k s
      | Some cb \<Rightarrow>
          let (ret, paused, u) = cb (hp s) (usr s);
              s1 = (if paused then SET_ERRNO HPE_PAUSED s else s)\<lparr>usr := u\<rparr>
          in if ret = 0 then k s1
             else if ret = 1 then k (on_hp (add_flag F_SKIPBODY) s1)
             else Return (SET_ERRNO HPE_CB_headers_complete s1) (pos s))"

definition exec_headers_almost_done :: "'u http_parser_settings \<Rightarrow> u8 \<Rightarrow> 'u exec \<Rightarrow> 'u ctl" where
  "exec_headers_almost_done S ch s =
     STRICT_CHECK (ch \<noteq> LF) s
       (if has_flag F_TRAILING (hp s) then
          CALLBACK_NOTIFY_NOADVANCE S chunk_complete (UPDATE_STATE s_message_done s) Reexecute
        else if has_flag F_CHUNKED (hp s) \<and> has_flag F_CONTENTLENGTH (hp s)
          then error HPE_UNEXPECTED_CONTENT_LENGTH s
        else
          call_headers_complete S
            (on_hp (\<lambda>pr. pr\<lparr>upgrade :=
                 (flags pr AND (F_UPGRADE OR F_CONNECTION_UPGRADE) = F_UPGRADE OR F_CONNECTION_UPGRADE \<or>
                  hmethod pr = HTTP_CONNECT)\<rparr>) (UPDATE_STATE s_headers_done s))
            (\<lambda>s1. if herrno (hp s1) \<noteq> HPE_OK then Return s1 (pos s1) else Reexecute s1))"

definition new_message :: "'u exec \<Rightarrow> 'u exec" where
  "new_message s = UPDATE_STATE (NEW_MESSAGE (hp s)) s"

definition has_body :: "http_parser \<Rightarrow> bool" where
  "has_body pr \<longleftrightarrow> has_flag F_CHUNKED pr \<or> content_length pr > 0 \<and> content_length pr \<noteq> ULLONG_MAX"

definition exec_headers_done :: "'u http_parser_settings \<Rightarrow> u8 \<Rightarrow> 'u exec \<Rightarrow> 'u ctl" where
  "exec_headers_done S ch s0 =
     STRICT_CHECK (ch \<noteq> LF) s0
       (let s = on_hp (\<lambda>pr. pr\<lparr>nread := 0\<rparr>) s0; pr = hp s in
        if upgrade pr \<and> (hmethod pr = HTTP_CONNECT \<or> has_flag F_SKIPBODY pr \<or> \<not> has_body pr)
          then CALLBACK_NOTIFY S message_complete (new_message s) (\<lambda>s1. Return s1 (pos s1 + 1))
        else if has_flag F_SKIPBODY pr then CALLBACK_NOTIFY S message_complete (new_message s) Break
        else if has_flag F_CHUNKED pr then Break (UPDATE_STATE s_chunk_size_start s)
        else if content_length pr = 0 then CALLBACK_NOTIFY S message_complete (new_message s) Break
        else if content_length pr \<noteq> ULLONG_MAX then Break (UPDATE_STATE s_body_identity s)
        else if \<not> http_message_needs_eof pr then CALLBACK_NOTIFY S message_complete (new_message s) Break
        else Break (UPDATE_STATE s_body_identity_eof s))"

section \<open>Bodies\<close>

text \<open>\<open>MARK(body)\<close>, then the bytes of this buffer that belong to the body are taken.\<close>

definition take_body :: "bytes \<Rightarrow> 'u exec \<Rightarrow> 'u exec" where
  "take_body data s =
     (let to_read = min (unat (content_length (hp s))) (length data - pos s);
          s1 = on_hp (\<lambda>pr. pr\<lparr>content_length := content_length pr - of_nat to_read\<rparr>) (MARK body s)
      in s1\<lparr>pos := pos s + to_read - 1\<rparr>)"

definition exec_body_identity :: "'u http_parser_settings \<Rightarrow> bytes \<Rightarrow> 'u exec \<Rightarrow> 'u ctl" where
  "exec_body_identity S data s =
     (if content_length (hp s) = 0 \<or> content_length (hp s) = ULLONG_MAX then Assert_fail
      else
        let s1 = take_body data s in
        if content_length (hp s1) = 0
        then CALLBACK_DATA_ER S data body (pos s1 + 1) (pos s1) (UPDATE_STATE s_message_done s1) Reexecute
        else Break s1)"

definition exec_body_identity_eof :: "bytes \<Rightarrow> 'u exec \<Rightarrow> 'u ctl" where
  "exec_body_identity_eof data s = Break ((MARK body s)\<lparr>pos := length data - 1\<rparr>)"

definition exec_message_done :: "'u http_parser_settings \<Rightarrow> 'u exec \<Rightarrow> 'u ctl" where
  "exec_message_done S s =
     CALLBACK_NOTIFY S message_complete (new_message s)
       (\<lambda>s1. if upgrade (hp s1) then Return s1 (pos s1 + 1) else Break s1)"

definition exec_chunk_size_start :: "u8 \<Rightarrow> 'u exec \<Rightarrow> 'u ctl" where
  "exec_chunk_size_start ch s =
     (if nread (hp s) \<noteq> 1 \<or> \<not> has_flag F_CHUNKED (hp s) then Assert_fail
      else
        let unhex_val = unhex ! unat ch in
        if unhex_val = -1 then error HPE_INVALID_CHUNK_SIZE s
        else Break (UPDATE_STATE s_chunk_size (on_hp (\<lambda>pr. pr\<lparr>content_length := word_of_int unhex_val\<rparr>) s)))"

definition exec_chunk_size :: "u8 \<Rightarrow> 'u exec \<Rightarrow> 'u ctl" where
  "exec_chunk_size ch s =
     (if \<not> has_flag F_CHUNKED (hp s) then Assert_fail
      else if ch = CR then Break (UPDATE_STATE s_chunk_size_almost_done s)
      else
        let unhex_val = unhex ! unat ch in
        if unhex_val = -1 then
          if ch = ascii CHR '';'' \<or> ch = ascii CHR '' '' then Break (UPDATE_STATE s_chunk_parameters s)
          else error HPE_INVALID_CHUNK_SIZE s
        else
          let t = content_length (hp s) * 16 + word_of_int unhex_val in
          if (ULLONG_MAX - 16) div 16 < content_length (hp s) then error HPE_INVALID_CONTENT_LENGTH s
          else Break (on_hp (\<lambda>pr. pr\<lparr>content_length := t\<rparr>) s))"

definition exec_chunk_parameters :: "u8 \<Rightarrow> 'u exec \<Rightarrow> 'u ctl" where
  "exec_chunk_parameters ch s =
     (if \<not> has_flag F_CHUNKED (hp s) then Assert_fail
      else if ch = CR then Break (UPDATE_STATE s_chunk_size_almost_done s)
      else Break s)"

definition exec_chunk_size_almost_done :: "'u http_parser_settings \<Rightarrow> u8 \<Rightarrow> 'u exec \<Rightarrow> 'u ctl" where
  "exec_chunk_size_almost_done S ch s =
     (if \<not> has_flag F_CHUNKED (hp s) then Assert_fail
      else
        STRICT_CHECK (ch \<noteq> LF) s
          (let s1 = on_hp (\<lambda>pr. pr\<lparr>nread := 0\<rparr>) s;
               s2 = (if content_length (hp s1) = 0
                     then UPDATE_STATE s_header_field_start (on_hp (add_flag F_TRAILING) s1)
                     else UPDATE_STATE s_chunk_data s1)
           in CALLBACK_NOTIFY S chunk_header s2 Break))"

definition exec_chunk_data :: "bytes \<Rightarrow> 'u exec \<Rightarrow> 'u ctl" where
  "exec_chunk_data data s =
     (if \<not> has_flag F_CHUNKED (hp s) \<or> content_length (hp s) = 0 \<or> content_length (hp s) = ULLONG_MAX
      then Assert_fail
      else
        let s1 = take_body data s in
        Break (if content_length (hp s1) = 0 then UPDATE_STATE s_chunk_data_almost_done s1 else s1))"

definition exec_chunk_data_almost_done :: "'u http_parser_settings \<Rightarrow> bytes \<Rightarrow> u8 \<Rightarrow> 'u exec \<Rightarrow> 'u ctl" where
  "exec_chunk_data_almost_done S data ch s =
     (if \<not> has_flag F_CHUNKED (hp s) \<or> content_length (hp s) \<noteq> 0 then Assert_fail
      else STRICT_CHECK (ch \<noteq> CR) s (CALLBACK_DATA S data body (UPDATE_STATE s_chunk_data_done s) Break))"

definition exec_chunk_data_done :: "'u http_parser_settings \<Rightarrow> u8 \<Rightarrow> 'u exec \<Rightarrow> 'u ctl" where
  "exec_chunk_data_done S ch s =
     (if \<not> has_flag F_CHUNKED (hp s) then Assert_fail
      else
        STRICT_CHECK (ch \<noteq> LF) s
          (CALLBACK_NOTIFY S chunk_complete
             (UPDATE_STATE s_chunk_size_start (on_hp (\<lambda>pr. pr\<lparr>nread := 0\<rparr>) s)) Break))"

end
