(* ===== verification/Http_Loop.thy ===== *)
theory Http_Loop
  imports Http_States
begin

text \<open>
  The switch, the jump back to \<open>reexecute\<close>, the loop over the bytes and \<open>http_parser_execute\<close>
  itself. That the jumps and the loop end is shown here, with the definitions.
\<close>

section \<open>The switch\<close>

definition dispatch :: "'u http_parser_settings \<Rightarrow> bytes \<Rightarrow> 'u exec \<Rightarrow> 'u ctl" where
  "dispatch S data s =
     (let ch = data ! pos s in
      case p_state s of
        s_dead \<Rightarrow> exec_dead ch s
      | s_start_req_or_res \<Rightarrow> exec_start_req_or_res S ch s
      | s_res_or_resp_H \<Rightarrow> exec_res_or_resp_H ch s
      | s_start_res \<Rightarrow> exec_start_res S ch s
      | s_res_H \<Rightarrow> exec_expect (ascii CHR ''T'') s_res_HT ch s
      | s_res_HT \<Rightarrow> exec_expect (ascii CHR ''T'') s_res_HTT ch s
      | s_res_HTT \<Rightarrow> exec_expect (ascii CHR ''P'') s_res_HTTP ch s
      | s_res_HTTP \<Rightarrow> exec_expect (ascii CHR ''/'') s_res_first_http_major ch s
      | s_res_first_http_major \<Rightarrow> exec_first_major (IS_NUM ch) s_res_http_major ch s
      | s_res_http_major \<Rightarrow> exec_major s_res_first_http_minor ch s
      | s_res_first_http_minor \<Rightarrow> exec_first_minor s_res_http_minor ch s
      | s_res_http_minor \<Rightarrow> exec_res_http_minor ch s
      | s_res_first_status_code \<Rightarrow> exec_res_first_status_code ch s
      | s_res_status_code \<Rightarrow> exec_res_status_code ch s
      | s_res_status_start \<Rightarrow> exec_res_status_start ch s
      | s_res_status \<Rightarrow> exec_res_status S data ch s
      | s_res_line_almost_done \<Rightarrow> exec_res_line_almost_done ch s
      | s_start_req \<Rightarrow> exec_start_req S ch s
      | s_req_method \<Rightarrow> exec_req_method ch s
      | s_req_spaces_before_url \<Rightarrow> exec_req_spaces_before_url ch s
      | s_req_schema \<Rightarrow> exec_req_schema ch s
      | s_req_schema_slash \<Rightarrow> exec_req_schema ch s
      | s_req_schema_slash_slash \<Rightarrow> exec_req_schema ch s
      | s_req_server_start \<Rightarrow> exec_req_schema ch s
      | s_req_server \<Rightarrow> exec_req_url S data ch s
      | s_req_server_with_at \<Rightarrow> exec_req_url S data ch s
      | s_req_path \<Rightarrow> exec_req_url S data ch s
      | s_req_query_string_start \<Rightarrow> exec_req_url S data ch s
      | s_req_query_string \<Rightarrow> exec_req_url S data ch s
      | s_req_fragment_start \<Rightarrow> exec_req_url S data ch s
      | s_req_fragment \<Rightarrow> exec_req_url S data ch s
      | s_req_http_start \<Rightarrow> exec_req_http_start ch s
      | s_req_http_H \<Rightarrow> exec_req_http_H ch s
      | s_req_http_HT \<Rightarrow> exec_req_http_HT ch s
      | s_req_http_HTT \<Rightarrow> exec_req_http_HTT ch s
      | s_req_http_HTTP \<Rightarrow> exec_req_http_HTTP ch s
      | s_req_first_http_major \<Rightarrow> exec_req_first_http_major ch s
      | s_req_http_major \<Rightarrow> exec_req_http_major ch s
      | s_req_first_http_minor \<Rightarrow> exec_req_first_http_minor ch s
      | s_req_http_minor \<Rightarrow> exec_req_http_minor ch s
      | s_req_line_almost_done \<Rightarrow> exec_req_line_almost_done ch s
      | s_header_field_start \<Rightarrow> exec_header_field_start ch s
      | s_header_field \<Rightarrow> exec_header_field S data s
      | s_header_value_discard_ws \<Rightarrow> exec_header_value_discard_ws ch s
      | s_header_value_start \<Rightarrow> exec_header_value_start ch s
      | s_header_value \<Rightarrow> exec_header_value S data s
      | s_header_almost_done \<Rightarrow> exec_header_almost_done ch s
      | s_header_value_lws \<Rightarrow> exec_header_value_lws ch s
      | s_header_value_discard_ws_almost_done \<Rightarrow> exec_header_value_discard_ws_almost_done ch s
      | s_header_value_discard_lws \<Rightarrow> exec_header_value_discard_lws S data ch s
      | s_headers_almost_done \<Rightarrow> exec_headers_almost_done S ch s
      | s_headers_done \<Rightarrow> exec_headers_done S ch s
      | s_body_identity \<Rightarrow> exec_body_identity S data s
      | s_body_identity_eof \<Rightarrow> exec_body_identity_eof data s
      | s_message_done \<Rightarrow> exec_message_done S s
      | s_chunk_size_start \<Rightarrow> exec_chunk_size_start ch s
      | s_chunk_size \<Rightarrow> exec_chunk_size ch s
      | s_chunk_parameters \<Rightarrow> exec_chunk_parameters ch s
      | s_chunk_size_almost_done \<Rightarrow> exec_chunk_size_almost_done S ch s
      | s_chunk_data \<Rightarrow> exec_chunk_data data s
      | s_chunk_data_almost_done \<Rightarrow> exec_chunk_data_almost_done S data ch s
      | s_chunk_data_done \<Rightarrow> exec_chunk_data_done S ch s)"

section \<open>Where control goes\<close>

text \<open>
  A predicate on outcomes: \<open>brk\<close> of the state that goes on to the next byte, \<open>rex\<close> of the state
  that looks at this byte again, \<open>err\<close> of the state of an error, \<open>ret\<close> of an early return; the
  last argument says whether an assertion may fail.
\<close>

fun ctl_all ::
  "('u exec \<Rightarrow> bool) \<Rightarrow> ('u exec \<Rightarrow> bool) \<Rightarrow> ('u exec \<Rightarrow> bool) \<Rightarrow> ('u exec \<Rightarrow> nat \<Rightarrow> bool) \<Rightarrow> bool \<Rightarrow> 'u ctl \<Rightarrow> bool" where
  "ctl_all brk rex err ret asr (Break s) \<longleftrightarrow> brk s"
| "ctl_all brk rex err ret asr (Reexecute s) \<longleftrightarrow> rex s"
| "ctl_all brk rex err ret asr (Goto_error s) \<longleftrightarrow> err s"
| "ctl_all brk rex err ret asr (Return s n) \<longleftrightarrow> ret s n"
| "ctl_all brk rex err ret asr Assert_fail \<longleftrightarrow> asr"

lemma ctl_all_mono:
  assumes "ctl_all b r e t a c" "\<And>s. b s \<Longrightarrow> b' s" "\<And>s. r s \<Longrightarrow> r' s" "\<And>s. e s \<Longrightarrow> e' s"
    "\<And>s n. t s n \<Longrightarrow> t' s n" "a \<Longrightarrow> a'"
  shows "ctl_all b' r' e' t' a' c"
  using assms by (cases c) auto

text \<open>What a callback can change.\<close>

definition cb_rel :: "'u exec \<Rightarrow> 'u exec \<Rightarrow> bool" where
  "cb_rel s s' \<longleftrightarrow> (\<exists>x e u. s' = s\<lparr>hp := (hp s)\<lparr>hstate := x, herrno := e\<rparr>, usr := u\<rparr>)"

lemma cb_rel_refl: "cb_rel s s"
  unfolding cb_rel_def by (rule exI [of _ "hstate (hp s)"], rule exI [of _ "herrno (hp s)"], rule exI [of _ "usr s"]) simp

lemma cb_relD:
  assumes "cb_rel s s'"
  shows "pos s' = pos s" "p_state s' = p_state s" "marks s' = marks s"
    "ptype (hp s') = ptype (hp s)" "flags (hp s') = flags (hp s)" "header_state (hp s') = header_state (hp s)"
    "index (hp s') = index (hp s)" "nread (hp s') = nread (hp s)" "content_length (hp s') = content_length (hp s)"
    "http_major (hp s') = http_major (hp s)" "http_minor (hp s') = http_minor (hp s)"
    "status_code (hp s') = status_code (hp s)" "hmethod (hp s') = hmethod (hp s)" "upgrade (hp s') = upgrade (hp s)"
    "lenient_http_headers (hp s') = lenient_http_headers (hp s)"
  using assms by (auto simp: cb_rel_def)

lemma after_callback_rel:
  "cb_rel s (after_callback e ((hp s)\<lparr>hstate := p_state s\<rparr>) r s)"
proof -
  obtain ret paused u where r: "r = (ret, paused, u)"
    by (cases r)
  have "after_callback e ((hp s)\<lparr>hstate := p_state s\<rparr>) r s =
      s\<lparr>hp := (hp s)\<lparr>hstate := p_state s,
          herrno := (if ret \<noteq> 0 then e else if paused then HPE_PAUSED else herrno (hp s))\<rparr>, usr := u\<rparr>"
    by (cases s, cases "hp s") (simp add: after_callback_def r)
  then show ?thesis
    unfolding cb_rel_def by blast
qed

lemma after_callback_marks [simp]: "marks (after_callback e pr r s) = marks s"
  by (simp add: after_callback_def Let_def split: prod.split)

lemma notify_rule:
  assumes "\<And>s'. cb_rel s s' \<Longrightarrow> herrno (hp s') = HPE_OK \<Longrightarrow> ctl_all b r e t a (k s')"
    and "\<And>s'. cb_rel s s' \<Longrightarrow> herrno (hp s') \<noteq> HPE_OK \<Longrightarrow> t s' er"
    and "herrno (hp s) \<noteq> HPE_OK \<Longrightarrow> a"
  shows "ctl_all b r e t a (CALLBACK_NOTIFY_ER S f er s k)"
  using assms cb_rel_refl [of s] after_callback_rel [of s]
  by (auto simp: CALLBACK_NOTIFY_ER_def Let_def split: option.split)

lemma data_rule:
  assumes "\<And>s'. cb_rel s s' \<Longrightarrow> herrno (hp s') = HPE_OK \<Longrightarrow> ctl_all b r e t a (k (s'\<lparr>marks := (marks s)(f := None)\<rparr>))"
    and "\<And>s'. cb_rel s s' \<Longrightarrow> herrno (hp s') \<noteq> HPE_OK \<Longrightarrow> t s' er"
    and "herrno (hp s) \<noteq> HPE_OK \<Longrightarrow> a"
  shows "ctl_all b r e t a (CALLBACK_DATA_ER S data f stop er s k)"
proof (cases "marks s f")
  case None
  then have "s\<lparr>marks := (marks s)(f := None)\<rparr> = s"
    by (simp add: fun_upd_idem)
  then show ?thesis
    using assms(1) [OF cb_rel_refl] assms(3) None by (auto simp: CALLBACK_DATA_ER_def)
next
  case (Some m)
  then show ?thesis
    using assms cb_rel_refl [of s] after_callback_rel [of s, where e = "data_errno f"]
    by (auto simp del: split_paired_All simp: CALLBACK_DATA_ER_def Let_def split: option.split)
qed

lemma count_rule:
  assumes "\<And>n. unat n \<le> HTTP_MAX_HEADER_SIZE \<Longrightarrow> ctl_all b r e t a (k (s\<lparr>hp := (hp s)\<lparr>nread := n\<rparr>\<rparr>))"
    and "\<And>n. e (s\<lparr>hp := (hp s)\<lparr>nread := n, herrno := HPE_HEADER_OVERFLOW\<rparr>\<rparr>)"
  shows "ctl_all b r e t a (COUNT_HEADER_SIZE v s k)"
  using assms by (auto simp: COUNT_HEADER_SIZE_def error_def SET_ERRNO_def on_hp_def Let_def)

lemma strict_rule:
  assumes "e (s\<lparr>hp := (hp s)\<lparr>herrno := HPE_STRICT\<rparr>\<rparr>)" "\<not> c \<Longrightarrow> ctl_all b r e t a k"
  shows "ctl_all b r e t a (STRICT_CHECK c s k)"
  using assms by (simp add: STRICT_CHECK_def error_def SET_ERRNO_def)

subsection \<open>The inner loops move forward\<close>

lemma header_field_loop_bounds:
  "p \<le> length data \<Longrightarrow> header_field_loop data p pr = (q, x) \<Longrightarrow> p \<le> q \<and> q \<le> length data"
proof (induction data p pr rule: header_field_loop.induct)
  case (1 data p pr)
  show ?case
    using "1.prems" "1.IH" unfolding header_field_loop.simps [of data p pr]
    by (fastforce simp: Let_def split: if_splits scan.splits)
qed

lemma header_value_loop_bounds:
  "p \<le> length data \<Longrightarrow> header_value_loop data p h pr = (q, x) \<Longrightarrow> p \<le> q \<and> q \<le> length data"
proof (induction data p h pr rule: header_value_loop.induct)
  case (1 data p h pr)
  show ?case
    using "1.prems" "1.IH" skip_value_bounds [of p data] unfolding header_value_loop.simps [of data p h pr]
    by (fastforce simp: Let_def split: if_splits scan.splits prod.splits)
qed

lemma header_value_loop_stop:
  "header_value_loop data p h pr = (q, Go (w, h', pr')) \<Longrightarrow> p \<le> length data \<Longrightarrow>
     (w \<noteq> At_end \<longrightarrow> q < length data \<and> data ! q = (if w = At_CR then CR else LF)) \<and> (w = At_end \<longrightarrow> q = length data)"
proof (induction data p h pr rule: header_value_loop.induct)
  case (1 data p h pr)
  note loop = header_value_loop.simps [of data p h pr]
  consider "\<not> p < length data" | "p < length data" "data ! p = CR \<or> data ! p = LF \<or> \<not> lenient_http_headers pr \<and> \<not> IS_HEADER_CHAR (data ! p)"
    | (general) "p < length data" "data ! p \<noteq> CR" "data ! p \<noteq> LF" "lenient_http_headers pr \<or> IS_HEADER_CHAR (data ! p)" "h = h_general"
    | (char) "p < length data" "data ! p \<noteq> CR" "data ! p \<noteq> LF" "lenient_http_headers pr \<or> IS_HEADER_CHAR (data ! p)" "h \<noteq> h_general"
    by blast
  then show ?case
  proof cases
    case general
    have "header_value_loop data p h pr = header_value_loop data (skip_value data p) h pr"
      by (subst loop) (use general in \<open>auto simp: Let_def\<close>)
    moreover have "\<not> (\<not> lenient_http_headers pr \<and> \<not> IS_HEADER_CHAR (data ! p))"
      using general(4) by blast
    ultimately show ?thesis
      using "1.prems"(1) "1.IH"(1) [OF general(1) refl general(2,3) _ general(5)] skip_value_bounds [OF general(1-3)]
      by metis
  next
    case char
    have IH: "header_value_loop data (Suc p) h1 pr1 = (q, Go (w, h', pr')) \<Longrightarrow> Suc p \<le> length data \<Longrightarrow>
      (w \<noteq> At_end \<longrightarrow> q < length data \<and> data ! q = (if w = At_CR then CR else LF)) \<and> (w = At_end \<longrightarrow> q = length data)"
      if "header_value_char (data ! p) h pr = Go (h1, pr1)" for h1 pr1
      using "1.IH"(2) [OF char(1) refl char(2,3) _ char(5)] char(4) that by blast
    show ?thesis
      using "1.prems"(1) char IH by (auto simp: loop Let_def split: scan.splits prod.splits)
  next
    case 1
    then show ?thesis
      using "1.prems" unfolding loop by simp
  next
    case 2
    then show ?thesis
      using "1.prems" unfolding loop by (auto simp: Let_def split: if_splits)
  qed
qed

subsection \<open>The jumps back end and the position moves forward\<close>

fun rank :: "state \<Rightarrow> nat" where
  "rank s_header_value_discard_lws = 5"
| "rank s_header_value_lws = 5"
| "rank s_header_field_start = 4"
| "rank s_headers_almost_done = 3"
| "rank s_headers_done = 2"
| "rank s_body_identity = 2"
| "rank s_header_value = 2"
| "rank s_start_req_or_res = 2"
| "rank _ = 1"

definition moves :: "bytes \<Rightarrow> 'u exec \<Rightarrow> 'u ctl \<Rightarrow> bool" where
  "moves data s r =
     ctl_all (\<lambda>s'. pos s \<le> pos s' \<and> pos s' < length data)
       (\<lambda>s'. pos s \<le> pos s' \<and> pos s' < length data \<and> rank (p_state s') < rank (p_state s))
       (\<lambda>s'. pos s \<le> pos s' \<and> pos s' \<le> length data)
       (\<lambda>s' n. pos s \<le> n \<and> n \<le> length data) True r"

lemmas prim_defs = UPDATE_STATE_def on_hp_def MARK_def error_def SET_ERRNO_def STRICT_CHECK_def Let_def

lemma moves_plain:
  assumes "pos s < length data"
  shows "moves data s (exec_dead ch s)" "moves data s (exec_res_or_resp_H ch s)"
    "moves data s (exec_expect want next ch s)" "moves data s (exec_first_major b next ch s)"
    "moves data s (exec_major next ch s)" "moves data s (exec_first_minor next ch s)"
    "moves data s (exec_res_http_minor ch s)" "moves data s (exec_res_first_status_code ch s)"
    "moves data s (exec_res_status_code ch s)" "moves data s (exec_res_status_start ch s)"
    "moves data s (exec_req_method ch s)" "moves data s (exec_req_spaces_before_url ch s)"
    "moves data s (exec_req_schema ch s)" "moves data s (exec_req_http_start ch s)"
    "moves data s (exec_req_http_minor ch s)" "moves data s (exec_req_line_almost_done ch s)"
    "moves data s (exec_header_value_start ch s)" "moves data s (exec_header_value_discard_ws ch s)"
    "moves data s (exec_header_almost_done ch s)" "moves data s (exec_body_identity_eof data s)"
    "moves data s (exec_chunk_size_start ch s)" "moves data s (exec_chunk_size ch s)"
    "moves data s (exec_chunk_parameters ch s)"
  using assms
  by (auto simp: moves_def prim_defs exec_dead_def exec_res_or_resp_H_def exec_expect_def exec_first_major_def
      exec_major_def exec_first_minor_def exec_res_http_minor_def exec_minor_digit_def
      exec_res_first_status_code_def exec_res_status_code_def exec_res_status_start_def exec_req_method_def
      exec_req_spaces_before_url_def exec_url_char_def exec_req_schema_def exec_req_http_start_def
      exec_req_http_minor_def exec_req_line_almost_done_def exec_header_value_start_def
      exec_header_value_discard_ws_def exec_header_almost_done_def exec_body_identity_eof_def
      exec_chunk_size_start_def exec_chunk_size_def exec_chunk_parameters_def
      split: option.split header_states.split)

lemma notify_moves:
  assumes "pos s' = pos s" "pos s < length data" "er = pos s \<or> er = pos s + 1"
    and "\<And>s''. cb_rel s' s'' \<Longrightarrow> moves data s (k s'')"
  shows "moves data s (CALLBACK_NOTIFY_ER S f er s' k)"
  unfolding moves_def
  by (rule notify_rule) (use assms in \<open>auto simp: moves_def\<close>)

lemma data_moves:
  assumes "pos s < length data" "pos s \<le> er" "er \<le> length data"
    and "\<And>s''. cb_rel s' s'' \<Longrightarrow> moves data s (k (s''\<lparr>marks := (marks s')(f := None)\<rparr>))"
  shows "moves data s (CALLBACK_DATA_ER S data f stop er s' k)"
  unfolding moves_def
  by (rule data_rule) (use assms in \<open>auto simp: moves_def\<close>)

lemmas callback_defs = CALLBACK_NOTIFY_def CALLBACK_NOTIFY_NOADVANCE_def CALLBACK_DATA_def CALLBACK_DATA_NOADVANCE_def

lemmas moves_simps = callback_defs new_message_def STRICT_CHECK_def Let_def UPDATE_STATE_def on_hp_def MARK_def

lemma moves_start_res:
  assumes "pos s < length data"
  shows "moves data s (exec_start_res S ch s)"
  using assms
  by (auto simp: exec_start_res_def moves_simps intro!: notify_moves data_moves split: option.split)
    (auto simp: moves_def prim_defs cb_relD)

lemma moves_res_status:
  assumes "pos s < length data"
  shows "moves data s (exec_res_status S data ch s)"
  using assms
  by (auto simp: exec_res_status_def moves_simps intro!: notify_moves data_moves split: option.split)
    (auto simp: moves_def prim_defs cb_relD)

lemma moves_start_req:
  assumes "pos s < length data"
  shows "moves data s (exec_start_req S ch s)"
  using assms
  by (auto simp: exec_start_req_def moves_simps intro!: notify_moves data_moves split: option.split)
    (auto simp: moves_def prim_defs cb_relD)

lemma moves_req_url:
  assumes "pos s < length data"
  shows "moves data s (exec_req_url S data ch s)"
  using assms
  by (auto simp: exec_req_url_def exec_url_char_def moves_simps intro!: notify_moves data_moves split: option.split)
    (auto simp: moves_def prim_defs cb_relD)

lemma moves_if:
  "(c \<Longrightarrow> moves data s x) \<Longrightarrow> (\<not> c \<Longrightarrow> moves data s y) \<Longrightarrow> moves data s (if c then x else y)"
  by simp

lemma moves_headers_done:
  assumes "pos s < length data"
  shows "moves data s (exec_headers_done S ch s)"
  unfolding exec_headers_done_def STRICT_CHECK_def Let_def CALLBACK_NOTIFY_def
  by (intro moves_if notify_moves)
    (use assms in \<open>simp_all add: moves_def error_def SET_ERRNO_def UPDATE_STATE_def on_hp_def new_message_def cb_relD\<close>)

lemma moves_message_done:
  assumes "pos s < length data"
  shows "moves data s (exec_message_done S s)"
  using assms
  by (auto simp: exec_message_done_def moves_simps intro!: notify_moves data_moves split: option.split)
    (auto simp: moves_def prim_defs cb_relD)

lemma moves_chunk_size_almost_done:
  assumes "pos s < length data"
  shows "moves data s (exec_chunk_size_almost_done S ch s)"
  using assms
  by (auto simp: exec_chunk_size_almost_done_def moves_simps intro!: notify_moves data_moves split: option.split)
    (auto simp: moves_def prim_defs cb_relD)

lemma moves_chunk_data_almost_done:
  assumes "pos s < length data"
  shows "moves data s (exec_chunk_data_almost_done S data ch s)"
  using assms
  by (auto simp: exec_chunk_data_almost_done_def moves_simps intro!: notify_moves data_moves split: option.split)
    (auto simp: moves_def prim_defs cb_relD)

lemma moves_chunk_data_done:
  assumes "pos s < length data"
  shows "moves data s (exec_chunk_data_done S ch s)"
  using assms
  by (auto simp: exec_chunk_data_done_def moves_simps intro!: notify_moves data_moves split: option.split)
    (auto simp: moves_def prim_defs cb_relD)

lemma moves_start_req_or_res:
  assumes "pos s < length data" "p_state s = s_start_req_or_res"
  shows "moves data s (exec_start_req_or_res S ch s)"
  using assms
  by (auto simp: exec_start_req_or_res_def moves_simps intro!: notify_moves data_moves split: option.split)
    (auto simp: moves_def prim_defs cb_relD)

lemma moves_header_field_start:
  assumes "pos s < length data" "p_state s = s_header_field_start"
  shows "moves data s (exec_header_field_start ch s)"
  using assms
  by (auto simp: exec_header_field_start_def moves_simps intro!: notify_moves data_moves split: option.split)
    (auto simp: moves_def prim_defs cb_relD)

lemma moves_header_value_lws:
  assumes "pos s < length data" "p_state s = s_header_value_lws"
  shows "moves data s (exec_header_value_lws ch s)"
  using assms
  by (auto simp: exec_header_value_lws_def moves_simps intro!: notify_moves data_moves split: option.split)
    (auto simp: moves_def prim_defs cb_relD)

lemma moves_header_value_discard_lws:
  assumes "pos s < length data" "p_state s = s_header_value_discard_lws"
  shows "moves data s (exec_header_value_discard_lws S data ch s)"
  using assms
  by (auto simp: exec_header_value_discard_lws_def moves_simps intro!: notify_moves data_moves split: option.split)
    (auto simp: moves_def prim_defs cb_relD)

lemmas moves_callbacks = moves_start_res moves_res_status moves_start_req moves_req_url moves_headers_done moves_message_done moves_chunk_size_almost_done moves_chunk_data_almost_done moves_chunk_data_done moves_start_req_or_res moves_header_field_start moves_header_value_lws moves_header_value_discard_lws

text \<open>What the callback for the end of the headers can change.\<close>

definition hc_rel :: "'u exec \<Rightarrow> 'u exec \<Rightarrow> bool" where
  "hc_rel s s' \<longleftrightarrow> (\<exists>fl e u. s' = s\<lparr>hp := (hp s)\<lparr>flags := fl, herrno := e\<rparr>, usr := u\<rparr> \<and>
     (fl = flags (hp s) \<or> fl = flags (hp s) OR F_SKIPBODY))"

lemma hc_relI:
  assumes "s' = s\<lparr>hp := (hp s)\<lparr>flags := fl, herrno := e\<rparr>, usr := u\<rparr>" "fl = flags (hp s) \<or> fl = flags (hp s) OR F_SKIPBODY"
  shows "hc_rel s s'"
  using assms unfolding hc_rel_def by blast

lemma headers_complete_rule:
  assumes "\<And>s'. hc_rel s s' \<Longrightarrow> ctl_all b r e t a (k s')"
    and "\<And>s'. hc_rel s s' \<Longrightarrow> herrno (hp s') = HPE_CB_headers_complete \<Longrightarrow> t s' (pos s)"
  shows "ctl_all b r e t a (call_headers_complete S s k)"
proof (cases "on_notify S headers_complete")
  case None
  have "hc_rel s s"
    by (rule hc_relI [where fl = "flags (hp s)" and e = "herrno (hp s)" and u = "usr s"]) simp_all
  then show ?thesis
    using assms(1) None by (simp add: call_headers_complete_def)
next
  case (Some cb)
  obtain ret paused u where r: "cb (hp s) (usr s) = (ret, paused, u)"
    by (cases "cb (hp s) (usr s)")
  let ?s = "(if paused then SET_ERRNO HPE_PAUSED s else s)\<lparr>usr := u\<rparr>"
  let ?e = "if paused then HPE_PAUSED else herrno (hp s)"
  have "hc_rel s ?s"
    by (rule hc_relI [where fl = "flags (hp s)" and e = ?e and u = u]) (cases s, cases "hp s", simp_all add: SET_ERRNO_def)
  moreover have "hc_rel s (on_hp (add_flag F_SKIPBODY) ?s)"
    by (rule hc_relI [where fl = "flags (hp s) OR F_SKIPBODY" and e = ?e and u = u])
      (cases s, cases "hp s", simp_all add: SET_ERRNO_def on_hp_def add_flag_def)
  moreover have "hc_rel s (SET_ERRNO HPE_CB_headers_complete ?s)"
    by (rule hc_relI [where fl = "flags (hp s)" and e = HPE_CB_headers_complete and u = u])
      (cases s, cases "hp s", simp_all add: SET_ERRNO_def)
  moreover have "herrno (hp (SET_ERRNO HPE_CB_headers_complete ?s)) = HPE_CB_headers_complete"
    by (simp add: SET_ERRNO_def)
  ultimately show ?thesis
    using assms Some r by (simp add: call_headers_complete_def Let_def)
qed

lemma moves_headers_almost_done:
  assumes "pos s < length data" "p_state s = s_headers_almost_done"
  shows "moves data s (exec_headers_almost_done S ch s)"
  using assms
  by (auto simp: exec_headers_almost_done_def callback_defs prim_defs moves_def cb_relD hc_rel_def
      intro!: notify_rule headers_complete_rule)

lemma take_body_pos:
  assumes "pos s < length data" "content_length (hp s) \<noteq> 0"
  shows "pos s \<le> pos (take_body data s)" "pos (take_body data s) < length data"
    "p_state (take_body data s) = p_state s"
proof -
  have "0 < unat (content_length (hp s))"
    using assms(2) by (simp add: unat_gt_0)
  then show "pos s \<le> pos (take_body data s)" "pos (take_body data s) < length data"
    "p_state (take_body data s) = p_state s"
    using assms(1) by (auto simp: take_body_def Let_def on_hp_def MARK_def)
qed

lemma moves_bodies:
  assumes "pos s < length data"
  shows "p_state s = s_body_identity \<Longrightarrow> moves data s (exec_body_identity S data s)"
    "moves data s (exec_chunk_data data s)"
  using assms take_body_pos [of s data]
  by (auto simp: exec_body_identity_def exec_chunk_data_def Let_def UPDATE_STATE_def cb_relD
      intro!: data_moves) (auto simp: moves_def cb_relD)

lemma count_moves:
  assumes "\<And>n. unat n \<le> HTTP_MAX_HEADER_SIZE \<Longrightarrow> moves data s (k (s'\<lparr>hp := (hp s')\<lparr>nread := n\<rparr>\<rparr>))"
    and "pos s \<le> pos s'" "pos s' \<le> length data"
  shows "moves data s (COUNT_HEADER_SIZE v s' k)"
  unfolding moves_def by (rule count_rule) (use assms in \<open>auto simp: moves_def\<close>)

lemma moves_header_field:
  assumes "pos s < length data"
  shows "moves data s (exec_header_field S data s)"
proof -
  obtain p x where l: "header_field_loop data (pos s) (hp s) = (p, x)"
    by (cases "header_field_loop data (pos s) (hp s)")
  then have b: "pos s \<le> p" "p \<le> length data"
    using header_field_loop_bounds [OF _ l] assms by auto
  show ?thesis
  proof (cases x)
    case (Go pr)
    then show ?thesis
      using l b assms
      by (auto simp: exec_header_field_def callback_defs intro!: count_moves data_moves)
        (auto simp: moves_def prim_defs cb_relD)
  qed (use l b assms in \<open>auto simp: exec_header_field_def moves_def prim_defs\<close>)
qed

lemma moves_header_value:
  assumes "pos s < length data" "p_state s = s_header_value"
  shows "moves data s (exec_header_value S data s)"
proof -
  obtain p x where l: "header_value_loop data (pos s) (header_state (hp s)) (hp s) = (p, x)"
    by (cases "header_value_loop data (pos s) (header_state (hp s)) (hp s)")
  then have b: "pos s \<le> p" "p \<le> length data"
    using header_value_loop_bounds [OF _ l] assms by auto
  show ?thesis
  proof (cases x)
    case (Go y)
    obtain w h pr where y: "y = (w, h, pr)" by (cases y)
    have lt: "w \<noteq> At_end \<longrightarrow> p < length data" "w = At_end \<longrightarrow> p = length data"
      using header_value_loop_stop [of data "pos s" "header_state (hp s)" "hp s" p w h pr] l Go y assms(1) by simp_all
    show ?thesis
      using l b assms lt Go y
      by (cases w) (auto simp: exec_header_value_def callback_defs UPDATE_STATE_def on_hp_def intro!: count_moves data_moves,
         auto simp: moves_def prim_defs cb_relD intro!: count_rule)
  qed (use l b assms in \<open>auto simp: exec_header_value_def moves_def prim_defs\<close>)
qed

lemma dispatch_moves:
  assumes "pos s < length data"
  shows "moves data s (dispatch S data s)"
  using assms
  by (cases "p_state s")
    (simp_all add: dispatch_def Let_def moves_plain moves_callbacks moves_headers_almost_done moves_bodies
      moves_header_field moves_header_value)


section \<open>The loop\<close>

text \<open>
  \<open>reexecute\<close>: jumps back until the byte is done with. The position stays inside the data, so
  outside it the function just stops.
\<close>

function reexecute :: "'u http_parser_settings \<Rightarrow> bytes \<Rightarrow> 'u exec \<Rightarrow> 'u ctl" where
  "reexecute S data s =
     (if pos s < length data then
        (case dispatch S data s of Reexecute s' \<Rightarrow> reexecute S data s' | r \<Rightarrow> r)
      else Break s)"
  by auto
termination
proof (relation "measure (\<lambda>(S, data, s). rank (p_state s))")
  fix S :: "'u http_parser_settings" and data s s'
  assume "pos s < length data" "dispatch S data s = Reexecute s'"
  then show "((S, data, s'), (S, data, s)) \<in> measure (\<lambda>(S, data, s). rank (p_state s))"
    using dispatch_moves [of s data S] by (simp add: moves_def)
qed simp

declare reexecute.simps [simp del]

lemma reexecute_moves:
  "pos s < length data \<Longrightarrow> ctl_all (\<lambda>s'. pos s \<le> pos s' \<and> pos s' < length data) (\<lambda>_. False)
     (\<lambda>s'. pos s \<le> pos s' \<and> pos s' \<le> length data) (\<lambda>s' n. pos s \<le> n \<and> n \<le> length data) True (reexecute S data s)"
proof (induction S data s rule: reexecute.induct)
  case (1 S data s)
  show ?case
  proof (cases "dispatch S data s")
    case (Reexecute s')
    then have s': "pos s \<le> pos s'" "pos s' < length data"
      using dispatch_moves [OF "1.prems", of S] by (auto simp: moves_def)
    have "ctl_all (\<lambda>t. pos s' \<le> pos t \<and> pos t < length data) (\<lambda>_. False)
     (\<lambda>t. pos s' \<le> pos t \<and> pos t \<le> length data) (\<lambda>t n. pos s' \<le> n \<and> n \<le> length data) True (reexecute S data s')"
      using "1.IH" [OF "1.prems" Reexecute s'(2)] .
    then have "ctl_all (\<lambda>t. pos s \<le> pos t \<and> pos t < length data) (\<lambda>_. False)
     (\<lambda>t. pos s \<le> pos t \<and> pos t \<le> length data) (\<lambda>t n. pos s \<le> n \<and> n \<le> length data) True (reexecute S data s')"
      by (rule ctl_all_mono) (use s'(1) in auto)
    then show ?thesis
      using "1.prems" Reexecute by (simp add: reexecute.simps [of S data s])
  qed (use "1.prems" dispatch_moves [OF "1.prems", of S] in \<open>simp_all add: reexecute.simps [of S data s] moves_def\<close>)
qed

text \<open>One round of the loop over the bytes.\<close>

definition exec_byte :: "'u http_parser_settings \<Rightarrow> bytes \<Rightarrow> 'u exec \<Rightarrow> 'u ctl" where
  "exec_byte S data s =
     (if PARSING_HEADER (p_state s) then COUNT_HEADER_SIZE 1 s (reexecute S data) else reexecute S data s)"

lemma exec_byte_moves:
  assumes "pos s < length data"
  shows "ctl_all (\<lambda>s'. pos s \<le> pos s' \<and> pos s' < length data) (\<lambda>_. False)
     (\<lambda>s'. pos s \<le> pos s' \<and> pos s' \<le> length data) (\<lambda>s' n. pos s \<le> n \<and> n \<le> length data) True (exec_byte S data s)"
proof -
  have "ctl_all (\<lambda>s'. pos s \<le> pos s' \<and> pos s' < length data) (\<lambda>_. False)
     (\<lambda>s'. pos s \<le> pos s' \<and> pos s' \<le> length data) (\<lambda>s' n. pos s \<le> n \<and> n \<le> length data) True (reexecute S data s')"
    if "pos s' = pos s" for s'
    using reexecute_moves [of s' data S] assms that by simp
  then show ?thesis
    using assms by (auto simp: exec_byte_def intro!: count_rule)
qed

function exec_loop :: "'u http_parser_settings \<Rightarrow> bytes \<Rightarrow> 'u exec \<Rightarrow> 'u ctl" where
  "exec_loop S data s =
     (if pos s < length data then
        (case exec_byte S data s of Break s' \<Rightarrow> exec_loop S data (s'\<lparr>pos := pos s' + 1\<rparr>) | r \<Rightarrow> r)
      else Break s)"
  by auto
termination
proof (relation "measure (\<lambda>(S, data, s). length data - pos s)")
  fix S :: "'u http_parser_settings" and data s s'
  assume "pos s < length data" "exec_byte S data s = Break s'"
  then show "((S, data, s'\<lparr>pos := pos s' + 1\<rparr>), (S, data, s)) \<in> measure (\<lambda>(S, data, s). length data - pos s)"
    using exec_byte_moves [of s data S] by auto
qed simp

declare exec_loop.simps [simp del]

section \<open>The function\<close>

text \<open>The marks a call starts with: it may continue a name, a value, a URL or a status.\<close>

definition initial_marks :: "state \<Rightarrow> data_cb \<Rightarrow> nat option" where
  "initial_marks st f =
     (case f of
        header_field \<Rightarrow> if st = s_header_field then Some 0 else None
      | header_value \<Rightarrow> if st = s_header_value then Some 0 else None
      | url \<Rightarrow>
          if st \<in> {s_req_path, s_req_schema, s_req_schema_slash, s_req_schema_slash_slash, s_req_server_start,
               s_req_server, s_req_server_with_at, s_req_query_string_start, s_req_query_string,
               s_req_fragment_start, s_req_fragment} then Some 0 else None
      | status \<Rightarrow> if st = s_res_status then Some 0 else None
      | body \<Rightarrow> None)"

text \<open>The callbacks for what is left over when the bytes run out.\<close>

definition leftover :: "'u http_parser_settings \<Rightarrow> bytes \<Rightarrow> 'u exec \<Rightarrow> 'u ctl" where
  "leftover S data s =
     (if length (filter (\<lambda>f. marks s f \<noteq> None) [header_field, header_value, url, body, status]) > 1 then Assert_fail
      else
        CALLBACK_DATA_NOADVANCE S data header_field s (\<lambda>s1.
        CALLBACK_DATA_NOADVANCE S data header_value s1 (\<lambda>s2.
        CALLBACK_DATA_NOADVANCE S data url s2 (\<lambda>s3.
        CALLBACK_DATA_NOADVANCE S data body s3 (\<lambda>s4.
        CALLBACK_DATA_NOADVANCE S data status s4 (\<lambda>s5. Return s5 (length data)))))))"

text \<open>The values at the two exits; the result is \<open>None\<close> if an assertion fails.\<close>

definition leave :: "'u exec \<Rightarrow> nat \<Rightarrow> http_parser \<times> 'u \<times> nat" where
  "leave s n = ((hp s)\<lparr>hstate := p_state s\<rparr>, usr s, n)"

definition leave_error :: "'u exec \<Rightarrow> http_parser \<times> 'u \<times> nat" where
  "leave_error s =
     leave (if herrno (hp s) = HPE_OK then SET_ERRNO HPE_UNKNOWN s else s) (pos s)"

definition leave_ctl :: "'u ctl \<Rightarrow> (http_parser \<times> 'u \<times> nat) option" where
  "leave_ctl r =
     (case r of
        Return s n \<Rightarrow> Some (leave s n)
      | Goto_error s \<Rightarrow> Some (leave_error s)
      | _ \<Rightarrow> None)"

definition execute_eof :: "'u http_parser_settings \<Rightarrow> http_parser \<Rightarrow> 'u \<Rightarrow> (http_parser \<times> 'u \<times> nat) option" where
  "execute_eof S pr u =
     (case hstate pr of
        s_body_identity_eof \<Rightarrow>
          leave_ctl (CALLBACK_NOTIFY_NOADVANCE S message_complete
            \<lparr>hp = pr, usr = u, pos = 0, p_state = hstate pr, marks = (\<lambda>_. None)\<rparr> (\<lambda>s. Return s 0))
      | s_dead \<Rightarrow> Some (pr, u, 0)
      | s_start_req_or_res \<Rightarrow> Some (pr, u, 0)
      | s_start_res \<Rightarrow> Some (pr, u, 0)
      | s_start_req \<Rightarrow> Some (pr, u, 0)
      | _ \<Rightarrow> Some (pr\<lparr>herrno := HPE_INVALID_EOF_STATE\<rparr>, u, 1))"

definition http_parser_execute ::
  "'u http_parser_settings \<Rightarrow> bytes \<Rightarrow> http_parser \<Rightarrow> 'u \<Rightarrow> (http_parser \<times> 'u \<times> nat) option" where
  "http_parser_execute S data pr u =
     (if herrno pr \<noteq> HPE_OK then Some (pr, u, 0)
      else if data = [] then execute_eof S pr u
      else
        let s = \<lparr>hp = pr, usr = u, pos = 0, p_state = hstate pr, marks = initial_marks (hstate pr)\<rparr> in
        leave_ctl (case exec_loop S data s of Break s' \<Rightarrow> leftover S data s' | r \<Rightarrow> r))"

end
