(* ===== verification/Http_Safety.thy ===== *)
theory Http_Safety
  imports Http_Loop
begin

text \<open>
  What holds of the HTTP parser in every state it can get into, for any bytes, cut up in any
  way, and any callbacks: the invariant of the parser between two calls of
  \<open>http_parser_execute\<close>, and with it that no assertion in the code can fail.
\<close>

section \<open>The invariant\<close>

text \<open>The states in which each mark may be set.\<close>

fun mark_states :: "data_cb \<Rightarrow> state set" where
  "mark_states header_field = {s_header_field}"
| "mark_states header_value = {s_header_value}"
| "mark_states url = url_states"
| "mark_states body = {s_body_identity, s_body_identity_eof, s_chunk_data, s_chunk_data_almost_done}"
| "mark_states status = {s_res_status}"

definition marks_ok :: "state \<Rightarrow> nat \<Rightarrow> (data_cb \<Rightarrow> nat option) \<Rightarrow> bool" where
  "marks_ok st p ms \<longleftrightarrow> (\<forall>f m. ms f = Some m \<longrightarrow> st \<in> mark_states f \<and> m \<le> p)"

definition field_states :: "header_states set" where
  "field_states = {h_general, h_C, h_CO, h_CON, h_matching_connection, h_matching_proxy_connection,
     h_matching_content_length, h_matching_transfer_encoding, h_matching_upgrade,
     h_connection, h_content_length, h_transfer_encoding, h_upgrade}"

definition value_states :: "header_states set" where
  "value_states = - {h_connection, h_transfer_encoding}"

definition numbers_ok :: "http_parser \<Rightarrow> bool" where
  "numbers_ok pr \<longleftrightarrow> unat (nread pr) \<le> HTTP_MAX_HEADER_SIZE \<and> http_major pr \<le> 999 \<and> http_minor pr \<le> 999 \<and>
     status_code pr \<le> 999"

text \<open>\<open>k\<close> is the number of bytes counted for the current line when a chunk size is about to be read.\<close>

fun state_ok :: "nat \<Rightarrow> state \<Rightarrow> http_parser \<Rightarrow> bool" where
  "state_ok k s_header_field pr \<longleftrightarrow> header_state pr \<in> field_states"
| "state_ok k s_header_value pr \<longleftrightarrow> header_state pr \<in> value_states"
| "state_ok k s_req_method pr \<longleftrightarrow> index pr \<le> length (http_method_str (hmethod pr))"
| "state_ok k s_body_identity pr \<longleftrightarrow> content_length pr \<noteq> 0 \<and> content_length pr \<noteq> ULLONG_MAX"
| "state_ok k s_chunk_size_start pr \<longleftrightarrow> has_flag F_CHUNKED pr \<and> nread pr = of_nat k"
| "state_ok k s_chunk_size pr \<longleftrightarrow> has_flag F_CHUNKED pr \<and> content_length pr \<noteq> ULLONG_MAX"
| "state_ok k s_chunk_parameters pr \<longleftrightarrow> has_flag F_CHUNKED pr \<and> content_length pr \<noteq> ULLONG_MAX"
| "state_ok k s_chunk_size_almost_done pr \<longleftrightarrow> has_flag F_CHUNKED pr \<and> content_length pr \<noteq> ULLONG_MAX"
| "state_ok k s_chunk_data pr \<longleftrightarrow> has_flag F_CHUNKED pr \<and> content_length pr \<noteq> 0 \<and> content_length pr \<noteq> ULLONG_MAX"
| "state_ok k s_chunk_data_almost_done pr \<longleftrightarrow> has_flag F_CHUNKED pr \<and> content_length pr = 0"
| "state_ok k s_chunk_data_done pr \<longleftrightarrow> has_flag F_CHUNKED pr"
| "state_ok k _ pr \<longleftrightarrow> True"

definition einv :: "nat \<Rightarrow> 'u exec \<Rightarrow> bool" where
  "einv k s \<longleftrightarrow> herrno (hp s) = HPE_OK \<and> marks_ok (p_state s) (pos s) (marks s) \<and>
     numbers_ok (hp s) \<and> state_ok k (p_state s) (hp s)"

text \<open>
  What an outcome has to satisfy: a parser that was paused can be resumed, and a return inside the
  loop that is not an error is one after an upgrade.
\<close>

definition good :: "'u ctl \<Rightarrow> bool" where
  "good r \<longleftrightarrow>
     ctl_all (einv 0) (einv 1) (\<lambda>s. herrno (hp s) \<noteq> HPE_OK \<and> herrno (hp s) \<noteq> HPE_PAUSED)
       (\<lambda>s n. (herrno (hp s) \<in> {HPE_OK, HPE_PAUSED} \<longrightarrow> numbers_ok (hp s) \<and> state_ok 0 (p_state s) (hp s)) \<and>
          (herrno (hp s) = HPE_OK \<longrightarrow> upgrade (hp s))) False r"

subsection \<open>Marks\<close>

lemma mark_states_disjoint: "st \<in> mark_states f \<Longrightarrow> st \<in> mark_states g \<Longrightarrow> f = g"
  by (cases f; cases g) (auto simp: url_states_def)

lemma marks_ok_none [simp]: "marks_ok st p (\<lambda>_. None)"
  by (simp add: marks_ok_def)

lemma marks_ok_clear:
  assumes "marks_ok st p ms" "st \<in> mark_states f"
  shows "ms(f := None) = (\<lambda>_. None)"
proof
  fix g
  show "(ms(f := None)) g = None"
    using assms mark_states_disjoint [of st f g] by (cases "ms g") (auto simp: marks_ok_def)
qed

lemma marks_ok_empty:
  assumes "marks_ok st p ms" "\<forall>f. st \<notin> mark_states f"
  shows "ms = (\<lambda>_. None)"
  using assms unfolding marks_ok_def by (metis not_None_eq)

lemma all_data_cb: "(\<forall>f. P f) \<longleftrightarrow> P header_field \<and> P header_value \<and> P url \<and> P body \<and> P status"
  by (metis data_cb.exhaust)

lemma marks_none:
  assumes "einv k s" "\<forall>f. p_state s \<notin> mark_states f"
  shows "marks s = (\<lambda>_. None)"
  using assms marks_ok_empty by (auto simp: einv_def)

text \<open>After \<open>MARK\<close> in a state without marks, and in a state of that mark.\<close>

lemma MARK_sel [simp]:
  "hp (MARK f s) = hp s" "pos (MARK f s) = pos s" "p_state (MARK f s) = p_state s" "usr (MARK f s) = usr s"
  by (simp_all add: MARK_def)

lemma marks_MARK:
  assumes "marks_ok st (pos s) (marks s)" "st' \<in> mark_states f" "(\<forall>g. st \<notin> mark_states g) \<or> st = st'"
  shows "marks_ok st' (pos s) (marks (MARK f s))"
  using assms marks_ok_empty [OF assms(1)] by (auto simp: MARK_def marks_ok_def)

lemma marks_ok_mono: "marks_ok st p ms \<Longrightarrow> p \<le> q \<Longrightarrow> marks_ok st q ms"
  unfolding marks_ok_def by (meson order_trans)

lemma marks_ok_move: "marks_ok st p ms \<Longrightarrow> (\<And>f. st \<in> mark_states f \<Longrightarrow> st' \<in> mark_states f) \<Longrightarrow> marks_ok st' p ms"
  by (auto simp: marks_ok_def)

subsection \<open>Numbers\<close>

lemma unat_ULLONG_MAX: "unat ULLONG_MAX = 18446744073709551615"
  by (simp add: ULLONG_MAX_def unsigned_minus_1_eq_mask mask_eq_exp_minus_1)

text \<open>The tests before a digit is appended to a 64-bit number: no digit is lost.\<close>

lemma append_digit:
  fixes x :: u64
  assumes "\<not> (ULLONG_MAX - of_nat b) div of_nat b < x" "d < b" "1 < b" "b \<le> 16"
  shows "unat (x * of_nat b + of_nat d) = unat x * b + d" "unat x * b + d < unat ULLONG_MAX"
proof -
  have b: "unat (of_nat b :: u64) = b" "unat (of_nat d :: u64) = d"
    using assms(2,4) by (simp_all add: unat_of_nat)
  have "unat (ULLONG_MAX - of_nat b :: u64) = unat ULLONG_MAX - b"
    using b assms(4) by (subst unat_sub) (simp_all add: word_le_nat_alt unat_ULLONG_MAX)
  then have "unat x \<le> (unat ULLONG_MAX - b) div b"
    using assms(1) b by (simp add: word_less_nat_alt unat_div)
  then have "unat x * b \<le> unat ULLONG_MAX - b"
    using assms(3) by (simp add: less_eq_div_iff_mult_less_eq)
  then show l: "unat x * b + d < unat ULLONG_MAX"
    using assms(2,4) by (simp add: unat_ULLONG_MAX)
  then have "unat (x * of_nat b) = unat x * b"
    using b by (simp add: unat_ULLONG_MAX unat_word_ariths)
  then show "unat (x * of_nat b + of_nat d) = unat x * b + d"
    using l b by (simp add: unat_ULLONG_MAX unat_word_ariths)
qed

lemma digit_le: "IS_NUM c \<Longrightarrow> digit c \<le> 9"
proof -
  assume "IS_NUM c"
  then have "48 \<le> unat c" "unat c \<le> 57"
    by (simp_all add: IS_NUM_def word_le_nat_alt)
  then show "digit c \<le> 9"
    by (simp add: digit_def unat_sub word_le_nat_alt)
qed

lemma numbers_ok_upd [simp]:
  "numbers_ok (pr\<lparr>ptype := a\<rparr>) = numbers_ok pr" "numbers_ok (pr\<lparr>flags := b\<rparr>) = numbers_ok pr"
  "numbers_ok (pr\<lparr>hstate := c\<rparr>) = numbers_ok pr" "numbers_ok (pr\<lparr>header_state := d\<rparr>) = numbers_ok pr"
  "numbers_ok (pr\<lparr>index := i\<rparr>) = numbers_ok pr" "numbers_ok (pr\<lparr>content_length := l\<rparr>) = numbers_ok pr"
  "numbers_ok (pr\<lparr>hmethod := m\<rparr>) = numbers_ok pr" "numbers_ok (pr\<lparr>herrno := e\<rparr>) = numbers_ok pr"
  "numbers_ok (pr\<lparr>upgrade := u\<rparr>) = numbers_ok pr" "numbers_ok (next_index pr) = numbers_ok pr"
  "numbers_ok (add_flag f pr) = numbers_ok pr" "numbers_ok (reset_message pr) = numbers_ok pr"
  by (simp_all add: numbers_ok_def next_index_def add_flag_def reset_message_def)


section \<open>Every case of the switch keeps the invariant\<close>

lemma good_simps [simp]:
  "good (Break s) = einv 0 s" "good (Reexecute s) = einv 1 s" "good Assert_fail = False"
  "good (Goto_error s) \<longleftrightarrow> herrno (hp s) \<noteq> HPE_OK \<and> herrno (hp s) \<noteq> HPE_PAUSED"
  "good (Return s n) \<longleftrightarrow> (herrno (hp s) \<in> {HPE_OK, HPE_PAUSED} \<longrightarrow> numbers_ok (hp s) \<and> state_ok 0 (p_state s) (hp s)) \<and>
     (herrno (hp s) = HPE_OK \<longrightarrow> upgrade (hp s))"
  by (simp_all add: good_def)

lemma good_error [simp]: "good (error e s) \<longleftrightarrow> e \<noteq> HPE_OK \<and> e \<noteq> HPE_PAUSED"
  by (simp add: error_def SET_ERRNO_def)

lemma prim_sel [simp]:
  "hp (UPDATE_STATE v s) = hp s" "pos (UPDATE_STATE v s) = pos s" "p_state (UPDATE_STATE v s) = v"
  "marks (UPDATE_STATE v s) = marks s" "usr (UPDATE_STATE v s) = usr s"
  "hp (on_hp g s) = g (hp s)" "pos (on_hp g s) = pos s" "p_state (on_hp g s) = p_state s"
  "marks (on_hp g s) = marks s" "usr (on_hp g s) = usr s"
  by (simp_all add: UPDATE_STATE_def on_hp_def)

lemma helper_sel [simp]:
  "herrno (reset_message pr) = herrno pr" "herrno (next_index pr) = herrno pr" "herrno (add_flag f pr) = herrno pr"
  "hmethod (next_index pr) = hmethod pr" "header_state (next_index pr) = header_state pr"
  "header_state (add_flag f pr) = header_state pr" "content_length (add_flag f pr) = content_length pr"
  "nread (add_flag f pr) = nread pr" "flags (next_index pr) = flags pr"
  by (simp_all add: reset_message_def next_index_def add_flag_def)

lemma next_index_le: "index pr < n \<Longrightarrow> index (next_index pr) \<le> n"
  unfolding next_index_def by (simp add: mod_less_eq_dividend [THEN order_trans])

text \<open>States without a mark.\<close>

lemma plain_good:
  assumes "einv 1 s" "\<forall>f. p_state s \<notin> mark_states f"
  shows "p_state s = s_dead \<Longrightarrow> good (exec_dead ch s)" "good (exec_res_or_resp_H ch s)"
    "state_ok 0 next (hp s) \<Longrightarrow> good (exec_expect want next ch s)"
    "(b \<Longrightarrow> digit ch \<le> 9) \<Longrightarrow> next = s_res_http_major \<or> next = s_req_http_major \<Longrightarrow> good (exec_first_major b next ch s)"
    "p_state s = s_res_http_major \<or> p_state s = s_req_http_major \<Longrightarrow>
       next = s_res_first_http_minor \<or> next = s_req_first_http_minor \<Longrightarrow> good (exec_major next ch s)"
    "next = s_res_http_minor \<or> next = s_req_http_minor \<Longrightarrow> good (exec_first_minor next ch s)"
    "p_state s = s_res_http_minor \<Longrightarrow> good (exec_res_http_minor ch s)"
    "p_state s = s_res_first_status_code \<Longrightarrow> good (exec_res_first_status_code ch s)"
    "p_state s = s_res_status_code \<Longrightarrow> good (exec_res_status_code ch s)"
    "p_state s = s_req_http_start \<Longrightarrow> good (exec_req_http_start ch s)"
    "p_state s = s_req_http_minor \<Longrightarrow> good (exec_req_http_minor ch s)"
    "good (exec_req_line_almost_done ch s)" "good (exec_header_almost_done ch s)"
  using assms(1) marks_none [OF assms] digit_le [of ch]
  by (auto simp: exec_dead_def exec_res_or_resp_H_def exec_expect_def exec_first_major_def exec_major_def
      exec_first_minor_def exec_res_http_minor_def exec_minor_digit_def exec_res_first_status_code_def
      exec_res_status_code_def exec_req_http_start_def exec_req_http_minor_def exec_req_line_almost_done_def
      exec_header_almost_done_def STRICT_CHECK_def Let_def einv_def numbers_ok_def
      http_method_str_def str_def)


subsection \<open>Callbacks\<close>

lemma has_flag_cong: "flags pr = flags pr' \<Longrightarrow> has_flag f pr = has_flag f pr'"
  by (simp add: has_flag_def)

lemma state_ok_cong:
  assumes "header_state pr = header_state pr'" "index pr = index pr'" "hmethod pr = hmethod pr'"
    "content_length pr = content_length pr'" "flags pr = flags pr'" "nread pr = nread pr'"
  shows "state_ok k st pr = state_ok k st pr'"
  using assms has_flag_cong [OF assms(5)] by (cases st) simp_all

lemma cb_rel_ok:
  assumes "cb_rel s s'"
  shows "numbers_ok (hp s') = numbers_ok (hp s)" "state_ok k st (hp s') = state_ok k st (hp s)"
  using cb_relD [OF assms] by (simp_all add: numbers_ok_def) (intro state_ok_cong; simp)

lemma good_notify:
  assumes "herrno (hp s) = HPE_OK" "numbers_ok (hp s)" "state_ok 0 (p_state s) (hp s)"
    and "\<And>s'. cb_rel s s' \<Longrightarrow> herrno (hp s') = HPE_OK \<Longrightarrow> good (k s')"
  shows "good (CALLBACK_NOTIFY_ER S f er s k)"
  unfolding good_def
  by (rule notify_rule) (use assms in \<open>auto simp: good_def cb_relD cb_rel_ok\<close>)

lemma good_data:
  assumes "herrno (hp s) = HPE_OK" "numbers_ok (hp s)" "state_ok 0 (p_state s) (hp s)"
    and "\<And>s'. cb_rel s s' \<Longrightarrow> herrno (hp s') = HPE_OK \<Longrightarrow> good (k (s'\<lparr>marks := (marks s)(f := None)\<rparr>))"
  shows "good (CALLBACK_DATA_ER S data f stop er s k)"
  unfolding good_def
  by (rule data_rule) (use assms in \<open>auto simp: good_def cb_relD cb_rel_ok\<close>)

lemma good_count:
  assumes "\<And>n. unat n \<le> HTTP_MAX_HEADER_SIZE \<Longrightarrow> good (k (s\<lparr>hp := (hp s)\<lparr>nread := n\<rparr>\<rparr>))"
  shows "good (COUNT_HEADER_SIZE v s k)"
  unfolding good_def by (rule count_rule) (use assms in \<open>auto simp: good_def\<close>)

lemma good_notify_break:
  assumes "herrno (hp s) = HPE_OK" "numbers_ok (hp s)" "state_ok 0 (p_state s) (hp s)" "marks s = (\<lambda>_. None)"
  shows "good (CALLBACK_NOTIFY_ER S f er s Break)"
  by (rule good_notify) (use assms in \<open>auto simp: einv_def cb_relD cb_rel_ok\<close>)

lemma good_data_break:
  assumes "herrno (hp s) = HPE_OK" "numbers_ok (hp s)" "state_ok 0 (p_state s) (hp s)" "(marks s)(f := None) = (\<lambda>_. None)"
  shows "good (CALLBACK_DATA_ER S data f stop er s Break)"
  by (rule good_data) (use assms in \<open>auto simp: einv_def cb_relD cb_rel_ok\<close>)

subsection \<open>Start and request line\<close>

lemma no_mark_start:
  "\<forall>f. s_start_req_or_res \<notin> mark_states f" "\<forall>f. s_start_res \<notin> mark_states f" "\<forall>f. s_start_req \<notin> mark_states f"
  "\<forall>f. s_req_method \<notin> mark_states f" "\<forall>f. s_req_spaces_before_url \<notin> mark_states f" "\<forall>f. s_res_status_start \<notin> mark_states f"
  by (simp_all add: all_data_cb url_states_def)

lemma start_good:
  assumes "einv 1 s"
  shows "p_state s = s_start_req_or_res \<Longrightarrow> good (exec_start_req_or_res S ch s)"
    "p_state s = s_start_res \<Longrightarrow> good (exec_start_res S ch s)"
  using assms marks_none [OF assms] no_mark_start
  by (auto simp: exec_start_req_or_res_def exec_start_res_def CALLBACK_NOTIFY_def Let_def einv_def
      intro!: good_notify_break)

lemma first_method_length: "first_method c = Some m \<Longrightarrow> 1 \<le> length (http_method_str m)"
  by (auto simp: http_method_str_def str_def split: if_splits)

lemma start_req_good:
  assumes "einv 1 s" "p_state s = s_start_req"
  shows "good (exec_start_req S ch s)"
  using assms(1) marks_none [OF assms(1)] no_mark_start(3) assms(2) first_method_length
  by (auto simp del: first_method.simps simp: exec_start_req_def CALLBACK_NOTIFY_def Let_def einv_def
      intro!: good_notify_break split: option.split)

lemma switch_method_length:
  "switch_method m i c = Some m' \<Longrightarrow> i < length (http_method_str m')"
  by (auto simp: switch_method_def http_method_str_def str_def split: if_splits)

lemma req_method_good:
  assumes "einv 1 s" "p_state s = s_req_method"
  shows "good (exec_req_method ch s)"
proof -
  have m: "marks s = (\<lambda>_. None)"
    using marks_none [OF assms(1)] no_mark_start(4) assms(2) by simp
  have i: "index (hp s) \<le> length (http_method_str (hmethod (hp s)))"
    using assms by (simp add: einv_def)
  have c: "index (hp s) < length (http_method_str (hmethod (hp s)))" if "cstr_at (http_method_str (hmethod (hp s))) (index (hp s)) \<noteq> 0"
    using that by (auto simp: cstr_at_def split: if_splits)
  have "1 < length (http_method_str HTTP_MSEARCH)"
    by (simp add: http_method_str_def str_def)
  then show ?thesis
    using assms m i c switch_method_length [of "hmethod (hp s)" "index (hp s)" "char_of (unat ch)"]
    by (auto simp: exec_req_method_def Let_def einv_def intro!: next_index_le split: option.split)
qed

subsection \<open>URLs and status\<close>

lemma url_state_ok: "st \<in> url_states \<Longrightarrow> state_ok k st pr"
  by (auto simp: url_states_def)

lemma url_marks:
  assumes "marks_ok st p ms" "st \<in> url_states" "st' \<in> url_states"
  shows "marks_ok st' p ms"
proof -
  have "f = url" if "st \<in> mark_states f" for f
    using mark_states_disjoint [of st url f] that assms(2) by simp
  then show ?thesis
    using assms unfolding marks_ok_def by (metis mark_states.simps(3))
qed

lemma url_char_good:
  assumes "herrno (hp s) = HPE_OK" "numbers_ok (hp s)" "marks_ok st (pos s) (marks s)" "st \<in> url_states"
  shows "good (exec_url_char ch s)"
proof (cases "parse_url_char (p_state s) ch = s_dead")
  case True
  then show ?thesis by (simp add: exec_url_char_def Let_def)
next
  case False
  then have "parse_url_char (p_state s) ch \<in> url_states"
    using parse_url_char_states [of "p_state s" ch] by blast
  then show ?thesis
    using assms False url_marks [OF assms(3,4)] url_state_ok
    by (simp add: exec_url_char_def Let_def einv_def)
qed

lemma req_url_good:
  assumes "einv 1 s" "p_state s \<in> url_states"
  shows "good (exec_req_schema ch s)" "good (exec_req_url S data ch s)"
proof -
  have e: "herrno (hp s) = HPE_OK" "numbers_ok (hp s)" "marks_ok (p_state s) (pos s) (marks s)"
    using assms(1) by (simp_all add: einv_def)
  have c: "(marks s)(url := None) = (\<lambda>_. None)"
    using marks_ok_clear [OF e(3)] assms(2) by simp
  show "good (exec_req_schema ch s)"
    using url_char_good [OF e assms(2)] by (simp add: exec_req_schema_def)
  show "good (exec_req_url S data ch s)"
    using url_char_good [OF e assms(2)] e c
    by (auto simp: exec_req_url_def CALLBACK_DATA_def numbers_ok_def intro!: good_data_break)
qed

lemma req_spaces_good:
  assumes "einv 1 s" "p_state s = s_req_spaces_before_url"
  shows "good (exec_req_spaces_before_url ch s)"
proof -
  have e: "herrno (hp s) = HPE_OK" "numbers_ok (hp s)" "marks_ok (p_state s) (pos s) (marks s)"
    using assms(1) by (simp_all add: einv_def)
  have "marks_ok s_req_path (pos s) (marks (MARK url s))"
    by (rule marks_MARK [OF e(3)]) (use assms(2) no_mark_start(5) in \<open>simp_all add: url_states_def\<close>)
  then have m: "marks_ok s_req_path (pos (MARK url s)) (marks (MARK url s))"
    by simp
  have p: "s_req_path \<in> url_states"
    by (simp add: url_states_def)
  show ?thesis
    using e url_char_good [OF _ _ m p] url_char_good [of "UPDATE_STATE s_req_server_start (MARK url s)" s_req_path] m p assms
    by (auto simp: exec_req_spaces_before_url_def Let_def einv_def)
qed

lemma status_good:
  assumes "einv 1 s"
  shows "p_state s = s_res_status_start \<Longrightarrow> good (exec_res_status_start ch s)"
    "p_state s = s_res_status \<Longrightarrow> good (exec_res_status S data ch s)"
proof -
  have e: "herrno (hp s) = HPE_OK" "numbers_ok (hp s)" "marks_ok (p_state s) (pos s) (marks s)"
    using assms(1) by (simp_all add: einv_def)
  show "good (exec_res_status_start ch s)" if "p_state s = s_res_status_start"
    using e that no_mark_start(6) marks_MARK [OF e(3), of s_res_status status] marks_none [OF assms]
    by (auto simp: exec_res_status_start_def einv_def)
  show "good (exec_res_status S data ch s)" if "p_state s = s_res_status"
    using e that marks_ok_clear [OF e(3), of status]
    by (auto simp: exec_res_status_def CALLBACK_DATA_def einv_def intro!: good_data_break)
qed


subsection \<open>Header lines\<close>

lemma no_mark_header:
  "\<forall>f. s_header_field_start \<notin> mark_states f" "\<forall>f. s_header_value_discard_ws \<notin> mark_states f"
  "\<forall>f. s_header_value_start \<notin> mark_states f" "\<forall>f. s_header_value_lws \<notin> mark_states f"
  "\<forall>f. s_header_value_discard_lws \<notin> mark_states f" "\<forall>f. s_headers_almost_done \<notin> mark_states f"
  "\<forall>f. s_headers_done \<notin> mark_states f" "\<forall>f. s_message_done \<notin> mark_states f"
  by (simp_all add: all_data_cb url_states_def)

lemma header_field_start_good:
  assumes "einv 1 s" "p_state s = s_header_field_start"
  shows "good (exec_header_field_start ch s)"
proof -
  have e: "herrno (hp s) = HPE_OK" "numbers_ok (hp s)" "marks_ok (p_state s) (pos s) (marks s)"
    using assms(1) by (simp_all add: einv_def)
  have m: "marks s = (\<lambda>_. None)"
    using marks_none [OF assms(1)] no_mark_header(1) assms(2) by simp
  have "marks_ok s_header_field (pos s) (marks (MARK header_field s))"
    using marks_MARK [OF e(3)] no_mark_header(1) assms(2) by simp
  then show ?thesis
    using e m by (simp add: exec_header_field_start_def Let_def einv_def field_states_def)
qed

text \<open>What the inner loops keep of the parser.\<close>

definition line_rel :: "http_parser \<Rightarrow> http_parser \<Rightarrow> bool" where
  "line_rel pr pr' \<longleftrightarrow> herrno pr' = herrno pr \<and> (numbers_ok pr' \<longleftrightarrow> numbers_ok pr)"

lemma line_rel_trans: "line_rel a b \<Longrightarrow> line_rel b c \<Longrightarrow> line_rel a c"
  by (simp add: line_rel_def)

lemma match_name_ok:
  assumes "header_state pr \<in> field_states" "next \<in> field_states"
  shows "header_state (match_name name next c pr) \<in> field_states" "line_rel pr (match_name name next c pr)"
  using assms by (simp_all add: match_name_def Let_def line_rel_def field_states_def)

lemma header_field_char_ok:
  assumes "header_state pr \<in> field_states"
  shows "case header_field_char ch c pr of
      Go pr' \<Rightarrow> header_state pr' \<in> field_states \<and> line_rel pr pr'
    | Stop e pr' \<Rightarrow> e \<noteq> HPE_OK \<and> e \<noteq> HPE_PAUSED
    | Broken \<Rightarrow> False"
proof -
  have f: "h_connection \<in> field_states" "h_content_length \<in> field_states" "h_transfer_encoding \<in> field_states"
    "h_upgrade \<in> field_states" "h_general \<in> field_states"
    by (simp_all add: field_states_def)
  show ?thesis
    using assms match_name_ok [OF assms] f
    by (cases "header_state pr")
      (auto simp: header_field_char_def Let_def line_rel_def field_states_def)
qed

lemma header_field_loop_ok:
  "header_state pr \<in> field_states \<Longrightarrow>
    (case snd (header_field_loop data p pr) of
       Go pr' \<Rightarrow> header_state pr' \<in> field_states \<and> line_rel pr pr'
     | Stop e pr' \<Rightarrow> e \<noteq> HPE_OK \<and> e \<noteq> HPE_PAUSED
     | Broken \<Rightarrow> False)"
proof (induction data p pr rule: header_field_loop.induct)
  case (1 data p pr)
  show ?case
  proof (cases "p < length data \<and> TOKEN (data ! p) \<noteq> 0")
    case False
    then show ?thesis
      using "1.prems" by (subst header_field_loop.simps) (auto simp: Let_def line_rel_def)
  next
    case True
    then show ?thesis
      using header_field_char_ok [OF "1.prems", of "data ! p" "TOKEN (data ! p)"] "1.IH" [OF _ refl refl] 
      by (subst header_field_loop.simps)
        (auto simp: Let_def line_rel_def split: scan.splits)
  qed
qed

lemma header_field_good:
  assumes "einv 1 s" "p_state s = s_header_field" "pos s < length data"
  shows "good (exec_header_field S data s)"
proof -
  have e: "herrno (hp s) = HPE_OK" "numbers_ok (hp s)" "marks_ok s_header_field (pos s) (marks s)"
    "header_state (hp s) \<in> field_states"
    using assms(1,2) by (simp_all add: einv_def)
  obtain p x where l: "header_field_loop data (pos s) (hp s) = (p, x)"
    by (cases "header_field_loop data (pos s) (hp s)")
  have b: "pos s \<le> p" "p \<le> length data"
    using header_field_loop_bounds [OF _ l] assms(3) by auto
  have c: "(marks s)(header_field := None) = (\<lambda>_. None)"
    using marks_ok_clear [OF e(3)] by simp
  show ?thesis
  proof (cases x)
    case (Go pr)
    then have pr: "header_state pr \<in> field_states" "herrno pr = HPE_OK" "numbers_ok pr"
      using header_field_loop_ok [OF e(4), of data "pos s"] l e by (simp_all add: line_rel_def)
    have "marks_ok s_header_field (length data - 1) (marks s)"
      using marks_ok_mono [OF e(3)] assms(3) by simp
    then show ?thesis
      using l Go pr e c b assms(2,3)
      by (auto simp: exec_header_field_def CALLBACK_DATA_def einv_def numbers_ok_def
          intro!: good_count good_data_break)
  qed (use l header_field_loop_ok [OF e(4), of data "pos s"] in \<open>simp_all add: exec_header_field_def\<close>)
qed

subsection \<open>Header values\<close>

lemma header_value_start_good:
  assumes "einv 1 s" "p_state s = s_header_value_discard_ws \<or> p_state s = s_header_value_start"
  shows "good (exec_header_value_start ch s)"
proof -
  have e: "herrno (hp s) = HPE_OK" "numbers_ok (hp s)" "marks_ok (p_state s) (pos s) (marks s)"
    using assms(1) by (simp_all add: einv_def)
  have "marks_ok s_header_value (pos s) (marks (MARK header_value s))"
    using marks_MARK [OF e(3)] no_mark_header(2,3) assms(2) by fastforce
  then show ?thesis
    using e by (cases "header_state (hp s)")
      (simp_all add: exec_header_value_start_def Let_def einv_def value_states_def)
qed

lemma header_value_discard_ws_good:
  assumes "einv 1 s" "p_state s = s_header_value_discard_ws"
  shows "good (exec_header_value_discard_ws ch s)"
  using assms header_value_start_good [OF assms(1)] marks_none [OF assms(1)] no_mark_header(2)
  by (simp add: exec_header_value_discard_ws_def einv_def)

lemma match_value_ok:
  assumes "match_value name matched other c h pr = (h', pr')" "h \<in> value_states" "matched \<in> value_states" "other \<in> value_states"
  shows "h' \<in> value_states" "line_rel pr pr'"
  using assms by (auto simp: match_value_def Let_def line_rel_def split: if_splits)

lemma content_length_digit_ok: "content_length_digit ch pr = Some pr' \<Longrightarrow> line_rel pr pr'"
  by (auto simp: content_length_digit_def Let_def line_rel_def split: if_splits)

lemma header_value_char_ok:
  assumes "h \<in> value_states"
  shows "case header_value_char ch h pr of
      Go (h', pr') \<Rightarrow> h' \<in> value_states \<and> line_rel pr pr'
    | Stop e pr' \<Rightarrow> e \<noteq> HPE_OK \<and> e \<noteq> HPE_PAUSED
    | Broken \<Rightarrow> False"
proof -
  have v: "h_transfer_encoding_chunked \<in> value_states" "h_general \<in> value_states" "h_connection_keep_alive \<in> value_states"
    "h_matching_connection_token \<in> value_states" "h_connection_close \<in> value_states" "h_connection_upgrade \<in> value_states"
    by (simp_all add: value_states_def)
  have r: "line_rel pr pr" "line_rel pr (pr\<lparr>index := 0\<rparr>)" "line_rel pr ((add_flag f pr)\<lparr>index := 0\<rparr>)" for f
    by (simp_all add: line_rel_def)
  show ?thesis
    using assms match_value_ok [OF _ assms] v r content_length_digit_ok [of ch pr]
    by (cases h) (auto simp: header_value_char_def Let_def value_states_def split: prod.splits option.splits)
qed

lemma header_value_loop_ok:
  "h \<in> value_states \<Longrightarrow>
    (case snd (header_value_loop data p h pr) of
       Go (w, h', pr') \<Rightarrow> h' \<in> value_states \<and> line_rel pr pr'
     | Stop e pr' \<Rightarrow> e \<noteq> HPE_OK \<and> e \<noteq> HPE_PAUSED
     | Broken \<Rightarrow> False)"
proof (induction data p h pr rule: header_value_loop.induct)
  case (1 data p h pr)
  note loop = header_value_loop.simps [of data p h pr]
  have r: "line_rel pr pr" by (simp add: line_rel_def)
  let ?c = "data ! p"
  consider "\<not> p < length data" | "p < length data" "?c = CR \<or> ?c = LF \<or> \<not> lenient_http_headers pr \<and> \<not> IS_HEADER_CHAR ?c"
    | (general) "p < length data" "?c \<noteq> CR" "?c \<noteq> LF" "\<not> (\<not> lenient_http_headers pr \<and> \<not> IS_HEADER_CHAR ?c)" "h = h_general"
    | (char) "p < length data" "?c \<noteq> CR" "?c \<noteq> LF" "\<not> (\<not> lenient_http_headers pr \<and> \<not> IS_HEADER_CHAR ?c)" "h \<noteq> h_general"
    by blast
  then show ?case
  proof cases
    case general
    have "header_value_loop data p h pr = header_value_loop data (skip_value data p) h pr"
      by (subst loop) (use general in \<open>auto simp: Let_def\<close>)
    then show ?thesis
      using "1.IH"(1) [OF general(1) refl general(2-5) "1.prems"] by simp
  next
    case char
    have ok: "h1 \<in> value_states" "line_rel pr pr1" if "header_value_char ?c h pr = Go (h1, pr1)" for h1 pr1
      using header_value_char_ok [OF "1.prems", where ch = ?c and pr = pr] that by auto
    have IH: "case snd (header_value_loop data (Suc p) h1 pr1) of
       Go (w, h', pr') \<Rightarrow> h' \<in> value_states \<and> line_rel pr1 pr'
     | Stop e pr' \<Rightarrow> e \<noteq> HPE_OK \<and> e \<noteq> HPE_PAUSED | Broken \<Rightarrow> False"
      if "header_value_char ?c h pr = Go (h1, pr1)" for h1 pr1
      using "1.IH"(2) [OF char(1) refl char(2-5) that refl ok(1) [OF that]] .
    show ?thesis
    proof (cases "header_value_char ?c h pr")
      case (Go y)
      obtain h1 pr1 where y: "y = (h1, pr1)" by (cases y)
      have "header_value_loop data p h pr = header_value_loop data (Suc p) h1 pr1"
        by (subst loop) (use char Go y in \<open>auto simp: Let_def\<close>)
      then show ?thesis
        using IH [of h1 pr1] ok [of h1 pr1] line_rel_trans Go y by (auto split: scan.splits prod.splits)
    qed (use header_value_char_ok [OF "1.prems", where ch = ?c and pr = pr] char in \<open>auto simp: loop Let_def\<close>)
  qed (use "1.prems" r in \<open>auto simp: loop Let_def\<close>)
qed

lemma header_value_good:
  assumes "einv 1 s" "p_state s = s_header_value" "pos s < length data"
  shows "good (exec_header_value S data s)"
proof -
  have e: "herrno (hp s) = HPE_OK" "numbers_ok (hp s)" "marks_ok s_header_value (pos s) (marks s)"
    "header_state (hp s) \<in> value_states"
    using assms(1,2) by (simp_all add: einv_def)
  obtain p x where l: "header_value_loop data (pos s) (header_state (hp s)) (hp s) = (p, x)"
    by (cases "header_value_loop data (pos s) (header_state (hp s)) (hp s)")
  have b: "pos s \<le> p" "p \<le> length data"
    using header_value_loop_bounds [OF _ l] assms(3) by auto
  have c: "(marks s)(header_value := None) = (\<lambda>_. None)"
    using marks_ok_clear [OF e(3)] by simp
  have m: "marks_ok s_header_value (length data - 1) (marks s)"
    using marks_ok_mono [OF e(3)] assms(3) by simp
  show ?thesis
  proof (cases x)
    case (Go y)
    obtain w h pr where y: "y = (w, h, pr)" by (cases y)
    have pr: "h \<in> value_states" "herrno pr = HPE_OK" "numbers_ok pr"
      using header_value_loop_ok [OF e(4), where data = data and p = "pos s" and pr = "hp s"] l e Go y by (simp_all add: line_rel_def)
    have w: "w = At_end \<longrightarrow> p = length data"
      using header_value_loop_stop [of data "pos s" "header_state (hp s)" "hp s" p w h pr] l Go y assms(3) by simp
    show ?thesis
      using l Go y pr e c m b w assms(2,3) by (cases w)
       (auto simp: exec_header_value_def callback_defs einv_def numbers_ok_def cb_relD
          intro!: good_count good_data)
  qed (use l header_value_loop_ok [OF e(4), where data = data and p = "pos s" and pr = "hp s"] in \<open>simp_all add: exec_header_value_def\<close>)
qed

subsection \<open>The end of the headers\<close>

lemma finish_header_sel [simp]:
  "herrno (finish_header pr) = herrno pr" "numbers_ok (finish_header pr) = numbers_ok pr"
  by (simp_all add: finish_header_def split: header_states.split)

lemma lws_good:
  assumes "einv 1 s"
  shows "p_state s = s_header_value_lws \<Longrightarrow> good (exec_header_value_lws ch s)"
    "p_state s = s_header_value_discard_lws \<Longrightarrow> good (exec_header_value_discard_lws S data ch s)"
  using assms marks_none [OF assms] no_mark_header(4,5)
  by (auto simp: exec_header_value_lws_def exec_header_value_discard_lws_def callback_defs einv_def MARK_def
      cb_relD cb_rel_ok intro!: good_data)

lemma hc_rel_sel:
  assumes "hc_rel s s'"
  shows "pos s' = pos s" "p_state s' = p_state s" "marks s' = marks s" "numbers_ok (hp s') = numbers_ok (hp s)"
  using assms by (auto simp: hc_rel_def numbers_ok_def)

lemma headers_almost_done_good:
  assumes "einv 1 s" "p_state s = s_headers_almost_done"
  shows "good (exec_headers_almost_done S ch s)"
proof -
  have m: "marks s = (\<lambda>_. None)"
    using marks_none [OF assms(1)] no_mark_header(6) assms(2) by simp
  have "good (call_headers_complete S t (\<lambda>s1. if herrno (hp s1) \<noteq> HPE_OK then Return s1 (pos s1) else Reexecute s1))"
    if "p_state t = s_headers_done" "marks t = (\<lambda>_. None)" "numbers_ok (hp t)" for t
    unfolding good_def by (rule headers_complete_rule) (use that in \<open>auto simp: hc_rel_sel einv_def\<close>)
  then show ?thesis
    using assms m
    by (auto simp: exec_headers_almost_done_def STRICT_CHECK_def callback_defs einv_def cb_relD cb_rel_ok
        intro!: good_notify)
qed

lemma new_message_sel [simp]:
  "hp (new_message s) = hp s" "marks (new_message s) = marks s" "pos (new_message s) = pos s"
  "state_ok k (p_state (new_message s)) pr"
  "\<forall>f. p_state (new_message s) \<notin> mark_states f"
  by (auto simp: new_message_def NEW_MESSAGE_def start_state_def all_data_cb url_states_def)

lemma good_if: "(c \<Longrightarrow> good x) \<Longrightarrow> (\<not> c \<Longrightarrow> good y) \<Longrightarrow> good (if c then x else y)"
  by simp

lemma headers_done_good:
  assumes "einv 1 s" "p_state s = s_headers_done"
  shows "good (exec_headers_done S ch s)"
proof -
  have m: "marks s = (\<lambda>_. None)"
    using marks_none [OF assms(1)] no_mark_header(7) assms(2) by simp
  have e: "herrno (hp s) = HPE_OK" "numbers_ok ((hp s)\<lparr>nread := 0\<rparr>)"
    using assms(1) by (simp_all add: einv_def numbers_ok_def)
  show ?thesis
    unfolding exec_headers_done_def STRICT_CHECK_def Let_def CALLBACK_NOTIFY_def
    by (intro good_if good_notify) (use m e in \<open>auto simp: einv_def cb_relD cb_rel_ok has_flag_def\<close>)
qed

subsection \<open>Bodies and chunks\<close>

lemma message_done_good:
  assumes "einv 1 s" "p_state s = s_message_done"
  shows "good (exec_message_done S s)"
  using assms marks_none [OF assms(1)] no_mark_header(8)
  by (auto simp: exec_message_done_def callback_defs einv_def cb_relD cb_rel_ok intro!: good_notify)

lemma take_body_ok:
  assumes "einv 1 s" "pos s < length data" "st \<in> {s_body_identity, s_chunk_data}" "p_state s = st"
    "content_length (hp s) \<noteq> 0" "content_length (hp s) \<noteq> ULLONG_MAX"
  shows "herrno (hp (take_body data s)) = HPE_OK" "numbers_ok (hp (take_body data s))"
    "marks_ok st (pos (take_body data s)) (marks (take_body data s))" "content_length (hp (take_body data s)) \<noteq> ULLONG_MAX"
    "flags (hp (take_body data s)) = flags (hp s)"
proof -
  have e: "herrno (hp s) = HPE_OK" "numbers_ok (hp s)" "marks_ok st (pos s) (marks s)"
    using assms(1,4) by (simp_all add: einv_def)
  have "marks_ok st (pos s) (marks (MARK body s))"
    using marks_MARK [OF e(3), of st body] assms(3) by auto
  then have "marks_ok st (pos (take_body data s)) (marks (MARK body s))"
    using marks_ok_mono take_body_pos [OF assms(2,5)] by blast
  then show "marks_ok st (pos (take_body data s)) (marks (take_body data s))"
    by (simp add: take_body_def Let_def)
  show "herrno (hp (take_body data s)) = HPE_OK" "numbers_ok (hp (take_body data s))"
    "flags (hp (take_body data s)) = flags (hp s)"
    using e by (simp_all add: take_body_def Let_def numbers_ok_def)
  have n: "min (unat (content_length (hp s))) (length data - pos s) < 2 ^ 64"
    using unsigned_less [where ?'a = nat, of "content_length (hp s)"] by simp
  have "unat (content_length (hp s) - of_nat (min (unat (content_length (hp s))) (length data - pos s)))
      = unat (content_length (hp s)) - min (unat (content_length (hp s))) (length data - pos s)"
    using n by (subst unat_sub) (simp_all add: word_le_nat_alt unat_of_nat)
  moreover have "unat (content_length (hp s)) < unat ULLONG_MAX"
    using assms(6) unat_ULLONG_MAX unsigned_less [where ?'a = nat, of "content_length (hp s)"]
    by (simp add: word_unat_eq_iff)
  ultimately have "unat (content_length (hp (take_body data s))) < unat ULLONG_MAX"
    by (simp add: take_body_def Let_def)
  then show "content_length (hp (take_body data s)) \<noteq> ULLONG_MAX"
    by auto
qed

lemma bodies_good:
  assumes "einv 1 s" "pos s < length data"
  shows "p_state s = s_body_identity \<Longrightarrow> good (exec_body_identity S data s)"
    "p_state s = s_chunk_data \<Longrightarrow> good (exec_chunk_data data s)"
    "p_state s = s_body_identity_eof \<Longrightarrow> good (exec_body_identity_eof data s)"
proof -
  show "good (exec_body_identity S data s)" if p: "p_state s = s_body_identity"
  proof -
    have c: "content_length (hp s) \<noteq> 0" "content_length (hp s) \<noteq> ULLONG_MAX"
      using assms(1) p by (simp_all add: einv_def)
    note ok = take_body_ok [OF assms _ p c, simplified] take_body_pos [OF assms(2) c(1)]
    show ?thesis
      using c ok marks_ok_clear [OF ok(3), of body] p
      by (auto simp: exec_body_identity_def Let_def einv_def cb_relD cb_rel_ok intro!: good_data)
  qed
  show "good (exec_chunk_data data s)" if p: "p_state s = s_chunk_data"
  proof -
    have c: "content_length (hp s) \<noteq> 0" "content_length (hp s) \<noteq> ULLONG_MAX" "has_flag F_CHUNKED (hp s)"
      using assms(1) p by (simp_all add: einv_def)
    note ok = take_body_ok [OF assms _ p c(1,2), simplified] take_body_pos [OF assms(2) c(1)]
    have "marks_ok s_chunk_data_almost_done (pos (take_body data s)) (marks (take_body data s))"
    proof (rule marks_ok_move [OF ok(3)])
      show "s_chunk_data_almost_done \<in> mark_states f" if "s_chunk_data \<in> mark_states f" for f
        using that by (cases f) (auto simp: url_states_def)
    qed
    then show ?thesis
      using c ok p has_flag_cong [OF ok(5)]
      by (simp add: exec_chunk_data_def Let_def einv_def)
  qed
  show "good (exec_body_identity_eof data s)" if p: "p_state s = s_body_identity_eof"
  proof -
    have e: "herrno (hp s) = HPE_OK" "numbers_ok (hp s)" "marks_ok s_body_identity_eof (pos s) (marks s)"
      using assms(1) p by (simp_all add: einv_def)
    then have "marks_ok s_body_identity_eof (length data - 1) (marks (MARK body s))"
      using marks_ok_mono [OF marks_MARK [OF e(3)]] assms(2) by auto
    then show ?thesis
      using e p by (simp add: exec_body_identity_eof_def einv_def numbers_ok_def)
  qed
qed

lemma unhex_range: "unhex ! unat (ch :: u8) = -1 \<or> 0 \<le> unhex ! unat ch \<and> unhex ! unat ch \<le> 15"
proof -
  have "\<forall>v \<in> set unhex. v = -1 \<or> 0 \<le> v \<and> v \<le> 15"
    by (simp add: unhex_def)
  moreover have "unat ch < length unhex"
    using unsigned_less [where ?'a = nat, of ch] by (simp add: unhex_def)
  ultimately show ?thesis
    using nth_mem by blast
qed

lemma no_mark_chunk:
  "\<forall>f. s_chunk_size_start \<notin> mark_states f" "\<forall>f. s_chunk_size \<notin> mark_states f" "\<forall>f. s_chunk_parameters \<notin> mark_states f"
  "\<forall>f. s_chunk_size_almost_done \<notin> mark_states f" "\<forall>f. s_chunk_data_done \<notin> mark_states f"
  by (simp_all add: all_data_cb url_states_def)

lemma small_length: "0 \<le> v \<Longrightarrow> v \<le> 15 \<Longrightarrow> (word_of_int v :: u64) = of_nat (nat v) \<and> nat v < 16"
  by simp

lemma chunk_size_start_good:
  assumes "einv 1 s" "p_state s = s_chunk_size_start"
  shows "good (exec_chunk_size_start ch s)"
proof (cases "unhex ! unat ch = -1")
  case False
  let ?v = "unhex ! unat ch"
  have v: "(word_of_int ?v :: u64) = of_nat (nat ?v)" "nat ?v < 16"
    using small_length [of ?v] unhex_range [of ch] False by auto
  have "unat (of_nat (nat ?v) :: u64) \<noteq> unat ULLONG_MAX"
    using v(2) by (simp add: unat_ULLONG_MAX unat_of_nat)
  then show ?thesis
    using assms marks_none [OF assms(1)] no_mark_chunk(1) v
    by (auto simp: exec_chunk_size_start_def Let_def einv_def has_flag_def)
qed (use assms in \<open>simp add: exec_chunk_size_start_def Let_def einv_def\<close>)

lemma chunk_size_good:
  assumes "einv 1 s" "p_state s = s_chunk_size"
  shows "good (exec_chunk_size ch s)"
proof -
  let ?v = "unhex ! unat ch"
  let ?t = "content_length (hp s) * 16 + word_of_int ?v"
  have m: "marks s = (\<lambda>_. None)"
    using marks_none [OF assms(1)] no_mark_chunk(2) assms(2) by simp
  have "?t \<noteq> ULLONG_MAX" if v: "?v \<noteq> -1" and t: "\<not> (ULLONG_MAX - 16) div 16 < content_length (hp s)"
  proof -
    have "(word_of_int ?v :: u64) = of_nat (nat ?v)" "nat ?v < 16"
      using small_length [of ?v] unhex_range [of ch] v by auto
    then show ?thesis
      using append_digit [of 16 "content_length (hp s)" "nat ?v"] t by auto
  qed
  then show ?thesis
    using assms m by (auto simp: exec_chunk_size_def Let_def einv_def has_flag_def)
qed

lemma chunk_end_good:
  assumes "einv 1 s"
  shows "p_state s = s_chunk_parameters \<Longrightarrow> good (exec_chunk_parameters ch s)"
    "p_state s = s_chunk_size_almost_done \<Longrightarrow> good (exec_chunk_size_almost_done S ch s)"
    "p_state s = s_chunk_data_done \<Longrightarrow> good (exec_chunk_data_done S ch s)"
  using assms marks_none [OF assms] no_mark_chunk(3-5)
  by (auto simp: exec_chunk_parameters_def exec_chunk_size_almost_done_def exec_chunk_data_done_def
      STRICT_CHECK_def callback_defs einv_def has_flag_def add_flag_def numbers_ok_def Let_def intro!: good_notify_break)

lemma chunk_data_almost_done_good:
  assumes "einv 1 s" "p_state s = s_chunk_data_almost_done"
  shows "good (exec_chunk_data_almost_done S data ch s)"
proof -
  have e: "herrno (hp s) = HPE_OK" "numbers_ok (hp s)" "marks_ok s_chunk_data_almost_done (pos s) (marks s)"
    "has_flag F_CHUNKED (hp s)" "content_length (hp s) = 0"
    using assms by (simp_all add: einv_def)
  show ?thesis
    using e marks_ok_clear [OF e(3), of body]
    by (auto simp: exec_chunk_data_almost_done_def STRICT_CHECK_def callback_defs intro!: good_data_break)
qed

section \<open>The switch, the loop and the function\<close>

lemma no_mark_plain:
  "st \<in> {s_dead, s_res_or_resp_H, s_res_H, s_res_HT, s_res_HTT, s_res_HTTP, s_res_first_http_major, s_res_http_major,
     s_res_first_http_minor, s_res_http_minor, s_res_first_status_code, s_res_status_code, s_res_line_almost_done,
     s_req_http_start, s_req_http_H, s_req_http_HT, s_req_http_HTT, s_req_http_HTTP, s_req_first_http_major,
     s_req_http_major, s_req_first_http_minor, s_req_http_minor, s_req_line_almost_done, s_header_almost_done,
     s_header_value_discard_ws_almost_done} \<Longrightarrow> \<forall>f. st \<notin> mark_states f"
  by (auto simp: all_data_cb url_states_def)

lemma first_major_digit: "ascii CHR ''1'' \<le> ch \<and> ch \<le> ascii CHR ''9'' \<Longrightarrow> digit ch \<le> 9"
  by (rule digit_le) (auto simp: IS_NUM_def word_le_nat_alt)

lemma dispatch_good:
  assumes "einv 1 s" "pos s < length data"
  shows "good (dispatch S data s)"
proof -
  note plain = plain_good [OF assms(1) no_mark_plain]
  note callbacks = start_good [OF assms(1)] start_req_good [OF assms(1)] req_method_good [OF assms(1)]
    req_spaces_good [OF assms(1)] status_good [OF assms(1)] req_url_good [OF assms(1)]
    header_field_start_good [OF assms(1)] header_field_good [OF assms(1) _ assms(2)]
    header_value_start_good [OF assms(1)] header_value_discard_ws_good [OF assms(1)]
    header_value_good [OF assms(1) _ assms(2)] lws_good [OF assms(1)] headers_almost_done_good [OF assms(1)]
    headers_done_good [OF assms(1)] message_done_good [OF assms(1)] bodies_good [OF assms]
    chunk_size_start_good [OF assms(1)] chunk_size_good [OF assms(1)] chunk_end_good [OF assms(1)]
    chunk_data_almost_done_good [OF assms(1)]
  show ?thesis
    by (cases "p_state s")
      (simp_all add: dispatch_def Let_def plain callbacks url_states_def digit_le first_major_digit)
qed

lemma reexecute_good: "einv 1 s \<Longrightarrow> pos s < length data \<Longrightarrow> good (reexecute S data s)"
proof (induction S data s rule: reexecute.induct)
  case (1 S data s)
  have d: "good (dispatch S data s)" "moves data s (dispatch S data s)"
    using dispatch_good dispatch_moves "1.prems" by auto
  show ?case
  proof (cases "dispatch S data s")
    case (Reexecute s')
    then show ?thesis
      using "1.IH" [OF "1.prems"(2) Reexecute] "1.prems" d by (simp add: reexecute.simps [of S data s] moves_def)
  qed (use "1.prems" d in \<open>simp_all add: reexecute.simps [of S data s]\<close>)
qed

lemma count_state_ok:
  "state_ok 0 st pr \<Longrightarrow> PARSING_HEADER st \<Longrightarrow> state_ok 1 st (pr\<lparr>nread := nread pr + 1\<rparr>)"
  "state_ok 0 st pr \<Longrightarrow> \<not> PARSING_HEADER st \<Longrightarrow> state_ok 1 st pr"
  by (cases st; simp add: PARSING_HEADER_def has_flag_def)+

lemma exec_byte_good:
  assumes "einv 0 s" "pos s < length data"
  shows "good (exec_byte S data s)"
  using assms reexecute_good [of _ data S] count_state_ok [of "p_state s" "hp s"]
  by (auto simp: exec_byte_def COUNT_HEADER_SIZE_def Let_def einv_def numbers_ok_def)

lemma einv_next: "einv 0 s \<Longrightarrow> einv 0 (s\<lparr>pos := pos s + 1\<rparr>)"
  using marks_ok_mono by (fastforce simp: einv_def)

lemma exec_loop_good: "einv 0 s \<Longrightarrow> pos s \<le> length data \<Longrightarrow> good (exec_loop S data s)"
proof (induction S data s rule: exec_loop.induct)
  case (1 S data s)
  show ?case
  proof (cases "pos s < length data")
    case True
    have b: "good (exec_byte S data s)"
      using exec_byte_good [OF "1.prems"(1) True] .
    have m: "pos s' < length data" if "exec_byte S data s = Break s'" for s'
      using exec_byte_moves [OF True, of S] that by simp
    show ?thesis
      using True b m "1.IH" [OF True] einv_next
      by (cases "exec_byte S data s") (auto simp: exec_loop.simps [of S data s])
  qed (use "1.prems" in \<open>simp add: exec_loop.simps [of S data s]\<close>)
qed

text \<open>Where the loop can end.\<close>

lemma exec_loop_ends:
  "pos s \<le> length data \<Longrightarrow>
     ctl_all (\<lambda>t. pos t = length data) (\<lambda>_. False) (\<lambda>t. pos t \<le> length data) (\<lambda>t n. n \<le> length data) True
       (exec_loop S data s)"
proof (induction S data s rule: exec_loop.induct)
  case (1 S data s)
  show ?case
  proof (cases "pos s < length data")
    case True
    then show ?thesis
      using exec_byte_moves [OF True, of S] "1.IH" [OF True]
      by (cases "exec_byte S data s") (auto simp: exec_loop.simps [of S data s])
  qed (use "1.prems" in \<open>simp add: exec_loop.simps [of S data s]\<close>)
qed

subsection \<open>The end of a call\<close>

text \<open>What a call leaves behind: it can be continued, now or after the pause is lifted.\<close>

definition parser_ok :: "http_parser \<Rightarrow> bool" where
  "parser_ok pr \<longleftrightarrow>
     (herrno pr \<in> {HPE_OK, HPE_PAUSED} \<longrightarrow> numbers_ok pr \<and> state_ok 0 (hstate pr) pr)"

lemma parser_ok_leave:
  "numbers_ok (hp s) \<Longrightarrow> state_ok 0 (p_state s) (hp s) \<Longrightarrow> parser_ok ((hp s)\<lparr>hstate := p_state s\<rparr>)"
  using state_ok_cong [of "hp s" "(hp s)\<lparr>hstate := p_state s\<rparr>" 0 "p_state s"] by (simp add: parser_ok_def)

lemma initial_marks_ok: "marks_ok st 0 (initial_marks st)"
  unfolding marks_ok_def
proof (intro allI impI)
  fix f m
  show "initial_marks st f = Some m \<Longrightarrow> st \<in> mark_states f \<and> m \<le> 0"
    by (cases f) (auto simp: initial_marks_def url_states_def split: if_splits)
qed

lemma parser_ok_start:
  assumes "parser_ok pr" "herrno pr = HPE_OK"
  shows "einv 0 \<lparr>hp = pr, usr = u, pos = 0, p_state = hstate pr, marks = initial_marks (hstate pr)\<rparr>"
  using assms initial_marks_ok by (simp add: parser_ok_def einv_def)

text \<open>At most one mark is set, so at most one callback is left to call.\<close>

lemma filter_at_most_one:
  assumes "distinct xs" "\<And>x y. P x \<Longrightarrow> P y \<Longrightarrow> x = y"
  shows "length (filter P xs) \<le> 1"
proof -
  have "card (set (filter P xs)) \<le> Suc 0"
    using assms(2) by (subst card_le_Suc0_iff_eq) auto
  then show ?thesis
    using distinct_card [of "filter P xs"] assms(1) by simp
qed

lemma marks_at_most_one:
  assumes "marks_ok st p ms"
  shows "length (filter (\<lambda>f. ms f \<noteq> None) [header_field, header_value, url, body, status]) \<le> 1"
proof (rule filter_at_most_one)
  show "f = g" if "ms f \<noteq> None" "ms g \<noteq> None" for f g
    using that assms mark_states_disjoint unfolding marks_ok_def by blast
qed simp

definition left_ok :: "nat \<Rightarrow> 'u ctl \<Rightarrow> bool" where
  "left_ok n r = ctl_all (\<lambda>_. False) (\<lambda>_. False) (\<lambda>_. False)
     (\<lambda>s m. m = n \<and> (herrno (hp s) \<in> {HPE_OK, HPE_PAUSED} \<longrightarrow> numbers_ok (hp s) \<and> state_ok 0 (p_state s) (hp s))) False r"

lemma left_data:
  assumes "herrno (hp s) = HPE_OK" "numbers_ok (hp s)" "state_ok 0 (p_state s) (hp s)" "pos s = n"
    and "\<And>s'. herrno (hp s') = HPE_OK \<Longrightarrow> numbers_ok (hp s') \<Longrightarrow> state_ok 0 (p_state s') (hp s') \<Longrightarrow> pos s' = n \<Longrightarrow> left_ok n (k s')"
  shows "left_ok n (CALLBACK_DATA_NOADVANCE S data f s k)"
  unfolding left_ok_def CALLBACK_DATA_NOADVANCE_def
  by (rule data_rule) (use assms in \<open>auto simp: left_ok_def cb_relD cb_rel_ok\<close>)

lemma leftover_ok:
  assumes "einv 0 s" "pos s = length data"
  shows "left_ok (length data) (leftover S data s)"
proof -
  have "\<not> length (filter (\<lambda>f. marks s f \<noteq> None) [header_field, header_value, url, body, status]) > 1"
    using assms marks_at_most_one by (auto simp only: einv_def not_less)
  then have "leftover S data s = CALLBACK_DATA_NOADVANCE S data header_field s (\<lambda>s1.
        CALLBACK_DATA_NOADVANCE S data header_value s1 (\<lambda>s2.
        CALLBACK_DATA_NOADVANCE S data url s2 (\<lambda>s3.
        CALLBACK_DATA_NOADVANCE S data body s3 (\<lambda>s4.
        CALLBACK_DATA_NOADVANCE S data status s4 (\<lambda>s5. Return s5 (length data))))))"
    unfolding leftover_def by (rule if_not_P)
  then show ?thesis
    using assms by (auto simp: einv_def left_ok_def [of _ "Return _ _"] intro!: left_data)
qed

lemma execute_eof_ok:
  assumes "parser_ok pr" "herrno pr = HPE_OK"
  obtains pr' u' n where "execute_eof S pr u = Some (pr', u', n)" "parser_ok pr'" "n \<le> 1" "herrno pr' = HPE_OK \<longrightarrow> n = 0"
proof (cases "hstate pr = s_body_identity_eof")
  case True
  let ?s = "\<lparr>hp = pr, usr = u, pos = 0, p_state = hstate pr, marks = (\<lambda>_. None)\<rparr>"
  have "ctl_all (\<lambda>_. False) (\<lambda>_. False) (\<lambda>_. False)
     (\<lambda>s m. m = 0 \<and> (herrno (hp s) \<in> {HPE_OK, HPE_PAUSED} \<longrightarrow> numbers_ok (hp s) \<and> state_ok 0 (p_state s) (hp s))) False
     (CALLBACK_NOTIFY_NOADVANCE S message_complete ?s (\<lambda>s. Return s 0))"
    unfolding CALLBACK_NOTIFY_NOADVANCE_def
    by (rule notify_rule) (use assms in \<open>auto simp: parser_ok_def cb_relD cb_rel_ok\<close>)
  then obtain s where "CALLBACK_NOTIFY_NOADVANCE S message_complete ?s (\<lambda>s. Return s 0) = Return s 0"
    "herrno (hp s) \<in> {HPE_OK, HPE_PAUSED} \<longrightarrow> numbers_ok (hp s) \<and> state_ok 0 (p_state s) (hp s)"
    by (cases "CALLBACK_NOTIFY_NOADVANCE S message_complete ?s (\<lambda>s. Return s 0)") auto
  moreover from this(2) have "parser_ok ((hp s)\<lparr>hstate := p_state s\<rparr>)"
    using parser_ok_leave [of s] by (auto simp: parser_ok_def)
  ultimately show ?thesis
    using that True by (simp add: execute_eof_def leave_ctl_def leave_def)
next
  case False
  then show ?thesis
    using that assms by (cases "hstate pr") (auto simp: execute_eof_def parser_ok_def)
qed

lemma execute_ok:
  assumes "parser_ok pr"
  obtains pr' u' n where "http_parser_execute S data pr u = Some (pr', u', n)" "parser_ok pr'"
    "n \<le> length data \<or> data = [] \<and> n = 1"
    "herrno pr' = HPE_OK \<Longrightarrow> n = length data \<or> upgrade pr'"
proof (cases "herrno pr \<noteq> HPE_OK \<or> data = []")
  case True
  show ?thesis
  proof (cases "herrno pr = HPE_OK")
    case ok: True
    obtain pr' u' n where "execute_eof S pr u = Some (pr', u', n)" "parser_ok pr'" "n \<le> 1" "herrno pr' = HPE_OK \<longrightarrow> n = 0"
      using execute_eof_ok [OF assms ok] .
    then show ?thesis
      using that [of pr' u' n] True ok by (auto simp: http_parser_execute_def le_Suc_eq)
  qed (use that assms in \<open>simp add: http_parser_execute_def\<close>)
next
  case False
  let ?s = "\<lparr>hp = pr, usr = u, pos = 0, p_state = hstate pr, marks = initial_marks (hstate pr)\<rparr>"
  have e: "einv 0 ?s" "pos ?s \<le> length data"
    using parser_ok_start [OF assms] False by simp_all
  have g: "good (exec_loop S data ?s)"
    using exec_loop_good [OF e] .
  have x: "ctl_all (\<lambda>t. pos t = length data) (\<lambda>_. False) (\<lambda>t. pos t \<le> length data) (\<lambda>t n. n \<le> length data) True
       (exec_loop S data ?s)"
    using exec_loop_ends [OF e(2)] .
  have run: "http_parser_execute S data pr u =
      leave_ctl (case exec_loop S data ?s of Break s' \<Rightarrow> leftover S data s' | r \<Rightarrow> r)"
    using False by (simp add: http_parser_execute_def Let_def)
  show ?thesis
  proof (cases "exec_loop S data ?s")
    case (Break s)
    then have "left_ok (length data) (leftover S data s)"
      using leftover_ok g x by simp
    then obtain t where "leftover S data s = Return t (length data)"
      "herrno (hp t) \<in> {HPE_OK, HPE_PAUSED} \<longrightarrow> numbers_ok (hp t) \<and> state_ok 0 (p_state t) (hp t)"
      by (cases "leftover S data s") (auto simp: left_ok_def)
    moreover from this(2) have "parser_ok ((hp t)\<lparr>hstate := p_state t\<rparr>)"
      using parser_ok_leave [of t] by (auto simp: parser_ok_def)
    ultimately show ?thesis
      using that run Break by (simp add: leave_ctl_def leave_def)
  next
    case (Goto_error s)
    then show ?thesis
      using that run g x by (simp add: leave_ctl_def leave_def leave_error_def parser_ok_def)
  next
    case (Return s n)
    then have "parser_ok ((hp s)\<lparr>hstate := p_state s\<rparr>)"
      using parser_ok_leave [of s] g by (auto simp: parser_ok_def)
    then show ?thesis
      using that run g x Return by (simp add: leave_ctl_def leave_def)
  qed (use g x in simp_all)
qed

section \<open>Every parser that can be reached\<close>

text \<open>
  The life of a parser: it is initialised, given data in any pieces and with any data of the
  application, and paused or resumed between the calls. The callbacks stay the same.
\<close>

inductive http_reachable :: "'u http_parser_settings \<Rightarrow> http_parser \<Rightarrow> bool" for S where
  init: "http_reachable S (http_parser_init t)"
| execute: "http_reachable S pr \<Longrightarrow> http_parser_execute S data pr u = Some (pr', u', n) \<Longrightarrow> http_reachable S pr'"
| pause: "http_reachable S pr \<Longrightarrow> http_parser_pause pr b = Some pr' \<Longrightarrow> http_reachable S pr'"

lemma http_reachable_ok: "http_reachable S pr \<Longrightarrow> parser_ok pr"
proof (induction rule: http_reachable.induct)
  case (init t)
  show ?case
    by (cases t) (simp_all add: parser_ok_def http_parser_init_def numbers_ok_def)
next
  case (execute pr data u pr' u' n)
  obtain pr1 u1 n1 where "http_parser_execute S data pr u = Some (pr1, u1, n1)" "parser_ok pr1"
    using execute_ok [OF execute.IH, of S data u] by metis
  then show ?case
    using execute.hyps(2) by simp
next
  case (pause pr b pr')
  then obtain e where pr': "pr' = pr\<lparr>herrno := e\<rparr>" and e: "herrno pr \<in> {HPE_OK, HPE_PAUSED}"
    by (auto simp: http_parser_pause_def split: if_splits)
  have "state_ok 0 (hstate pr') pr' = state_ok 0 (hstate pr) pr"
    using state_ok_cong [of pr pr' 0 "hstate pr"] by (simp add: pr')
  then show ?case
    using pause.IH e by (auto simp: parser_ok_def pr')
qed

text \<open>
  C5: Whatever bytes it is given, in whatever pieces, with whatever callbacks and pauses,
  \<open>http_parser_execute\<close> runs to its end without violating one of its assertions, and says
  how much it has read: never more than it was given (an end of input that cannot be is reported by 1),
  and all of it unless there was an error, a pause or a change of protocol.
\<close>

theorem http_execute_safe:
  assumes "http_reachable S pr"
  shows "\<exists>pr' u' n. http_parser_execute S data pr u = Some (pr', u', n) \<and>
    (n \<le> length data \<or> data = [] \<and> n = 1) \<and> (herrno pr' = HPE_OK \<longrightarrow> n = length data \<or> upgrade pr')"
  using execute_ok [OF http_reachable_ok [OF assms], of S data u] by metis

theorem http_execute_safe_witness:
  "\<exists>pr' u' n. http_parser_execute http_parser_settings_init [71, 69] (http_parser_init HTTP_BOTH) () = Some (pr', u', n) \<and>
    (n \<le> 2 \<or> [71, 69] = ([] :: bytes) \<and> n = 1) \<and> (herrno pr' = HPE_OK \<longrightarrow> n = 2 \<or> upgrade pr')"
  using http_execute_safe [OF http_reachable.init [of http_parser_settings_init HTTP_BOTH], of "[71, 69]" "()"] by (simp add: numeral_2_eq_2)

text \<open>
  C12: While a parser is in use the bytes counted for the headers stay within the limit of 80
  kilobytes, version and status numbers stay below 1000, and the remaining length of a body that is
  being read is neither 0 nor the value that stands for no length.
\<close>

theorem http_parser_bounds:
  assumes "http_reachable S pr" "herrno pr = HPE_OK \<or> herrno pr = HPE_PAUSED"
  shows "unat (nread pr) \<le> 80 * 1024 \<and> http_major pr \<le> 999 \<and> http_minor pr \<le> 999 \<and> status_code pr \<le> 999 \<and>
    (hstate pr = s_body_identity \<or> hstate pr = s_chunk_data \<longrightarrow> content_length pr \<noteq> 0 \<and> content_length pr \<noteq> ULLONG_MAX) \<and>
    (hstate pr = s_chunk_data \<or> hstate pr = s_chunk_size \<longrightarrow> has_flag F_CHUNKED pr)"
  using http_reachable_ok [OF assms(1)] assms(2)
  by (auto simp: parser_ok_def numbers_ok_def HTTP_MAX_HEADER_SIZE_def)

text \<open>
  Responses that are cut off: in the status line, in a chunk, and in a body of known length. The simplifier runs the parser.
\<close>

definition sample_chunked :: bytes where
  "sample_chunked = str ''HTTP/1.1 200'' @ [CR, LF] @ str ''Transfer-Encoding:chunked'' @ [CR, LF, CR, LF] @ str ''5'' @ [CR, LF] @ str ''ab''"

definition sample_identity :: bytes where
  "sample_identity = str ''HTTP/1.0 404'' @ [CR, LF] @ str ''Content-Length:5'' @ [CR, LF, CR, LF] @ str ''ab''"

lemmas run_defs =
  http_parser_execute_def http_parser_init_def http_parser_settings_init_def initial_marks_def exec_loop.simps exec_byte_def
  reexecute.simps dispatch_def PARSING_HEADER_def COUNT_HEADER_SIZE_def on_hp_def UPDATE_STATE_def HTTP_MAX_HEADER_SIZE_def
  exec_start_res_def CALLBACK_NOTIFY_def CALLBACK_NOTIFY_ER_def reset_message_def exec_expect_def STRICT_CHECK_def
  exec_first_major_def exec_major_def exec_first_minor_def exec_res_http_minor_def exec_minor_digit_def
  exec_res_first_status_code_def exec_res_status_code_def IS_NUM_def digit_def CR_def LF_def exec_header_field_start_def TOKEN_def
  tokens_def MARK_def exec_header_field_def header_field_loop.simps header_field_char_def match_name_def TRANSFER_ENCODING_def
  str_def next_index_def cstr_at_def CALLBACK_DATA_def CALLBACK_DATA_ER_def exec_header_value_discard_ws_def
  exec_header_value_start_def LOWER_def exec_header_value_def header_value_loop.simps header_value_char_def match_value_def
  CHUNKED_def IS_HEADER_CHAR_def exec_header_almost_done_def exec_header_value_lws_def finish_header_def add_flag_def
  exec_headers_almost_done_def has_flag_def call_headers_complete_def exec_headers_done_def new_message_def Let_def
  exec_chunk_size_start_def unhex_def exec_chunk_size_def exec_chunk_size_almost_done_def exec_chunk_data_def take_body_def
  ULLONG_MAX_def leave_ctl_def leave_def leftover_def CALLBACK_DATA_NOADVANCE_def flag_defs CONTENT_LENGTH_def
  content_length_digit_def exec_body_identity_def

abbreviation run_response :: "bytes \<Rightarrow> (http_parser \<times> unit \<times> nat) option" where
  "run_response data \<equiv> http_parser_execute http_parser_settings_init data (http_parser_init HTTP_RESPONSE) ()"

lemma sample_runs:
  "\<exists>pr n. run_response sample_chunked = Some (pr, (), n) \<and> herrno pr = HPE_OK \<and> hstate pr = s_chunk_data \<and> content_length pr = 3 \<and>
     status_code pr = 200 \<and> http_major pr = 1 \<and> http_minor pr = 1"
  "\<exists>pr n. run_response sample_identity = Some (pr, (), n) \<and> herrno pr = HPE_OK \<and> hstate pr = s_body_identity \<and> content_length pr = 3 \<and>
     status_code pr = 404 \<and> http_major pr = 1 \<and> http_minor pr = 0"
  "\<exists>pr n. run_response (take 10 sample_identity) = Some (pr, (), n) \<and> herrno pr = HPE_OK \<and> hstate pr = s_res_status_code \<and> nread pr = 10 \<and> status_code pr = 4"
proof -
  show "\<exists>pr n. run_response sample_chunked = Some (pr, (), n) \<and> herrno pr = HPE_OK \<and> hstate pr = s_chunk_data \<and> content_length pr = 3 \<and>
     status_code pr = 200 \<and> http_major pr = 1 \<and> http_minor pr = 1"
    by (simp add: sample_chunked_def run_defs)
  show "\<exists>pr n. run_response sample_identity = Some (pr, (), n) \<and> herrno pr = HPE_OK \<and> hstate pr = s_body_identity \<and> content_length pr = 3 \<and>
     status_code pr = 404 \<and> http_major pr = 1 \<and> http_minor pr = 0"
    by (simp add: sample_identity_def run_defs)
  show "\<exists>pr n. run_response (take 10 sample_identity) = Some (pr, (), n) \<and> herrno pr = HPE_OK \<and> hstate pr = s_res_status_code \<and> nread pr = 10 \<and> status_code pr = 4"
    by (simp add: sample_identity_def run_defs)
qed

text \<open>The bounds for a parser after such a run.\<close>

definition bounds_hold :: "http_parser \<Rightarrow> bool" where
  "bounds_hold pr \<longleftrightarrow> unat (nread pr) \<le> 80 * 1024 \<and> http_major pr \<le> 999 \<and> http_minor pr \<le> 999 \<and> status_code pr \<le> 999 \<and>
    (hstate pr = s_body_identity \<or> hstate pr = s_chunk_data \<longrightarrow> content_length pr \<noteq> 0 \<and> content_length pr \<noteq> ULLONG_MAX) \<and>
    (hstate pr = s_chunk_data \<or> hstate pr = s_chunk_size \<longrightarrow> has_flag F_CHUNKED pr)"

theorem http_parser_bounds_witness:
  "(\<exists>pr n. run_response sample_chunked = Some (pr, (), n) \<and> hstate pr = s_chunk_data \<and> content_length pr = 3 \<and> status_code pr = 200 \<and> bounds_hold pr) \<and>
   (\<exists>pr n. run_response sample_identity = Some (pr, (), n) \<and> hstate pr = s_body_identity \<and> content_length pr = 3 \<and> status_code pr = 404 \<and> bounds_hold pr) \<and>
   (\<exists>pr n. run_response (take 10 sample_identity) = Some (pr, (), n) \<and> nread pr = 10 \<and> status_code pr = 4 \<and> bounds_hold pr)"
proof -
  have b: "bounds_hold pr" if "run_response data = Some (pr, (), n)" "herrno pr = HPE_OK" for data pr n
    unfolding bounds_hold_def
    by (rule http_parser_bounds [OF http_reachable.execute [OF http_reachable.init that(1)]]) (use that(2) in simp)
  show ?thesis
    using sample_runs b by metis
qed

end
