(* ===== verification/Http_Method.thy ===== *)
theory Http_Method
  imports Http_Safety
begin

text \<open>
  The request methods: a request line gets past its method exactly if the method is one of the
  names of the table, and it is recorded as that one.
\<close>

section \<open>Matching as a function of the bytes\<close>

definition method_step :: "u8 \<Rightarrow> http_method \<times> nat \<Rightarrow> (http_method \<times> nat) option" where
  "method_step ch x =
     (let (m, i) = x in
      if ch = 0 then None
      else if ch = cstr_at (http_method_str m) i then Some (m, Suc i)
      else if IS_ALPHA ch then map_option (\<lambda>m'. (m', Suc i)) (switch_method m i (char_of (unat ch)))
      else if ch = ascii CHR ''-'' \<and> i = 1 \<and> m = HTTP_MKCOL then Some (HTTP_MSEARCH, Suc i)
      else None)"

fun method_run :: "bytes \<Rightarrow> http_method \<times> nat \<Rightarrow> (http_method \<times> nat) option" where
  "method_run [] x = Some x"
| "method_run (ch # bs) x = Option.bind (method_step ch x) (method_run bs)"

definition method_scan :: "bytes \<Rightarrow> (http_method \<times> nat) option" where
  "method_scan bs =
     (case bs of [] \<Rightarrow> None
      | ch # bs' \<Rightarrow> Option.bind (first_method (char_of (unat ch))) (\<lambda>m. method_run bs' (m, 1)))"

text \<open>Every name is found: by evaluation.\<close>

lemma method_scan_complete: "method_scan (http_method_str m) = Some (m, length (http_method_str m))"
  by (cases m; hypsubst; code_simp)

text \<open>Only names are found: the bytes so far are a prefix of the current name.\<close>

lemma method_nonzero: "i < length (http_method_str m) \<Longrightarrow> http_method_str m ! i \<noteq> 0"
proof -
  have "\<forall>x \<in> set (http_method_str m). x \<noteq> 0"
    by (cases m) (simp_all add: http_method_str_def str_def)
  then show "i < length (http_method_str m) \<Longrightarrow> http_method_str m ! i \<noteq> 0"
    using nth_mem by blast
qed

lemma switch_method_prefix:
  "switch_method m i c = Some m' \<Longrightarrow> take (Suc i) (http_method_str m') = take i (http_method_str m) @ [of_char c]"
  by (auto simp: switch_method_def http_method_str_def str_def numeral_2_eq_2 numeral_3_eq_3 split: if_splits)

lemma ascii_char_of [simp]: "(of_char (char_of (unat ch) :: char) :: u8) = ch"
proof -
  have "(of_char (char_of (unat ch) :: char) :: u8) = of_nat (of_char (char_of (unat ch) :: char))"
    by (simp only: of_nat_of_char)
  also have "\<dots> = of_nat (unat ch mod 256)"
    by (simp only: of_char_of)
  finally show ?thesis
    using unsigned_less [where ?'a = nat, of ch] by simp
qed

lemma method_step_cases:
  assumes "method_step ch (m, i) = Some (m', i')"
  obtains (name) "i' = Suc i" "m' = m" "i < length (http_method_str m)" "ch = http_method_str m ! i"
    | (switch) "i' = Suc i" "switch_method m i (char_of (unat ch)) = Some m'"
    | (msearch) "i' = Suc i" "ch = ascii CHR ''-''" "i = 1" "m = HTTP_MKCOL" "m' = HTTP_MSEARCH"
  using assms unfolding method_step_def Let_def cstr_at_def
  by (cases "switch_method m i (char_of (unat ch))") (auto split: if_splits)

lemma method_step_prefix:
  assumes "method_step ch (m, i) = Some (m', i')"
  shows "i' = Suc i" "i' \<le> length (http_method_str m')" "take i' (http_method_str m') = take i (http_method_str m) @ [ch]"
proof -
  have "i' = Suc i \<and> i' \<le> length (http_method_str m') \<and> take i' (http_method_str m') = take i (http_method_str m) @ [ch]"
    using assms
  proof (cases rule: method_step_cases)
    case name
    then show ?thesis by (simp add: take_Suc_conv_app_nth)
  next
    case switch
    then show ?thesis
      using switch_method_prefix [OF switch(2)] switch_method_length [OF switch(2)] by simp
  next
    case msearch
    then show ?thesis by (simp add: http_method_str_def str_def)
  qed
  then show "i' = Suc i" "i' \<le> length (http_method_str m')" "take i' (http_method_str m') = take i (http_method_str m) @ [ch]"
    by blast+
qed

lemma method_run_prefix:
  "method_run bs (m, i) = Some (m', i') \<Longrightarrow> i \<le> length (http_method_str m) \<Longrightarrow>
     i' = i + length bs \<and> i' \<le> length (http_method_str m') \<and> take i' (http_method_str m') = take i (http_method_str m) @ bs"
proof (induction bs arbitrary: m i)
  case (Cons ch bs)
  from Cons.prems(1) obtain m1 i1 where step: "method_step ch (m, i) = Some (m1, i1)" and run: "method_run bs (m1, i1) = Some (m', i')"
    by (auto simp: bind_eq_Some_conv)
  show ?case
    using Cons.IH [OF run] method_step_prefix [OF step] by auto
qed simp

lemma first_method_prefix: "first_method c = Some m \<Longrightarrow> take 1 (http_method_str m) = [of_char c]"
  by (auto simp: http_method_str_def str_def split: if_splits)

lemma method_scan_prefix:
  assumes "method_scan bs = Some (m, i)"
  shows "i = length bs" "i \<le> length (http_method_str m)" "take i (http_method_str m) = bs"
proof -
  from assms obtain ch bs' m0 where bs: "bs = ch # bs'" and m0: "first_method (char_of (unat ch)) = Some m0"
    and run: "method_run bs' (m0, 1) = Some (m, i)"
    by (auto simp del: first_method.simps simp: method_scan_def bind_eq_Some_conv split: list.splits)
  show "i = length bs" "i \<le> length (http_method_str m)" "take i (http_method_str m) = bs"
    using method_run_prefix [OF run first_method_length [OF m0]] first_method_prefix [OF m0] bs by auto
qed

section \<open>The parser runs it\<close>

lemma exec_loop_step:
  assumes "pos s < length data" "exec_byte S data s = Break s'"
  shows "exec_loop S data s = exec_loop S data (s'\<lparr>pos := pos s' + 1\<rparr>)"
  using assms by (subst exec_loop.simps) simp

lemma exec_req_method_step:
  assumes "ch \<noteq> 32"
  shows "exec_req_method ch s =
    (case method_step ch (hmethod (hp s), index (hp s)) of
       None \<Rightarrow> error HPE_INVALID_METHOD s
     | Some (m, i) \<Rightarrow> Break (on_hp (\<lambda>pr. next_index (pr\<lparr>hmethod := m\<rparr>)) s))"
  using assms
  by (auto simp: exec_req_method_def method_step_def Let_def on_hp_def next_index_def split: option.split)

lemma method_byte:
  assumes "p_state s = s_req_method" "pos s < length data"
  shows "exec_byte S data s = COUNT_HEADER_SIZE 1 s (exec_req_method (data ! pos s))"
proof -
  have "reexecute S data t = exec_req_method (data ! pos s) t" if "p_state t = s_req_method" "pos t = pos s" for t
    using that assms(2)
    by (subst reexecute.simps) (auto simp: dispatch_def exec_req_method_def error_def Let_def split: option.split)
  then show ?thesis
    using assms by (simp add: exec_byte_def PARSING_HEADER_def COUNT_HEADER_SIZE_def Let_def)
qed


text \<open>
  In the middle of the method: \<open>bs\<close> are the bytes of the method, followed by a space.
\<close>

definition in_method :: "bytes \<Rightarrow> 'u exec \<Rightarrow> bool" where
  "in_method bs s \<longleftrightarrow> p_state s = s_req_method \<and> herrno (hp s) = HPE_OK \<and> marks s = (\<lambda>_. None) \<and> pos s \<le> length bs \<and>
     method_scan (take (pos s) bs) = Some (hmethod (hp s), index (hp s)) \<and> nread (hp s) = of_nat (pos s)"

lemma method_run_append: "method_run (xs @ ys) x = Option.bind (method_run xs x) (method_run ys)"
  by (induction xs arbitrary: x) (auto split: Option.bind_split)

lemma method_scan_append:
  "xs \<noteq> [] \<Longrightarrow> method_scan (xs @ ys) = Option.bind (method_scan xs) (method_run ys)"
  by (cases xs) (simp_all del: first_method.simps add: method_scan_def method_run_append split: Option.bind_split)

lemma method_scan_snoc:
  assumes "method_scan bs = Some x"
  shows "method_scan (bs @ [ch]) = method_step ch x"
  using assms method_scan_append [of bs "[ch]"] by (cases "bs = []") (auto simp: method_scan_def [of "[]"] split: Option.bind_split)

lemma method_scan_take_None: "method_scan (take (Suc n) bs) = None \<Longrightarrow> method_scan bs = None"
  using method_scan_append [of "take (Suc n) bs" "drop (Suc n) bs"] by (cases bs) (simp_all add: method_scan_def [of "[]"])

lemma method_longest: "length (http_method_str m) \<le> 12"
  by (cases m) (simp_all add: http_method_str_def str_def)

lemma count_small:
  assumes "nread (hp s) = of_nat n" "n < 100"
  shows "COUNT_HEADER_SIZE 1 s k = k (on_hp (\<lambda>pr. pr\<lparr>nread := of_nat (Suc n)\<rparr>) s)"
proof -
  have "unat (1 + of_nat n :: u32) = Suc n"
    using assms(2) by (simp add: unat_word_ariths unat_of_nat)
  then show ?thesis
    using assms by (simp add: COUNT_HEADER_SIZE_def Let_def on_hp_def HTTP_MAX_HEADER_SIZE_def add.commute)
qed

lemma in_method_index:
  assumes "in_method bs s"
  shows "index (hp s) = pos s" "pos s \<le> length (http_method_str (hmethod (hp s)))"
    "take (pos s) (http_method_str (hmethod (hp s))) = take (pos s) bs" "pos s \<le> 12"
  using assms method_scan_prefix [of "take (pos s) bs" "hmethod (hp s)" "index (hp s)"] method_longest [of "hmethod (hp s)"]
  by (auto simp: in_method_def)

text \<open>A byte of the method.\<close>

lemma in_method_byte:
  assumes "in_method bs s" "pos s < length bs" "32 \<notin> set bs"
  shows "case method_scan (take (Suc (pos s)) bs) of
      None \<Rightarrow> \<exists>t. exec_byte S (bs @ [32]) s = Goto_error t \<and> herrno (hp t) \<noteq> HPE_OK
    | Some _ \<Rightarrow> \<exists>t. exec_byte S (bs @ [32]) s = Break t \<and> pos t = pos s \<and> usr t = usr s \<and> in_method bs (t\<lparr>pos := pos t + 1\<rparr>)"
proof -
  let ?c = "bs ! pos s" and ?n = "on_hp (\<lambda>pr. pr\<lparr>nread := of_nat (Suc (pos s))\<rparr>) s"
  have c: "?c \<noteq> 32"
    using nth_mem [OF assms(2)] assms(3) by metis
  have i: "index (hp s) = pos s" "pos s \<le> 12"
    using in_method_index [OF assms(1)] by simp_all
  have "method_scan (take (pos s) bs) = Some (hmethod (hp s), index (hp s))"
    using assms(1) by (simp add: in_method_def)
  then have scan: "method_scan (take (Suc (pos s)) bs) = method_step ?c (hmethod (hp s), index (hp s))"
    using method_scan_snoc [where ch = ?c] take_Suc_conv_app_nth [OF assms(2)] by metis
  have "exec_byte S (bs @ [32]) s = exec_req_method ?c ?n"
    using assms(1,2) i count_small [of s "pos s"] method_byte [of s "bs @ [32]" S] by (simp add: in_method_def nth_append)
  then have run: "exec_byte S (bs @ [32]) s =
      (case method_step ?c (hmethod (hp s), index (hp s)) of
         None \<Rightarrow> error HPE_INVALID_METHOD ?n
       | Some (m, i) \<Rightarrow> Break (on_hp (\<lambda>pr. next_index (pr\<lparr>hmethod := m\<rparr>)) ?n))"
    using exec_req_method_step [OF c, of ?n] by simp
  show ?thesis
  proof (cases "method_step ?c (hmethod (hp s), index (hp s))")
    case None
    then show ?thesis
      using run scan by (simp add: error_def SET_ERRNO_def)
  next
    case (Some x)
    obtain m j where x: "x = (m, j)" by (cases x)
    have "j = Suc (index (hp s))"
      using method_step_prefix(1) Some x by blast
    then show ?thesis
      using run scan Some x i assms(1,2) by (simp add: in_method_def next_index_def)
  qed
qed

text \<open>The space behind it.\<close>

lemma in_method_space:
  assumes "in_method bs s" "pos s = length bs"
  shows "if bs = http_method_str (hmethod (hp s))
    then \<exists>t. exec_byte S (bs @ [32]) s = Break t \<and> pos t = pos s \<and> p_state t = s_req_spaces_before_url \<and>
      herrno (hp t) = HPE_OK \<and> hmethod (hp t) = hmethod (hp s) \<and> marks t = (\<lambda>_. None) \<and> usr t = usr s
    else \<exists>t. exec_byte S (bs @ [32]) s = Goto_error t \<and> herrno (hp t) \<noteq> HPE_OK"
proof -
  let ?m = "hmethod (hp s)" and ?n = "on_hp (\<lambda>pr. pr\<lparr>nread := of_nat (Suc (pos s))\<rparr>) s"
  note i = in_method_index [OF assms(1)]
  have run: "exec_byte S (bs @ [32]) s = exec_req_method 32 ?n"
    using assms i count_small [of s "pos s"] method_byte [of s "bs @ [32]" S] by (simp add: in_method_def nth_append)
  have alpha: "\<not> IS_ALPHA 32"
    by (simp add: IS_ALPHA_def LOWER_def)
  have no_space: "32 \<notin> set (http_method_str ?m)"
    by (cases ?m) (simp_all add: http_method_str_def str_def)
  have "cstr_at (http_method_str ?m) (pos s) = 0 \<longleftrightarrow> pos s = length (http_method_str ?m)"
    using i(2) method_nonzero [of "pos s" ?m] by (auto simp: cstr_at_def)
  moreover have "pos s = length (http_method_str ?m) \<longleftrightarrow> bs = http_method_str ?m"
  proof
    assume "pos s = length (http_method_str ?m)"
    then have "take (length bs) bs = take (length (http_method_str ?m)) (http_method_str ?m)"
      using i(3) assms(2) by metis
    then show "bs = http_method_str ?m"
      by simp
  next
    assume "bs = http_method_str ?m"
    then show "pos s = length (http_method_str ?m)"
      using assms(2) by metis
  qed
  moreover have "cstr_at (http_method_str ?m) (pos s) \<noteq> 32"
  proof (cases "pos s < length (http_method_str ?m)")
    case True
    then have "cstr_at (http_method_str ?m) (pos s) \<in> set (http_method_str ?m)"
      by (simp add: cstr_at_def)
    then show ?thesis
      using no_space by metis
  qed (simp add: cstr_at_def)
  moreover have "exec_req_method 32 ?n =
      (if cstr_at (http_method_str ?m) (pos s) = 0 then Break (on_hp next_index (UPDATE_STATE s_req_spaces_before_url ?n))
       else error HPE_INVALID_METHOD ?n)"
    using calculation(3) i(1) alpha by (simp add: exec_req_method_def Let_def)
  ultimately show ?thesis
    using run assms(1)
    by (cases "bs = http_method_str ?m") (simp_all add: error_def SET_ERRNO_def next_index_def in_method_def)
qed


text \<open>Both together: what the loop makes of the method and the space.\<close>

definition method_result :: "bytes \<Rightarrow> 'u \<Rightarrow> 'u ctl \<Rightarrow> bool" where
  "method_result bs u r \<longleftrightarrow>
     (case r of
        Break t \<Rightarrow> bs = http_method_str (hmethod (hp t)) \<and> pos t = Suc (length bs) \<and> p_state t = s_req_spaces_before_url \<and>
          herrno (hp t) = HPE_OK \<and> marks t = (\<lambda>_. None) \<and> usr t = u
      | Goto_error t \<Rightarrow> herrno (hp t) \<noteq> HPE_OK \<and> (\<forall>m. bs \<noteq> http_method_str m)
      | _ \<Rightarrow> False)"

lemma not_a_method:
  assumes "method_scan bs = None"
  shows "bs \<noteq> http_method_str m"
  using assms method_scan_complete [of m] by auto

lemma in_method_loop:
  assumes "in_method bs s" "32 \<notin> set bs"
  shows "method_result bs (usr s) (exec_loop S (bs @ [32]) s)"
  using assms
proof (induction "length bs - pos s" arbitrary: s)
  case 0
  then have p: "pos s = length bs" "pos s < length (bs @ [32])"
    by (auto simp: in_method_def)
  have scan: "method_scan bs = Some (hmethod (hp s), index (hp s))"
    using "0.prems"(1) p(1) by (simp add: in_method_def)
  show ?case
  proof (cases "bs = http_method_str (hmethod (hp s))")
    case True
    then obtain t where "exec_byte S (bs @ [32]) s = Break t" "pos t = pos s" "p_state t = s_req_spaces_before_url"
      "herrno (hp t) = HPE_OK" "hmethod (hp t) = hmethod (hp s)" "marks t = (\<lambda>_. None)" "usr t = usr s"
      using in_method_space [OF "0.prems"(1) p(1), of S] unfolding if_P [OF True] by blast
    moreover from this have "exec_loop S (bs @ [32]) s = Break (t\<lparr>pos := pos t + 1\<rparr>)"
      using exec_loop_step [OF p(2)] p(1) by (simp add: exec_loop.simps)
    ultimately show ?thesis
      using True p(1) by (simp add: method_result_def)
  next
    case False
    then obtain t where "exec_byte S (bs @ [32]) s = Goto_error t" "herrno (hp t) \<noteq> HPE_OK"
      using in_method_space [OF "0.prems"(1) p(1), of S] unfolding if_not_P [OF False] by blast
    moreover have "bs \<noteq> http_method_str m" for m
      using scan method_scan_complete [of m] False by auto
    ultimately show ?thesis
      using p(2) by (simp add: exec_loop.simps [of S _ s] method_result_def)
  qed
next
  case (Suc n)
  then have p: "pos s < length bs" "pos s < length (bs @ [32])"
    by auto
  note byte = in_method_byte [OF Suc.prems(1) p(1) Suc.prems(2), of S]
  show ?case
  proof (cases "method_scan (take (Suc (pos s)) bs)")
    case None
    then show ?thesis
      using byte p(2) not_a_method [OF method_scan_take_None [OF None]]
      by (auto simp: exec_loop.simps [of S _ s] method_result_def)
  next
    case (Some x)
    then obtain t where t: "exec_byte S (bs @ [32]) s = Break t" "pos t = pos s" "usr t = usr s" "in_method bs (t\<lparr>pos := pos t + 1\<rparr>)"
      using byte by auto
    have "n = length bs - pos (t\<lparr>pos := pos t + 1\<rparr>)"
      using Suc.hyps(2) t(2) by simp
    from Suc.hyps(1) [OF this t(4) Suc.prems(2)] show ?thesis
      using exec_loop_step [OF p(2) t(1)] t(3) by simp
  qed
qed


lemma first_method_letter: "first_method x = Some m \<Longrightarrow> IS_ALPHA (ascii x) \<and> ascii x \<noteq> CR \<and> ascii x \<noteq> LF"
  by (auto simp: IS_ALPHA_def LOWER_def CR_def LF_def split: if_splits)

lemma first_method_alpha: "first_method (char_of (unat c)) = Some m \<Longrightarrow> IS_ALPHA c \<and> c \<noteq> CR \<and> c \<noteq> LF"
  using first_method_letter [of "char_of (unat c)" m] by simp

lemma method_first_byte:
  assumes "on_notify S message_begin = None" "bs \<noteq> []" "hd bs \<noteq> CR" "hd bs \<noteq> LF" "32 \<notin> set bs"
  shows "method_result bs u (exec_loop S (bs @ [32])
    \<lparr>hp = http_parser_init HTTP_REQUEST, usr = u, pos = 0, p_state = s_start_req, marks = initial_marks s_start_req\<rparr>)"
    (is "method_result bs u (exec_loop S ?d ?s)")
proof -
  let ?n = "on_hp (\<lambda>pr. pr\<lparr>nread := 1\<rparr>) ?s"
  obtain c bs' where bs: "bs = c # bs'"
    using assms(2) by (cases bs) auto
  have im: "initial_marks s_start_req = (\<lambda>_. None)"
    by (rule ext) (simp add: initial_marks_def split: data_cb.split)
  have not_re: "exec_start_req S c t \<noteq> Reexecute t'" for t t' :: "'a exec"
    using assms(1) by (auto simp del: first_method.simps
      simp: exec_start_req_def error_def Let_def CALLBACK_NOTIFY_def CALLBACK_NOTIFY_ER_def split: option.split)
  have "reexecute S ?d ?n = exec_start_req S c ?n"
    using not_re by (subst reexecute.simps) (auto simp: dispatch_def bs split: ctl.split)
  then have byte: "exec_byte S ?d ?s = exec_start_req S c ?n"
    using count_small [of ?s 0] by (simp add: exec_byte_def PARSING_HEADER_def http_parser_init_def)
  show ?thesis
  proof (cases "first_method (char_of (unat c))")
    case None
    have "\<exists>t. exec_byte S ?d ?s = Goto_error t \<and> herrno (hp t) \<noteq> HPE_OK"
      using assms(3,4) None bs byte by (simp add: exec_start_req_def error_def SET_ERRNO_def Let_def)
    moreover have "method_scan bs = None"
      using None bs by (simp add: method_scan_def)
    ultimately show ?thesis
      using not_a_method by (auto simp: exec_loop.simps [of S _ ?s] method_result_def)
  next
    case (Some m)
    let ?t = "UPDATE_STATE s_req_method (on_hp (\<lambda>pr. (reset_message pr)\<lparr>hmethod := m, index := 1\<rparr>) ?n)"
    have "exec_start_req S c ?n = Break ?t"
      using Some first_method_alpha [OF Some] assms(1)
      by (simp del: first_method.simps add: exec_start_req_def Let_def CALLBACK_NOTIFY_def CALLBACK_NOTIFY_ER_def
          http_parser_init_def on_hp_def UPDATE_STATE_def reset_message_def)
    then have run: "exec_loop S ?d ?s = exec_loop S ?d (?t\<lparr>pos := 1\<rparr>)"
      using exec_loop_step [of ?s ?d S ?t] byte by simp
    have "in_method bs (?t\<lparr>pos := 1\<rparr>)"
      using Some bs im by (simp del: first_method.simps add: in_method_def method_scan_def reset_message_def http_parser_init_def)
    from in_method_loop [OF this assms(5), of S] show ?thesis
      using run by simp
  qed
qed

lemma leftover_nothing:
  assumes "herrno (hp s) = HPE_OK" "marks s = (\<lambda>_. None)"
  shows "leftover S data s = Return s (length data)"
  using assms by (simp add: leftover_def callback_defs CALLBACK_DATA_ER_def)

text \<open>
  C13: A new parser for requests, given some bytes and a space, gets past them without an error
  exactly if the bytes are the name of one of the 33 methods, and then it has recorded that method.
\<close>

theorem http_method_exact:
  assumes "on_notify S message_begin = None" "bs \<noteq> []" "hd bs \<noteq> CR" "hd bs \<noteq> LF" "32 \<notin> set bs"
  shows "(\<exists>pr n. http_parser_execute S (bs @ [32]) (http_parser_init HTTP_REQUEST) u = Some (pr, u, n) \<and>
      herrno pr = HPE_OK \<and> hstate pr = s_req_spaces_before_url \<and> hmethod pr = m) \<longleftrightarrow> bs = http_method_str m"
proof -
  let ?s = "\<lparr>hp = http_parser_init HTTP_REQUEST, usr = u, pos = 0, p_state = s_start_req, marks = initial_marks s_start_req\<rparr>"
  have run: "http_parser_execute S (bs @ [32]) (http_parser_init HTTP_REQUEST) u =
      leave_ctl (case exec_loop S (bs @ [32]) ?s of Break s' \<Rightarrow> leftover S (bs @ [32]) s' | r \<Rightarrow> r)"
    by (simp add: http_parser_execute_def http_parser_init_def Let_def)
  have inj: "m = m'" if "http_method_str m = http_method_str m'" for m m'
    using method_scan_complete that by (metis option.inject prod.inject)
  have r: "method_result bs u (exec_loop S (bs @ [32]) ?s)"
    using method_first_byte [OF assms] .
  show ?thesis
  proof (cases "exec_loop S (bs @ [32]) ?s")
    case (Break t)
    then have t: "bs = http_method_str (hmethod (hp t))" "p_state t = s_req_spaces_before_url" "herrno (hp t) = HPE_OK"
      "marks t = (\<lambda>_. None)" "usr t = u"
      using r by (simp_all only: method_result_def ctl.case)
    have x: "http_parser_execute S (bs @ [32]) (http_parser_init HTTP_REQUEST) u =
        Some ((hp t)\<lparr>hstate := s_req_spaces_before_url\<rparr>, u, length (bs @ [32]))"
      using run Break leftover_nothing [OF t(3,4)] t(2,5) by (simp only: ctl.case leave_ctl_def leave_def)
    have "bs = http_method_str m \<longleftrightarrow> hmethod (hp t) = m"
      using t(1) inj by metis
    then show ?thesis
      using x t(3) by (simp only:) simp
  next
    case (Goto_error t)
    then have t: "herrno (hp t) \<noteq> HPE_OK" "bs \<noteq> http_method_str m"
      using r by (simp_all add: method_result_def)
    then show ?thesis
      using run Goto_error by (simp add: leave_ctl_def leave_def leave_error_def)
  qed (use r in \<open>simp_all only: method_result_def ctl.case\<close>)
qed

theorem http_method_exact_witness:
  "\<exists>pr n. http_parser_execute http_parser_settings_init (http_method_str HTTP_GET @ [32]) (http_parser_init HTTP_REQUEST) () =
      Some (pr, (), n) \<and> herrno pr = HPE_OK \<and> hstate pr = s_req_spaces_before_url \<and> hmethod pr = HTTP_GET"
  using http_method_exact [of http_parser_settings_init "http_method_str HTTP_GET" "()" HTTP_GET]
  by (simp add: http_parser_settings_init_def http_method_str_def str_def CR_def LF_def)

end
