(* ===== verification/Http_Url.thy ===== *)
theory Http_Url
  imports Http_Chars
begin

text \<open>
  \<open>http_parser_parse_url\<close> of \<open>3rd/http-parser/http_parser.c\<close>: the split of a URL into its fields.
  \<open>buf\<close> is the memory from the pointer on, of which the first \<open>buflen\<close> bytes are the URL. Offsets and
  lengths of fields are 16-bit numbers, as in the struct. The result is the returned number and
  the struct, \<open>None\<close> if an assertion fails.
\<close>

section \<open>Data\<close>

datatype (plugins only: code) http_host_state =
    s_http_host_dead | s_http_userinfo_start | s_http_userinfo | s_http_host_start | s_http_host_v6_start
  | s_http_host | s_http_host_v6 | s_http_host_v6_end | s_http_host_v6_zone_start | s_http_host_v6_zone
  | s_http_host_port_start | s_http_host_port

datatype http_parser_url_fields =
  UF_SCHEMA | UF_HOST | UF_PORT | UF_PATH | UF_QUERY | UF_FRAGMENT | UF_USERINFO | UF_MAX

fun uf_index :: "http_parser_url_fields \<Rightarrow> nat" where
  "uf_index UF_SCHEMA = 0"
| "uf_index UF_HOST = 1"
| "uf_index UF_PORT = 2"
| "uf_index UF_PATH = 3"
| "uf_index UF_QUERY = 4"
| "uf_index UF_FRAGMENT = 5"
| "uf_index UF_USERINFO = 6"
| "uf_index UF_MAX = 7"

record url_field =
  off :: u16
  len :: u16

record http_parser_url =
  field_set :: u16
  port :: u16
  field_data :: "http_parser_url_fields \<Rightarrow> url_field"

definition http_parser_url_init :: http_parser_url where
  "http_parser_url_init = \<lparr>field_set = 0, port = 0, field_data = (\<lambda>_. \<lparr>off = 0, len = 0\<rparr>)\<rparr>"

definition has_field :: "http_parser_url_fields \<Rightarrow> http_parser_url \<Rightarrow> bool" where
  "has_field f u \<longleftrightarrow> bit (field_set u) (uf_index f)"

definition set_field_bit :: "http_parser_url_fields \<Rightarrow> http_parser_url \<Rightarrow> http_parser_url" where
  "set_field_bit f u = u\<lparr>field_set := field_set u OR push_bit (uf_index f) 1\<rparr>"

definition start_field :: "http_parser_url_fields \<Rightarrow> nat \<Rightarrow> u16 \<Rightarrow> http_parser_url \<Rightarrow> http_parser_url" where
  "start_field f p l u = u\<lparr>field_data := (field_data u)(f := \<lparr>off = of_nat p, len = l\<rparr>)\<rparr>"

definition grow_field :: "http_parser_url_fields \<Rightarrow> http_parser_url \<Rightarrow> http_parser_url" where
  "grow_field f u = u\<lparr>field_data := (field_data u)(f := (field_data u f)\<lparr>len := len (field_data u f) + 1\<rparr>)\<rparr>"

section \<open>The host\<close>

definition http_parse_host_char :: "http_host_state \<Rightarrow> u8 \<Rightarrow> http_host_state" where
  "http_parse_host_char s ch =
     (let colon = (if ch = ascii CHR '':'' then s_http_host_port_start else s_http_host_dead);
          userinfo = (if ch = ascii CHR ''@'' then s_http_host_start
                      else if IS_USERINFO_CHAR ch then s_http_userinfo else s_http_host_dead);
          v6 = (if IS_HEX ch \<or> ch = ascii CHR '':'' \<or> ch = ascii CHR ''.'' then s_http_host_v6
                else if s = s_http_host_v6 \<and> ch = ascii CHR ''%'' then s_http_host_v6_zone_start
                else s_http_host_dead);
          zone = (if IS_ALPHANUM ch \<or> ch = ascii CHR ''%'' \<or> ch = ascii CHR ''.'' \<or> ch = ascii CHR ''-'' \<or>
                    ch = ascii CHR ''_'' \<or> ch = ascii CHR ''~''
                  then s_http_host_v6_zone else s_http_host_dead);
          num = (if IS_NUM ch then s_http_host_port else s_http_host_dead)
      in case s of
           s_http_userinfo \<Rightarrow> userinfo
         | s_http_userinfo_start \<Rightarrow> userinfo
         | s_http_host_start \<Rightarrow>
             if ch = ascii CHR ''['' then s_http_host_v6_start
             else if IS_HOST_CHAR ch then s_http_host else s_http_host_dead
         | s_http_host \<Rightarrow> if IS_HOST_CHAR ch then s_http_host else colon
         | s_http_host_v6_end \<Rightarrow> colon
         | s_http_host_v6 \<Rightarrow> if ch = ascii CHR '']'' then s_http_host_v6_end else v6
         | s_http_host_v6_start \<Rightarrow> v6
         | s_http_host_v6_zone \<Rightarrow> if ch = ascii CHR '']'' then s_http_host_v6_end else zone
         | s_http_host_v6_zone_start \<Rightarrow> zone
         | s_http_host_port \<Rightarrow> num
         | s_http_host_port_start \<Rightarrow> num
         | _ \<Rightarrow> s_http_host_dead)"

text \<open>The inner switch: what entering \<open>new_s\<close> from \<open>s\<close> at offset \<open>p\<close> records.\<close>

definition host_record :: "http_host_state \<Rightarrow> http_host_state \<Rightarrow> nat \<Rightarrow> http_parser_url \<Rightarrow> http_parser_url" where
  "host_record s new_s p u =
     (case new_s of
        s_http_host \<Rightarrow>
          grow_field UF_HOST (if s \<noteq> s_http_host then start_field UF_HOST p (len (field_data u UF_HOST)) u else u)
      | s_http_host_v6 \<Rightarrow>
          grow_field UF_HOST (if s \<noteq> s_http_host_v6 then start_field UF_HOST p (len (field_data u UF_HOST)) u else u)
      | s_http_host_v6_zone_start \<Rightarrow> grow_field UF_HOST u
      | s_http_host_v6_zone \<Rightarrow> grow_field UF_HOST u
      | s_http_host_port \<Rightarrow>
          grow_field UF_PORT (if s \<noteq> s_http_host_port then set_field_bit UF_PORT (start_field UF_PORT p 0 u) else u)
      | s_http_userinfo \<Rightarrow>
          grow_field UF_USERINFO
            (if s \<noteq> s_http_userinfo then set_field_bit UF_USERINFO (start_field UF_USERINFO p 0 u) else u)
      | _ \<Rightarrow> u)"

text \<open>The loop over the offsets from \<open>p\<close> to \<open>stop\<close>; a dead state returns 1 at once.\<close>

function host_loop :: "bytes \<Rightarrow> nat \<Rightarrow> nat \<Rightarrow> http_host_state \<Rightarrow> http_parser_url \<Rightarrow>
    http_host_state option \<times> http_parser_url" where
  "host_loop buf p stop s u =
     (if p < stop then
        let new_s = http_parse_host_char s (buf ! p) in
        if new_s = s_http_host_dead then (None, u)
        else host_loop buf (Suc p) stop new_s (host_record s new_s p u)
      else (Some s, u))"
  by auto
termination
  by (relation "measure (\<lambda>(_, p, stop, _). stop - p)") auto

declare host_loop.simps [simp del]

definition host_end_ok :: "http_host_state \<Rightarrow> bool" where
  "host_end_ok s \<longleftrightarrow>
     s \<notin> {s_http_host_start, s_http_host_v6_start, s_http_host_v6, s_http_host_v6_zone_start, s_http_host_v6_zone,
       s_http_host_port_start, s_http_userinfo, s_http_userinfo_start}"

definition http_parse_host :: "bytes \<Rightarrow> http_parser_url \<Rightarrow> bool \<Rightarrow> (nat \<times> http_parser_url) option" where
  "http_parse_host buf u found_at =
     (if \<not> has_field UF_HOST u then None
      else
        let start = unat (off (field_data u UF_HOST));
            stop = start + unat (len (field_data u UF_HOST));
            u1 = u\<lparr>field_data := (field_data u)(UF_HOST := (field_data u UF_HOST)\<lparr>len := 0\<rparr>)\<rparr>
        in case host_loop buf start stop (if found_at then s_http_userinfo_start else s_http_host_start) u1 of
             (None, u2) \<Rightarrow> Some (1, u2)
           | (Some s, u2) \<Rightarrow> Some (if host_end_ok s then 0 else 1, u2))"

section \<open>The URL\<close>

text \<open>The field a state belongs to, if any: delimiters are skipped.\<close>

datatype url_kind = Dead | Skip | Field http_parser_url_fields | Unexpected

definition url_class :: "state \<Rightarrow> url_kind" where
  "url_class s =
     (case s of
        s_dead \<Rightarrow> Dead
      | s_req_schema_slash \<Rightarrow> Skip
      | s_req_schema_slash_slash \<Rightarrow> Skip
      | s_req_server_start \<Rightarrow> Skip
      | s_req_query_string_start \<Rightarrow> Skip
      | s_req_fragment_start \<Rightarrow> Skip
      | s_req_schema \<Rightarrow> Field UF_SCHEMA
      | s_req_server_with_at \<Rightarrow> Field UF_HOST
      | s_req_server \<Rightarrow> Field UF_HOST
      | s_req_path \<Rightarrow> Field UF_PATH
      | s_req_query_string \<Rightarrow> Field UF_QUERY
      | s_req_fragment \<Rightarrow> Field UF_FRAGMENT
      | _ \<Rightarrow> Unexpected)"

datatype url_exit = Url_end bool | Url_dead | Url_assert

function url_loop :: "bytes \<Rightarrow> nat \<Rightarrow> nat \<Rightarrow> state \<Rightarrow> http_parser_url_fields \<Rightarrow> bool \<Rightarrow> http_parser_url \<Rightarrow>
    url_exit \<times> http_parser_url" where
  "url_loop buf p buflen s old_uf found_at u =
     (if p < buflen then
        let s' = parse_url_char s (buf ! p) in
        case url_class s' of
          Dead \<Rightarrow> (Url_dead, u)
        | Unexpected \<Rightarrow> (Url_assert, u)
        | Skip \<Rightarrow> url_loop buf (Suc p) buflen s' old_uf found_at u
        | Field uf \<Rightarrow>
            let found = found_at \<or> s' = s_req_server_with_at in
            if uf = old_uf then url_loop buf (Suc p) buflen s' old_uf found (grow_field uf u)
            else url_loop buf (Suc p) buflen s' uf found (set_field_bit uf (start_field uf p 1 u))
      else (Url_end found_at, u))"
  by auto
termination
  by (relation "measure (\<lambda>(_, p, buflen, _). buflen - p)") auto

declare url_loop.simps [simp del]

text \<open>\<open>strtoul\<close> on memory that starts with a decimal digit; too large a number is \<open>ULONG_MAX\<close>.\<close>

definition decimal :: "bytes \<Rightarrow> int" where
  "decimal ds = foldl (\<lambda>v d. v * 10 + int (digit d)) 0 ds"

definition strtoul :: "bytes \<Rightarrow> int" where
  "strtoul mem = min (decimal (takeWhile IS_NUM mem)) (2 ^ 64 - 1)"

definition url_port :: "bytes \<Rightarrow> http_parser_url \<Rightarrow> nat \<times> http_parser_url" where
  "url_port buf u =
     (if has_field UF_PORT u then
        let v = strtoul (drop (unat (off (field_data u UF_PORT))) buf) in
        if v > 0xffff then (1, u) else (0, u\<lparr>port := of_int v\<rparr>)
      else (0, u))"

definition url_tail :: "bytes \<Rightarrow> bool \<Rightarrow> http_parser_url \<Rightarrow> nat \<times> http_parser_url" where
  "url_tail buf is_connect u =
     (if is_connect \<and> field_set u \<noteq> push_bit (uf_index UF_HOST) 1 OR push_bit (uf_index UF_PORT) 1 then (1, u)
      else url_port buf u)"

definition http_parser_parse_url ::
  "bytes \<Rightarrow> nat \<Rightarrow> bool \<Rightarrow> http_parser_url \<Rightarrow> (nat \<times> http_parser_url) option" where
  "http_parser_parse_url buf buflen is_connect u0 =
     (case url_loop buf 0 buflen (if is_connect then s_req_server_start else s_req_spaces_before_url) UF_MAX False
             (u0\<lparr>port := 0, field_set := 0\<rparr>) of
        (Url_assert, u) \<Rightarrow> None
      | (Url_dead, u) \<Rightarrow> Some (1, u)
      | (Url_end found_at, u) \<Rightarrow>
          if has_field UF_SCHEMA u \<and> \<not> has_field UF_HOST u then Some (1, u)
          else if has_field UF_HOST u then
            (case http_parse_host buf u found_at of
               None \<Rightarrow> None
             | Some (r, u1) \<Rightarrow> Some (if r \<noteq> 0 then (1, u1) else url_tail buf is_connect u1))
          else Some (url_tail buf is_connect u))"

section \<open>Fields stay inside the URL\<close>

lemma uf_index_less: "uf_index f < 16"
  by (cases f) simp_all

lemma uf_index_inj: "uf_index f = uf_index g \<longleftrightarrow> f = g"
  by (cases f; cases g) simp_all

lemma has_field_upd [simp]:
  "has_field f (set_field_bit g u) \<longleftrightarrow> f = g \<or> has_field f u"
  "has_field f (start_field g p l u) = has_field f u" "has_field f (grow_field g u) = has_field f u"
  using uf_index_less [of f] uf_index_less [of g]
  by (auto simp: has_field_def set_field_bit_def start_field_def grow_field_def bit_or_iff bit_push_bit_iff
      bit_exp_iff uf_index_inj)

lemma field_data_upd [simp]:
  "field_data (set_field_bit g u) = field_data u"
  "field_data (start_field g p l u) f = (if f = g then \<lparr>off = of_nat p, len = l\<rparr> else field_data u f)"
  "field_data (grow_field g u) f = (if f = g then (field_data u g)\<lparr>len := len (field_data u g) + 1\<rparr> else field_data u f)"
  by (simp_all add: set_field_bit_def start_field_def grow_field_def)

definition field_end :: "url_field \<Rightarrow> nat" where
  "field_end x = unat (off x) + unat (len x)"

lemma field_end_grow:
  assumes "field_end x < 65535"
  shows "field_end (x\<lparr>len := len x + 1\<rparr>) = Suc (field_end x)" "0 < unat (len x + 1)"
proof -
  have "unat (len x) < 65535"
    using assms by (simp add: field_end_def)
  then have "unat (len x + 1) = Suc (unat (len x))"
    by (simp add: unat_word_ariths)
  then show "field_end (x\<lparr>len := len x + 1\<rparr>) = Suc (field_end x)" "0 < unat (len x + 1)"
    by (simp_all add: field_end_def)
qed

lemma field_end_start: "p < 65536 \<Longrightarrow> field_end \<lparr>off = of_nat p, len = l\<rparr> = p + unat l"
  by (simp add: field_end_def unat_of_nat)

subsection \<open>The outer loop\<close>

text \<open>
  The invariant of the outer loop at offset \<open>p\<close>: fields are not empty and end at or before \<open>p\<close>. While
  the host is being read it ends at \<open>p\<close>, afterwards there is no digit behind it.
\<close>

definition pre_host :: "state \<Rightarrow> bool" where
  "pre_host s \<longleftrightarrow>
     s \<in> {s_req_spaces_before_url, s_req_schema, s_req_schema_slash, s_req_schema_slash_slash, s_req_server_start}"

definition in_host :: "state \<Rightarrow> bool" where
  "in_host s \<longleftrightarrow> s = s_req_server \<or> s = s_req_server_with_at"

definition fields_ok :: "nat \<Rightarrow> http_parser_url \<Rightarrow> bool" where
  "fields_ok p u \<longleftrightarrow> (\<forall>f. has_field f u \<longrightarrow> 0 < unat (len (field_data u f)) \<and> field_end (field_data u f) \<le> p)"

definition host_ok :: "bytes \<Rightarrow> nat \<Rightarrow> state \<Rightarrow> http_parser_url \<Rightarrow> bool" where
  "host_ok buf p s u \<longleftrightarrow>
     (if in_host s then field_end (field_data u UF_HOST) = p
      else field_end (field_data u UF_HOST) < p \<and> \<not> IS_NUM (buf ! field_end (field_data u UF_HOST)))"

definition url_inv :: "bytes \<Rightarrow> nat \<Rightarrow> state \<Rightarrow> http_parser_url_fields \<Rightarrow> http_parser_url \<Rightarrow> bool" where
  "url_inv buf p s old_uf u \<longleftrightarrow> fields_ok p u \<and> (old_uf \<noteq> UF_MAX \<longrightarrow> has_field old_uf u) \<and>
     (has_field UF_HOST u \<longrightarrow> \<not> pre_host s \<and> host_ok buf p s u) \<and> (in_host s \<longrightarrow> has_field UF_HOST u \<and> old_uf = UF_HOST) \<and>
     \<not> has_field UF_PORT u \<and> \<not> has_field UF_USERINFO u"

lemma parse_url_char_host:
  "in_host (parse_url_char s ch) \<Longrightarrow> s = s_req_server_start \<or> in_host s"
  "pre_host (parse_url_char s ch) \<Longrightarrow> pre_host s"
  "in_host s \<Longrightarrow> \<not> in_host (parse_url_char s ch) \<Longrightarrow> parse_url_char s ch \<noteq> s_dead \<Longrightarrow> \<not> IS_NUM ch"
  by (cases s; auto simp: parse_url_char_def url_server_def in_host_def pre_host_def IS_NUM_def split: if_splits)+

lemma url_class_host: "url_class s = Field UF_HOST \<longleftrightarrow> in_host s"
  by (cases s) (simp_all add: url_class_def in_host_def)

lemma url_class_fields: "url_class s = Field f \<Longrightarrow> f \<notin> {UF_PORT, UF_USERINFO, UF_MAX}"
  by (cases s) (auto simp: url_class_def)

lemma url_class_parse: "url_class (parse_url_char s ch) \<noteq> Unexpected"
  using parse_url_char_states [of s ch] by (auto simp: url_states_def url_class_def)

lemma url_class_dead: "url_class s = Dead \<longleftrightarrow> s = s_dead"
  by (cases s) (simp_all add: url_class_def)

lemma fields_ok_mono: "fields_ok p u \<Longrightarrow> p \<le> q \<Longrightarrow> fields_ok q u"
  unfolding fields_ok_def by (meson order_trans)

lemma fields_ok_grow:
  assumes "fields_ok p u" "has_field f u" "p < 65535"
  shows "fields_ok (Suc p) (grow_field f u)"
  using assms field_end_grow [of "field_data u f"] by (fastforce simp: fields_ok_def)

lemma fields_ok_start:
  assumes "fields_ok p u" "p < 65535"
  shows "fields_ok (Suc p) (set_field_bit f (start_field f p 1 u))"
  using assms field_end_start [of p 1] by (fastforce simp: fields_ok_def)

text \<open>One step: to a state that is skipped, and to a state of a field.\<close>

lemma host_ok_step:
  assumes "host_ok (buf :: bytes) p s u" "s' = parse_url_char s (buf ! p)" "s' \<noteq> s_dead" "\<not> in_host s'"
    "field_data u' UF_HOST = field_data u UF_HOST"
  shows "host_ok buf (Suc p) s' u'"
  using assms parse_url_char_host(3) [of s "buf ! p"] by (auto simp: host_ok_def split: if_splits)

lemma url_inv_skip:
  assumes "url_inv buf p s old_uf u" "s' = parse_url_char s (buf ! p)" "url_class s' = Skip"
  shows "url_inv buf (Suc p) s' old_uf u"
proof -
  have s': "s' \<noteq> s_dead" "\<not> in_host s'"
    using assms(3) by (auto simp: url_class_def in_host_def)
  then show ?thesis
    using assms parse_url_char_host(2) [of s "buf ! p"] host_ok_step [OF _ assms(2) s', of u u]
      fields_ok_mono [of p u "Suc p"]
    by (auto simp: url_inv_def)
qed

lemma url_inv_same:
  assumes "url_inv buf p s uf u" "s' = parse_url_char s (buf ! p)" "url_class s' = Field uf" "p < 65535"
  shows "url_inv buf (Suc p) s' uf (grow_field uf u)"
proof -
  have uf: "uf \<notin> {UF_PORT, UF_USERINFO, UF_MAX}" "s' \<noteq> s_dead"
    using url_class_fields [OF assms(3)] assms(3) by (auto simp: url_class_def)
  have i: "fields_ok p u" "has_field uf u" "has_field UF_HOST u \<Longrightarrow> \<not> pre_host s \<and> host_ok buf p s u"
    "in_host s \<Longrightarrow> has_field UF_HOST u \<and> uf = UF_HOST"
    using assms(1) uf by (auto simp: url_inv_def)
  have "has_field UF_HOST u \<Longrightarrow> host_ok buf (Suc p) s' (grow_field uf u)"
  proof (cases "in_host s'")
    case True
    assume h: "has_field UF_HOST u"
    then have "in_host s"
      using parse_url_char_host(1) [of s "buf ! p"] True assms(2) i(3) by (auto simp: pre_host_def)
    moreover have "uf = UF_HOST"
      using True assms(3) url_class_host [of s'] by simp
    ultimately show ?thesis
      using True i(3) h assms(4) field_end_grow [of "field_data u UF_HOST"] by (simp add: host_ok_def)
  next
    case False
    assume h: "has_field UF_HOST u"
    have "uf \<noteq> UF_HOST"
      using False assms(3) url_class_host [of s'] by auto
    then show ?thesis
      using host_ok_step [OF _ assms(2) uf(2) False, of u "grow_field uf u"] i(3) h by simp
  qed
  then show ?thesis
    using assms(1,2) i fields_ok_grow [OF i(1,2) assms(4)] uf parse_url_char_host(2) [of s "buf ! p"]
      url_class_host [of s'] assms(3)
    by (auto simp: url_inv_def)
qed

lemma url_inv_new:
  assumes "url_inv buf p s old_uf u" "s' = parse_url_char s (buf ! p)" "url_class s' = Field uf" "uf \<noteq> old_uf" "p < 65535"
  shows "url_inv buf (Suc p) s' uf (set_field_bit uf (start_field uf p 1 u))"
proof -
  let ?u = "set_field_bit uf (start_field uf p 1 u)"
  have uf: "uf \<notin> {UF_PORT, UF_USERINFO, UF_MAX}" "s' \<noteq> s_dead"
    using url_class_fields [OF assms(3)] assms(3) by (auto simp: url_class_def)
  have i: "fields_ok p u" "has_field UF_HOST u \<Longrightarrow> \<not> pre_host s \<and> host_ok buf p s u"
    "in_host s \<Longrightarrow> has_field UF_HOST u \<and> old_uf = UF_HOST"
    using assms(1) by (auto simp: url_inv_def)
  have "has_field UF_HOST ?u \<longrightarrow> \<not> pre_host s' \<and> host_ok buf (Suc p) s' ?u"
  proof (cases "in_host s'")
    case True
    then have "uf = UF_HOST"
      using assms(3) url_class_host [of s'] by simp
    then show ?thesis
      using True assms(5) field_end_start [of p 1] by (auto simp: host_ok_def pre_host_def in_host_def)
  next
    case False
    then have "uf \<noteq> UF_HOST"
      using assms(3) url_class_host [of s'] by simp
    then show ?thesis
      using host_ok_step [OF _ assms(2) uf(2) False, of u ?u] i(2) parse_url_char_host(2) [of s "buf ! p"] assms(2)
      by auto
  qed
  then show ?thesis
    using assms(1,3) fields_ok_start [OF i(1) assms(5)] uf url_class_host [of s'] by (auto simp: url_inv_def)
qed

lemma url_loop_inv:
  "url_inv buf p s old_uf u \<Longrightarrow> p \<le> buflen \<Longrightarrow> buflen < 65536 \<Longrightarrow>
     (case url_loop buf p buflen s old_uf found_at u of
        (Url_end fa, u') \<Rightarrow> \<exists>s' uf. url_inv buf buflen s' uf u'
      | (Url_dead, u') \<Rightarrow> True
      | (Url_assert, u') \<Rightarrow> False)"
proof (induction buf p buflen s old_uf found_at u rule: url_loop.induct)
  case (1 buf p buflen s old_uf found_at u)
  show ?case
  proof (cases "p < buflen")
    case False
    then show ?thesis
      using "1.prems" by (subst url_loop.simps) auto
  next
    case True
    let ?s = "parse_url_char s (buf ! p)"
    have p: "p < 65535"
      using True "1.prems"(3) by simp
    show ?thesis
    proof (cases "url_class ?s")
      case Skip
      show ?thesis
        using "1.IH"(1) [OF True refl Skip url_inv_skip [OF "1.prems"(1) refl Skip]] "1.prems" True Skip
        by (subst url_loop.simps) (simp add: Let_def)
    next
      case (Field uf)
      show ?thesis
      proof (cases "uf = old_uf")
        case same: True
        show ?thesis
          using "1.IH"(2) [OF True refl Field refl same] url_inv_same [OF _ refl, of buf p s uf u] "1.prems" True Field same p
          by (subst url_loop.simps) (simp add: Let_def)
      next
        case new: False
        show ?thesis
          using "1.IH"(3) [OF True refl Field refl new url_inv_new [OF "1.prems"(1) refl Field new p]] "1.prems" True Field new
          by (subst url_loop.simps) (simp add: Let_def)
      qed
    qed (use True url_class_parse in \<open>auto simp: url_loop.simps [of buf p]\<close>)
  qed
qed

subsection \<open>The host\<close>

text \<open>Where the automaton for the host can come from.\<close>

lemma host_char_from:
  assumes "http_parse_host_char s ch = t"
  shows "case t of
      s_http_host_dead \<Rightarrow> True
    | s_http_userinfo_start \<Rightarrow> False
    | s_http_userinfo \<Rightarrow> s = s_http_userinfo_start \<or> s = s_http_userinfo
    | s_http_host_start \<Rightarrow> s = s_http_userinfo_start \<or> s = s_http_userinfo
    | s_http_host_v6_start \<Rightarrow> s = s_http_host_start
    | s_http_host \<Rightarrow> s = s_http_host_start \<or> s = s_http_host
    | s_http_host_v6 \<Rightarrow> s = s_http_host_v6_start \<or> s = s_http_host_v6
    | s_http_host_v6_end \<Rightarrow> s = s_http_host_v6 \<or> s = s_http_host_v6_zone
    | s_http_host_v6_zone_start \<Rightarrow> s = s_http_host_v6
    | s_http_host_v6_zone \<Rightarrow> s = s_http_host_v6_zone_start \<or> s = s_http_host_v6_zone
    | s_http_host_port_start \<Rightarrow> s = s_http_host \<or> s = s_http_host_v6_end
    | s_http_host_port \<Rightarrow> (s = s_http_host_port_start \<or> s = s_http_host_port) \<and> IS_NUM ch"
  using assms by (cases s) (auto simp: http_parse_host_char_def Let_def)

definition before_host :: "http_host_state \<Rightarrow> bool" where
  "before_host s \<longleftrightarrow> s \<in> {s_http_userinfo_start, s_http_userinfo, s_http_host_start, s_http_host_v6_start}"

text \<open>
  The invariant at offset \<open>p\<close>: \<open>rest\<close> is what the outer loop has found out about the other fields.
\<close>

definition host_inv :: "bytes \<Rightarrow> nat \<Rightarrow> http_host_state \<Rightarrow> nat \<Rightarrow> http_parser_url \<Rightarrow> bool" where
  "host_inv buf n s p u \<longleftrightarrow> s \<noteq> s_http_host_dead \<and> has_field UF_HOST u \<and> field_end (field_data u UF_HOST) \<le> p \<and>
     (unat (len (field_data u UF_HOST)) = 0 \<longleftrightarrow> before_host s) \<and>
     (\<forall>f. f \<notin> {UF_HOST, UF_PORT, UF_USERINFO} \<longrightarrow> has_field f u \<longrightarrow>
        0 < unat (len (field_data u f)) \<and> field_end (field_data u f) \<le> n) \<and>
     (has_field UF_USERINFO u \<longrightarrow> 0 < unat (len (field_data u UF_USERINFO)) \<and> field_end (field_data u UF_USERINFO) \<le> p) \<and>
     (s = s_http_userinfo \<longrightarrow> has_field UF_USERINFO u) \<and> (has_field UF_PORT u \<longleftrightarrow> s = s_http_host_port) \<and>
     (has_field UF_PORT u \<longrightarrow> 0 < unat (len (field_data u UF_PORT)) \<and> field_end (field_data u UF_PORT) = p \<and>
        (\<forall>i. unat (off (field_data u UF_PORT)) \<le> i \<and> i < p \<longrightarrow> IS_NUM (buf ! i)))"

lemma field_end_new: "p < 65535 \<Longrightarrow> field_end \<lparr>off = of_nat p, len = 1\<rparr> = Suc p"
  by (simp add: field_end_start)

lemma len_zero: "unat (len x) = 0 \<longleftrightarrow> len x = 0"
  by (simp add: unat_eq_0)

lemma host_inv_step:
  assumes "host_inv buf n s p u" "http_parse_host_char s (buf ! p) = t" "t \<noteq> s_http_host_dead" "p < 65535"
  shows "host_inv buf n t (Suc p) (host_record s t p u)"
proof -
  note trans = host_char_from [OF assms(2)]
  have g: "field_end (field_data u f) \<le> p \<Longrightarrow> field_end ((field_data u f)\<lparr>len := len (field_data u f) + 1\<rparr>) = Suc (field_end (field_data u f))
      \<and> len (field_data u f) + 1 \<noteq> 0" for f
    using field_end_grow [of "field_data u f"] assms(4) by (auto simp: unat_gt_0)
  have st: "field_end \<lparr>off = of_nat p, len = 1\<rparr> = Suc p" "unat (of_nat p :: u16) = p"
    using assms(4) by (simp_all add: field_end_start unat_of_nat)
  show ?thesis
    using assms(1,3) trans g [of UF_HOST] g [of UF_PORT] g [of UF_USERINFO] st
    by (cases t) (auto simp: host_inv_def host_record_def before_host_def len_zero unat_gt_0 less_Suc_eq)
qed

lemma host_loop_inv:
  "host_inv buf n s p u \<Longrightarrow> p \<le> stop \<Longrightarrow> stop < 65536 \<Longrightarrow>
     (case host_loop buf p stop s u of (Some s', u') \<Rightarrow> host_inv buf n s' stop u' | (None, u') \<Rightarrow> True)"
proof (induction buf p stop s u rule: host_loop.induct)
  case (1 buf p stop s u)
  show ?case
  proof (cases "p < stop \<and> http_parse_host_char s (buf ! p) \<noteq> s_http_host_dead")
    case True
    then have p: "p < stop" "http_parse_host_char s (buf ! p) \<noteq> s_http_host_dead" "p < 65535"
      using "1.prems"(3) by simp_all
    show ?thesis
      using "1.IH" [OF p(1) refl p(2) host_inv_step [OF "1.prems"(1) refl p(2,3)]] "1.prems" p
      by (subst host_loop.simps) (simp add: Let_def)
  next
    case False
    then show ?thesis
      using "1.prems" by (subst host_loop.simps) (auto simp: Let_def)
  qed
qed

lemma host_end_ok_states: "host_end_ok s \<Longrightarrow> \<not> before_host s"
  by (auto simp: host_end_ok_def before_host_def)

text \<open>What is known when the host has been split.\<close>

definition split_ok :: "bytes \<Rightarrow> nat \<Rightarrow> http_parser_url \<Rightarrow> bool" where
  "split_ok buf n u \<longleftrightarrow> fields_ok n u \<and>
     (has_field UF_PORT u \<longrightarrow>
        (\<forall>i. unat (off (field_data u UF_PORT)) \<le> i \<and> i < field_end (field_data u UF_PORT) \<longrightarrow> IS_NUM (buf ! i)) \<and>
        (field_end (field_data u UF_PORT) < n \<longrightarrow> \<not> IS_NUM (buf ! field_end (field_data u UF_PORT))))"

lemma host_inv_split:
  assumes "host_inv buf n s p u" "host_end_ok s" "p \<le> n" "p < n \<longrightarrow> \<not> IS_NUM (buf ! p)"
  shows "split_ok buf n u"
proof -
  have "0 < unat (len (field_data u f)) \<and> field_end (field_data u f) \<le> n" if "has_field f u" for f
    using assms that host_end_ok_states [OF assms(2)] by (cases "f \<in> {UF_HOST, UF_PORT, UF_USERINFO}") (auto simp: host_inv_def)
  then show ?thesis
    using assms by (auto simp: split_ok_def fields_ok_def host_inv_def)
qed

lemma host_inv_start:
  assumes "url_inv buf n s uf u" "has_field UF_HOST u"
  shows "host_inv buf n (if found_at then s_http_userinfo_start else s_http_host_start) (unat (off (field_data u UF_HOST)))
    (u\<lparr>field_data := (field_data u)(UF_HOST := (field_data u UF_HOST)\<lparr>len := 0\<rparr>)\<rparr>)"
  using assms by (auto simp: host_inv_def url_inv_def fields_ok_def before_host_def field_end_def has_field_def)

lemma parse_host_split:
  assumes "url_inv buf n s uf u" "has_field UF_HOST u" "n < 65536"
  obtains r u' where "http_parse_host buf u found_at = Some (r, u')" "r = 0 \<Longrightarrow> split_ok buf n u'"
proof -
  let ?s = "if found_at then s_http_userinfo_start else s_http_host_start"
  let ?u = "u\<lparr>field_data := (field_data u)(UF_HOST := (field_data u UF_HOST)\<lparr>len := 0\<rparr>)\<rparr>"
  let ?start = "unat (off (field_data u UF_HOST))" and ?stop = "field_end (field_data u UF_HOST)"
  have stop: "?start \<le> ?stop" "?stop \<le> n" "?stop < n \<longrightarrow> \<not> IS_NUM (buf ! ?stop)"
    using assms by (auto simp: url_inv_def fields_ok_def host_ok_def field_end_def split: if_splits)
  have loop: "case host_loop buf ?start ?stop ?s ?u of (Some s', u') \<Rightarrow> host_inv buf n s' ?stop u' | (None, u') \<Rightarrow> True"
    using host_loop_inv [OF host_inv_start [OF assms(1,2)] stop(1)] stop(2) assms(3) by simp
  obtain x u' where x: "host_loop buf ?start ?stop ?s ?u = (x, u')"
    by (cases "host_loop buf ?start ?stop ?s ?u")
  show ?thesis
  proof (cases x)
    case None
    then show ?thesis
      using that [of 1 u'] x assms(2) by (simp add: http_parse_host_def field_end_def Let_def)
  next
    case (Some s')
    then show ?thesis
      using that [of "if host_end_ok s' then 0 else 1" u'] x assms(2) loop host_inv_split [OF _ _ stop(2,3), of s' u']
      by (cases "host_end_ok s'") (simp_all add: http_parse_host_def field_end_def Let_def)
  qed
qed

lemma url_tail_ok:
  assumes "split_ok buf n u"
  shows "split_ok buf n (snd (url_tail buf c u))"
  using assms by (simp add: url_tail_def url_port_def Let_def split_ok_def fields_ok_def has_field_def)

lemma url_inv_split:
  assumes "url_inv buf n s uf u"
  shows "split_ok buf n u"
  using assms by (auto simp: url_inv_def split_ok_def)

lemma url_inv_initial: "s \<in> {s_req_server_start, s_req_spaces_before_url} \<Longrightarrow> url_inv buf 0 s UF_MAX (u\<lparr>port := 0, field_set := 0\<rparr>)"
  by (auto simp: url_inv_def fields_ok_def has_field_def in_host_def)

lemma parse_url_split:
  assumes "buflen < 65536"
  obtains r u where "http_parser_parse_url buf buflen is_connect u0 = Some (r, u)"
    "r = 0 \<Longrightarrow> split_ok buf buflen u \<and> (\<exists>v. split_ok buf buflen v \<and> url_tail buf is_connect v = (0, u))"
proof -
  let ?s = "if is_connect then s_req_server_start else s_req_spaces_before_url"
  let ?r = "url_loop buf 0 buflen ?s UF_MAX False (u0\<lparr>port := 0, field_set := 0\<rparr>)"
  have loop: "case ?r of (Url_end fa, u') \<Rightarrow> \<exists>s' uf. url_inv buf buflen s' uf u' | (Url_dead, u') \<Rightarrow> True | (Url_assert, u') \<Rightarrow> False"
    by (rule url_loop_inv) (use assms url_inv_initial in auto)
  obtain x u where x: "?r = (x, u)" by (cases ?r)
  show ?thesis
  proof (cases x)
    case (Url_end fa)
    then obtain s uf where i: "url_inv buf buflen s uf u"
      using loop x by auto
    show ?thesis
    proof (cases "has_field UF_HOST u")
      case True
      obtain r u1 where h: "http_parse_host buf u fa = Some (r, u1)" "r = 0 \<Longrightarrow> split_ok buf buflen u1"
        using parse_host_split [OF i True assms, where found_at = fa] by blast
      obtain r2 u2 where t: "url_tail buf is_connect u1 = (r2, u2)"
        by (cases "url_tail buf is_connect u1")
      show ?thesis
        using that [of "if r \<noteq> 0 then 1 else r2" "if r \<noteq> 0 then u1 else u2"] x Url_end True h t
          url_tail_ok [of buf buflen u1 is_connect]
        by (cases "r = 0") (auto simp: http_parser_parse_url_def)
    next
      case False
      obtain r2 u2 where t: "url_tail buf is_connect u = (r2, u2)"
        by (cases "url_tail buf is_connect u")
      show ?thesis
        using that [of "if has_field UF_SCHEMA u then 1 else r2" "if has_field UF_SCHEMA u then u else u2"] x Url_end False t
          url_inv_split [OF i] url_tail_ok [of buf buflen u is_connect]
        by (cases "has_field UF_SCHEMA u") (auto simp: http_parser_parse_url_def)
    qed
  next
    case Url_dead
    then show ?thesis
      using that [of 1 u] x by (simp add: http_parser_parse_url_def)
  qed (use loop x in simp)
qed

section \<open>Properties\<close>

text \<open>
  C37: Splitting a URL of less than 65536 bytes runs without a failed assertion, and if it succeeds every
  field that is reported is a non-empty piece of the URL.
\<close>

theorem url_fields_inside:
  assumes "buflen < 65536"
  shows "\<exists>r u. http_parser_parse_url buf buflen is_connect u0 = Some (r, u) \<and>
    (r = 0 \<longrightarrow> (\<forall>f. has_field f u \<longrightarrow>
       0 < unat (len (field_data u f)) \<and> unat (off (field_data u f)) + unat (len (field_data u f)) \<le> buflen))"
proof -
  obtain r u where "http_parser_parse_url buf buflen is_connect u0 = Some (r, u)" "r = 0 \<Longrightarrow> split_ok buf buflen u"
    using parse_url_split [OF assms, where buf = buf and is_connect = is_connect and ?u0.0 = u0] by metis
  then show ?thesis
    by (auto simp: split_ok_def fields_ok_def field_end_def)
qed

theorem url_fields_inside_witness:
  "\<exists>r u. http_parser_parse_url (str ''http://h/'') 9 False http_parser_url_init = Some (r, u) \<and>
    (r = 0 \<longrightarrow> (\<forall>f. has_field f u \<longrightarrow>
       0 < unat (len (field_data u f)) \<and> unat (off (field_data u f)) + unat (len (field_data u f)) \<le> 9))"
  using url_fields_inside [of 9 "str ''http://h/''" False http_parser_url_init] by simp

lemma decimal_nonneg: "0 \<le> decimal ds"
proof -
  have "0 \<le> v \<Longrightarrow> 0 \<le> foldl (\<lambda>v d. v * 10 + int (digit d)) v ds" for v
    by (induction ds arbitrary: v) simp_all
  then show ?thesis
    by (simp add: decimal_def)
qed

lemma takeWhile_until:
  assumes "\<And>i. i < n \<Longrightarrow> P (xs ! i)" "n \<le> length xs" "n < length xs \<Longrightarrow> \<not> P (xs ! n)"
  shows "takeWhile P xs = take n xs"
  using assms
proof (induction n arbitrary: xs)
  case 0
  then show ?case by (cases xs) auto
next
  case (Suc n)
  then obtain x ys where xs: "xs = x # ys" by (cases xs) auto
  have "takeWhile P ys = take n ys"
    using Suc.prems xs by (intro Suc.IH) force+
  then show ?case
    using Suc.prems(1) [of 0] xs by simp
qed

text \<open>
  If splitting a URL succeeds and reports a port, and the byte behind the URL in memory is not a digit,
  then the reported number is the decimal value of the port's digits.
\<close>

theorem url_port_value:
  assumes "buflen < 65536" "buflen \<le> length buf" "buflen < length buf \<Longrightarrow> \<not> IS_NUM (buf ! buflen)"
    and "http_parser_parse_url buf buflen is_connect u0 = Some (0, u)" "has_field UF_PORT u"
  shows "uint (port u) =
    decimal (take (unat (len (field_data u UF_PORT))) (drop (unat (off (field_data u UF_PORT))) buf))"
proof -
  obtain v where v: "split_ok buf buflen v" "url_tail buf is_connect v = (0, u)"
    using parse_url_split [OF assms(1), where buf = buf and is_connect = is_connect and ?u0.0 = u0] assms(4) by (metis option.inject prod.inject)
  let ?x = "field_data v UF_PORT"
  have u: "has_field UF_PORT v" "field_data u = field_data v" "strtoul (drop (unat (off ?x)) buf) \<le> 65535"
    "port u = of_int (strtoul (drop (unat (off ?x)) buf))"
    using v(2) assms(5) by (auto simp: url_tail_def url_port_def Let_def has_field_def split: if_splits)
  have e: "field_end ?x \<le> buflen" "\<And>i. unat (off ?x) \<le> i \<and> i < field_end ?x \<Longrightarrow> IS_NUM (buf ! i)"
    "field_end ?x < buflen \<Longrightarrow> \<not> IS_NUM (buf ! field_end ?x)"
    using v(1) u(1) by (auto simp: split_ok_def fields_ok_def)
  have "takeWhile IS_NUM (drop (unat (off ?x)) buf) = take (unat (len ?x)) (drop (unat (off ?x)) buf)"
  proof (rule takeWhile_until)
    show "IS_NUM (drop (unat (off ?x)) buf ! i)" if "i < unat (len ?x)" for i
      using that e(1) e(2) [of "unat (off ?x) + i"] assms(2) by (simp add: field_end_def)
    show "unat (len ?x) \<le> length (drop (unat (off ?x)) buf)"
      using e(1) assms(2) by (simp add: field_end_def)
    show "\<not> IS_NUM (drop (unat (off ?x)) buf ! unat (len ?x))" if "unat (len ?x) < length (drop (unat (off ?x)) buf)"
      using that e(1,3) assms(2,3) by (cases "field_end ?x = buflen") (auto simp: field_end_def)
  qed
  then show ?thesis
    using u decimal_nonneg by (simp add: strtoul_def min_def uint_word_of_int_eq take_bit_int_eq_self split: if_splits)
qed

theorem url_port_value_witness:
  "case http_parser_parse_url (str ''a:80'') 4 True http_parser_url_init of
     None \<Rightarrow> False
   | Some (r, u) \<Rightarrow> uint (port u) =
       decimal (take (unat (len (field_data u UF_PORT))) (drop (unat (off (field_data u UF_PORT))) (str ''a:80'')))"
proof -
  have "case http_parser_parse_url (str ''a:80'') 4 True http_parser_url_init of
      None \<Rightarrow> False | Some (r, u) \<Rightarrow> r = 0 \<and> has_field UF_PORT u"
    by code_simp
  then show ?thesis
    using url_port_value [of 4 "str ''a:80''" True http_parser_url_init] by (auto simp: str_def split: option.splits)
qed

text \<open>
  The length of the URL does not bound the number that is read for the port: digits behind the URL in
  memory are read too.
\<close>

theorem url_port_reads_on:
  "case http_parser_parse_url (str ''a:8099'') 4 True http_parser_url_init of
     None \<Rightarrow> False
   | Some (r, u) \<Rightarrow> r = 0 \<and> unat (len (field_data u UF_PORT)) = 2 \<and> port u = 8099"
  by code_simp

text \<open>
  For CONNECT a URL is accepted only if it consists of a host and a port: exactly these two fields
  are reported.
\<close>

theorem url_connect_host_port:
  assumes "buflen < 65536" "http_parser_parse_url buf buflen True u0 = Some (0, u)"
  shows "has_field f u \<longleftrightarrow> f = UF_HOST \<or> f = UF_PORT"
proof -
  obtain v where "url_tail buf True v = (0, u)"
    using parse_url_split [OF assms(1), where buf = buf and is_connect = True and ?u0.0 = u0] assms(2) by (metis option.inject prod.inject)
  then have "field_set u = push_bit (uf_index UF_HOST) 1 OR push_bit (uf_index UF_PORT) 1"
    by (auto simp: url_tail_def url_port_def Let_def split: if_splits)
  then show ?thesis
    by (cases f) (simp_all add: has_field_def)
qed

theorem url_connect_host_port_witness:
  "case http_parser_parse_url (str ''a:80'') 4 True http_parser_url_init of
     None \<Rightarrow> False
   | Some (r, u) \<Rightarrow> r = 0 \<and> (\<forall>f. has_field f u \<longleftrightarrow> f = UF_HOST \<or> f = UF_PORT)"
proof -
  have "case http_parser_parse_url (str ''a:80'') 4 True http_parser_url_init of None \<Rightarrow> False | Some (r, u) \<Rightarrow> r = 0"
    by code_simp
  then show ?thesis
    using url_connect_host_port [of 4 "str ''a:80''" http_parser_url_init] by (auto split: option.splits)
qed

end
