(* ===== verification/Http_Watch.thy ===== *)
theory Http_Watch
  imports Http_Loop
begin

text \<open>
  Callbacks written in C++ may throw: the exception passes through \<open>http_parser_execute\<close>. The model
  keeps a flag beside the data of the application that says whether a callback has thrown; the caller
  looks at it. Here is shown that the flag is all that the watched callbacks add: the streaming parser
  does not depend on how the data of the application is represented.
\<close>

section \<open>Callbacks that are watched\<close>

definition watch_throws ::
  "(notify_cb \<Rightarrow> http_parser \<Rightarrow> 'u \<Rightarrow> bool) \<Rightarrow> 'u http_parser_settings \<Rightarrow> (bool \<times> 'u) http_parser_settings" where
  "watch_throws throws S =
     \<lparr>on_notify = (\<lambda>f. map_option (\<lambda>cb pr (b, u).
        case cb pr u of (ret, paused, u') \<Rightarrow> (ret, paused, (b \<or> throws f pr u, u'))) (on_notify S f)),
      on_data = (\<lambda>f. map_option (\<lambda>cb pr at (b, u).
        case cb pr at u of (ret, paused, u') \<Rightarrow> (ret, paused, (b, u'))) (on_data S f))\<rparr>"

section \<open>A change of representation\<close>

definition lift_exec :: "('u \<Rightarrow> 'v) \<Rightarrow> 'u exec \<Rightarrow> 'v exec" where
  "lift_exec L s = \<lparr>hp = hp s, usr = L (usr s), pos = pos s, p_state = p_state s, marks = marks s\<rparr>"

fun lift_ctl :: "('u \<Rightarrow> 'v) \<Rightarrow> 'u ctl \<Rightarrow> 'v ctl" where
  "lift_ctl L (Break s) = Break (lift_exec L s)"
| "lift_ctl L (Reexecute s) = Reexecute (lift_exec L s)"
| "lift_ctl L (Goto_error s) = Goto_error (lift_exec L s)"
| "lift_ctl L (Return s n) = Return (lift_exec L s) n"
| "lift_ctl L Assert_fail = Assert_fail"

definition lift_result :: "('u \<Rightarrow> 'v) \<Rightarrow> int \<times> bool \<times> 'u \<Rightarrow> int \<times> bool \<times> 'v" where
  "lift_result L r = (case r of (ret, paused, u) \<Rightarrow> (ret, paused, L u))"

text \<open>The callbacks of \<open>T\<close> do on represented data what those of \<open>S\<close> do.\<close>

definition represents :: "('u \<Rightarrow> 'v) \<Rightarrow> 'u http_parser_settings \<Rightarrow> 'v http_parser_settings \<Rightarrow> bool" where
  "represents L S T \<longleftrightarrow>
     (\<forall>f. rel_option (\<lambda>cb cb'. \<forall>pr u. cb' pr (L u) = lift_result L (cb pr u)) (on_notify S f) (on_notify T f)) \<and>
     (\<forall>f. rel_option (\<lambda>cb cb'. \<forall>pr at u. cb' pr at (L u) = lift_result L (cb pr at u)) (on_data S f) (on_data T f))"

lemma lift_sel [simp]:
  "hp (lift_exec L s) = hp s" "usr (lift_exec L s) = L (usr s)" "pos (lift_exec L s) = pos s"
  "p_state (lift_exec L s) = p_state s" "marks (lift_exec L s) = marks s"
  by (simp_all add: lift_exec_def)

lemma lift_upd [simp]:
  "(lift_exec L s)\<lparr>hp := pr\<rparr> = lift_exec L (s\<lparr>hp := pr\<rparr>)" "(lift_exec L s)\<lparr>pos := n\<rparr> = lift_exec L (s\<lparr>pos := n\<rparr>)"
  "(lift_exec L s)\<lparr>p_state := st\<rparr> = lift_exec L (s\<lparr>p_state := st\<rparr>)" "(lift_exec L s)\<lparr>marks := ms\<rparr> = lift_exec L (s\<lparr>marks := ms\<rparr>)"
  "(lift_exec L s)\<lparr>usr := L u\<rparr> = lift_exec L (s\<lparr>usr := u\<rparr>)"
  by (simp_all add: lift_exec_def)

lemma lift_prims [simp]:
  "SET_ERRNO e (lift_exec L s) = lift_exec L (SET_ERRNO e s)"
  "error e (lift_exec L s) = lift_ctl L (error e s)"
  "UPDATE_STATE v (lift_exec L s) = lift_exec L (UPDATE_STATE v s)"
  "on_hp g (lift_exec L s) = lift_exec L (on_hp g s)"
  "MARK f (lift_exec L s) = lift_exec L (MARK f s)"
  "take_body data (lift_exec L s) = lift_exec L (take_body data s)"
  "new_message (lift_exec L s) = lift_exec L (new_message s)"
  by (simp_all add: SET_ERRNO_def error_def UPDATE_STATE_def on_hp_def MARK_def take_body_def Let_def new_message_def)

lemma lift_check:
  "k' = lift_ctl L k \<Longrightarrow> STRICT_CHECK b (lift_exec L s) k' = lift_ctl L (STRICT_CHECK b s k)"
  by (simp add: STRICT_CHECK_def)

lemma lift_count:
  "(\<And>s. k' (lift_exec L s) = lift_ctl L (k s)) \<Longrightarrow>
     COUNT_HEADER_SIZE v (lift_exec L s) k' = lift_ctl L (COUNT_HEADER_SIZE v s k)"
  by (simp add: COUNT_HEADER_SIZE_def Let_def)

lemma lift_after [simp]:
  "after_callback e pr (lift_result L r) (lift_exec L s) = lift_exec L (after_callback e pr r s)"
  by (cases r) (simp add: after_callback_def lift_result_def Let_def lift_exec_def)

lemma lift_notify:
  assumes "represents L S T" "\<And>s. k' (lift_exec L s) = lift_ctl L (k s)"
  shows "CALLBACK_NOTIFY_ER T f er (lift_exec L s) k' = lift_ctl L (CALLBACK_NOTIFY_ER S f er s k)"
proof -
  have "rel_option (\<lambda>cb cb'. \<forall>pr u. cb' pr (L u) = lift_result L (cb pr u)) (on_notify S f) (on_notify T f)"
    using assms(1) by (simp add: represents_def)
  then show ?thesis
    using assms(2) by (cases rule: option.rel_cases) (auto simp: CALLBACK_NOTIFY_ER_def Let_def)
qed

lemma lift_data:
  assumes "represents L S T" "\<And>s. k' (lift_exec L s) = lift_ctl L (k s)"
  shows "CALLBACK_DATA_ER T data f stop er (lift_exec L s) k' = lift_ctl L (CALLBACK_DATA_ER S data f stop er s k)"
proof -
  have "rel_option (\<lambda>cb cb'. \<forall>pr at u. cb' pr at (L u) = lift_result L (cb pr at u)) (on_data S f) (on_data T f)"
    using assms(1) by (simp add: represents_def)
  then show ?thesis
    using assms(2) by (cases rule: option.rel_cases) (auto simp: CALLBACK_DATA_ER_def Let_def split: option.split)
qed

lemma lift_headers_complete:
  assumes "represents L S T" "\<And>s. k' (lift_exec L s) = lift_ctl L (k s)"
  shows "call_headers_complete T (lift_exec L s) k' = lift_ctl L (call_headers_complete S s k)"
proof -
  have "rel_option (\<lambda>cb cb'. \<forall>pr u. cb' pr (L u) = lift_result L (cb pr u)) (on_notify S headers_complete) (on_notify T headers_complete)"
    using assms(1) by (simp add: represents_def)
  then show ?thesis
  proof (cases rule: option.rel_cases)
    case (Some cb cb')
    obtain ret paused u where r: "cb (hp s) (usr s) = (ret, paused, u)"
      by (cases "cb (hp s) (usr s)")
    have "cb' (hp s) (L (usr s)) = (ret, paused, L u)"
      using Some(3) r by (simp add: lift_result_def)
    then show ?thesis
      using Some r assms(2) by (simp add: call_headers_complete_def Let_def)
  qed (use assms(2) in \<open>simp add: call_headers_complete_def\<close>)
qed

section \<open>The switch and the loop\<close>

lemmas lift_calls = lift_notify lift_data lift_headers_complete

lemmas callback_macros = CALLBACK_NOTIFY_def CALLBACK_NOTIFY_NOADVANCE_def CALLBACK_DATA_def CALLBACK_DATA_NOADVANCE_def

lemma lift_plain [simp]:
  "exec_dead ch (lift_exec L s) = lift_ctl L (exec_dead ch s)"
  "exec_res_or_resp_H ch (lift_exec L s) = lift_ctl L (exec_res_or_resp_H ch s)"
  "exec_expect want next ch (lift_exec L s) = lift_ctl L (exec_expect want next ch s)"
  "exec_first_major b next ch (lift_exec L s) = lift_ctl L (exec_first_major b next ch s)"
  "exec_major next ch (lift_exec L s) = lift_ctl L (exec_major next ch s)"
  "exec_first_minor next ch (lift_exec L s) = lift_ctl L (exec_first_minor next ch s)"
  "exec_minor_digit ch (lift_exec L s) = lift_ctl L (exec_minor_digit ch s)"
  "exec_res_first_status_code ch (lift_exec L s) = lift_ctl L (exec_res_first_status_code ch s)"
  "exec_res_status_code ch (lift_exec L s) = lift_ctl L (exec_res_status_code ch s)"
  "exec_res_status_start ch (lift_exec L s) = lift_ctl L (exec_res_status_start ch s)"
  "exec_req_method ch (lift_exec L s) = lift_ctl L (exec_req_method ch s)"
  "exec_url_char ch (lift_exec L s) = lift_ctl L (exec_url_char ch s)"
  "exec_req_http_start ch (lift_exec L s) = lift_ctl L (exec_req_http_start ch s)"
  "exec_req_line_almost_done ch (lift_exec L s) = lift_ctl L (exec_req_line_almost_done ch s)"
  "exec_header_field_start ch (lift_exec L s) = lift_ctl L (exec_header_field_start ch s)"
  "exec_header_value_start ch (lift_exec L s) = lift_ctl L (exec_header_value_start ch s)"
  "exec_header_almost_done ch (lift_exec L s) = lift_ctl L (exec_header_almost_done ch s)"
  "exec_header_value_lws ch (lift_exec L s) = lift_ctl L (exec_header_value_lws ch s)"
  "exec_body_identity_eof data (lift_exec L s) = lift_ctl L (exec_body_identity_eof data s)"
  "exec_chunk_size_start ch (lift_exec L s) = lift_ctl L (exec_chunk_size_start ch s)"
  "exec_chunk_size ch (lift_exec L s) = lift_ctl L (exec_chunk_size ch s)"
  "exec_chunk_parameters ch (lift_exec L s) = lift_ctl L (exec_chunk_parameters ch s)"
  "exec_chunk_data data (lift_exec L s) = lift_ctl L (exec_chunk_data data s)"
  by (simp_all add: exec_dead_def exec_res_or_resp_H_def exec_expect_def lift_check exec_first_major_def exec_major_def
      exec_first_minor_def exec_minor_digit_def exec_res_first_status_code_def exec_res_status_code_def
      exec_res_status_start_def exec_req_method_def exec_url_char_def exec_req_http_start_def exec_req_line_almost_done_def
      exec_header_field_start_def exec_header_value_start_def exec_header_almost_done_def exec_header_value_lws_def
      exec_body_identity_eof_def exec_chunk_size_start_def exec_chunk_size_def exec_chunk_parameters_def exec_chunk_data_def
      Let_def split: option.split header_states.split)

lemma lift_plain_more [simp]:
  "exec_res_http_minor ch (lift_exec L s) = lift_ctl L (exec_res_http_minor ch s)"
  "exec_req_spaces_before_url ch (lift_exec L s) = lift_ctl L (exec_req_spaces_before_url ch s)"
  "exec_req_schema ch (lift_exec L s) = lift_ctl L (exec_req_schema ch s)"
  "exec_req_http_minor ch (lift_exec L s) = lift_ctl L (exec_req_http_minor ch s)"
  "exec_header_value_discard_ws ch (lift_exec L s) = lift_ctl L (exec_header_value_discard_ws ch s)"
  by (simp_all add: exec_res_http_minor_def exec_req_spaces_before_url_def exec_req_schema_def exec_req_http_minor_def
      exec_header_value_discard_ws_def Let_def)

lemma lift_callbacks:
  assumes "represents L S T"
  shows "exec_start_req_or_res T ch (lift_exec L s) = lift_ctl L (exec_start_req_or_res S ch s)"
    "exec_start_res T ch (lift_exec L s) = lift_ctl L (exec_start_res S ch s)"
    "exec_res_status T data ch (lift_exec L s) = lift_ctl L (exec_res_status S data ch s)"
    "exec_start_req T ch (lift_exec L s) = lift_ctl L (exec_start_req S ch s)"
    "exec_req_url T data ch (lift_exec L s) = lift_ctl L (exec_req_url S data ch s)"
    "exec_header_value_discard_lws T data ch (lift_exec L s) = lift_ctl L (exec_header_value_discard_lws S data ch s)"
    "exec_headers_almost_done T ch (lift_exec L s) = lift_ctl L (exec_headers_almost_done S ch s)"
    "exec_headers_done T ch (lift_exec L s) = lift_ctl L (exec_headers_done S ch s)"
    "exec_body_identity T data (lift_exec L s) = lift_ctl L (exec_body_identity S data s)"
    "exec_message_done T (lift_exec L s) = lift_ctl L (exec_message_done S s)"
    "exec_chunk_size_almost_done T ch (lift_exec L s) = lift_ctl L (exec_chunk_size_almost_done S ch s)"
    "exec_chunk_data_almost_done T data ch (lift_exec L s) = lift_ctl L (exec_chunk_data_almost_done S data ch s)"
    "exec_chunk_data_done T ch (lift_exec L s) = lift_ctl L (exec_chunk_data_done S ch s)"
  by (simp_all add: exec_start_req_or_res_def exec_start_res_def exec_res_status_def exec_start_req_def exec_req_url_def
      exec_header_value_discard_lws_def exec_headers_almost_done_def exec_headers_done_def exec_body_identity_def
      exec_message_done_def exec_chunk_size_almost_done_def exec_chunk_data_almost_done_def exec_chunk_data_done_def
      callback_macros Let_def lift_calls [OF assms] lift_check split: option.split)

lemma lift_header_field:
  assumes "represents L S T"
  shows "exec_header_field T data (lift_exec L s) = lift_ctl L (exec_header_field S data s)"
  by (auto simp: exec_header_field_def callback_macros intro!: lift_count lift_calls [OF assms] split: scan.split prod.split)

lemma lift_header_value:
  assumes "represents L S T"
  shows "exec_header_value T data (lift_exec L s) = lift_ctl L (exec_header_value S data s)"
  by (auto simp: exec_header_value_def callback_macros intro!: lift_count lift_calls [OF assms] split: scan.split prod.split value_end.split)

lemma lift_dispatch:
  assumes "represents L S T"
  shows "dispatch T data (lift_exec L s) = lift_ctl L (dispatch S data s)"
  by (cases "p_state s")
    (simp_all add: dispatch_def Let_def lift_callbacks [OF assms] lift_header_field [OF assms] lift_header_value [OF assms])

lemma lift_reexecute:
  assumes "represents L S T"
  shows "reexecute T data (lift_exec L s) = lift_ctl L (reexecute S data s)"
  using assms
proof (induction S data s rule: reexecute.induct)
  case (1 S data s)
  show ?case
  proof (cases "pos s < length data")
    case True
    then show ?thesis
      using "1.IH" [OF True] "1.prems"
      by (cases "dispatch S data s")
        (simp_all add: reexecute.simps [of S data s] reexecute.simps [of T data "lift_exec L s"] lift_dispatch)
  qed (simp add: reexecute.simps)
qed

lemma lift_byte:
  assumes "represents L S T"
  shows "exec_byte T data (lift_exec L s) = lift_ctl L (exec_byte S data s)"
  by (simp add: exec_byte_def lift_count lift_reexecute [OF assms])

lemma lift_loop:
  assumes "represents L S T"
  shows "exec_loop T data (lift_exec L s) = lift_ctl L (exec_loop S data s)"
  using assms
proof (induction S data s rule: exec_loop.induct)
  case (1 S data s)
  show ?case
  proof (cases "pos s < length data")
    case True
    then show ?thesis
      using "1.IH" [OF True] "1.prems"
      by (cases "exec_byte S data s")
        (simp_all add: exec_loop.simps [of S data s] exec_loop.simps [of T data "lift_exec L s"] lift_byte)
  qed (simp add: exec_loop.simps)
qed

section \<open>The function\<close>

definition lift_out :: "('u \<Rightarrow> 'v) \<Rightarrow> http_parser \<times> 'u \<times> nat \<Rightarrow> http_parser \<times> 'v \<times> nat" where
  "lift_out L r = (case r of (pr, u, n) \<Rightarrow> (pr, L u, n))"

lemma lift_leave: "leave_ctl (lift_ctl L r) = map_option (lift_out L) (leave_ctl r)"
  by (cases r) (simp_all add: leave_ctl_def leave_error_def leave_def lift_out_def)

lemma lift_leftover:
  assumes "represents L S T"
  shows "leftover T data (lift_exec L s) = lift_ctl L (leftover S data s)"
  by (simp add: leftover_def callback_macros lift_calls [OF assms])

lemma lift_eof:
  assumes "represents L S T"
  shows "execute_eof T pr (L u) = map_option (lift_out L) (execute_eof S pr u)"
proof -
  let ?s = "\<lparr>hp = pr, usr = u, pos = 0, p_state = hstate pr, marks = (\<lambda>_. None)\<rparr>"
  have s: "\<lparr>hp = pr, usr = L u, pos = 0, p_state = hstate pr, marks = (\<lambda>_. None)\<rparr> = lift_exec L ?s"
    by (simp add: lift_exec_def)
  have "leave_ctl (CALLBACK_NOTIFY_NOADVANCE T message_complete (lift_exec L ?s) (\<lambda>s. Return s 0)) =
      map_option (lift_out L) (leave_ctl (CALLBACK_NOTIFY_NOADVANCE S message_complete ?s (\<lambda>s. Return s 0)))"
    unfolding lift_leave [symmetric] callback_macros by (subst lift_notify [OF assms]) simp_all
  then show ?thesis
    unfolding execute_eof_def s by (cases "hstate pr") (simp_all add: lift_out_def)
qed

text \<open>\<open>http_parser_execute\<close> does not look at the data of the application.\<close>

lemma lift_execute:
  assumes "represents L S T"
  shows "http_parser_execute T data pr (L u) = map_option (lift_out L) (http_parser_execute S data pr u)"
proof -
  let ?s = "\<lparr>hp = pr, usr = u, pos = 0, p_state = hstate pr, marks = initial_marks (hstate pr)\<rparr>"
  have s: "\<lparr>hp = pr, usr = L u, pos = 0, p_state = hstate pr, marks = initial_marks (hstate pr)\<rparr> = lift_exec L ?s"
    by (simp add: lift_exec_def)
  have "leave_ctl (case exec_loop T data (lift_exec L ?s) of Break s' \<Rightarrow> leftover T data s' | r \<Rightarrow> r) =
      map_option (lift_out L) (leave_ctl (case exec_loop S data ?s of Break s' \<Rightarrow> leftover S data s' | r \<Rightarrow> r))"
    unfolding lift_loop [OF assms] lift_leave [symmetric]
    by (cases "exec_loop S data ?s") (simp_all add: lift_leftover [OF assms])
  then show ?thesis
    by (simp add: http_parser_execute_def s lift_eof [OF assms] Let_def lift_out_def)
qed

text \<open>Callbacks that do not throw: the flag stays as it is.\<close>

lemma execute_never_throws:
  assumes "\<And>f pr u. \<not> throws f pr u"
  shows "http_parser_execute (watch_throws throws S) data pr (b, u) =
    map_option (\<lambda>(pr, u, n). (pr, (b, u), n)) (http_parser_execute S data pr u)"
proof -
  have "represents (Pair b) S (watch_throws throws S)"
    using assms by (auto simp: represents_def watch_throws_def lift_result_def option.rel_map intro: option.rel_refl_strong split: prod.split)
  from lift_execute [OF this, of data pr u] show ?thesis
    by (simp add: lift_out_def [abs_def])
qed

end
