(* ===== verification/Url_Codec.thy ===== *)
theory Url_Codec
  imports Co_Prelude
begin

text \<open>
  The percent-encoding of \<open>base/UrlCodec.cpp\<close>. Strings are lists of bytes. The index loop of
  \<open>UrlDecode\<close> is a recursion on the bytes not read yet.

  Also here: the interface \<open>codec\<close> of an encoder with its decoder, which the
  percent-encoding and the Base64 code (theory \<open>Base64\<close>) both provide.
\<close>

section \<open>Codecs\<close>

text \<open>
  An encoder and a decoder that may refuse its input; the decoder undoes the encoder on the
  inputs that the encoder accepts.
\<close>

locale codec =
  fixes encodable :: "bytes \<Rightarrow> bool"
    and enc :: "bytes \<Rightarrow> bytes"
    and dec :: "bytes \<Rightarrow> bytes option"
  assumes dec_enc: "encodable s \<Longrightarrow> dec (enc s) = Some s"
begin

lemma enc_inject:
  assumes "encodable s" "encodable t"
  shows "enc s = enc t \<longleftrightarrow> s = t"
  using dec_enc [OF assms(1)] dec_enc [OF assms(2)] by (metis option.inject)

lemma enc_inj_on: "inj_on enc {s. encodable s}"
  by (rule inj_onI) (simp add: enc_inject)

lemma dec_image: "dec ` enc ` {s. encodable s} = Some ` {s. encodable s}"
  by (force simp: dec_enc image_image)

end

section \<open>The code\<close>

definition ToHex :: "u8 \<Rightarrow> u8" where
  "ToHex x = (if x > 9 then x + 55 else x + 48)"

text \<open>The character constants are \<open>'A' = 65\<close>, \<open>'Z' = 90\<close>, \<open>'a' = 97\<close>, \<open>'z' = 122\<close>, \<open>'0' = 48\<close>, \<open>'9' = 57\<close>.\<close>

definition FromHex :: "u8 \<Rightarrow> u8" where
  "FromHex x =
     (if 65 \<le> x \<and> x \<le> 90 then x - 65 + 10
      else if 97 \<le> x \<and> x \<le> 122 then x - 97 + 10
      else if 48 \<le> x \<and> x \<le> 57 then x - 48
      else 0)"

definition isalnum :: "u8 \<Rightarrow> bool" where
  "isalnum x \<longleftrightarrow> 65 \<le> x \<and> x \<le> 90 \<or> 97 \<le> x \<and> x \<le> 122 \<or> 48 \<le> x \<and> x \<le> 57"

text \<open>\<open>'-' = 45\<close>, \<open>'_' = 95\<close>, \<open>'.' = 46\<close>, \<open>'~' = 126\<close>, \<open>' ' = 32\<close>, \<open>'+' = 43\<close>, \<open>'%' = 37\<close>.\<close>

definition unreserved :: "u8 \<Rightarrow> bool" where
  "unreserved x \<longleftrightarrow> isalnum x \<or> x = 45 \<or> x = 95 \<or> x = 46 \<or> x = 126"

fun UrlEncode :: "bytes \<Rightarrow> bytes" where
  "UrlEncode [] = []"
| "UrlEncode (c # str) =
     (if unreserved c then c # UrlEncode str
      else if c = 32 then 43 # UrlEncode str
      else 37 # ToHex (drop_bit 4 c) # ToHex (c mod 16) # UrlEncode str)"

text \<open>
  \<open>i + 2 >= str.size()\<close> holds when fewer than two bytes follow the percent sign, which is then
  dropped. \<open>high * 16 + low\<close> is an \<open>int\<close> that is truncated to a \<open>char\<close>: the
  arithmetic of bytes.
\<close>

fun UrlDecode :: "bytes \<Rightarrow> bytes" where
  "UrlDecode [] = []"
| "UrlDecode (c # str) =
     (if c = 43 then 32 # UrlDecode str
      else if c = 37 then
        (case str of
           high # low # rest \<Rightarrow>
             (FromHex high * 16 + FromHex low) # UrlDecode rest
         | _ \<Rightarrow> UrlDecode str)
      else c # UrlDecode str)"

section \<open>Properties\<close>

definition nibbles :: "u8 list" where
  "nibbles = map of_nat [0..<16]"

lemma nibble_in: "x < 16 \<Longrightarrow> x \<in> set nibbles"
proof -
  assume "x < 16"
  then have "unat x \<in> set [0..<16]"
    by (simp add: word_less_nat_alt)
  then show "x \<in> set nibbles"
    unfolding nibbles_def set_map by (rule rev_image_eqI) simp
qed

lemma nibbles_ok: "\<forall>x \<in> set nibbles. FromHex (ToHex x) = x \<and> isalnum (ToHex x)"
  by code_simp

lemma FromHex_ToHex [simp]: "x < 16 \<Longrightarrow> FromHex (ToHex x) = x"
  using nibbles_ok nibble_in by blast

lemma ToHex_digit: "x < 16 \<Longrightarrow> isalnum (ToHex x)"
  using nibbles_ok nibble_in by blast

lemma nibbles_lt:
  fixes c :: u8
  shows "drop_bit 4 c < 16" "c mod 16 < 16"
proof -
  have "uint c < 256"
    using uint_bounded [of c] by simp
  then show "drop_bit 4 c < 16"
    by (simp add: word_less_def drop_bit_eq_div uint_div_distrib)
  show "c mod 16 < 16"
    by (simp add: word_less_def uint_mod_distrib)
qed

lemma hex_digits [simp]: "FromHex (ToHex (drop_bit 4 c)) * 16 + FromHex (ToHex (c mod 16)) = c"
  for c :: u8
  using div_mult_mod_eq [of c 16] by (simp add: nibbles_lt drop_bit_eq_div nibbles_lt(1) [unfolded drop_bit_eq_div, simplified])

lemma unreserved_plain [simp]: "unreserved c \<Longrightarrow> c \<noteq> 43 \<and> c \<noteq> 37"
  by (auto simp: unreserved_def isalnum_def)

lemma UrlDecode_UrlEncode_append: "UrlDecode (UrlEncode s @ t) = s @ UrlDecode t"
  by (induction s) auto

interpretation url: codec "\<lambda>_. True" UrlEncode "\<lambda>s. Some (UrlDecode s)"
  by unfold_locales (use UrlDecode_UrlEncode_append [of _ "[]"] in simp)

text \<open>
  C23: Decoding what \<open>UrlEncode\<close> wrote gives the string back, for every byte string, also when
  it is followed by other text (which is decoded on its own); hence no two strings have the
  same encoding.
\<close>

theorem url_roundtrip:
  "UrlDecode (UrlEncode s @ t) = s @ UrlDecode t \<and> (UrlEncode s = UrlEncode s' \<longleftrightarrow> s = s')"
  using UrlDecode_UrlEncode_append url.enc_inject [of s s'] by simp

lemma UrlEncode_alphabet: "x \<in> set (UrlEncode s) \<Longrightarrow> unreserved x \<or> x = 43 \<or> x = 37"
  by (induction s) (auto simp: unreserved_def ToHex_digit nibbles_lt split: if_splits)

lemma UrlEncode_length: "length s \<le> length (UrlEncode s) \<and> length (UrlEncode s) \<le> 3 * length s"
  by (induction s) auto

lemma url_char_plain:
  assumes "unreserved x \<or> x = 43 \<or> x = 37"
  shows "x \<notin> {38, 61, 63, 47, 35} \<and> 32 < x \<and> x < 127"
  using assms by (auto simp: unreserved_def isalnum_def word_less_nat_alt word_le_nat_alt)

text \<open>
  The encoding uses only unreserved characters, \<open>+\<close> and \<open>%\<close>, so it holds none of the
  characters that structure a URL (\<open>&\<close>, \<open>=\<close>, \<open>?\<close>, \<open>/\<close>, \<open>#\<close>), control characters or bytes above
  126; it is at most three times as long as the string.
\<close>

theorem UrlEncode_safe:
  "set (UrlEncode s) \<subseteq> {x. (unreserved x \<or> x = 43 \<or> x = 37) \<and> x \<notin> {38, 61, 63, 47, 35} \<and> 32 < x \<and> x < 127} \<and>
   length s \<le> length (UrlEncode s) \<and> length (UrlEncode s) \<le> 3 * length s"
  using UrlEncode_alphabet url_char_plain UrlEncode_length by auto

text \<open>On text no encoder wrote the result of decoding is never longer than the input.\<close>

lemma UrlDecode_length: "length (UrlDecode s) \<le> length s"
  by (induction s rule: UrlDecode.induct) (fastforce split: list.splits intro: le_SucI)+

end
