(* ===== verification/Std_Map.thy ===== *)
theory Std_Map
  imports Co_Prelude "HOL-Library.List_Lexorder"
begin

text \<open>
  \<open>std::map\<close> with strings as keys: pairs in the order of the keys, which is the order the encoder
  prints them in. Bytes compare as unsigned numbers, strings lexicographically.
\<close>

type_synonym 'v std_map = "(bytes \<times> 'v) list"

fun map_set :: "bytes \<Rightarrow> 'v \<Rightarrow> 'v std_map \<Rightarrow> 'v std_map" where
  "map_set k v [] = [(k, v)]"
| "map_set k v ((k', v') # m) =
     (if k < k' then (k, v) # (k', v') # m
      else if k = k' then (k, v) # m
      else (k', v') # map_set k v m)"

definition map_find :: "bytes \<Rightarrow> 'v std_map \<Rightarrow> 'v option" where
  "map_find k m = map_of m k"

definition map_ok :: "'v std_map \<Rightarrow> bool" where
  "map_ok m \<longleftrightarrow> sorted_wrt (<) (map fst m)"

text \<open>The interface: what a client may rely on, whatever the representation.\<close>

locale dictionary =
  fixes empty :: "'m" and set_at :: "'k \<Rightarrow> 'v \<Rightarrow> 'm \<Rightarrow> 'm" and find :: "'k \<Rightarrow> 'm \<Rightarrow> 'v option" and ok :: "'m \<Rightarrow> bool"
  assumes ok_empty: "ok empty" and ok_set: "ok m \<Longrightarrow> ok (set_at k v m)"
    and find_empty: "find k empty = None"
    and find_set: "ok m \<Longrightarrow> find k (set_at k' v m) = (if k = k' then Some v else find k m)"
begin

definition set_all :: "('k \<times> 'v) list \<Rightarrow> 'm \<Rightarrow> 'm" where
  "set_all kvs m = fold (\<lambda>(k, v). set_at k v) kvs m"

lemma set_all_simps [simp]: "set_all [] m = m" "set_all ((k, v) # kvs) m = set_all kvs (set_at k v m)"
  by (simp_all add: set_all_def)

lemma ok_set_all: "ok m \<Longrightarrow> ok (set_all kvs m)"
  by (induction kvs arbitrary: m) (auto simp: ok_set)

text \<open>After a series of settings each key has the last value it was given.\<close>

lemma find_set_all:
  "ok m \<Longrightarrow> find k (set_all kvs m) = (case map_of (rev kvs) k of Some v \<Rightarrow> Some v | None \<Rightarrow> find k m)"
  by (induction kvs arbitrary: m) (auto simp: find_set ok_set map_add_def split: option.splits)

end

lemma map_set_keys: "fst ` set (map_set k v m) = insert k (fst ` set m)"
proof (induction m)
  case (Cons x m)
  then show ?case
    by (cases x) (simp add: insert_commute)
qed simp

lemma map_ok_set: "map_ok m \<Longrightarrow> map_ok (map_set k v m)"
proof (induction m)
  case (Cons x m)
  obtain k' v' where x: "x = (k', v')" by (cases x)
  have "map_ok m" "\<forall>y \<in> fst ` set m. k' < y"
    using Cons.prems x by (auto simp: map_ok_def)
  moreover have "y = k \<or> y \<in> fst ` set m" if "y \<in> fst ` set (map_set k v m)" for y
    using that map_set_keys [of k v m] by auto
  ultimately show ?case
    using Cons x by (fastforce simp: map_ok_def)
qed (simp add: map_ok_def)

lemma map_find_set: "map_find k (map_set k' v m) = (if k = k' then Some v else map_find k m)"
  by (induction m) (auto simp: map_find_def)

interpretation std: dictionary "[]" map_set map_find map_ok
  by unfold_locales (simp_all add: map_ok_set map_find_set, simp_all add: map_ok_def map_find_def)

text \<open>Two maps with the same entries are the same.\<close>

lemma map_ok_distinct: "map_ok m \<Longrightarrow> distinct (map fst m)"
  by (simp add: map_ok_def strict_sorted_iff)

lemma map_ok_entries: "map_ok m \<Longrightarrow> m = map (\<lambda>k. (k, the (map_find k m))) (map fst m)"
  unfolding map_map map_find_def
  by (rule map_idI [symmetric]) (auto dest: map_ok_distinct simp: map_of_is_SomeI)

lemma map_ok_unique:
  assumes "map_ok m" "map_ok m'" "\<And>k. map_find k m = map_find k m'"
  shows "m = m'"
proof -
  have "fst ` set m = fst ` set m'"
    using assms(3) unfolding map_find_def by (metis dom_map_of_conv_image_fst ext)
  then have "map fst m = map fst m'"
    using assms(1,2) strict_sorted_equal [of "map fst m" "map fst m'"] by (simp add: map_ok_def)
  then show ?thesis
    using map_ok_entries [OF assms(1)] map_ok_entries [OF assms(2)] assms(3) by simp
qed

end
