(* ===== verification/Http_Message.thy ===== *)
theory Http_Message
  imports Http_Safety Http_Watch Url_Codec Std_Map
begin

text \<open>
  \<open>net/http/HttpParser.cpp\<close>: the class that collects what the streaming parser finds. Its callbacks
  work on the record \<open>http_msg\<close>, the members of the class; together with the streaming parser it is
  an \<open>HttpParser\<close>. The class does not look at the number of bytes that were read. \<open>std::string::substr\<close>
  throws for an offset behind the end of the string: that is the value \<open>None\<close> of the functions that cut
  the URL, and it passes through the streaming parser to the caller of \<open>HttpParser_Parse\<close>.
\<close>

section \<open>State\<close>

datatype HeaderState = HeaderState_None | HeaderState_HasName | HeaderState_HasVaule | HeaderState_HasAll

text \<open>The values 0, 1, 16 and 17 are combined by a bitwise or.\<close>

fun or_state :: "HeaderState \<Rightarrow> HeaderState \<Rightarrow> HeaderState" where
  "or_state HeaderState_None y = y"
| "or_state x HeaderState_None = x"
| "or_state x y = (if x = y then x else HeaderState_HasAll)"

record http_msg =
  m_url :: bytes
  m_urlAndParams :: bytes
  m_status :: nat
  m_method :: bytes
  m_headerState :: HeaderState
  m_headerName :: bytes
  m_headerValue :: bytes
  m_headers :: "bytes std_map"
  m_parameters :: "bytes std_map"
  m_body :: bytes
  m_complete :: bool

record HttpParser =
  m_msg :: http_msg
  m_httpParser :: http_parser

section \<open>URL and parameters\<close>

text \<open>\<open>std::string::find\<close> from an offset on, and the part of a string before a character.\<close>

definition str_find :: "u8 \<Rightarrow> bytes \<Rightarrow> nat \<Rightarrow> nat option" where
  "str_find c s offset =
     (let i = length (takeWhile (\<lambda>x. x \<noteq> c) (drop offset s)) in
      if offset + i < length s then Some (offset + i) else None)"

text \<open>\<open>std::string::substr\<close>: \<open>None\<close> is the exception \<open>std::out_of_range\<close>.\<close>

definition substr :: "bytes \<Rightarrow> nat \<Rightarrow> nat \<Rightarrow> bytes option" where
  "substr s offset n = (if offset > length s then None else Some (take n (drop offset s)))"

definition GetStringBefore :: "u8 \<Rightarrow> bytes \<Rightarrow> nat \<Rightarrow> bytes option" where
  "GetStringBefore flag s offset =
     (case str_find flag s offset of
        None \<Rightarrow> substr s offset (length s)
      | Some p \<Rightarrow> substr s offset (p - offset))"

function params_loop :: "bytes \<Rightarrow> nat \<Rightarrow> bytes std_map \<Rightarrow> bytes std_map option" where
  "params_loop s offset params =
     (if offset < length s then
        case GetStringBefore (ascii CHR ''='') s offset of
          None \<Rightarrow> None
        | Some key \<Rightarrow>
            let offset1 = offset + length key + 1 in
            case (if offset1 < length s
                  then map_option (\<lambda>w. (w, offset1 + length w + 1)) (GetStringBefore (ascii CHR ''&'') s offset1)
                  else Some ([], offset1)) of
              None \<Rightarrow> None
            | Some (v, offset2) \<Rightarrow>
                params_loop s offset2
                  (if key \<noteq> [] then map_set key v params
                   else if v \<noteq> [] then map_set v [] params
                   else params)
      else Some params)"
  by auto
termination
  by (relation "measure (\<lambda>(s, offset, _). length s - offset)") (auto split: if_splits simp: Let_def)

declare params_loop.simps [simp del]

definition ParseUrlAndParam :: "http_msg \<Rightarrow> http_msg option" where
  "ParseUrlAndParam m =
     (let s = UrlDecode (m_urlAndParams m) in
      case GetStringBefore (ascii CHR ''?'') s 0 of
        None \<Rightarrow> None
      | Some u \<Rightarrow>
          map_option (\<lambda>ps. m\<lparr>m_urlAndParams := s, m_url := u, m_parameters := ps\<rparr>)
            (params_loop s (length u + 1) (m_parameters m)))"

text \<open>
  The offsets never get behind the end of the string: the loop asks before each of its searches.
\<close>

lemma str_find_rest:
  assumes "str_find c s p = None"
  shows "takeWhile (\<lambda>x. x \<noteq> c) (drop p s) = drop p s"
proof -
  have "\<not> p + length (takeWhile (\<lambda>x. x \<noteq> c) (drop p s)) < length s"
    using assms by (auto simp: str_find_def Let_def split: if_splits)
  then have "length (drop p s) \<le> length (takeWhile (\<lambda>x. x \<noteq> c) (drop p s))"
    by simp
  then show ?thesis
    by (metis append_Nil2 append_eq_conv_conj take_all takeWhile_dropWhile_id)
qed

lemma GetStringBefore_takeWhile:
  "GetStringBefore c s p = (if p \<le> length s then Some (takeWhile (\<lambda>x. x \<noteq> c) (drop p s)) else None)"
proof (cases "str_find c s p")
  case None
  then show ?thesis
    unfolding GetStringBefore_def substr_def str_find_rest [OF None] by (simp add: None)
next
  case (Some q)
  then have "q = p + length (takeWhile (\<lambda>x. x \<noteq> c) (drop p s))"
    by (auto simp: str_find_def Let_def split: if_splits)
  then show ?thesis
    using Some by (simp add: GetStringBefore_def substr_def takeWhile_eq_take [symmetric])
qed

lemma params_loop_ok: "\<exists>ps'. params_loop s offset ps = Some ps'"
proof (induction s offset ps rule: params_loop.induct)
  case (1 s offset ps)
  show ?case
  proof (cases "offset < length s")
    case True
    then obtain key where key: "GetStringBefore (ascii CHR ''='') s offset = Some key"
      by (simp add: GetStringBefore_takeWhile)
    let ?o = "offset + length key + 1"
    obtain v o2 where v: "(if ?o < length s
        then map_option (\<lambda>w. (w, ?o + length w + 1)) (GetStringBefore (ascii CHR ''&'') s ?o) else Some ([], ?o)) = Some (v, o2)"
      by (cases "?o < length s") (auto simp: GetStringBefore_takeWhile)
    show ?thesis
      using "1" [OF True key refl v refl] by (simp only: params_loop.simps [of s offset ps] key v True if_True option.case prod.case Let_def)
  qed (simp add: params_loop.simps)
qed

lemma ParseUrlAndParam_ok:
  obtains s u ps where "ParseUrlAndParam m = Some (m\<lparr>m_urlAndParams := s, m_url := u, m_parameters := ps\<rparr>)"
proof -
  let ?s = "UrlDecode (m_urlAndParams m)"
  obtain u where u: "GetStringBefore (ascii CHR ''?'') ?s 0 = Some u"
    by (simp add: GetStringBefore_takeWhile)
  obtain ps where "params_loop ?s (length u + 1) (m_parameters m) = Some ps"
    using params_loop_ok by blast
  then show ?thesis
    using that u by (simp add: ParseUrlAndParam_def Let_def)
qed

section \<open>Callbacks\<close>

definition OnUrl :: "http_msg http_data_cb" where
  "OnUrl pr at m = (0, False, if length at \<le> 0 then m else m\<lparr>m_urlAndParams := m_urlAndParams m @ at\<rparr>)"

definition store_header :: "http_msg \<Rightarrow> http_msg" where
  "store_header m =
     (if m_headerState m = HeaderState_HasAll
      then m\<lparr>m_headerState := HeaderState_None, m_headers := map_set (m_headerName m) (m_headerValue m) (m_headers m)\<rparr>
      else m)"

definition OnHeaderName :: "http_msg http_data_cb" where
  "OnHeaderName pr at m =
     (0, False,
      if length at \<le> 0 then m
      else store_header (m\<lparr>m_headerName := at, m_headerState := or_state (m_headerState m) HeaderState_HasName\<rparr>))"

definition OnHeaderValue :: "http_msg http_data_cb" where
  "OnHeaderValue pr at m =
     (0, False,
      if length at \<le> 0 then m
      else store_header (m\<lparr>m_headerValue := at, m_headerState := or_state (m_headerState m) HeaderState_HasVaule\<rparr>))"

definition OnBody :: "http_msg http_data_cb" where
  "OnBody pr at m = (0, False, if length at \<le> 0 then m else m\<lparr>m_body := m_body m @ at\<rparr>)"

text \<open>
  The callback for a complete message, and whether it is left by an exception; then the flag
  \<open>m_complete\<close> is not set.
\<close>

definition OnComplete_target :: "http_parser \<Rightarrow> http_msg \<Rightarrow> http_msg option" where
  "OnComplete_target pr m =
     ParseUrlAndParam (m\<lparr>m_method := http_method_str (hmethod pr), m_status := status_code pr\<rparr>)"

definition OnComplete :: "http_msg http_cb" where
  "OnComplete pr m =
     (0, False, case OnComplete_target pr m of Some m1 \<Rightarrow> m1\<lparr>m_complete := True\<rparr> | None \<Rightarrow> m)"

definition OnComplete_throws :: "http_parser \<Rightarrow> http_msg \<Rightarrow> bool" where
  "OnComplete_throws pr m \<longleftrightarrow> OnComplete_target pr m = None"

lemma OnComplete_returns: "\<not> OnComplete_throws pr m"
proof -
  obtain s u ps where "OnComplete_target pr m = Some (m\<lparr>m_method := http_method_str (hmethod pr), m_status := status_code pr,
      m_urlAndParams := s, m_url := u, m_parameters := ps\<rparr>)"
    unfolding OnComplete_target_def by (rule ParseUrlAndParam_ok) blast
  then show ?thesis
    by (simp add: OnComplete_throws_def)
qed

definition m_settings :: "http_msg http_parser_settings" where
  "m_settings =
     \<lparr>on_notify = (\<lambda>f. if f = message_complete then Some OnComplete else None),
      on_data = (\<lambda>f. case f of url \<Rightarrow> Some OnUrl | status \<Rightarrow> None | header_field \<Rightarrow> Some OnHeaderName
                    | header_value \<Rightarrow> Some OnHeaderValue | body \<Rightarrow> Some OnBody)\<rparr>"

section \<open>Operations\<close>

text \<open>The constructor leaves \<open>m_status\<close> undefined: it is an argument.\<close>

definition HttpParser_new :: "nat \<Rightarrow> HttpParser" where
  "HttpParser_new garbage =
     \<lparr>m_msg = \<lparr>m_url = [], m_urlAndParams = [], m_status = garbage, m_method = [], m_headerState = HeaderState_None,
        m_headerName = [], m_headerValue = [], m_headers = [], m_parameters = [], m_body = [], m_complete = False\<rparr>,
      m_httpParser = http_parser_init HTTP_BOTH\<rparr>"

text \<open>
  An exception in a callback ends \<open>http_parser_execute\<close> and \<open>Parse\<close>: the result is \<open>None\<close>, as it is
  when an assertion fails. What the streaming parser would have done after it does not matter.
\<close>

definition msg_throws :: "notify_cb \<Rightarrow> http_parser \<Rightarrow> http_msg \<Rightarrow> bool" where
  "msg_throws f pr m \<longleftrightarrow> f = message_complete \<and> OnComplete_throws pr m"

definition HttpParser_Parse :: "bytes \<Rightarrow> HttpParser \<Rightarrow> (bool \<times> HttpParser) option" where
  "HttpParser_Parse data h =
     (case http_parser_execute (watch_throws msg_throws m_settings) data (m_httpParser h) (False, m_msg h) of
        None \<Rightarrow> None
      | Some (pr, (thrown, m), n) \<Rightarrow>
          if thrown then None else Some (herrno pr = HPE_OK, \<lparr>m_msg = m, m_httpParser = pr\<rparr>))"

lemma HttpParser_Parse_eq:
  "HttpParser_Parse data h =
     (case http_parser_execute m_settings data (m_httpParser h) (m_msg h) of
        None \<Rightarrow> None
      | Some (pr, m, n) \<Rightarrow> Some (herrno pr = HPE_OK, \<lparr>m_msg = m, m_httpParser = pr\<rparr>))"
proof -
  have "\<not> msg_throws f pr m" for f pr m
    using OnComplete_returns by (simp add: msg_throws_def)
  then show ?thesis
    unfolding HttpParser_Parse_def by (subst execute_never_throws) (auto split: option.split)
qed

definition HttpParser_IsComplete :: "HttpParser \<Rightarrow> bool" where
  "HttpParser_IsComplete h = m_complete (m_msg h)"

definition HttpParser_Reset :: "HttpParser \<Rightarrow> HttpParser" where
  "HttpParser_Reset h =
     \<lparr>m_msg = (m_msg h)\<lparr>m_complete := False, m_headerState := HeaderState_None, m_url := [], m_urlAndParams := [],
        m_method := [], m_headerName := [], m_headerValue := [], m_headers := [], m_parameters := [], m_body := [],
        m_status := 0\<rparr>,
      m_httpParser = http_parser_init HTTP_BOTH\<rparr>"

definition GetHeader :: "bytes \<Rightarrow> HttpParser \<Rightarrow> bytes" where
  "GetHeader name h = (case map_find name (m_headers (m_msg h)) of Some v \<Rightarrow> takeWhile (\<lambda>c. c \<noteq> 0) v | None \<Rightarrow> [])"

definition GetParameter :: "bytes \<Rightarrow> HttpParser \<Rightarrow> bytes" where
  "GetParameter name h = (case map_find name (m_parameters (m_msg h)) of Some v \<Rightarrow> takeWhile (\<lambda>c. c \<noteq> 0) v | None \<Rightarrow> [])"

end
