(* ===== verification/Http_Bits.thy ===== *)
theory Http_Bits
  imports Http_Message
begin

text \<open>
  The numbers behind the names of \<open>3rd/http-parser/http_parser.c\<close>: its enumerations,
  the texts for errors and the version; and what \<open>net/http/HttpParser.cpp\<close> makes of them.
\<close>

section \<open>Enumerations\<close>

text \<open>The constants in the order in which the enumerations declare them.\<close>

definition all_states :: "state list" where
  "all_states =
     [s_dead, s_start_req_or_res, s_res_or_resp_H, s_start_res, s_res_H,
      s_res_HT, s_res_HTT, s_res_HTTP, s_res_first_http_major, s_res_http_major,
      s_res_first_http_minor, s_res_http_minor, s_res_first_status_code, s_res_status_code, s_res_status_start,
      s_res_status, s_res_line_almost_done, s_start_req, s_req_method, s_req_spaces_before_url,
      s_req_schema, s_req_schema_slash, s_req_schema_slash_slash, s_req_server_start, s_req_server,
      s_req_server_with_at, s_req_path, s_req_query_string_start, s_req_query_string, s_req_fragment_start,
      s_req_fragment, s_req_http_start, s_req_http_H, s_req_http_HT, s_req_http_HTT,
      s_req_http_HTTP, s_req_first_http_major, s_req_http_major, s_req_first_http_minor, s_req_http_minor,
      s_req_line_almost_done, s_header_field_start, s_header_field, s_header_value_discard_ws, s_header_value_discard_ws_almost_done,
      s_header_value_discard_lws, s_header_value_start, s_header_value, s_header_value_lws, s_header_almost_done,
      s_chunk_size_start, s_chunk_size, s_chunk_parameters, s_chunk_size_almost_done, s_headers_almost_done,
      s_headers_done, s_chunk_data, s_chunk_data_almost_done, s_chunk_data_done, s_body_identity,
      s_body_identity_eof, s_message_done]"

definition all_header_states :: "header_states list" where
  "all_header_states =
     [h_general, h_C, h_CO, h_CON, h_matching_connection,
      h_matching_proxy_connection, h_matching_content_length, h_matching_transfer_encoding, h_matching_upgrade, h_connection,
      h_content_length, h_transfer_encoding, h_upgrade, h_matching_transfer_encoding_chunked, h_matching_connection_token_start,
      h_matching_connection_keep_alive, h_matching_connection_close, h_matching_connection_upgrade, h_matching_connection_token, h_transfer_encoding_chunked,
      h_connection_keep_alive, h_connection_close, h_connection_upgrade]"

definition all_methods :: "http_method list" where
  "all_methods =
     [HTTP_DELETE, HTTP_GET, HTTP_HEAD, HTTP_POST, HTTP_PUT,
      HTTP_CONNECT, HTTP_OPTIONS, HTTP_TRACE, HTTP_COPY, HTTP_LOCK,
      HTTP_MKCOL, HTTP_MOVE, HTTP_PROPFIND, HTTP_PROPPATCH, HTTP_SEARCH,
      HTTP_UNLOCK, HTTP_BIND, HTTP_REBIND, HTTP_UNBIND, HTTP_ACL,
      HTTP_REPORT, HTTP_MKACTIVITY, HTTP_CHECKOUT, HTTP_MERGE, HTTP_MSEARCH,
      HTTP_NOTIFY, HTTP_SUBSCRIBE, HTTP_UNSUBSCRIBE, HTTP_PATCH, HTTP_PURGE,
      HTTP_MKCALENDAR, HTTP_LINK, HTTP_UNLINK]"

definition all_errnos :: "http_errno list" where
  "all_errnos =
     [HPE_OK, HPE_CB_message_begin, HPE_CB_url, HPE_CB_header_field, HPE_CB_header_value,
      HPE_CB_headers_complete, HPE_CB_body, HPE_CB_message_complete, HPE_CB_status, HPE_CB_chunk_header,
      HPE_CB_chunk_complete, HPE_INVALID_EOF_STATE, HPE_HEADER_OVERFLOW, HPE_CLOSED_CONNECTION, HPE_INVALID_VERSION,
      HPE_INVALID_STATUS, HPE_INVALID_METHOD, HPE_INVALID_URL, HPE_INVALID_HOST, HPE_INVALID_PORT,
      HPE_INVALID_PATH, HPE_INVALID_QUERY_STRING, HPE_INVALID_FRAGMENT, HPE_LF_EXPECTED, HPE_INVALID_HEADER_TOKEN,
      HPE_INVALID_CONTENT_LENGTH, HPE_UNEXPECTED_CONTENT_LENGTH, HPE_INVALID_CHUNK_SIZE, HPE_INVALID_CONSTANT, HPE_INVALID_INTERNAL_STATE,
      HPE_STRICT, HPE_PAUSED, HPE_UNKNOWN]"

definition all_types :: "http_parser_type list" where
  "all_types = [HTTP_REQUEST, HTTP_RESPONSE, HTTP_BOTH]"

definition place :: "'a \<Rightarrow> 'a list \<Rightarrow> nat" where
  "place x xs = length (takeWhile (\<lambda>y. y \<noteq> x) xs)"

text \<open>The values: the states begin with 1, all others with 0.\<close>

definition state_value :: "state \<Rightarrow> nat" where "state_value st = Suc (place st all_states)"
definition header_state_value :: "header_states \<Rightarrow> nat" where "header_state_value h = place h all_header_states"
definition method_value :: "http_method \<Rightarrow> nat" where "method_value m = place m all_methods"
definition errno_value :: "http_errno \<Rightarrow> nat" where "errno_value e = place e all_errnos"
definition type_value :: "http_parser_type \<Rightarrow> nat" where "type_value t = place t all_types"

lemma all_complete: "st \<in> set all_states" "h \<in> set all_header_states" "m \<in> set all_methods" "e \<in> set all_errnos" "t \<in> set all_types"
proof -
  show "st \<in> set all_states" by (cases st) (simp_all add: all_states_def)
  show "h \<in> set all_header_states" by (cases h) (simp_all add: all_header_states_def)
  show "m \<in> set all_methods" by (cases m) (simp_all add: all_methods_def)
  show "e \<in> set all_errnos" by (cases e) (simp_all add: all_errnos_def)
  show "t \<in> set all_types" by (cases t) (simp_all add: all_types_def)
qed

lemma all_lengths: "length all_states = 62" "length all_header_states = 23" "length all_methods = 33" "length all_errnos = 33" "length all_types = 3"
  by (simp_all add: all_states_def all_header_states_def all_methods_def all_errnos_def all_types_def)

lemma place_nth: "x \<in> set xs \<Longrightarrow> place x xs < length xs \<and> xs ! place x xs = x"
  unfolding place_def by (induction xs) auto

text \<open>\<open>PARSING_HEADER\<close> compares these values, and no state comes between the states of the head and those of the body.\<close>

lemma PARSING_HEADER_order: "PARSING_HEADER st \<longleftrightarrow> state_value st \<le> state_value s_headers_done"
  by (cases st) (simp_all add: PARSING_HEADER_def state_value_def place_def all_states_def)

section \<open>Texts\<close>

definition http_strerror_tab :: "(string \<times> string) list" where
  "http_strerror_tab =
     [(''HPE_OK'', ''success''),
      (''HPE_CB_message_begin'', ''the on_message_begin callback failed''),
      (''HPE_CB_url'', ''the on_url callback failed''),
      (''HPE_CB_header_field'', ''the on_header_field callback failed''),
      (''HPE_CB_header_value'', ''the on_header_value callback failed''),
      (''HPE_CB_headers_complete'', ''the on_headers_complete callback failed''),
      (''HPE_CB_body'', ''the on_body callback failed''),
      (''HPE_CB_message_complete'', ''the on_message_complete callback failed''),
      (''HPE_CB_status'', ''the on_status callback failed''),
      (''HPE_CB_chunk_header'', ''the on_chunk_header callback failed''),
      (''HPE_CB_chunk_complete'', ''the on_chunk_complete callback failed''),
      (''HPE_INVALID_EOF_STATE'', ''stream ended at an unexpected time''),
      (''HPE_HEADER_OVERFLOW'', ''too many header bytes seen; overflow detected''),
      (''HPE_CLOSED_CONNECTION'', ''data received after completed connection: close message''),
      (''HPE_INVALID_VERSION'', ''invalid HTTP version''),
      (''HPE_INVALID_STATUS'', ''invalid HTTP status code''),
      (''HPE_INVALID_METHOD'', ''invalid HTTP method''),
      (''HPE_INVALID_URL'', ''invalid URL''),
      (''HPE_INVALID_HOST'', ''invalid host''),
      (''HPE_INVALID_PORT'', ''invalid port''),
      (''HPE_INVALID_PATH'', ''invalid path''),
      (''HPE_INVALID_QUERY_STRING'', ''invalid query string''),
      (''HPE_INVALID_FRAGMENT'', ''invalid fragment''),
      (''HPE_LF_EXPECTED'', ''LF character expected''),
      (''HPE_INVALID_HEADER_TOKEN'', ''invalid character in header''),
      (''HPE_INVALID_CONTENT_LENGTH'', ''invalid character in content-length header''),
      (''HPE_UNEXPECTED_CONTENT_LENGTH'', ''unexpected content-length header''),
      (''HPE_INVALID_CHUNK_SIZE'', ''invalid character in chunk size header''),
      (''HPE_INVALID_CONSTANT'', ''invalid constant string''),
      (''HPE_INVALID_INTERNAL_STATE'', ''encountered unexpected internal state''),
      (''HPE_STRICT'', ''strict mode assertion failed''),
      (''HPE_PAUSED'', ''parser is paused''),
      (''HPE_UNKNOWN'', ''an unknown error occurred'')]"

text \<open>\<open>None\<close> stands for the assertion that the index is inside of the table.\<close>

definition http_errno_name :: "http_errno \<Rightarrow> string option" where
  "http_errno_name err =
     (if errno_value err < length http_strerror_tab then Some (fst (http_strerror_tab ! errno_value err)) else None)"

definition http_errno_description :: "http_errno \<Rightarrow> string option" where
  "http_errno_description err =
     (if errno_value err < length http_strerror_tab then Some (snd (http_strerror_tab ! errno_value err)) else None)"

definition http_parser_version :: "64 word" where
  "http_parser_version = 2 * 0x10000 OR 6 * 0x00100 OR 2 * 0x00001"

text \<open>The version is put together as the comment in \<open>http_parser.h\<close> takes it apart.\<close>

lemma http_parser_version_parts:
  "(drop_bit 16 http_parser_version) AND 255 = 2" "(drop_bit 8 http_parser_version) AND 255 = 6" "http_parser_version AND 255 = 2"
  by (simp_all add: http_parser_version_def drop_bit_eq_div)

lemma strerror_at: "errno_value err < length http_strerror_tab" "distinct (map fst http_strerror_tab)" "distinct (map snd http_strerror_tab)"
proof -
  show "errno_value err < length http_strerror_tab"
    using all_complete(4) [of err, THEN place_nth] by (simp add: errno_value_def all_lengths http_strerror_tab_def)
  show "distinct (map fst http_strerror_tab)" "distinct (map snd http_strerror_tab)"
    by (simp_all add: http_strerror_tab_def)
qed

lemma errno_value_inj: "errno_value e = errno_value e' \<longleftrightarrow> e = e'"
  using all_complete(4) [of e, THEN place_nth] all_complete(4) [of e', THEN place_nth] by (metis errno_value_def)

section \<open>The message parser\<close>

definition GetErrorDetail :: "HttpParser \<Rightarrow> string option" where
  "GetErrorDetail h = http_errno_description (herrno (m_httpParser h))"

definition GetUrl :: "HttpParser \<Rightarrow> bytes" where "GetUrl h = m_url (m_msg h)"
definition GetStatus :: "HttpParser \<Rightarrow> nat" where "GetStatus h = m_status (m_msg h)"
definition GetMethod :: "HttpParser \<Rightarrow> bytes" where "GetMethod h = m_method (m_msg h)"
definition GetBody :: "HttpParser \<Rightarrow> bytes" where "GetBody h = m_body (m_msg h)"
definition GetHeaders :: "HttpParser \<Rightarrow> bytes std_map" where "GetHeaders h = m_headers (m_msg h)"
definition GetParameters :: "HttpParser \<Rightarrow> bytes std_map" where "GetParameters h = m_parameters (m_msg h)"

definition HeaderReady :: "http_msg \<Rightarrow> bool" where
  "HeaderReady m \<longleftrightarrow> m_headerState m = HeaderState_HasAll"

definition print_pairs :: "bytes std_map \<Rightarrow> bytes" where
  "print_pairs m = concat (map (\<lambda>(k, v). k @ str '', '' @ v @ [10]) m)"

definition ToString :: "HttpParser \<Rightarrow> bytes" where
  "ToString h =
     [10] @ str ''method: '' @ GetMethod h @ str '' url: '' @ GetUrl h @ [10] @ str ''Parameters:'' @ [10] @ print_pairs (GetParameters h) @
     [10] @ str ''Headers:'' @ [10] @ print_pairs (GetHeaders h) @ [10] @ str ''body:'' @ [10] @ GetBody h @ [10]"

text \<open>
  Every error has a text, and the text tells which error it was: \<open>GetErrorDetail\<close> never fails the assertion of the table, is \<open>success\<close>
  exactly after a call without an error, and two parsers have the same text exactly if they have the same error; the same holds for
  the names.
\<close>

theorem error_detail_exact:
  "GetErrorDetail h \<noteq> None \<and> (GetErrorDetail h = Some ''success'' \<longleftrightarrow> herrno (m_httpParser h) = HPE_OK) \<and>
   (GetErrorDetail h = GetErrorDetail h' \<longleftrightarrow> herrno (m_httpParser h) = herrno (m_httpParser h')) \<and>
   http_errno_name e \<noteq> None \<and> (http_errno_name e = http_errno_name e' \<longleftrightarrow> e = e')"
proof -
  let ?t = http_strerror_tab
  have d: "snd (?t ! errno_value a) = snd (?t ! errno_value b) \<longleftrightarrow> a = b" "fst (?t ! errno_value a) = fst (?t ! errno_value b) \<longleftrightarrow> a = b" for a b
    using nth_eq_iff_index_eq [OF strerror_at(3), of "errno_value a" "errno_value b"]
      nth_eq_iff_index_eq [OF strerror_at(2), of "errno_value a" "errno_value b"] strerror_at(1) errno_value_inj by simp_all
  have ok: "snd (?t ! errno_value HPE_OK) = ''success''"
    by (simp add: errno_value_def place_def all_errnos_def http_strerror_tab_def)
  have s: "snd (?t ! errno_value a) = ''success'' \<longleftrightarrow> a = HPE_OK" for a
    using d(1) [of a HPE_OK] unfolding ok .
  show ?thesis
    by (simp add: GetErrorDetail_def http_errno_description_def http_errno_name_def strerror_at(1) d s)
qed

end
