(* ===== verification/Http_Run.thy ===== *)
theory Http_Run
  imports Http_Message Http_Method
begin

text \<open>
  Running the streaming parser on known bytes with the callbacks of \<open>HttpParser.cpp\<close>: what the callbacks
  do, what bytes come next, and how the loop goes over them.
\<close>

section \<open>The callbacks\<close>

lemma m_settings_sel [simp]:
  "on_notify m_settings message_complete = Some OnComplete"
  "f \<noteq> message_complete \<Longrightarrow> on_notify m_settings f = None"
  "on_data m_settings url = Some OnUrl" "on_data m_settings status = None"
  "on_data m_settings header_field = Some OnHeaderName" "on_data m_settings header_value = Some OnHeaderValue"
  "on_data m_settings body = Some OnBody"
  by (simp_all add: m_settings_def)

definition completed :: "http_parser \<Rightarrow> http_msg \<Rightarrow> http_msg" where
  "completed pr m = snd (snd (OnComplete pr m))"

definition add_body :: "bytes \<Rightarrow> http_msg \<Rightarrow> http_msg" where
  "add_body bs m = m\<lparr>m_body := m_body m @ bs\<rparr>"

lemma add_body_simps [simp]: "add_body [] m = m" "add_body bs (add_body as m) = add_body (as @ bs) m"
  by (simp_all add: add_body_def)

lemma OnBody_add: "OnBody pr bs m = (0, False, add_body bs m)"
  by (simp add: OnBody_def add_body_def)

lemma OnComplete_completed: "OnComplete pr m = (0, False, completed pr m)"
  by (simp add: completed_def OnComplete_def)

lemma completed_hstate [simp]: "completed (pr\<lparr>hstate := st\<rparr>) m = completed pr m"
  by (simp add: completed_def OnComplete_def OnComplete_target_def)

lemma completed_sel [simp]: "m_complete (completed pr m)" "m_body (completed pr m) = m_body m"
  "m_headers (completed pr m) = m_headers m" "m_status (completed pr m) = status_code pr"
  "m_method (completed pr m) = http_method_str (hmethod pr)"
proof -
  obtain m1 where "OnComplete_target pr m = Some m1"
    using OnComplete_returns [of pr m] by (auto simp: OnComplete_throws_def)
  moreover from this have "m_body m1 = m_body m" "m_headers m1 = m_headers m" "m_status m1 = status_code pr"
    "m_method m1 = http_method_str (hmethod pr)"
    by (auto simp: OnComplete_target_def ParseUrlAndParam_def Let_def split: option.splits)
  ultimately show "m_complete (completed pr m)" "m_body (completed pr m) = m_body m" "m_headers (completed pr m) = m_headers m"
    "m_status (completed pr m) = status_code pr" "m_method (completed pr m) = http_method_str (hmethod pr)"
    by (simp_all add: completed_def OnComplete_def)
qed

lemma callback_quiet:
  "herrno pr = HPE_OK \<Longrightarrow> after_callback e pr (0, False, u) s = s\<lparr>hp := pr, usr := u, p_state := hstate pr\<rparr>"
  by (simp add: after_callback_def)

section \<open>The bytes that come next\<close>

definition coming :: "bytes \<Rightarrow> nat \<Rightarrow> bytes \<Rightarrow> bool" where
  "coming data p bs \<longleftrightarrow> take (length bs) (drop p data) = bs"

lemma coming_Nil [simp]: "coming data p []"
  by (simp add: coming_def)

lemma coming_Cons [simp]: "coming data p (c # bs) \<longleftrightarrow> p < length data \<and> data ! p = c \<and> coming data (Suc p) bs"
proof (cases "p < length data")
  case True
  then have "drop p data = data ! p # drop (Suc p) data"
    by (simp add: Cons_nth_drop_Suc)
  then show ?thesis using True by (simp add: coming_def)
qed (simp add: coming_def)

lemma coming_append [simp]: "coming data p (as @ bs) \<longleftrightarrow> coming data p as \<and> coming data (p + length as) bs"
  by (induction as arbitrary: p) simp_all

lemma coming_length: "coming data p bs \<Longrightarrow> bs \<noteq> [] \<Longrightarrow> p + length bs \<le> length data"
  using length_take [of "length bs" "drop p data"] by (cases bs) (auto simp: coming_def)

lemma coming_all [simp]: "coming data 0 data"
  by (simp add: coming_def)

section \<open>The loop\<close>

lemma COUNT_HEADER_SIZE_ok:
  assumes "unat (nread (hp s)) < HTTP_MAX_HEADER_SIZE"
  shows "COUNT_HEADER_SIZE 1 s k = k (s\<lparr>hp := (hp s)\<lparr>nread := nread (hp s) + 1\<rparr>\<rparr>)"
proof -
  have "unat (nread (hp s) + 1) = unat (nread (hp s)) + 1"
    using assms by (simp add: unat_word_ariths HTTP_MAX_HEADER_SIZE_def)
  then show ?thesis
    using assms by (simp add: COUNT_HEADER_SIZE_def on_hp_def Let_def)
qed

text \<open>A byte of the head of a message, and a byte of a body.\<close>

lemma loop_header:
  assumes "pos s < length data" "PARSING_HEADER (p_state s)" "unat (nread (hp s)) < HTTP_MAX_HEADER_SIZE"
    and "reexecute S data (s\<lparr>hp := (hp s)\<lparr>nread := nread (hp s) + 1\<rparr>\<rparr>) = Break s'"
  shows "exec_loop S data s = exec_loop S data (s'\<lparr>pos := pos s' + 1\<rparr>)"
  using exec_loop_step [OF assms(1), of S s'] assms by (simp add: exec_byte_def COUNT_HEADER_SIZE_ok [unfolded One_nat_def])

lemma loop_body:
  assumes "pos s < length data" "\<not> PARSING_HEADER (p_state s)" "reexecute S data s = Break s'"
  shows "exec_loop S data s = exec_loop S data (s'\<lparr>pos := pos s' + 1\<rparr>)"
  using exec_loop_step [OF assms(1), of S s'] assms by (simp add: exec_byte_def)

lemma reexecute_dispatch:
  "pos s < length data \<Longrightarrow> reexecute S data s = (case dispatch S data s of Reexecute s' \<Rightarrow> reexecute S data s' | r \<Rightarrow> r)"
  by (subst reexecute.simps) simp

lemma exec_loop_end: "length data \<le> pos s \<Longrightarrow> exec_loop S data s = Break s"
  by (subst exec_loop.simps) simp

lemma message_done_reexecute:
  assumes "p_state s = s_message_done" "herrno (hp s) = HPE_OK" "pos s < length data"
  shows "reexecute m_settings data s =
    (let s' = s\<lparr>hp := (hp s)\<lparr>hstate := NEW_MESSAGE (hp s)\<rparr>, usr := completed (hp s) (usr s), p_state := NEW_MESSAGE (hp s)\<rparr>
     in if upgrade (hp s) then Return s' (pos s + 1) else Break s')"
  using assms
  by (subst reexecute.simps)
    (simp add: dispatch_def exec_message_done_def callback_defs CALLBACK_NOTIFY_ER_def new_message_def UPDATE_STATE_def
      OnComplete_completed callback_quiet Let_def)

end
