(* ===== verification/Http_Body.thy ===== *)
theory Http_Body
  imports Http_Run
begin

text \<open>
  Bodies of HTTP messages: what the streaming parser hands to the callbacks of \<open>HttpParser.cpp\<close> adds up
  to the body, whether it is announced by a length and arrives in pieces, or comes in chunks.
\<close>

section \<open>A body with a length\<close>

text \<open>The parser in front of \<open>n\<close> bytes of a body.\<close>

definition awaits_body :: "nat \<Rightarrow> http_parser \<Rightarrow> bool" where
  "awaits_body n pr \<longleftrightarrow> hstate pr = s_body_identity \<and> herrno pr = HPE_OK \<and> content_length pr = of_nat n \<and>
     0 < n \<and> n < 2 ^ 64 - 1"

lemma awaits_body_word:
  assumes "awaits_body n pr"
  shows "unat (content_length pr) = n" "content_length pr \<noteq> 0" "content_length pr \<noteq> ULLONG_MAX"
proof -
  show u: "unat (content_length pr) = n"
    using assms by (simp add: awaits_body_def unat_of_nat)
  show "content_length pr \<noteq> 0" "content_length pr \<noteq> ULLONG_MAX"
    using u assms unat_ULLONG_MAX by (auto simp: awaits_body_def)
qed

lemma body_reexecute:
  assumes "awaits_body n pr" "0 < length data"
  shows "reexecute m_settings data \<lparr>hp = pr, usr = m, pos = 0, p_state = s_body_identity, marks = (\<lambda>_. None)\<rparr> =
    (if length data < n
     then Break \<lparr>hp = pr\<lparr>content_length := of_nat (n - length data)\<rparr>, usr = m, pos = length data - 1,
            p_state = s_body_identity, marks = (\<lambda>_. None)(body := Some 0)\<rparr>
     else reexecute m_settings data \<lparr>hp = pr\<lparr>content_length := 0, hstate := s_message_done\<rparr>, usr = add_body (take n data) m,
            pos = n - 1, p_state = s_message_done, marks = (\<lambda>_. None)\<rparr>)"
proof -
  have c: "content_length pr - of_nat k = of_nat (n - k)" if "k \<le> n" for k
    using assms(1) that by (simp add: awaits_body_def of_nat_diff)
  have z: "(of_nat (n - k) :: u64) = 0 \<longleftrightarrow> k = n" if "k \<le> n" for k
  proof -
    have "unat (of_nat (n - k) :: u64) = n - k"
      using assms(1) by (auto simp: awaits_body_def unat_of_nat simp del: of_nat_diff intro!: mod_less)
    then show ?thesis
      using that unat_eq_zero [of "of_nat (n - k) :: u64"] by auto
  qed
  show ?thesis
    using assms awaits_body_word [OF assms(1)] c [of "min n (length data)"] z [of "min n (length data)"]
    by (subst reexecute.simps)
      (auto simp: dispatch_def exec_body_identity_def take_body_def prim_defs CALLBACK_DATA_ER_def OnBody_add
        callback_quiet awaits_body_def min_def fun_upd_idem_iff)
qed

lemma initial_marks_body [simp]: "initial_marks s_body_identity = (\<lambda>_. None)"
  by (auto simp: initial_marks_def split: data_cb.split)

lemma leftover_none:
  assumes "marks s = (\<lambda>_. None)" "herrno (hp s) = HPE_OK"
  shows "leftover S data s = Return s (length data)"
  using assms by (simp add: leftover_def callback_defs CALLBACK_DATA_ER_def)

lemma leftover_body:
  assumes "marks s = (\<lambda>_. None)(body := Some k)" "herrno (hp s) = HPE_OK"
  shows "leftover m_settings data s =
    Return (s\<lparr>hp := (hp s)\<lparr>hstate := p_state s\<rparr>, usr := add_body (take (pos s - k) (drop k data)) (usr s), marks := (\<lambda>_. None)\<rparr>) (length data)"
  using assms by (simp add: leftover_def callback_defs CALLBACK_DATA_ER_def OnBody_add callback_quiet Let_def)

lemma body_piece:
  assumes "awaits_body n pr" "data \<noteq> []" "length data < n"
  shows "http_parser_execute m_settings data pr m =
    Some (pr\<lparr>content_length := of_nat (n - length data)\<rparr>, add_body data m, length data)"
  using assms body_reexecute [OF assms(1), of data m]
  by (simp add: http_parser_execute_def awaits_body_def exec_loop.simps [of _ data] exec_byte_def PARSING_HEADER_def
      exec_loop_end leftover_body leave_ctl_def leave_def Let_def)

lemma body_end:
  assumes "awaits_body n pr" "length data = n"
  shows "\<exists>pr'. http_parser_execute m_settings data pr m = Some (pr', completed pr (add_body data m), n) \<and> herrno pr' = HPE_OK"
  using assms body_reexecute [OF assms(1), of data m]
  by (auto simp: http_parser_execute_def awaits_body_def exec_loop.simps [of _ data] exec_byte_def PARSING_HEADER_def
      exec_loop_end leftover_none leave_ctl_def leave_def Let_def message_done_reexecute completed_def OnComplete_def OnComplete_target_def)

text \<open>Feeding pieces one after another, as long as there is no error.\<close>

fun parse_pieces :: "bytes list \<Rightarrow> HttpParser \<Rightarrow> HttpParser option" where
  "parse_pieces [] h = Some h"
| "parse_pieces (d # ds) h =
     (case HttpParser_Parse d h of Some (True, h') \<Rightarrow> parse_pieces ds h' | _ \<Rightarrow> None)"

lemma body_pieces:
  assumes "awaits_body n (m_httpParser h)" "[] \<notin> set ds" "length (concat ds) \<le> n"
  shows "\<exists>h'. parse_pieces ds h = Some h' \<and>
    m_msg h' = (if length (concat ds) = n then completed (m_httpParser h) (add_body (concat ds) (m_msg h))
                else add_body (concat ds) (m_msg h))"
  using assms
proof (induction ds arbitrary: h n)
  case (Cons d ds)
  show ?case
  proof (cases "length d < n")
    case True
    let ?pr = "(m_httpParser h)\<lparr>content_length := of_nat (n - length d)\<rparr>"
    let ?h = "\<lparr>m_msg = add_body d (m_msg h), m_httpParser = ?pr\<rparr>"
    have "d \<noteq> []"
      using Cons.prems(2) by auto
    then have p: "HttpParser_Parse d h = Some (True, ?h)"
      using body_piece [OF Cons.prems(1) _ True] Cons.prems(1) by (simp add: HttpParser_Parse_eq awaits_body_def)
    have a: "awaits_body (n - length d) (m_httpParser ?h)" "[] \<notin> set ds" "length (concat ds) \<le> n - length d"
      using Cons.prems True by (auto simp: awaits_body_def)
    obtain h' where h': "parse_pieces ds ?h = Some h'"
      "m_msg h' = (if length (concat ds) = n - length d then completed ?pr (add_body (concat ds) (add_body d (m_msg h)))
                else add_body (concat ds) (add_body d (m_msg h)))"
      using Cons.IH [OF a] by (auto simp del: of_nat_diff)
    then show ?thesis
      using p True by (auto simp: completed_def OnComplete_def OnComplete_target_def)
  next
    case False
    moreover have "length d + length (concat ds) \<le> n"
      using Cons.prems(3) by simp
    ultimately have l: "length d = n" "length (concat ds) = 0"
      by linarith+
    then have "ds = []"
      using Cons.prems(2) by (cases ds) auto
    then show ?thesis
      using body_end [OF Cons.prems(1) l(1), of "m_msg h"] l by (auto simp: HttpParser_Parse_eq)
  qed
qed (auto simp: awaits_body_def)

text \<open>
  C16: A body of announced length that arrives in any pieces is collected byte for byte: after every
  piece the bytes so far have been appended, and the message is reported complete exactly with the
  last one.
\<close>

theorem body_collected:
  assumes "awaits_body n (m_httpParser h)" "[] \<notin> set ds" "length (concat ds) \<le> n"
  shows "\<exists>h'. parse_pieces ds h = Some h' \<and> m_body (m_msg h') = m_body (m_msg h) @ concat ds \<and>
    m_headers (m_msg h') = m_headers (m_msg h) \<and>
    (HttpParser_IsComplete h' \<longleftrightarrow> HttpParser_IsComplete h \<or> length (concat ds) = n)"
  using body_pieces [OF assms] by (auto simp: HttpParser_IsComplete_def add_body_def)

theorem body_collected_witness:
  "\<exists>h'. parse_pieces [[1], [2, 3]]
      \<lparr>m_msg = m_msg (HttpParser_new 0), m_httpParser = (http_parser_init HTTP_BOTH)\<lparr>hstate := s_body_identity, content_length := 3\<rparr>\<rparr> = Some h' \<and>
    m_body (m_msg h') = [1, 2, 3] \<and> HttpParser_IsComplete h'"
  using body_collected [where n = 3 and ds = "[[1], [2, 3]]" and
      h = "\<lparr>m_msg = m_msg (HttpParser_new 0), m_httpParser = (http_parser_init HTTP_BOTH)\<lparr>hstate := s_body_identity, content_length := 3\<rparr>\<rparr>"]
  by (auto simp: awaits_body_def http_parser_init_def HttpParser_new_def)

section \<open>Chunks\<close>

text \<open>The size line: hexadecimal digits as the table of the parser reads them.\<close>

definition hex_digit :: "u8 \<Rightarrow> bool" where
  "hex_digit c \<longleftrightarrow> unhex ! unat c \<noteq> -1"

definition hex_value :: "nat \<Rightarrow> bytes \<Rightarrow> nat" where
  "hex_value v ds = foldl (\<lambda>a c. a * 16 + nat (unhex ! unat c)) v ds"

lemma hex_value_simps [simp]: "hex_value v [] = v" "hex_value v (c # ds) = hex_value (v * 16 + nat (unhex ! unat c)) ds"
  by (simp_all add: hex_value_def)

lemma hex_value_mono: "v \<le> hex_value v ds"
proof (induction ds arbitrary: v)
  case (Cons c ds)
  show ?case using Cons.IH [of "v * 16 + nat (unhex ! unat c)"] by simp
qed simp

definition chunk :: "bytes \<times> bytes \<Rightarrow> bytes" where
  "chunk x = fst x @ [CR, LF] @ snd x @ [CR, LF]"

definition chunk_ok :: "bytes \<times> bytes \<Rightarrow> bool" where
  "chunk_ok x \<longleftrightarrow> fst x \<noteq> [] \<and> length (fst x) \<le> 1024 \<and> (\<forall>c \<in> set (fst x). hex_digit c) \<and>
     hex_value 0 (fst x) = length (snd x) \<and> snd x \<noteq> [] \<and> length (snd x) < 2 ^ 60"

text \<open>The parser between two chunks.\<close>

definition between_chunks :: "'u exec \<Rightarrow> bool" where
  "between_chunks s \<longleftrightarrow> p_state s = s_chunk_size_start \<and> herrno (hp s) = HPE_OK \<and> has_flag F_CHUNKED (hp s) \<and>
     nread (hp s) = 0 \<and> marks s = (\<lambda>_. None)"

text \<open>In the size line, after some digits with the value \<open>v\<close>.\<close>

definition in_size :: "nat \<Rightarrow> nat \<Rightarrow> 'u exec \<Rightarrow> bool" where
  "in_size k v s \<longleftrightarrow> p_state s = s_chunk_size \<and> herrno (hp s) = HPE_OK \<and> has_flag F_CHUNKED (hp s) \<and>
     nread (hp s) = of_nat k \<and> content_length (hp s) = of_nat v \<and> marks s = (\<lambda>_. None)"

lemma has_flag_upd [simp]:
  "has_flag f (pr\<lparr>nread := n\<rparr>) = has_flag f pr" "has_flag f (pr\<lparr>content_length := c\<rparr>) = has_flag f pr"
  "has_flag f (pr\<lparr>hstate := st\<rparr>) = has_flag f pr"
  by (simp_all add: has_flag_def)

lemma hex_word: "hex_digit c \<Longrightarrow> (word_of_int (unhex ! unat c) :: u64) = of_nat (nat (unhex ! unat c)) \<and> nat (unhex ! unat c) < 16"
  using unhex_range [of c] by (auto simp: hex_digit_def)

lemma size_first:
  assumes "between_chunks s" "coming data (pos s) [c]" "hex_digit c"
  obtains s' where "exec_loop m_settings data s = exec_loop m_settings data s'" "in_size 1 (nat (unhex ! unat c)) s'"
    "pos s' = Suc (pos s)" "usr s' = usr s"
proof -
  let ?s = "s\<lparr>p_state := s_chunk_size, hp := (hp s)\<lparr>nread := 1, content_length := of_nat (nat (unhex ! unat c))\<rparr>\<rparr>"
  have "reexecute m_settings data (s\<lparr>hp := (hp s)\<lparr>nread := nread (hp s) + 1\<rparr>\<rparr>) = Break ?s"
    using assms hex_word [OF assms(3)]
    by (subst reexecute_dispatch) (auto simp: dispatch_def exec_chunk_size_start_def prim_defs between_chunks_def hex_digit_def)
  then have "exec_loop m_settings data s = exec_loop m_settings data (?s\<lparr>pos := pos ?s + 1\<rparr>)"
    by (intro loop_header) (use assms in \<open>auto simp: between_chunks_def PARSING_HEADER_def HTTP_MAX_HEADER_SIZE_def\<close>)
  then show thesis
    by (rule that) (use assms in \<open>auto simp: in_size_def between_chunks_def\<close>)
qed

lemma size_next:
  assumes "in_size k v s" "coming data (pos s) [c]" "hex_digit c" "k \<le> 1024" "v < 2 ^ 56"
  obtains s' where "exec_loop m_settings data s = exec_loop m_settings data s'" "in_size (Suc k) (v * 16 + nat (unhex ! unat c)) s'"
    "pos s' = Suc (pos s)" "usr s' = usr s"
proof -
  let ?s = "s\<lparr>hp := (hp s)\<lparr>nread := of_nat (Suc k), content_length := of_nat (v * 16 + nat (unhex ! unat c))\<rparr>\<rparr>"
  have v: "unat (of_nat v :: u64) = v"
    using assms(5) by (simp add: unat_of_nat)
  have nlt: "\<not> (ULLONG_MAX - 16) div 16 < (of_nat v :: u64)"
    using assms(5) v by (simp add: word_less_nat_alt ULLONG_MAX_def)
  have k: "unat (of_nat k :: u32) = k"
    using assms(4) by (simp add: unat_of_nat)
  have cr: "c \<noteq> CR"
    using assms(3) by (auto simp: hex_digit_def CR_def unhex_def)
  have "reexecute m_settings data (s\<lparr>hp := (hp s)\<lparr>nread := nread (hp s) + 1\<rparr>\<rparr>) = Break ?s"
    using assms(1-3) hex_word [OF assms(3)] nlt cr
    by (subst reexecute_dispatch)
      (auto simp: dispatch_def exec_chunk_size_def prim_defs in_size_def hex_digit_def add.commute)
  then have "exec_loop m_settings data s = exec_loop m_settings data (?s\<lparr>pos := pos ?s + 1\<rparr>)"
    by (intro loop_header) (use assms k in \<open>auto simp: in_size_def PARSING_HEADER_def HTTP_MAX_HEADER_SIZE_def\<close>)
  then show thesis
    by (rule that) (use assms in \<open>auto simp: in_size_def\<close>)
qed

lemma size_digits:
  assumes "in_size k v s" "coming data (pos s) ds" "\<forall>c \<in> set ds. hex_digit c" "k + length ds \<le> 1024" "hex_value v ds < 2 ^ 60"
  obtains s' where "exec_loop m_settings data s = exec_loop m_settings data s'" "in_size (k + length ds) (hex_value v ds) s'"
    "pos s' = pos s + length ds" "usr s' = usr s"
  using assms
proof (induction ds arbitrary: k v s thesis)
  case Nil
  then show ?case by auto
next
  case (Cons c ds)
  let ?v = "v * 16 + nat (unhex ! unat c)"
  have "?v < 2 ^ 60"
    using Cons.prems(6) hex_value_mono [of ?v ds] by simp
  then have "v < 2 ^ 56" by simp
  then obtain s1 where s1: "exec_loop m_settings data s = exec_loop m_settings data s1" "in_size (Suc k) ?v s1"
    "pos s1 = Suc (pos s)" "usr s1 = usr s"
    using size_next [OF Cons.prems(2), of data c] Cons.prems(3-5) by auto
  obtain s2 where s2: "exec_loop m_settings data s1 = exec_loop m_settings data s2" "in_size (Suc k + length ds) (hex_value ?v ds) s2"
    "pos s2 = pos s1 + length ds" "usr s2 = usr s1"
    by (rule Cons.IH [OF _ s1(2)]) (use Cons.prems s1(3) in auto)
  show ?case
    by (rule Cons.prems(1) [of s2]) (use s1 s2 in simp_all)
qed

text \<open>The end of the size line, and the data with the line end behind them.\<close>

lemma size_end:
  assumes "in_size k v s" "coming data (pos s) [CR, LF]" "k \<le> 1024" "v < 2 ^ 60"
  shows "exec_loop m_settings data s = exec_loop m_settings data
    (s\<lparr>p_state := (if v = 0 then s_header_field_start else s_chunk_data),
       hp := (hp s)\<lparr>nread := 0, flags := (if v = 0 then flags (hp s) OR F_TRAILING else flags (hp s))\<rparr>, pos := pos s + 2\<rparr>)"
proof -
  let ?s = "s\<lparr>p_state := s_chunk_size_almost_done, hp := (hp s)\<lparr>nread := of_nat (Suc k)\<rparr>, pos := Suc (pos s)\<rparr>"
  let ?t = "s\<lparr>p_state := (if v = 0 then s_header_field_start else s_chunk_data),
       hp := (hp s)\<lparr>nread := 0, flags := (if v = 0 then flags (hp s) OR F_TRAILING else flags (hp s))\<rparr>, pos := Suc (pos s)\<rparr>"
  have v: "(of_nat v :: u64) = 0 \<longleftrightarrow> v = 0"
    using assms(4) by (auto simp: word_of_nat_eq_0_iff dest: dvd_imp_le)
  have k: "unat (of_nat k :: u32) = k" "unat (of_nat (Suc k) :: u32) = Suc k"
    using assms(3) by (simp_all add: unat_of_nat del: of_nat_Suc)
  have "reexecute m_settings data (s\<lparr>hp := (hp s)\<lparr>nread := nread (hp s) + 1\<rparr>\<rparr>) = Break (?s\<lparr>pos := pos s\<rparr>)"
    using assms(1,2)
    by (subst reexecute_dispatch) (auto simp: dispatch_def exec_chunk_size_def prim_defs in_size_def add.commute)
  then have 1: "exec_loop m_settings data s = exec_loop m_settings data ?s"
    using loop_header [of s data m_settings "?s\<lparr>pos := pos s\<rparr>"] assms k by (simp add: in_size_def PARSING_HEADER_def HTTP_MAX_HEADER_SIZE_def)
  have "reexecute m_settings data (?s\<lparr>hp := (hp ?s)\<lparr>nread := nread (hp ?s) + 1\<rparr>\<rparr>) = Break ?t"
    using assms(1,2) v
    by (subst reexecute_dispatch)
      (auto simp: dispatch_def exec_chunk_size_almost_done_def prim_defs in_size_def callback_defs CALLBACK_NOTIFY_ER_def add_flag_def)
  then have 2: "exec_loop m_settings data ?s = exec_loop m_settings data (?t\<lparr>pos := pos ?t + 1\<rparr>)"
    by (intro loop_header) (use assms k in \<open>simp_all add: in_size_def PARSING_HEADER_def HTTP_MAX_HEADER_SIZE_def del: of_nat_Suc\<close>)
  show ?thesis
    using 1 2 by simp
qed

lemma chunk_data_run:
  assumes "p_state s = s_chunk_data" "herrno (hp s) = HPE_OK" "has_flag F_CHUNKED (hp s)" "marks s = (\<lambda>_. None)" "nread (hp s) = 0"
    and "content_length (hp s) = of_nat (length bs)" "0 < length bs" "length bs < 2 ^ 60" "coming data (pos s) (bs @ [CR, LF])"
  obtains s' where "exec_loop m_settings data s = exec_loop m_settings data s'" "between_chunks s'"
    "pos s' = pos s + length bs + 2" "usr s' = add_body bs (usr s)"
proof -
  let ?n = "length bs"
  let ?a = "s\<lparr>p_state := s_chunk_data_almost_done, hp := (hp s)\<lparr>content_length := 0\<rparr>, marks := (\<lambda>_. None)(body := Some (pos s)), pos := pos s + ?n\<rparr>"
  let ?b = "s\<lparr>p_state := s_chunk_data_done, hp := (hp s)\<lparr>content_length := 0, hstate := s_chunk_data_done\<rparr>, usr := add_body bs (usr s), pos := pos s + ?n + 1\<rparr>"
  let ?c = "s\<lparr>p_state := s_chunk_size_start, hp := (hp s)\<lparr>content_length := 0, hstate := s_chunk_data_done\<rparr>, usr := add_body bs (usr s), pos := pos s + ?n + 1\<rparr>"
  have u: "unat (of_nat ?n :: u64) = ?n"
    using assms(8) by (simp add: unat_of_nat)
  then have w: "(of_nat ?n :: u64) \<noteq> 0" "(of_nat ?n :: u64) \<noteq> ULLONG_MAX"
    using assms(7,8) unat_ULLONG_MAX by auto
  have c: "take ?n (drop (pos s) data) = bs" "pos s + ?n + 1 < length data" "data ! (pos s + ?n) = CR" "data ! (pos s + ?n + 1) = LF"
    using assms(9) by (auto simp: coming_def [of _ _ bs])
  have "reexecute m_settings data s = Break (?a\<lparr>pos := pos s + ?n - 1\<rparr>)"
    using assms u w c
    by (subst reexecute_dispatch) (auto simp: dispatch_def exec_chunk_data_def take_body_def prim_defs min_def fun_eq_iff)
  then have 1: "exec_loop m_settings data s = exec_loop m_settings data ?a"
    using loop_body [of s data m_settings "?a\<lparr>pos := pos s + ?n - 1\<rparr>"] assms c by (simp add: PARSING_HEADER_def)
  have "reexecute m_settings data ?a = Break (?b\<lparr>pos := pos s + ?n\<rparr>)"
    using assms c
    by (subst reexecute_dispatch)
      (auto simp: dispatch_def exec_chunk_data_almost_done_def prim_defs callback_defs CALLBACK_DATA_ER_def OnBody_add callback_quiet fun_eq_iff)
  then have 2: "exec_loop m_settings data ?a = exec_loop m_settings data ?b"
    using loop_body [of ?a data m_settings "?b\<lparr>pos := pos s + ?n\<rparr>"] c by (simp add: PARSING_HEADER_def)
  have "reexecute m_settings data ?b = Break ?c"
    using assms c
    by (subst reexecute_dispatch)
      (auto simp: dispatch_def exec_chunk_data_done_def prim_defs callback_defs CALLBACK_NOTIFY_ER_def)
  then have 3: "exec_loop m_settings data ?b = exec_loop m_settings data (?c\<lparr>pos := pos ?c + 1\<rparr>)"
    by (intro loop_body) (use c in \<open>simp_all add: PARSING_HEADER_def\<close>)
  show thesis
    by (rule that [OF trans [OF 1 trans [OF 2 3]]]) (use assms in \<open>simp_all add: between_chunks_def\<close>)
qed

lemma chunk_run:
  assumes "between_chunks s" "chunk_ok x" "coming data (pos s) (chunk x)"
  obtains s' where "exec_loop m_settings data s = exec_loop m_settings data s'" "between_chunks s'"
    "pos s' = pos s + length (chunk x)" "usr s' = add_body (snd x) (usr s)"
proof -
  obtain c ds bs where x: "x = (c # ds, bs)"
    using assms(2) by (cases x; cases "fst x") (auto simp: chunk_ok_def)
  have ok: "hex_digit c" "\<forall>c \<in> set ds. hex_digit c" "Suc (length ds) \<le> 1024" "hex_value (nat (unhex ! unat c)) ds = length bs"
    "0 < length bs" "length bs < 2 ^ 60"
    using assms(2) x by (auto simp: chunk_ok_def)
  have co: "coming data (pos s) [c]" "coming data (Suc (pos s)) ds" "coming data (Suc (pos s) + length ds) [CR, LF]"
    "coming data (Suc (pos s) + length ds + 2) (bs @ [CR, LF])"
    using assms(3) x by (auto simp: chunk_def)
  obtain s1 where s1: "exec_loop m_settings data s = exec_loop m_settings data s1" "in_size 1 (nat (unhex ! unat c)) s1"
    "pos s1 = Suc (pos s)" "usr s1 = usr s"
    by (rule size_first [OF assms(1) co(1) ok(1)])
  obtain s2 where s2: "exec_loop m_settings data s1 = exec_loop m_settings data s2" "in_size (1 + length ds) (length bs) s2"
    "pos s2 = pos s1 + length ds" "usr s2 = usr s1"
    by (rule size_digits [OF s1(2), of data ds]) (use co(2) s1(3) ok in auto)
  let ?s = "s2\<lparr>p_state := s_chunk_data, hp := (hp s2)\<lparr>nread := 0, flags := flags (hp s2)\<rparr>, pos := pos s2 + 2\<rparr>"
  have s3: "exec_loop m_settings data s2 = exec_loop m_settings data ?s"
    using size_end [OF s2(2), of data] co(3) s1(3) s2(3) ok by simp
  show thesis
  proof (rule chunk_data_run [where s = ?s and bs = bs and data = data])
    fix s' assume "exec_loop m_settings data ?s = exec_loop m_settings data s'" "between_chunks s'"
      "pos s' = pos ?s + length bs + 2" "usr s' = add_body bs (usr ?s)"
    then show thesis
      by (intro that) (use s1 s2 s3 x in \<open>simp_all add: chunk_def\<close>)
  qed (use s2(2,3) s1(3) co(4) ok in \<open>simp_all add: in_size_def has_flag_def\<close>)
qed

lemma chunks_run:
  assumes "between_chunks s" "\<forall>x \<in> set xs. chunk_ok x" "coming data (pos s) (concat (map chunk xs))"
  obtains s' where "exec_loop m_settings data s = exec_loop m_settings data s'" "between_chunks s'"
    "pos s' = pos s + length (concat (map chunk xs))" "usr s' = add_body (concat (map snd xs)) (usr s)"
  using assms
proof (induction xs arbitrary: s thesis)
  case Nil
  then show ?case by auto
next
  case (Cons x xs)
  obtain s1 where s1: "exec_loop m_settings data s = exec_loop m_settings data s1" "between_chunks s1"
    "pos s1 = pos s + length (chunk x)" "usr s1 = add_body (snd x) (usr s)"
    by (rule chunk_run [OF Cons.prems(2), of x data]) (use Cons.prems in auto)
  obtain s2 where s2: "exec_loop m_settings data s1 = exec_loop m_settings data s2" "between_chunks s2"
    "pos s2 = pos s1 + length (concat (map chunk xs))" "usr s2 = add_body (concat (map snd xs)) (usr s1)"
    by (rule Cons.IH [OF _ s1(2)]) (use Cons.prems s1(3) in auto)
  show ?case
    by (rule Cons.prems(1) [of s2]) (use s1 s2 in simp_all)
qed

text \<open>The chunk of size 0 and the empty line behind it end the message.\<close>

lemma last_chunk_run:
  assumes "between_chunks s" "coming data (pos s) [48, CR, LF, CR, LF]" "length data = pos s + 5"
  shows "\<exists>s' pr. (exec_loop m_settings data s = Break s' \<or> exec_loop m_settings data s = Return s' (length data)) \<and>
    marks s' = (\<lambda>_. None) \<and> herrno (hp s') = HPE_OK \<and> usr s' = completed pr (usr s)"
proof -
  have u: "hex_digit 48" "unhex ! unat (48 :: u8) = 0"
    by (simp_all add: hex_digit_def unhex_def)
  obtain s1 where s1: "exec_loop m_settings data s = exec_loop m_settings data s1" "in_size 1 (nat (unhex ! unat (48 :: u8))) s1"
    "pos s1 = Suc (pos s)" "usr s1 = usr s"
    by (rule size_first [OF assms(1) _ u(1), of data]) (use assms(2) in auto)
  let ?a = "s1\<lparr>p_state := s_header_field_start, hp := (hp s1)\<lparr>nread := 0, flags := flags (hp s1) OR F_TRAILING\<rparr>, pos := pos s1 + 2\<rparr>"
  let ?b = "s1\<lparr>p_state := s_headers_almost_done, hp := (hp s1)\<lparr>nread := 1, flags := flags (hp s1) OR F_TRAILING\<rparr>, pos := pos s1 + 3\<rparr>"
  let ?c = "s1\<lparr>pos := pos s1 + 3, hp := (hp s1)\<lparr>flags := flags (hp s1) OR F_TRAILING, nread := 2\<rparr>, p_state := s_message_done\<rparr>"
  have in1: "herrno (hp s1) = HPE_OK" "marks s1 = (\<lambda>_. None)"
    using s1(2) by (simp_all add: in_size_def)
  have t: "(flags (hp s1) OR F_TRAILING) AND F_TRAILING \<noteq> 0"
  proof
    assume "(flags (hp s1) OR F_TRAILING) AND F_TRAILING = 0"
    then have "bit ((flags (hp s1) OR F_TRAILING) AND F_TRAILING) 4 = bit (0 :: u8) 4"
      by (rule arg_cong)
    then show False
      by (simp add: bit_simps F_TRAILING_def)
  qed
  have 1: "exec_loop m_settings data s1 = exec_loop m_settings data ?a"
    using size_end [OF s1(2), of data] assms(2) s1(3) u by simp
  have "reexecute m_settings data (?a\<lparr>hp := (hp ?a)\<lparr>nread := nread (hp ?a) + 1\<rparr>\<rparr>) = Break (?b\<lparr>pos := pos s1 + 2\<rparr>)"
    using assms(2) s1(3) by (subst reexecute_dispatch) (auto simp: dispatch_def exec_header_field_start_def prim_defs)
  then have 2: "exec_loop m_settings data ?a = exec_loop m_settings data ?b"
    using loop_header [of ?a data m_settings "?b\<lparr>pos := pos s1 + 2\<rparr>"] assms(2) s1(3)
    by (simp add: PARSING_HEADER_def HTTP_MAX_HEADER_SIZE_def numeral_2_eq_2 numeral_3_eq_3)
  have "reexecute m_settings data (?b\<lparr>hp := (hp ?b)\<lparr>nread := nread (hp ?b) + 1\<rparr>\<rparr>) = reexecute m_settings data ?c"
    using assms(2) s1(3) in1 t
    by (subst reexecute_dispatch)
      (auto simp: dispatch_def exec_headers_almost_done_def prim_defs callback_defs CALLBACK_NOTIFY_ER_def has_flag_def numeral_2_eq_2 numeral_3_eq_3)
  then have 3: "exec_byte m_settings data ?b = reexecute m_settings data ?c"
    using COUNT_HEADER_SIZE_ok [of ?b "reexecute m_settings data"]
    by (simp add: exec_byte_def PARSING_HEADER_def HTTP_MAX_HEADER_SIZE_def)
  have p: "pos s1 + 3 < length data" "length data = pos s1 + 4"
    using assms(3) s1(3) by simp_all
  show ?thesis
    unfolding s1(1) 1 2 exec_loop.simps [of m_settings data ?b] 3
    using p in1 s1(4) by (auto simp: message_done_reexecute exec_loop_end Let_def)
qed

text \<open>
  C17: A body in chunks is put together again: from the chunks, with any sizes written in hexadecimal
  digits, exactly their data are appended, and the message is complete with the chunk of size 0.
\<close>

theorem chunks_collected:
  assumes "hstate (m_httpParser h) = s_chunk_size_start" "herrno (m_httpParser h) = HPE_OK"
    and "has_flag F_CHUNKED (m_httpParser h)" "nread (m_httpParser h) = 0" "\<forall>x \<in> set xs. chunk_ok x"
  shows "\<exists>h'. HttpParser_Parse (concat (map chunk xs) @ [48, CR, LF, CR, LF]) h = Some (True, h') \<and>
    m_body (m_msg h') = m_body (m_msg h) @ concat (map snd xs) \<and> m_headers (m_msg h') = m_headers (m_msg h) \<and>
    HttpParser_IsComplete h'"
proof -
  let ?data = "concat (map chunk xs) @ [48, CR, LF, CR, LF]"
  let ?s = "\<lparr>hp = m_httpParser h, usr = m_msg h, pos = 0, p_state = s_chunk_size_start, marks = initial_marks s_chunk_size_start\<rparr>"
  have m: "initial_marks s_chunk_size_start = (\<lambda>_. None)"
    by (auto simp: initial_marks_def split: data_cb.split)
  have c: "coming ?data 0 (concat (map chunk xs))" "coming ?data (length (concat (map chunk xs))) [48, CR, LF, CR, LF]"
    using coming_append [of ?data 0] by (metis coming_all add_0)+
  obtain s1 where s1: "exec_loop m_settings ?data ?s = exec_loop m_settings ?data s1" "between_chunks s1"
    "pos s1 = length (concat (map chunk xs))" "usr s1 = add_body (concat (map snd xs)) (m_msg h)"
    using chunks_run [of ?s xs ?data] assms m c(1) unfolding between_chunks_def by auto
  obtain s2 pr where s2: "exec_loop m_settings ?data s1 = Break s2 \<or> exec_loop m_settings ?data s1 = Return s2 (length ?data)"
    "marks s2 = (\<lambda>_. None)" "herrno (hp s2) = HPE_OK" "usr s2 = completed pr (usr s1)"
    using last_chunk_run [OF s1(2), of ?data] c(2) s1(3) by auto
  have "http_parser_execute m_settings ?data (m_httpParser h) (m_msg h) = Some ((hp s2)\<lparr>hstate := p_state s2\<rparr>, usr s2, length ?data)"
    using assms(1,2) s1(1) s2(1) leftover_none [OF s2(2,3), of m_settings ?data]
    by (auto simp: http_parser_execute_def leave_ctl_def leave_def Let_def)
  then show ?thesis
    using s2(3,4) s1(4) by (auto simp: HttpParser_Parse_eq HttpParser_IsComplete_def add_body_def)
qed

theorem chunks_collected_witness:
  "\<exists>h'. HttpParser_Parse (chunk ([50], [7, 8]) @ [48, CR, LF, CR, LF])
      \<lparr>m_msg = m_msg (HttpParser_new 0),
       m_httpParser = (http_parser_init HTTP_BOTH)\<lparr>hstate := s_chunk_size_start, flags := F_CHUNKED\<rparr>\<rparr> = Some (True, h') \<and>
    m_body (m_msg h') = [7, 8] \<and> HttpParser_IsComplete h'"
  using chunks_collected [where xs = "[([50], [7, 8])]" and h = "\<lparr>m_msg = m_msg (HttpParser_new 0),
       m_httpParser = (http_parser_init HTTP_BOTH)\<lparr>hstate := s_chunk_size_start, flags := F_CHUNKED\<rparr>\<rparr>"]
  by (auto simp: http_parser_init_def HttpParser_new_def chunk_ok_def hex_digit_def unhex_def has_flag_def F_CHUNKED_def)

end
