(* ===== verification/Http_Encoder.thy ===== *)
theory Http_Encoder
  imports Http_Chars Std_Map
begin

text \<open>
  \<open>net/http/HttpEncoder.h\<close>: the class that prints requests and responses.
\<close>

datatype StatusCode =
    StatusCode_Unknown | StatusCode_200Ok | StatusCode_301MovedPermanently | StatusCode_400BadRequest
  | StatusCode_404NotFound | StatusCode_500ServerErr | StatusCode_101WebSocket

fun status_value :: "StatusCode \<Rightarrow> nat" where
  "status_value StatusCode_Unknown = 0"
| "status_value StatusCode_200Ok = 200"
| "status_value StatusCode_301MovedPermanently = 301"
| "status_value StatusCode_400BadRequest = 400"
| "status_value StatusCode_404NotFound = 404"
| "status_value StatusCode_500ServerErr = 500"
| "status_value StatusCode_101WebSocket = 101"

record HttpEncoder =
  e_headers :: "bytes std_map"
  e_statusCode :: StatusCode
  e_statusMessage :: bytes
  e_closeConnection :: bool
  e_body :: bytes
  e_method :: bytes
  e_url :: bytes
  e_parameters :: "bytes std_map"

definition HttpEncoder_new :: "bool \<Rightarrow> HttpEncoder" where
  "HttpEncoder_new close =
     \<lparr>e_headers = [], e_statusCode = StatusCode_Unknown, e_statusMessage = [], e_closeConnection = close,
      e_body = [], e_method = [], e_url = [], e_parameters = []\<rparr>"

definition SetStatusCode :: "StatusCode \<Rightarrow> HttpEncoder \<Rightarrow> HttpEncoder" where
  "SetStatusCode code e = e\<lparr>e_statusCode := code\<rparr>"

definition SetStatusMessage :: "bytes \<Rightarrow> HttpEncoder \<Rightarrow> HttpEncoder" where
  "SetStatusMessage message e = e\<lparr>e_statusMessage := message\<rparr>"

definition SetCloseConnection :: "bool \<Rightarrow> HttpEncoder \<Rightarrow> HttpEncoder" where
  "SetCloseConnection on e = e\<lparr>e_closeConnection := on\<rparr>"

definition AddHeader :: "bytes \<Rightarrow> bytes \<Rightarrow> HttpEncoder \<Rightarrow> HttpEncoder" where
  "AddHeader key v e = e\<lparr>e_headers := map_set key v (e_headers e)\<rparr>"

definition SetContentType :: "bytes \<Rightarrow> HttpEncoder \<Rightarrow> HttpEncoder" where
  "SetContentType contentType e = AddHeader (str ''Content-Type'') contentType e"

definition SetBody :: "bytes \<Rightarrow> HttpEncoder \<Rightarrow> HttpEncoder" where
  "SetBody bd e = e\<lparr>e_body := bd\<rparr>"

definition SetMethod :: "bytes \<Rightarrow> HttpEncoder \<Rightarrow> HttpEncoder" where
  "SetMethod method e = e\<lparr>e_method := method\<rparr>"

definition SetUrl :: "bytes \<Rightarrow> HttpEncoder \<Rightarrow> HttpEncoder" where
  "SetUrl u e = e\<lparr>e_url := u\<rparr>"

definition AddParameter :: "bytes \<Rightarrow> bytes \<Rightarrow> HttpEncoder \<Rightarrow> HttpEncoder" where
  "AddParameter key v e = e\<lparr>e_parameters := map_set key v (e_parameters e)\<rparr>"

section \<open>Printing\<close>

text \<open>A number in decimal.\<close>

fun dec_str :: "nat \<Rightarrow> bytes" where
  "dec_str n = (if n < 10 then [of_nat (48 + n)] else dec_str (n div 10) @ [of_nat (48 + n mod 10)])"

declare dec_str.simps [simp del]

abbreviation CRLF :: bytes where
  "CRLF \<equiv> [13, 10]"

definition print_header :: "bytes \<times> bytes \<Rightarrow> bytes" where
  "print_header kv = fst kv @ str '': '' @ snd kv @ CRLF"

definition AppendToStream :: "HttpEncoder \<Rightarrow> bytes" where
  "AppendToStream e =
     str ''Content-Length: '' @ dec_str (length (e_body e)) @ CRLF @
     (if e_closeConnection e then str ''Connection: close'' @ CRLF else str ''Connection: Keep-Alive'' @ CRLF) @
     concat (map print_header (e_headers e)) @
     CRLF @ e_body e"

definition GetReponseString :: "HttpEncoder \<Rightarrow> bytes" where
  "GetReponseString e =
     str ''HTTP/1.1 '' @ dec_str (status_value (e_statusCode e)) @ str '' '' @ e_statusMessage e @ CRLF @ AppendToStream e"

text \<open>The parameters: the first is introduced by a question mark, the others by an ampersand.\<close>

fun print_params :: "u8 \<Rightarrow> (bytes \<times> bytes) list \<Rightarrow> bytes" where
  "print_params sep [] = []"
| "print_params sep ((k, v) # ps) = sep # k @ ascii CHR ''='' # v @ print_params (ascii CHR ''&'') ps"

definition request_target :: "HttpEncoder \<Rightarrow> bytes" where
  "request_target e = e_url e @ print_params (ascii CHR ''?'') (e_parameters e)"

definition GetRequestString :: "HttpEncoder \<Rightarrow> bytes" where
  "GetRequestString e = e_method e @ str '' '' @ request_target e @ str '' HTTP/1.1'' @ CRLF @ AppendToStream e"

end
