(* ===== verification/Http_Session.thy ===== *)
theory Http_Session
  imports Http_Message Http_Encoder
begin

text \<open>
  What the encoder prints and what the message collector makes of it: parameters of a URL,
  header lines, and the message as a whole.
\<close>

section \<open>Parameters\<close>

lemma takeWhile_all: "c \<notin> set xs \<Longrightarrow> takeWhile (\<lambda>x. x \<noteq> c) xs = xs"
  by (induction xs) auto

lemma takeWhile_stop: "c \<notin> set xs \<Longrightarrow> takeWhile (\<lambda>x. x \<noteq> c) (xs @ c # ys) = xs"
  by (induction xs) auto

text \<open>Parameters that can be told apart: a key is not empty and has no equals sign, a value no ampersand.\<close>

definition param_ok :: "bytes \<times> bytes \<Rightarrow> bool" where
  "param_ok kv \<longleftrightarrow> fst kv \<noteq> [] \<and> ascii CHR ''='' \<notin> set (fst kv) \<and> ascii CHR ''&'' \<notin> set (snd kv)"

lemma params_loop_print:
  "list_all param_ok ps \<Longrightarrow> ps \<noteq> [] \<Longrightarrow> s = pre @ print_params sep ps \<Longrightarrow>
     params_loop s (length pre + 1) m = Some (std.set_all ps m)"
proof (induction ps arbitrary: pre sep m)
  case (Cons p ps)
  obtain k v where p: "p = (k, v)" by (cases p)
  have kv: "k \<noteq> []" "ascii CHR ''='' \<notin> set k" "ascii CHR ''&'' \<notin> set v" "list_all param_ok ps"
    using Cons.prems(1) p by (simp_all add: param_ok_def [of "(k, v)"])
  let ?e = "ascii CHR ''=''" and ?a = "ascii CHR ''&''"
  have s: "s = (pre @ [sep]) @ k @ ?e # v @ print_params ?a ps"
    using Cons.prems(3) p by simp
  have d1: "drop (length pre + 1) s = k @ ?e # v @ print_params ?a ps"
    unfolding s by simp
  have d2: "drop (length pre + 1 + length k + 1) s = v @ print_params ?a ps"
    unfolding s by simp
  have l: "length pre + 1 < length s"
    unfolding s using kv(1) by (cases k) auto
  have key: "GetStringBefore ?e s (length pre + 1) = Some k"
    using takeWhile_stop [OF kv(2)] l unfolding GetStringBefore_takeWhile d1 by simp
  show ?case
  proof (cases ps)
    case Nil
    have len: "length s = length pre + 1 + length k + 1 + length v"
      unfolding s Nil by simp
    have val: "GetStringBefore ?a s (length pre + 1 + length k + 1) = Some v"
      unfolding GetStringBefore_takeWhile d2 using takeWhile_all [OF kv(3)] len Nil by simp
    show ?thesis
      using l key val kv(1) len Nil p
      by (subst params_loop.simps) (auto simp: Let_def params_loop.simps)
  next
    case ps: (Cons q qs)
    obtain k2 v2 where q: "q = (k2, v2)" by (cases q)
    have pp: "print_params ?a ps = ?a # k2 @ ?e # v2 @ print_params ?a qs"
      using ps q by simp
    have l2: "length pre + 1 + length k + 1 < length s"
      unfolding s pp by simp
    have val: "GetStringBefore ?a s (length pre + 1 + length k + 1) = Some v"
      using takeWhile_stop [OF kv(3)] l2 unfolding GetStringBefore_takeWhile d2 pp by simp
    have "params_loop s (length pre + 1) m =
        params_loop s (length (pre @ [sep] @ k @ ?e # v) + 1) (map_set k v m)"
      using l key val l2 kv(1) by (subst params_loop.simps) (simp add: Let_def add.assoc)
    also have "\<dots> = Some (std.set_all ps (map_set k v m))"
      by (rule Cons.IH) (use kv(4) s ps in simp_all)
    finally show ?thesis
      using p by simp
  qed
qed simp

text \<open>Percent-decoding leaves strings without percent and plus signs alone.\<close>

lemma UrlDecode_plain: "37 \<notin> set s \<Longrightarrow> 43 \<notin> set s \<Longrightarrow> UrlDecode s = s"
  by (induction s rule: UrlDecode.induct) auto

lemma set_print_params:
  "set (print_params sep ps) \<subseteq> {sep, ascii CHR ''='', ascii CHR ''&''} \<union> (\<Union>(k, v) \<in> set ps. set k \<union> set v)"
  by (induction sep ps rule: print_params.induct) auto

lemma set_all_sorted:
  assumes "map_ok ps"
  shows "std.set_all ps [] = ps"
proof (rule map_ok_unique)
  show "map_ok (std.set_all ps [])"
    using std.ok_set_all [OF std.ok_empty] .
  have "map_of (rev ps) = map_of ps"
    using map_of_inject_set [of "rev ps" ps] map_ok_distinct [OF assms] by (simp add: rev_map [symmetric])
  then show "map_find k (std.set_all ps []) = map_find k ps" for k
    using std.find_set_all [OF std.ok_empty, of k ps] by (simp add: map_find_def split: option.split)
qed (rule assms)

text \<open>The target that was printed, as the message parser takes it apart.\<close>

lemma target_parts:
  assumes "map_ok (e_parameters e)" "list_all param_ok (e_parameters e)"
    and "ascii CHR ''?'' \<notin> set (e_url e)"
    and "{ascii CHR ''%'', ascii CHR ''+''} \<inter> set (request_target e) = {}"
  shows "UrlDecode (request_target e) = request_target e"
    "GetStringBefore (ascii CHR ''?'') (request_target e) 0 = Some (e_url e)"
    "params_loop (request_target e) (length (e_url e) + 1) [] = Some (e_parameters e)"
proof -
  show "UrlDecode (request_target e) = request_target e"
    using UrlDecode_plain [of "request_target e"] assms(4) by simp
  show "GetStringBefore (ascii CHR ''?'') (request_target e) 0 = Some (e_url e)"
  proof (cases "e_parameters e")
    case Nil
    then show ?thesis
      using takeWhile_all [OF assms(3)] by (simp add: GetStringBefore_takeWhile request_target_def)
  next
    case (Cons p ps)
    then show ?thesis
      using takeWhile_stop [OF assms(3)] by (cases p) (simp add: GetStringBefore_takeWhile request_target_def)
  qed
  show "params_loop (request_target e) (length (e_url e) + 1) [] = Some (e_parameters e)"
  proof (cases "e_parameters e = []")
    case True
    then show ?thesis
      by (subst params_loop.simps) (simp add: request_target_def)
  next
    case False
    then show ?thesis
      using params_loop_print [OF assms(2) False request_target_def] set_all_sorted [OF assms(1)] by simp
  qed
qed

text \<open>
  What the encoder prints as the target of a request is split by the message parser into the same
  URL and the same parameters, as long as no part contains a percent or plus sign, the URL no
  question mark, the keys no equals sign and are not empty, and the values no ampersand.
\<close>

theorem target_roundtrip:
  assumes "map_ok (e_parameters e)" "list_all param_ok (e_parameters e)"
    and "ascii CHR ''?'' \<notin> set (e_url e)"
    and "{ascii CHR ''%'', ascii CHR ''+''} \<inter> set (request_target e) = {}"
    and "m_parameters m = []" "m_urlAndParams m = request_target e"
  shows "\<exists>m'. ParseUrlAndParam m = Some m' \<and> m_url m' = e_url e \<and> m_parameters m' = e_parameters e"
  using target_parts [OF assms(1-4)] assms(5,6) by (simp add: ParseUrlAndParam_def Let_def)

theorem target_roundtrip_witness:
  "let e = AddParameter (str ''k'') (str ''v'') (SetUrl (str ''/p'') (HttpEncoder_new False));
       m = (m_msg (HttpParser_new 0))\<lparr>m_urlAndParams := request_target e\<rparr>
   in \<exists>m'. ParseUrlAndParam m = Some m' \<and> m_url m' = str ''/p'' \<and> m_parameters m' = [(str ''k'', str ''v'')]"
proof -
  let ?e = "AddParameter (str ''k'') (str ''v'') (SetUrl (str ''/p'') (HttpEncoder_new False))"
  let ?m = "(m_msg (HttpParser_new 0))\<lparr>m_urlAndParams := request_target ?e\<rparr>"
  have e: "e_parameters ?e = [(str ''k'', str ''v'')]" "e_url ?e = str ''/p''"
    by (simp_all add: AddParameter_def SetUrl_def HttpEncoder_new_def)
  have "\<exists>m'. ParseUrlAndParam ?m = Some m' \<and> m_url m' = e_url ?e \<and> m_parameters m' = e_parameters ?e"
    by (rule target_roundtrip)
      (simp_all add: request_target_def param_ok_def map_ok_def str_def HttpParser_new_def AddParameter_def SetUrl_def
        HttpEncoder_new_def)
  then show ?thesis
    by (simp add: e Let_def)
qed

section \<open>Header lines\<close>

text \<open>The callbacks for header lines that arrive in one piece each.\<close>

definition header_callbacks :: "http_parser \<Rightarrow> (bytes \<times> bytes) list \<Rightarrow> http_msg \<Rightarrow> http_msg" where
  "header_callbacks pr kvs m =
     fold (\<lambda>(k, v) m. snd (snd (OnHeaderValue pr v (snd (snd (OnHeaderName pr k m)))))) kvs m"

lemma headers_stored:
  assumes "\<forall>(k, v) \<in> set kvs. k \<noteq> []" "m_headerState m \<in> {HeaderState_None, HeaderState_HasName}"
  shows "m_headers (header_callbacks pr kvs m) = std.set_all (filter (\<lambda>(k, v). v \<noteq> []) kvs) (m_headers m)"
  using assms
proof (induction kvs arbitrary: m)
  case (Cons x kvs)
  obtain k v where x: "x = (k, v)" by (cases x)
  let ?n = "snd (snd (OnHeaderName pr k m))"
  have n: "m_headerState ?n = HeaderState_HasName" "m_headers ?n = m_headers m" "m_headerName ?n = k"
    using Cons.prems x by (auto simp: OnHeaderName_def store_header_def)
  let ?v = "snd (snd (OnHeaderValue pr v ?n))"
  have v: "m_headerState ?v \<in> {HeaderState_None, HeaderState_HasName}"
    "m_headers ?v = (if v = [] then m_headers m else map_set k v (m_headers m))"
    using n by (auto simp: OnHeaderValue_def store_header_def)
  have "header_callbacks pr (x # kvs) m = header_callbacks pr kvs ?v"
    using x by (simp add: header_callbacks_def)
  then show ?case
    using Cons.IH [OF _ v(1)] Cons.prems(1) v(2) x by simp
qed (simp add: header_callbacks_def)

lemma header_callbacks_keeps [simp]:
  "m_urlAndParams (header_callbacks pr kvs m) = m_urlAndParams m" "m_body (header_callbacks pr kvs m) = m_body m"
  "m_parameters (header_callbacks pr kvs m) = m_parameters m"
proof -
  have 1: "m_urlAndParams (store_header m) = m_urlAndParams m" "m_body (store_header m) = m_body m"
    "m_parameters (store_header m) = m_parameters m" for m
    by (simp_all add: store_header_def)
  show "m_urlAndParams (header_callbacks pr kvs m) = m_urlAndParams m" "m_body (header_callbacks pr kvs m) = m_body m"
    "m_parameters (header_callbacks pr kvs m) = m_parameters m"
    unfolding header_callbacks_def
    by (induction kvs arbitrary: m) (auto simp: OnHeaderName_def OnHeaderValue_def 1)
qed

text \<open>
  When the name and the value of every header arrive in one piece, the headers that are
  collected are those with a value, the last one winning where a name occurs twice.
\<close>

theorem headers_collected:
  assumes "\<forall>(k, v) \<in> set kvs. k \<noteq> []" "m_headerState m = HeaderState_None" "map_ok (m_headers m)"
  shows "map_find k (m_headers (header_callbacks pr kvs m)) =
    (case map_of (rev (filter (\<lambda>(k, v). v \<noteq> []) kvs)) k of Some v \<Rightarrow> Some v | None \<Rightarrow> map_find k (m_headers m))"
  using headers_stored [OF assms(1)] assms(2) std.find_set_all [OF assms(3)] by simp

theorem headers_collected_witness:
  "map_find (str ''B'') (m_headers (header_callbacks (http_parser_init HTTP_BOTH)
     [(str ''A'', str ''x''), (str ''B'', str ''y'')] (m_msg (HttpParser_new 0)))) = Some (str ''y'')"
  using headers_collected [of "[(str ''A'', str ''x''), (str ''B'', str ''y'')]" "m_msg (HttpParser_new 0)" "str ''B''"
      "http_parser_init HTTP_BOTH"]
  by (simp add: HttpParser_new_def map_ok_def str_def)

text \<open>
  When the value \<open>xy\<close> of the first header arrives in two pieces (the buffer ended between
  them), its second piece is stored as the value of the next header.
\<close>

theorem header_split_shifts:
  "let pr = http_parser_init HTTP_BOTH;
       name = (\<lambda>s m. snd (snd (OnHeaderName pr (str s) m)));
       val = (\<lambda>s m. snd (snd (OnHeaderValue pr (str s) m)));
       m = val ''z'' (name ''B'' (val ''y'' (val ''x'' (name ''A'' (m_msg (HttpParser_new 0))))))
   in m_headers m = [(str ''A'', str ''x''), (str ''B'', str ''y'')]"
  by (simp add: Let_def OnHeaderName_def OnHeaderValue_def store_header_def HttpParser_new_def str_def)

end
