(* ===== verification/Http_Name.thy ===== *)
theory Http_Name
  imports Http_Body Http_Session
begin

text \<open>
  The names of headers: the automaton of the streaming parser that recognises, character by character,
  the names it acts on.
\<close>

section \<open>Names\<close>

text \<open>A proper beginning of a name, and the state of the automaton after the characters \<open>l\<close> (in lower case).\<close>

definition begins :: "bytes \<Rightarrow> bytes \<Rightarrow> bool" where
  "begins l X \<longleftrightarrow> length l < length X \<and> take (length l) X = l"

definition name_state :: "bytes \<Rightarrow> header_states" where
  "name_state l =
     (if l = CONNECTION \<or> l = PROXY_CONNECTION then h_connection
      else if l = CONTENT_LENGTH then h_content_length
      else if l = TRANSFER_ENCODING then h_transfer_encoding
      else if l = UPGRADE then h_upgrade
      else if l = str ''c'' then h_C
      else if l = str ''co'' then h_CO
      else if l = str ''con'' then h_CON
      else if begins l CONNECTION then h_matching_connection
      else if begins l PROXY_CONNECTION then h_matching_proxy_connection
      else if begins l CONTENT_LENGTH then h_matching_content_length
      else if begins l TRANSFER_ENCODING then h_matching_transfer_encoding
      else if begins l UPGRADE then h_matching_upgrade
      else h_general)"

lemmas name_defs = CONNECTION_def PROXY_CONNECTION_def CONTENT_LENGTH_def TRANSFER_ENCODING_def UPGRADE_def str_def

lemma begins_snoc: "begins (l @ [c]) X \<or> l @ [c] = X \<Longrightarrow> begins l X"
proof -
  assume a: "begins (l @ [c]) X \<or> l @ [c] = X"
  then have "take (length l + 1) X = l @ [c]" "length l < length X"
    by (auto simp: begins_def)
  then have "take (length l) (take (length l + 1) X) = l"
    by simp
  then show "begins l X"
    using \<open>length l < length X\<close> by (simp add: begins_def)
qed

lemma begins_cases: "begins l X \<Longrightarrow> l \<in> set (map (\<lambda>i. take i X) [0..<length X])"
  by (auto simp: begins_def image_iff intro!: bexI [of _ "length l"])

lemma begins_con: "begins (str ''c'') CONNECTION" "begins (str ''co'') CONNECTION" "begins (str ''con'') CONNECTION"
  by (simp_all add: begins_def name_defs)

definition known_names :: "bytes list" where
  "known_names = [CONNECTION, PROXY_CONNECTION, CONTENT_LENGTH, TRANSFER_ENCODING, UPGRADE]"

lemma name_state_general_iff: "name_state l = h_general \<longleftrightarrow> (\<forall>X \<in> set known_names. \<not> begins l X \<and> l \<noteq> X)"
  using begins_con by (auto simp: name_state_def known_names_def)

lemma name_state_general: "name_state l = h_general \<Longrightarrow> name_state (l @ [c]) = h_general"
  using begins_snoc [of l c] unfolding name_state_general_iff by blast

lemma name_bytes:
  "CONNECTION = [99, 111, 110, 110, 101, 99, 116, 105, 111, 110]"
  "PROXY_CONNECTION = [112, 114, 111, 120, 121, 45, 99, 111, 110, 110, 101, 99, 116, 105, 111, 110]"
  "CONTENT_LENGTH = [99, 111, 110, 116, 101, 110, 116, 45, 108, 101, 110, 103, 116, 104]"
  "TRANSFER_ENCODING = [116, 114, 97, 110, 115, 102, 101, 114, 45, 101, 110, 99, 111, 100, 105, 110, 103]"
  "UPGRADE = [117, 112, 103, 114, 97, 100, 101]"
  "str ''c'' = [99]" "str ''co'' = [99, 111]" "str ''con'' = [99, 111, 110]"
  by (simp_all add: name_defs)

lemma known_apart: "\<forall>X \<in> set known_names. \<forall>Y \<in> set known_names. \<not> begins X Y"
  by code_simp

lemma known_distinct [simp]:
  "CONNECTION \<noteq> PROXY_CONNECTION" "CONNECTION \<noteq> CONTENT_LENGTH" "CONNECTION \<noteq> TRANSFER_ENCODING" "CONNECTION \<noteq> UPGRADE"
  "PROXY_CONNECTION \<noteq> CONTENT_LENGTH" "PROXY_CONNECTION \<noteq> TRANSFER_ENCODING" "PROXY_CONNECTION \<noteq> UPGRADE"
  "CONTENT_LENGTH \<noteq> TRANSFER_ENCODING" "CONTENT_LENGTH \<noteq> UPGRADE" "TRANSFER_ENCODING \<noteq> UPGRADE"
  by (simp_all add: name_bytes)

lemmas known_distinct_sym [simp] = known_distinct [THEN not_sym]

lemma known_nth:
  "CONNECTION ! 0 = 99" "PROXY_CONNECTION ! 0 = 112" "CONTENT_LENGTH ! 0 = 99" "TRANSFER_ENCODING ! 0 = 116" "UPGRADE ! 0 = 117"
  "CONNECTION ! 3 = 110" "CONTENT_LENGTH ! 3 = 116"
  by (simp_all add: name_bytes)

lemma known_first:
  assumes "X \<in> set known_names" "Y \<in> set known_names" "X \<noteq> Y" "X ! 0 = Y ! 0"
  shows "{X, Y} = {CONNECTION, CONTENT_LENGTH}"
  using assms unfolding known_names_def by (auto simp: known_nth)

definition matching :: "bytes \<Rightarrow> header_states" where
  "matching X =
     (if X = CONNECTION then h_matching_connection
      else if X = PROXY_CONNECTION then h_matching_proxy_connection
      else if X = CONTENT_LENGTH then h_matching_content_length
      else if X = TRANSFER_ENCODING then h_matching_transfer_encoding
      else h_matching_upgrade)"

definition matched :: "bytes \<Rightarrow> header_states" where
  "matched X =
     (if X = CONNECTION \<or> X = PROXY_CONNECTION then h_connection
      else if X = CONTENT_LENGTH then h_content_length
      else if X = TRANSFER_ENCODING then h_transfer_encoding
      else h_upgrade)"

text \<open>The prefixes on which the names with a common beginning are told apart have states of their own.\<close>

abbreviation shared :: "bytes set" where
  "shared \<equiv> {str ''c'', str ''co'', str ''con''}"

lemma begins_nth: "begins l X \<Longrightarrow> j < length l \<Longrightarrow> X ! j = l ! j"
  unfolding begins_def by (metis nth_take)

lemma begins_two:
  assumes "begins l X" "begins l Y" "X \<in> set known_names" "Y \<in> set known_names" "X \<noteq> Y" "l \<noteq> []"
  shows "l \<in> shared"
proof -
  have "X ! j = Y ! j" if "j < length l" for j
    using begins_nth [OF assms(1) that] begins_nth [OF assms(2) that] by simp
  then have "X ! 0 = Y ! 0" "3 < length l \<Longrightarrow> X ! 3 = Y ! 3"
    using assms(6) by auto
  moreover from this have XY: "{X, Y} = {CONNECTION, CONTENT_LENGTH}"
    using known_first [OF assms(3-5)] by simp
  ultimately have "\<not> 3 < length l"
    using known_nth(6,7) by (auto simp: doubleton_eq_iff)
  moreover have "0 < length l"
    using assms(6) by simp
  moreover have "begins l CONNECTION"
    using XY assms(1,2) unfolding doubleton_eq_iff by blast
  ultimately have "l = take (length l) CONNECTION" "length l = 1 \<or> length l = 2 \<or> length l = 3"
    by (simp add: begins_def, arith)
  then show ?thesis
    by (elim disjE) (simp_all add: name_bytes)
qed

lemma shared_snoc: "l \<noteq> [] \<Longrightarrow> l @ [c] \<in> shared \<Longrightarrow> l \<in> shared"
  by (auto simp: name_bytes append_eq_Cons_conv)

lemma name_state_begins:
  assumes "X \<in> set known_names" "begins l X" "l \<noteq> []" "l \<notin> shared"
  shows "name_state l = matching X"
proof -
  have "l \<notin> set known_names"
    using known_apart assms(1,2) by blast
  then have k: "l \<noteq> CONNECTION" "l \<noteq> PROXY_CONNECTION" "l \<noteq> CONTENT_LENGTH" "l \<noteq> TRANSFER_ENCODING" "l \<noteq> UPGRADE"
    by (simp_all add: known_names_def)
  have "\<forall>Y \<in> set known_names. begins l Y \<longleftrightarrow> Y = X"
    using begins_two [OF assms(2) _ assms(1)] assms(2-4) by blast
  then have b: "begins l CONNECTION \<longleftrightarrow> CONNECTION = X" "begins l PROXY_CONNECTION \<longleftrightarrow> PROXY_CONNECTION = X"
    "begins l CONTENT_LENGTH \<longleftrightarrow> CONTENT_LENGTH = X" "begins l TRANSFER_ENCODING \<longleftrightarrow> TRANSFER_ENCODING = X"
    "begins l UPGRADE \<longleftrightarrow> UPGRADE = X"
    by (simp_all only: known_names_def list.set ball_simps insert_iff)
  show ?thesis
    using assms(1,4) unfolding name_state_def matching_def b
    by (simp only: k insert_iff empty_iff known_names_def list.set if_False if_True simp_thms) auto
qed

lemma name_state_known: "X \<in> set known_names \<Longrightarrow> name_state X = matched X"
  by (auto simp: known_names_def name_bytes name_state_def matched_def)

lemma name_state_shared:
  "name_state [99] = h_C" "name_state [99, 111] = h_CO" "name_state [99, 111, 110] = h_CON"
  "name_state [99, c] = (if c = 111 then h_CO else h_general)"
  "name_state [99, 111, c] = (if c = 110 then h_CON else h_general)"
  "name_state [99, 111, 110, c] = (if c = 110 then h_matching_connection else if c = 116 then h_matching_content_length else h_general)"
  by (simp_all add: name_state_def name_bytes begins_def)

text \<open>One more character of a name.\<close>

definition name_step :: "bytes \<Rightarrow> u8 \<Rightarrow> http_parser \<Rightarrow> nat \<Rightarrow> http_parser" where
  "name_step l c pr i =
     (let pr' = pr\<lparr>index := i, header_state := name_state (l @ [c])\<rparr> in
      if l @ [c] = CONTENT_LENGTH then add_flag F_CONTENTLENGTH pr' else pr')"

lemma known_length: "X \<in> set known_names \<Longrightarrow> length X < 20 \<and> 3 < length X"
  unfolding known_names_def by (auto simp: name_bytes)

lemma match_name_step:
  assumes "X \<in> set known_names" "begins l X" "l \<noteq> []" "l \<notin> shared" "index pr = length l - 1" "header_state pr = matching X"
  shows "match_name X (matched X) c pr = pr\<lparr>index := length l, header_state := name_state (l @ [c])\<rparr>"
proof -
  have l: "length l < length X" "length X < 20" "take (length l) X = l"
    using assms(1,2) known_length by (auto simp: begins_def)
  have i: "index (next_index pr) = length l"
    using l assms(3,5) by (cases l) (simp_all add: next_index_def)
  have c: "cstr_at X (length l) = X ! length l"
    using l(1) by (simp add: cstr_at_def)
  have t: "take (Suc (length l)) X = l @ [X ! length l]"
    using take_Suc_conv_app_nth [OF l(1)] l(3) by simp
  show ?thesis
  proof (cases "c = X ! length l")
    case False
    have "\<not> (begins (l @ [c]) Y \<or> l @ [c] = Y)" if "Y \<in> set known_names" for Y
    proof
      assume a: "begins (l @ [c]) Y \<or> l @ [c] = Y"
      then have "begins l Y"
        by (rule begins_snoc)
      then have "Y = X"
        using begins_two [OF assms(2) _ assms(1) that] assms(3,4) by blast
      then have "take (Suc (length l)) X = l @ [c]"
        using a by (auto simp: begins_def)
      then show False
        using t False by simp
    qed
    then have "name_state (l @ [c]) = h_general"
      by (simp add: name_state_general_iff)
    then show ?thesis
      using False i c l by (simp add: match_name_def Let_def next_index_def)
  next
    case True
    then have t': "take (Suc (length l)) X = l @ [c]" using t by simp
    have s: "l @ [c] \<notin> shared"
      using shared_snoc [OF assms(3)] assms(4) by blast
    show ?thesis
    proof (cases "Suc (length l) = length X")
      case eq: True
      then have "l @ [c] = X"
        using t' by simp
      then show ?thesis
        using i c l True eq name_state_known [OF assms(1)] by (simp add: match_name_def Let_def next_index_def)
    next
      case ne: False
      then have "begins (l @ [c]) X"
        using t' l by (simp add: begins_def)
      then have "name_state (l @ [c]) = matching X"
        using name_state_begins [OF assms(1)] s by simp
      then show ?thesis
        using i c l True ne assms(6) by (simp add: match_name_def Let_def next_index_def)
    qed
  qed
qed

lemma name_char_matching:
  assumes X: "X \<in> set known_names" "begins l X" "l \<noteq> []" "l \<notin> shared"
    and hs: "header_state pr = matching X" "index pr = length l - 1" "l @ [c] = CONTENT_LENGTH \<longrightarrow> \<not> has_flag F_CONTENTLENGTH pr"
  shows "header_field_char ch c pr = Go (name_step l c pr (length l))"
proof -
  note m = match_name_step [OF X hs(2,1), of c]
  have other: "l @ [c] \<noteq> CONTENT_LENGTH" if "X \<noteq> CONTENT_LENGTH"
    using begins_snoc [of l c CONTENT_LENGTH] begins_two [OF X(2) _ X(1) _ that X(3)] X(4) by (auto simp: known_names_def)
  consider "X = CONNECTION" | "X = PROXY_CONNECTION" | "X = CONTENT_LENGTH" | "X = TRANSFER_ENCODING" | "X = UPGRADE"
    using X(1) by (auto simp: known_names_def)
  then show ?thesis
  proof cases
    case 3
    have "name_state (l @ [c]) = h_content_length \<longleftrightarrow> l @ [c] = CONTENT_LENGTH"
      by (simp add: name_state_def)
    then show ?thesis
      using m hs 3 by (simp add: header_field_char_def name_step_def matching_def matched_def Let_def)
  qed (use m hs other in \<open>simp_all add: header_field_char_def name_step_def matching_def matched_def Let_def\<close>)
qed

lemma name_char_shared:
  assumes "l \<in> shared" "header_state pr = name_state l" "index pr = length l - 1"
  shows "header_field_char ch c pr = Go (name_step l c pr (length l))"
proof -
  have l: "l = [99] \<or> l = [99, 111] \<or> l = [99, 111, 110]"
    using assms(1) by (simp add: name_bytes)
  then have "l @ [c] \<noteq> CONTENT_LENGTH"
    by (auto simp: name_bytes)
  then have "name_step l c pr (length l) = pr\<lparr>index := length l, header_state := name_state (l @ [c])\<rparr>"
    by (simp add: name_step_def)
  then show ?thesis
    using l assms(2,3)
    by (elim disjE) (simp_all add: header_field_char_def name_state_shared next_index_def)
qed

lemma name_char:
  assumes hs: "header_state pr = name_state l" "name_state l \<noteq> h_general \<longrightarrow> index pr = length l - 1"
    and l: "l \<noteq> []" "ch \<noteq> ascii CHR '' ''" "l @ [c] = CONTENT_LENGTH \<longrightarrow> \<not> has_flag F_CONTENTLENGTH pr"
  shows "\<exists>i. header_field_char ch c pr = Go (name_step l c pr i) \<and> (name_state (l @ [c]) \<noteq> h_general \<longrightarrow> i = length l)"
proof (cases "name_state l = h_general")
  case True
  then have "l @ [c] \<noteq> CONTENT_LENGTH"
    using name_state_general [OF True, of c] by (auto simp: name_state_general_iff known_names_def)
  then show ?thesis
    using True hs(1) name_state_general [OF True, of c]
    by (intro exI [of _ "index pr"]) (simp add: header_field_char_def name_step_def Let_def)
next
  case False
  then have i: "index pr = length l - 1"
    using hs(2) by simp
  from False consider X where "X \<in> set known_names" "l = X" | "l \<in> shared"
    | X where "X \<in> set known_names" "begins l X" "l \<notin> shared"
    by (auto simp: name_state_general_iff)
  then show ?thesis
  proof cases
    case (1 X)
    have "\<not> (begins (l @ [c]) Y \<or> l @ [c] = Y)" if "Y \<in> set known_names" for Y
      using begins_snoc [of l c Y] known_apart 1 that by blast
    then have g: "name_state (l @ [c]) = h_general" "l @ [c] \<noteq> CONTENT_LENGTH"
      by (auto simp: name_state_general_iff known_names_def)
    have "header_state pr = matched X"
      using hs(1) name_state_known [OF 1(1)] 1(2) by simp
    then show ?thesis
      using g l(2) by (intro exI [of _ "index pr"]) (auto simp: header_field_char_def name_step_def Let_def matched_def)
  next
    case 2
    then show ?thesis
      using name_char_shared [OF 2 hs(1) i] by blast
  next
    case (3 X)
    then show ?thesis
      using name_char_matching [OF 3(1,2) l(1) 3(3) _ i l(3)] name_state_begins [OF 3(1,2) l(1) 3(3)] hs(1) by auto
  qed
qed

text \<open>
  The loop over the rest of a name. The flag for a content length is set when the characters so far
  are that name, whatever follows.
\<close>

definition sets_length :: "bytes \<Rightarrow> bytes \<Rightarrow> bool" where
  "sets_length l l' \<longleftrightarrow> length l < length CONTENT_LENGTH \<and> take (length CONTENT_LENGTH) (l @ l') = CONTENT_LENGTH"

definition after_name :: "bytes \<Rightarrow> bytes \<Rightarrow> nat \<Rightarrow> http_parser \<Rightarrow> http_parser" where
  "after_name l l' i pr =
     (let pr' = pr\<lparr>index := i, header_state := name_state (l @ l')\<rparr> in
      if sets_length l l' then add_flag F_CONTENTLENGTH pr' else pr')"

lemma sets_length_Cons: "sets_length l (c # l') \<longleftrightarrow> l @ [c] = CONTENT_LENGTH \<or> sets_length (l @ [c]) l'"
proof (cases "Suc (length l) = length CONTENT_LENGTH")
  case True
  then have "take (length CONTENT_LENGTH) (l @ c # l') = l @ [c]"
    by (simp add: True [symmetric] take_Cons')
  then show ?thesis
    using True by (simp add: sets_length_def)
next
  case False
  then have "l @ [c] \<noteq> CONTENT_LENGTH"
    by (metis length_append_singleton)
  then show ?thesis
    using False by (auto simp: sets_length_def)
qed

lemma sets_length_Nil [simp]: "\<not> sets_length l []"
  by (auto simp: sets_length_def)

lemma sets_length_once [simp]: "\<not> sets_length CONTENT_LENGTH l'"
  by (simp add: sets_length_def)

lemma name_loop:
  assumes "header_state pr = name_state l" "name_state l \<noteq> h_general \<longrightarrow> index pr = length l - 1" "l \<noteq> []"
    and "coming data p (ks @ [58])" "\<forall>c \<in> set ks. TOKEN c \<noteq> 0"
    and "sets_length l (map TOKEN ks) \<longrightarrow> \<not> has_flag F_CONTENTLENGTH pr"
  shows "\<exists>i. header_field_loop data p pr = (p + length ks, Go (after_name l (map TOKEN ks) i pr))"
  using assms
proof (induction ks arbitrary: p l pr)
  case Nil
  have "TOKEN 58 = 0"
    by (simp add: TOKEN_def tokens_def)
  then show ?case
    using Nil by (intro exI [of _ "index pr"]) (simp add: header_field_loop.simps after_name_def)
next
  case (Cons ch ks)
  let ?c = "TOKEN ch"
  have sp: "ch \<noteq> ascii CHR '' ''"
    using Cons.prems(5) by (auto simp: TOKEN_def tokens_def)
  obtain i where i: "header_field_char ch ?c pr = Go (name_step l ?c pr i)" "name_state (l @ [?c]) \<noteq> h_general \<longrightarrow> i = length l"
    using name_char [OF Cons.prems(1-3) sp] Cons.prems(6) by (auto simp: sets_length_Cons)
  let ?pr = "name_step l ?c pr i"
  have "\<exists>j. header_field_loop data (Suc p) ?pr = (Suc p + length ks, Go (after_name (l @ [?c]) (map TOKEN ks) j ?pr))"
  proof (rule Cons.IH)
    show "header_state ?pr = name_state (l @ [?c])" "name_state (l @ [?c]) \<noteq> h_general \<longrightarrow> index ?pr = length (l @ [?c]) - 1"
      using i(2) by (simp_all add: name_step_def Let_def add_flag_def)
    show "coming data (Suc p) (ks @ [58])" "\<forall>c \<in> set ks. TOKEN c \<noteq> 0"
      using Cons.prems(4,5) by simp_all
    show "sets_length (l @ [?c]) (map TOKEN ks) \<longrightarrow> \<not> has_flag F_CONTENTLENGTH ?pr"
      using Cons.prems(6) by (auto simp: sets_length_Cons name_step_def Let_def has_flag_def)
  qed simp
  then obtain j where j: "header_field_loop data (Suc p) ?pr = (Suc p + length ks, Go (after_name (l @ [?c]) (map TOKEN ks) j ?pr))" ..
  moreover have "after_name (l @ [?c]) (map TOKEN ks) j ?pr = after_name l (?c # map TOKEN ks) j pr"
    by (auto simp: after_name_def name_step_def sets_length_Cons Let_def add_flag_def)
  ultimately show ?case
    using i(1) Cons.prems(4,5) by (subst header_field_loop.simps) (auto simp: Let_def)
qed

end
