(* ===== verification/Http_Header.thy ===== *)
theory Http_Header
  imports Http_Name
begin

text \<open>
  Header lines: the names and values the streaming parser reads, and what a whole line does to the parser and to the
  collected message.
\<close>

section \<open>The parser in the head of a message\<close>

text \<open>
  What stays the same while the header lines are read, and the parser between two of their parts. The
  count of bytes is at most twice the position, since the bytes of a name and of a value are
  counted a second time at their ends.
\<close>

definition constants :: "http_parser \<Rightarrow> http_parser_type \<times> http_method \<times> nat \<times> nat \<times> nat" where
  "constants pr = (ptype pr, hmethod pr, status_code pr, http_major pr, http_minor pr)"

definition in_head ::
  "state \<Rightarrow> u8 \<Rightarrow> u64 \<Rightarrow> http_parser_type \<times> http_method \<times> nat \<times> nat \<times> nat \<Rightarrow> 'u \<Rightarrow> nat \<Rightarrow> 'u exec \<Rightarrow> bool" where
  "in_head st fl cl k u p s \<longleftrightarrow>
     p_state s = st \<and> flags (hp s) = fl \<and> content_length (hp s) = cl \<and> constants (hp s) = k \<and> usr s = u \<and> pos s = p \<and>
     herrno (hp s) = HPE_OK \<and> \<not> lenient_http_headers (hp s) \<and> marks s = (\<lambda>_. None) \<and> unat (nread (hp s)) \<le> 2 * p"

lemma constants_upd [simp]:
  "constants (pr\<lparr>nread := n\<rparr>) = constants pr" "constants (pr\<lparr>index := i\<rparr>) = constants pr"
  "constants (pr\<lparr>header_state := h\<rparr>) = constants pr" "constants (pr\<lparr>hstate := st\<rparr>) = constants pr"
  "constants (pr\<lparr>flags := fl\<rparr>) = constants pr" "constants (pr\<lparr>content_length := cl\<rparr>) = constants pr"
  "constants (add_flag f pr) = constants pr" "constants (pr\<lparr>upgrade := b\<rparr>) = constants pr"
  by (simp_all add: constants_def add_flag_def)

lemma COUNT_HEADER_SIZE_many:
  assumes "unat (nread (hp s)) + v \<le> HTTP_MAX_HEADER_SIZE"
  shows "COUNT_HEADER_SIZE v s k = k (s\<lparr>hp := (hp s)\<lparr>nread := nread (hp s) + of_nat v\<rparr>\<rparr>)"
    "unat (nread (hp s) + of_nat v) = unat (nread (hp s)) + v"
proof -
  have "unat (of_nat v :: u32) = v"
    using assms by (simp add: unat_of_nat HTTP_MAX_HEADER_SIZE_def)
  then show u: "unat (nread (hp s) + of_nat v) = unat (nread (hp s)) + v"
    using assms by (simp add: unat_word_ariths HTTP_MAX_HEADER_SIZE_def)
  then show "COUNT_HEADER_SIZE v s k = k (s\<lparr>hp := (hp s)\<lparr>nread := nread (hp s) + of_nat v\<rparr>\<rparr>)"
    using assms by (simp add: COUNT_HEADER_SIZE_def on_hp_def Let_def)
qed

lemma nread_Suc: "unat (nread pr) < HTTP_MAX_HEADER_SIZE \<Longrightarrow> unat (nread pr + 1) = Suc (unat (nread pr))"
  by (simp add: unat_word_ariths HTTP_MAX_HEADER_SIZE_def)

text \<open>The callbacks for names and values.\<close>

definition with_name :: "bytes \<Rightarrow> http_msg \<Rightarrow> http_msg" where
  "with_name k m = snd (snd (OnHeaderName undefined k m))"

definition with_value :: "bytes \<Rightarrow> http_msg \<Rightarrow> http_msg" where
  "with_value v m = snd (snd (OnHeaderValue undefined v m))"

lemma OnHeaderName_with: "OnHeaderName pr k m = (0, False, with_name k m)"
  by (simp add: with_name_def OnHeaderName_def)

lemma OnHeaderValue_with: "OnHeaderValue pr v m = (0, False, with_value v m)"
  by (simp add: with_value_def OnHeaderValue_def)

text \<open>The first character of a name.\<close>

lemma name_first:
  assumes "in_head s_header_field_start fl cl k u p s" "p < length data" "TOKEN (data ! p) \<noteq> 0" "2 * p < HTTP_MAX_HEADER_SIZE"
  shows "exec_loop m_settings data s = exec_loop m_settings data
    (s\<lparr>hp := (hp s)\<lparr>nread := nread (hp s) + 1, index := 0, header_state := name_state [TOKEN (data ! p)]\<rparr>,
       p_state := s_header_field, marks := (\<lambda>_. None)(header_field := Some p), pos := Suc p\<rparr>)"
proof -
  let ?c = "TOKEN (data ! p)"
  have h: "name_state [?c] = (if ?c = ascii CHR ''c'' then h_C
                   else if ?c = ascii CHR ''p'' then h_matching_proxy_connection
                   else if ?c = ascii CHR ''t'' then h_matching_transfer_encoding
                   else if ?c = ascii CHR ''u'' then h_matching_upgrade
                   else h_general)"
    by (simp add: name_state_def name_bytes begins_def)
  have n: "data ! p \<noteq> CR" "data ! p \<noteq> LF"
    using assms(3) by (auto simp: TOKEN_def tokens_def CR_def LF_def)
  let ?s = "s\<lparr>hp := (hp s)\<lparr>nread := nread (hp s) + 1, index := 0, header_state := name_state [?c]\<rparr>,
       p_state := s_header_field, marks := (\<lambda>_. None)(header_field := Some p)\<rparr>"
  have "reexecute m_settings data (s\<lparr>hp := (hp s)\<lparr>nread := nread (hp s) + 1\<rparr>\<rparr>) = Break ?s"
    using assms n unfolding h
    by (subst reexecute_dispatch) (auto simp: dispatch_def exec_header_field_start_def prim_defs in_head_def)
  then show ?thesis
    using loop_header [of s data m_settings ?s] assms by (simp add: in_head_def PARSING_HEADER_def)
qed

text \<open>A name and the colon.\<close>

definition name_flags :: "bytes \<Rightarrow> u8 \<Rightarrow> u8" where
  "name_flags name fl = (if sets_length [] (map TOKEN name) then fl OR F_CONTENTLENGTH else fl)"

lemma name_run:
  assumes s: "in_head s_header_field_start fl cl k u p s" and n: "coming data p (name @ [58])" "name \<noteq> []" "\<forall>c \<in> set name. TOKEN c \<noteq> 0"
    and b: "2 * (p + length name) + 2 \<le> HTTP_MAX_HEADER_SIZE" "sets_length [] (map TOKEN name) \<longrightarrow> fl AND F_CONTENTLENGTH = 0"
  obtains s' where "exec_loop m_settings data s = exec_loop m_settings data s'" "header_state (hp s') = name_state (map TOKEN name)"
    "in_head s_header_value_discard_ws (name_flags name fl) cl k (with_name name u) (Suc (p + length name)) s'"
proof -
  obtain c ks where name: "name = c # ks"
    using n(2) by (cases name) auto
  let ?q = "p + length name"
  let ?pr = "(hp s)\<lparr>nread := nread (hp s) + 1, index := 0, header_state := name_state [TOKEN c]\<rparr>"
  let ?s = "s\<lparr>hp := ?pr, p_state := s_header_field, marks := (\<lambda>_. None)(header_field := Some p), pos := Suc p\<rparr>"
  have c: "p < length data" "data ! p = c" "coming data (Suc p) (ks @ [58])" "data ! ?q = 58" "?q < length data"
    using n(1) name by auto
  have k: "take (length name) (drop p data) = name"
    using n(1) by (simp add: coming_def [of _ _ name])
  have 1: "exec_loop m_settings data s = exec_loop m_settings data ?s"
    using name_first [OF s c(1)] c(2) n(3) b(1) name by simp
  have "[TOKEN c] \<noteq> CONTENT_LENGTH"
    by (simp add: name_bytes)
  then have sl: "sets_length [TOKEN c] (map TOKEN ks) \<longleftrightarrow> sets_length [] (map TOKEN name)"
    using sets_length_Cons [of "[]" "TOKEN c" "map TOKEN ks"] name by simp
  let ?pr2 = "?pr\<lparr>nread := nread ?pr + 1\<rparr>"
  have u: "unat (nread ?pr) \<le> 2 * p + 1" "unat (nread ?pr2) = Suc (unat (nread ?pr))"
    using s b(1) nread_Suc [of "hp s"] nread_Suc [of ?pr] by (auto simp: in_head_def)
  obtain i where i: "header_field_loop data (Suc p) ?pr2 = (?q, Go (after_name [TOKEN c] (map TOKEN ks) i ?pr2))"
    using name_loop [of ?pr2 "[TOKEN c]" data "Suc p" ks] c(3) n(3) name sl b(2) s by (auto simp: has_flag_def in_head_def)
  let ?pr3 = "after_name [TOKEN c] (map TOKEN ks) i ?pr2"
  have n3: "nread ?pr3 = nread ?pr2" "flags ?pr3 = name_flags name fl" "header_state ?pr3 = name_state (map TOKEN name)"
    "content_length ?pr3 = cl" "constants ?pr3 = k" "herrno ?pr3 = HPE_OK" "\<not> lenient_http_headers ?pr3"
    using s name sl by (auto simp: after_name_def Let_def in_head_def name_flags_def add_flag_def)
  have cnt: "unat (nread ?pr3) + length ks \<le> HTTP_MAX_HEADER_SIZE"
    using u b(1) n3(1) name by simp
  have "\<exists>t. reexecute m_settings data (?s\<lparr>hp := ?pr2\<rparr>) = Break t \<and> usr t = with_name name u \<and> pos t = ?q \<and> marks t = (\<lambda>_. None) \<and>
      p_state t = s_header_value_discard_ws \<and>
      hp t = ?pr3\<lparr>nread := nread ?pr3 + of_nat (length ks), hstate := s_header_value_discard_ws\<rparr>"
    using i c k name n3(6) cnt s
    by (subst reexecute_dispatch)
      (auto simp: dispatch_def exec_header_field_def prim_defs callback_defs CALLBACK_DATA_ER_def OnHeaderName_with
        callback_quiet in_head_def COUNT_HEADER_SIZE_many(1))
  then obtain t where t: "reexecute m_settings data (?s\<lparr>hp := ?pr2\<rparr>) = Break t" "usr t = with_name name u" "pos t = ?q"
    "marks t = (\<lambda>_. None)" "p_state t = s_header_value_discard_ws"
    "hp t = ?pr3\<lparr>nread := nread ?pr3 + of_nat (length ks), hstate := s_header_value_discard_ws\<rparr>"
    by blast
  then have 2: "exec_loop m_settings data ?s = exec_loop m_settings data (t\<lparr>pos := Suc ?q\<rparr>)"
    using loop_header [of ?s data m_settings t] u b(1) c(5) name by (simp add: PARSING_HEADER_def)
  show thesis
    by (rule that [OF trans [OF 1 2]])
      (use n3 u cnt t COUNT_HEADER_SIZE_many(2) [of "?s\<lparr>hp := ?pr3\<rparr>" "length ks"] name in \<open>simp_all add: in_head_def\<close>)
qed

text \<open>
  C14: The automaton for header names, which follows the characters through its states, recognises exactly the names that the
  parser acts on, in any case: behind the colon its state says \<open>Connection\<close> (or \<open>Proxy-Connection\<close>),
  \<open>Content-Length\<close>, \<open>Transfer-Encoding\<close> or \<open>Upgrade\<close> if and only if the name is that one. The flag for a content length, though, is set as
  soon as a name begins with \<open>Content-Length\<close>.
\<close>

theorem header_name_recognised:
  assumes "in_head s_header_field_start fl cl k u p s" "coming data p (name @ [58])" "name \<noteq> []" "\<forall>c \<in> set name. TOKEN c \<noteq> 0"
    and "2 * (p + length name) + 2 \<le> HTTP_MAX_HEADER_SIZE" "fl AND F_CONTENTLENGTH = 0"
  shows "\<exists>s'. exec_loop m_settings data s = exec_loop m_settings data s' \<and> p_state s' = s_header_value_discard_ws \<and>
    (header_state (hp s') = h_connection \<longleftrightarrow> map TOKEN name = CONNECTION \<or> map TOKEN name = PROXY_CONNECTION) \<and>
    (header_state (hp s') = h_content_length \<longleftrightarrow> map TOKEN name = CONTENT_LENGTH) \<and>
    (header_state (hp s') = h_transfer_encoding \<longleftrightarrow> map TOKEN name = TRANSFER_ENCODING) \<and>
    (header_state (hp s') = h_upgrade \<longleftrightarrow> map TOKEN name = UPGRADE) \<and>
    flags (hp s') = (if take (length CONTENT_LENGTH) (map TOKEN name) = CONTENT_LENGTH then fl OR F_CONTENTLENGTH else fl)"
proof -
  have inj: "name_state l = h_connection \<longleftrightarrow> l = CONNECTION \<or> l = PROXY_CONNECTION" "name_state l = h_content_length \<longleftrightarrow> l = CONTENT_LENGTH"
    "name_state l = h_transfer_encoding \<longleftrightarrow> l = TRANSFER_ENCODING" "name_state l = h_upgrade \<longleftrightarrow> l = UPGRADE" for l
    by (auto simp: name_state_def)
  have ne: "CONTENT_LENGTH \<noteq> []"
    by (simp add: name_bytes)
  obtain s' where s': "exec_loop m_settings data s = exec_loop m_settings data s'" "header_state (hp s') = name_state (map TOKEN name)"
    "in_head s_header_value_discard_ws (name_flags name fl) cl k (with_name name u) (Suc (p + length name)) s'"
    by (rule name_run [OF assms(1-5)]) (use assms(6) in auto)
  then show ?thesis
    using ne by (intro exI [of _ s']) (simp add: inj in_head_def name_flags_def sets_length_def)
qed

theorem header_name_recognised_witness:
  "let s = \<lparr>hp = http_parser_init HTTP_BOTH, usr = m_msg (HttpParser_new 0), pos = 0, p_state = s_header_field_start, marks = (\<lambda>_. None)\<rparr> in
   \<exists>s'. exec_loop m_settings (str ''UPgrade:'') s = exec_loop m_settings (str ''UPgrade:'') s' \<and> header_state (hp s') = h_upgrade"
proof -
  let ?s = "\<lparr>hp = http_parser_init HTTP_BOTH, usr = m_msg (HttpParser_new 0), pos = 0, p_state = s_header_field_start, marks = (\<lambda>_. None)\<rparr>"
  let ?n = "str ''UPgrade''"
  have n: "map TOKEN ?n = UPGRADE" "coming (str ''UPgrade:'') 0 (?n @ [58])" "?n \<noteq> []" "2 * (0 + length ?n) + 2 \<le> HTTP_MAX_HEADER_SIZE"
    by (simp_all add: str_def TOKEN_def tokens_def UPGRADE_def HTTP_MAX_HEADER_SIZE_def)
  have t: "\<forall>c \<in> set ?n. TOKEN c \<noteq> 0"
    by (simp add: str_def TOKEN_def tokens_def)
  have s: "in_head s_header_field_start 0 0 (constants (hp ?s)) (usr ?s) 0 ?s"
    by (simp add: in_head_def http_parser_init_def)
  show ?thesis
    using header_name_recognised [OF s n(2,3) t n(4)] n(1) unfolding Let_def by auto
qed

section \<open>Values\<close>

text \<open>The effect of the first character of a value, and of the others, on the parser.\<close>

definition value_first :: "u8 \<Rightarrow> http_parser \<Rightarrow> http_parser option" where
  "value_first ch pr =
     (let pr0 = pr\<lparr>index := 0\<rparr>; c = LOWER ch in
      case header_state pr of
        h_upgrade \<Rightarrow> Some ((add_flag F_UPGRADE pr0)\<lparr>header_state := h_general\<rparr>)
      | h_transfer_encoding \<Rightarrow>
          Some (pr0\<lparr>header_state := (if c = ascii CHR ''c'' then h_matching_transfer_encoding_chunked else h_general)\<rparr>)
      | h_content_length \<Rightarrow> if \<not> IS_NUM ch then None else Some (pr0\<lparr>content_length := of_nat (digit ch)\<rparr>)
      | h_connection \<Rightarrow>
          Some (pr0\<lparr>header_state := (if c = ascii CHR ''k'' then h_matching_connection_keep_alive
                 else if c = ascii CHR ''c'' then h_matching_connection_close
                 else if c = ascii CHR ''u'' then h_matching_connection_upgrade
                 else h_matching_connection_token)\<rparr>)
      | h_matching_connection_token_start \<Rightarrow> Some pr0
      | _ \<Rightarrow> Some (pr0\<lparr>header_state := h_general\<rparr>))"

lemma exec_header_value_start_first:
  "value_first ch (hp s) = Some pr \<Longrightarrow>
     exec_header_value_start ch s = Break ((MARK header_value s)\<lparr>p_state := s_header_value, hp := pr\<rparr>)"
  by (auto simp: value_first_def exec_header_value_start_def Let_def prim_defs split: header_states.splits if_splits)

fun value_scan :: "bytes \<Rightarrow> header_states \<Rightarrow> http_parser \<Rightarrow> (header_states \<times> http_parser) option" where
  "value_scan [] h pr = Some (h, pr)"
| "value_scan (ch # vs) h pr =
     (if \<not> IS_HEADER_CHAR ch then None
      else if h = h_general then Some (h, pr)
      else case header_value_char ch h pr of Go (h', pr') \<Rightarrow> value_scan vs h' pr' | _ \<Rightarrow> None)"

lemma header_value_char_keeps:
  "header_value_char ch h pr = Go (h', pr') \<Longrightarrow>
     lenient_http_headers pr' = lenient_http_headers pr \<and> herrno pr' = herrno pr \<and> nread pr' = nread pr \<and> constants pr' = constants pr"
  by (cases h) (auto simp: header_value_char_def Let_def match_value_def next_index_def content_length_digit_def add_flag_def constants_def
      split: if_splits)

lemma value_scan_keeps:
  "value_scan vs h pr = Some (h', pr') \<Longrightarrow>
     lenient_http_headers pr' = lenient_http_headers pr \<and> herrno pr' = herrno pr \<and> nread pr' = nread pr \<and> constants pr' = constants pr"
proof (induction vs arbitrary: h pr)
  case (Cons ch vs)
  then show ?case
    by (auto split: if_splits scan.splits dest!: header_value_char_keeps)
qed simp

lemma takeWhile_to: "take (length (vs @ [c])) (drop p data) = vs @ [c] \<Longrightarrow> c \<notin> set vs \<Longrightarrow> length vs < n \<Longrightarrow>
    length (takeWhile (\<lambda>x. x \<noteq> c) (take n (drop p data))) = length vs"
proof -
  assume a: "take (length (vs @ [c])) (drop p data) = vs @ [c]" "c \<notin> set vs" "length vs < n"
  let ?w = "take n (drop p data)"
  have "take (length (vs @ [c])) ?w = vs @ [c]"
    using a(1,3) by (simp add: min_def)
  then have "?w = vs @ c # drop (length (vs @ [c])) ?w"
    using append_take_drop_id [of "length (vs @ [c])" ?w] by simp
  then have "takeWhile (\<lambda>x. x \<noteq> c) ?w = vs"
    using takeWhile_stop [OF a(2)] by metis
  then show ?thesis by simp
qed

lemma skip_value_to:
  assumes "coming data p (vs @ [CR])" "CR \<notin> set vs" "LF \<notin> set vs" "length vs < HTTP_MAX_HEADER_SIZE"
  shows "skip_value data p = p + length vs"
proof -
  let ?n = "min (length data - p) HTTP_MAX_HEADER_SIZE"
  have c: "p + length vs < length data" "data ! (p + length vs) = CR"
    using assms(1) by auto
  have "length vs < ?n"
    using c(1) assms(4) by simp
  then have cr: "memchr data p CR ?n = Some (p + length vs)"
    using takeWhile_to [of vs CR p data ?n] assms(1,2) c(1) by (simp add: memchr_def coming_def Let_def del: coming_append)
  have lf: "p + length vs \<le> q" if "memchr data p LF ?n = Some q" for q
  proof (rule ccontr)
    assume "\<not> p + length vs \<le> q"
    moreover have q: "p \<le> q" "data ! q = LF"
      using memchr_bounds [OF that] by simp_all
    ultimately have l: "q - p < length vs"
      by simp
    have "vs ! (q - p) = take (length vs) (drop p data) ! (q - p)"
      using assms(1) by (simp add: coming_def [of _ _ vs])
    also have "\<dots> = LF"
      using l q c(1) by simp
    finally have "vs ! (q - p) = LF" .
    then show False
      using assms(3) nth_mem [OF l] by simp
  qed
  have "CR \<noteq> LF" by (simp add: CR_def LF_def)
  then show ?thesis
    using cr lf memchr_bounds(3) [of data p LF ?n] c(2)
    by (auto simp: skip_value_def Let_def split: option.split)
qed

text \<open>The loop over the rest of a value.\<close>

lemma value_loop:
  assumes "coming data p (vs @ [CR])" "CR \<notin> set vs" "LF \<notin> set vs" "length vs < HTTP_MAX_HEADER_SIZE"
    and "\<not> lenient_http_headers pr" "value_scan vs h pr = Some (h', pr')"
  shows "header_value_loop data p h pr = (p + length vs, Go (At_CR, h', pr'))"
  using assms
proof (induction vs arbitrary: p h pr)
  case Nil
  then show ?case
    by (subst header_value_loop.simps) simp
next
  case (Cons ch vs)
  have ch: "p < length data" "data ! p = ch" "ch \<noteq> CR" "ch \<noteq> LF" "IS_HEADER_CHAR ch"
    using Cons.prems by (auto split: if_splits)
  show ?case
  proof (cases "h = h_general")
    case True
    have c: "p + length (ch # vs) < length data" "data ! (p + length (ch # vs)) = CR"
      using Cons.prems(1) by auto
    have "header_value_loop data p h pr = header_value_loop data (p + length (ch # vs)) h pr"
      using True ch Cons.prems skip_value_to [of data p "ch # vs"] by (subst header_value_loop.simps) (simp add: Let_def)
    also have "\<dots> = (p + length (ch # vs), Go (At_CR, h, pr))"
      using c by (subst header_value_loop.simps) simp
    finally show ?thesis
      using True ch Cons.prems(6) by simp
  next
    case False
    then obtain h1 pr1 where 1: "header_value_char ch h pr = Go (h1, pr1)" "value_scan vs h1 pr1 = Some (h', pr')"
      using Cons.prems(6) ch(5) by (auto split: scan.splits)
    have "header_value_loop data (Suc p) h1 pr1 = (Suc p + length vs, Go (At_CR, h', pr'))"
      by (rule Cons.IH) (use Cons.prems 1 header_value_char_keeps [OF 1(1)] in auto)
    then show ?thesis
      using False ch 1(1) by (subst header_value_loop.simps) (simp add: Let_def)
  qed
qed

lemma value_first_keeps:
  "value_first ch pr = Some pr' \<Longrightarrow>
     lenient_http_headers pr' = lenient_http_headers pr \<and> herrno pr' = herrno pr \<and> nread pr' = nread pr \<and> constants pr' = constants pr"
  by (auto simp: value_first_def Let_def add_flag_def constants_def split: header_states.splits if_splits)

lemma finish_header_keeps [simp]:
  "lenient_http_headers (finish_header pr) = lenient_http_headers pr" "herrno (finish_header pr) = herrno pr"
  "nread (finish_header pr) = nread pr" "constants (finish_header pr) = constants pr"
  "content_length (finish_header pr) = content_length pr"
  by (simp_all add: finish_header_def add_flag_def constants_def split: header_states.split)

section \<open>Lines\<close>

text \<open>What a value means under a name: the flags and the length before and after the line.\<close>

definition reads_as :: "bytes \<Rightarrow> bytes \<Rightarrow> u8 \<Rightarrow> u64 \<Rightarrow> u8 \<Rightarrow> u64 \<Rightarrow> bool" where
  "reads_as name v fl cl fl' cl' \<longleftrightarrow>
     (\<forall>pr. header_state pr = name_state (map TOKEN name) \<and> flags pr = name_flags name fl \<and> content_length pr = cl \<longrightarrow>
        (\<exists>pr1 h' pr'. value_first (hd v) pr = Some pr1 \<and> value_scan (tl v) (header_state pr1) pr1 = Some (h', pr') \<and>
           flags (finish_header (pr'\<lparr>header_state := h'\<rparr>)) = fl' \<and> content_length pr' = cl'))"

definition value_ok :: "bytes \<Rightarrow> bool" where
  "value_ok v \<longleftrightarrow> v \<noteq> [] \<and> hd v \<noteq> 32 \<and> hd v \<noteq> 9 \<and> CR \<notin> set v \<and> LF \<notin> set v"

text \<open>The parser behind the line feed of a header line is in front of the next one, unless that is a continuation.\<close>

lemma next_line:
  assumes "p_state s = s_header_value_lws" "pos s < length data" "data ! pos s \<noteq> 32" "data ! pos s \<noteq> 9"
    and "unat (nread (hp s)) < HTTP_MAX_HEADER_SIZE"
  shows "exec_loop S data s = exec_loop S data (s\<lparr>hp := finish_header (hp s), p_state := s_header_field_start\<rparr>)"
proof -
  let ?s = "s\<lparr>hp := finish_header (hp s), p_state := s_header_field_start\<rparr>"
  have f: "finish_header (pr\<lparr>nread := n\<rparr>) = (finish_header pr)\<lparr>nread := n\<rparr>" for pr n
    by (simp add: finish_header_def add_flag_def split: header_states.split)
  have c: "t\<lparr>hp := x, p_state := y\<rparr> = t\<lparr>p_state := y, hp := x\<rparr>" for t :: "'a exec" and x y
    by simp
  have "reexecute S data (s\<lparr>hp := (hp s)\<lparr>nread := n\<rparr>\<rparr>) = reexecute S data (?s\<lparr>hp := (hp ?s)\<lparr>nread := n\<rparr>\<rparr>)" for n
    using assms by (subst reexecute_dispatch) (auto simp: dispatch_def exec_header_value_lws_def prim_defs f c)
  then have "exec_byte S data s = exec_byte S data ?s"
    using assms(1,5) by (simp add: exec_byte_def PARSING_HEADER_def COUNT_HEADER_SIZE_ok [unfolded One_nat_def])
  then show ?thesis
    using assms(2) by (simp add: exec_loop.simps [of S data])
qed

text \<open>The count of bytes has no influence on a value.\<close>

lemma value_first_nread: "value_first ch (pr\<lparr>nread := x\<rparr>) = map_option (\<lambda>p. p\<lparr>nread := x\<rparr>) (value_first ch pr)"
  by (auto simp: value_first_def Let_def add_flag_def split: header_states.split)

lemma header_value_char_nread:
  "header_value_char ch h pr = Go (h', pr') \<Longrightarrow> header_value_char ch h (pr\<lparr>nread := x\<rparr>) = Go (h', pr'\<lparr>nread := x\<rparr>)"
  by (cases h) (auto simp: header_value_char_def Let_def match_value_def next_index_def content_length_digit_def add_flag_def
      split: if_splits)

lemma value_scan_nread:
  "value_scan vs h pr = Some (h', pr') \<Longrightarrow> value_scan vs h (pr\<lparr>nread := x\<rparr>) = Some (h', pr'\<lparr>nread := x\<rparr>)"
proof (induction vs arbitrary: h pr)
  case (Cons ch vs)
  show ?case
  proof (cases "h = h_general")
    case False
    then obtain h1 pr1 where 1: "header_value_char ch h pr = Go (h1, pr1)" "value_scan vs h1 pr1 = Some (h', pr')" "IS_HEADER_CHAR ch"
      using Cons.prems by (auto split: scan.splits if_splits)
    show ?thesis
      using Cons.IH [OF 1(2)] header_value_char_nread [OF 1(1), of x] 1(3) False by simp
  qed (use Cons.prems in \<open>auto split: if_splits\<close>)
qed simp

text \<open>From the colon to the end of the line.\<close>

lemma value_run:
  assumes s: "in_head s_header_value_discard_ws fl cl k u p s" and v: "value_ok v"
    and d: "coming data p ([32] @ v @ [CR, LF])" "2 * (p + length v + 3) \<le> HTTP_MAX_HEADER_SIZE"
    and e: "value_first (hd v) (hp s) = Some pr1" "value_scan (tl v) (header_state pr1) pr1 = Some (h', pr')"
  obtains s' x y where "exec_loop m_settings data s = exec_loop m_settings data s'" "p_state s' = s_header_value_lws"
    "pos s' = p + length v + 3" "usr s' = with_value v u" "marks s' = (\<lambda>_. None)"
    "hp s' = pr'\<lparr>header_state := h', nread := x, hstate := y\<rparr>" "unat x \<le> 2 * (p + length v + 3)"
proof -
  obtain c vs where vs: "v = c # vs"
    using v by (cases v) (auto simp: value_ok_def)
  have c: "p < length data" "data ! p = 32" "Suc p < length data" "data ! Suc p = c" "coming data (p + 2) (vs @ [CR])"
    "p + 2 + length vs < length data" "data ! (p + 2 + length vs) = CR" "p + 3 + length vs < length data" "data ! (p + 3 + length vs) = LF"
    using d(1) vs by (auto simp: numeral_2_eq_2 numeral_3_eq_3)
  have "coming data (Suc p) v"
    using d(1) vs by simp
  then have dv: "take (length v) (drop (Suc p) data) = v"
    by (simp add: coming_def)
  have nr: "unat (nread (hp s)) \<le> 2 * p" "unat (nread (hp s)) < HTTP_MAX_HEADER_SIZE"
    using s d(2) by (simp_all add: in_head_def)
  let ?n = "nread (hp s)"
  have w: "unat (?n + 1) = unat ?n + 1" "unat (2 + ?n) = unat ?n + 2" "unat (3 + ?n) = unat ?n + 3"
    using nr d(2) by (simp_all add: unat_word_ariths HTTP_MAX_HEADER_SIZE_def)
  let ?s1 = "s\<lparr>hp := (hp s)\<lparr>nread := ?n + 1\<rparr>, pos := Suc p\<rparr>"
  have "reexecute m_settings data (s\<lparr>hp := (hp s)\<lparr>nread := ?n + 1\<rparr>\<rparr>) = Break (s\<lparr>hp := (hp s)\<lparr>nread := ?n + 1\<rparr>\<rparr>)"
    using s c by (subst reexecute_dispatch) (auto simp: dispatch_def exec_header_value_discard_ws_def in_head_def)
  then have 1: "exec_loop m_settings data s = exec_loop m_settings data ?s1"
    using loop_header [of s data m_settings "s\<lparr>hp := (hp s)\<lparr>nread := ?n + 1\<rparr>\<rparr>"] s c nr by (simp add: in_head_def PARSING_HEADER_def)
  have f: "value_first c ((hp s)\<lparr>nread := 2 + ?n\<rparr>) = Some (pr1\<lparr>nread := 2 + ?n\<rparr>)"
    using e(1) vs by (simp add: value_first_nread)
  let ?s2 = "s\<lparr>pos := p + 2, marks := (\<lambda>_. None)(header_value := Some (Suc p)), p_state := s_header_value, hp := pr1\<lparr>nread := 2 + ?n\<rparr>\<rparr>"
  have "\<exists>t. reexecute m_settings data (?s1\<lparr>hp := (hp ?s1)\<lparr>nread := nread (hp ?s1) + 1\<rparr>\<rparr>) = Break t \<and> t\<lparr>pos := Suc (pos t)\<rparr> = ?s2"
    using s c v vs exec_header_value_start_first [of c "?s1\<lparr>hp := (hp s)\<lparr>nread := 2 + ?n\<rparr>\<rparr>"] f
    by (subst reexecute_dispatch) (auto simp: dispatch_def exec_header_value_discard_ws_def in_head_def value_ok_def MARK_def)
  then have 2: "exec_loop m_settings data ?s1 = exec_loop m_settings data ?s2"
    using loop_header [of ?s1 data m_settings] s c w nr d(2) by (force simp: in_head_def PARSING_HEADER_def)
  note keeps = value_first_keeps [OF e(1)] value_scan_keeps [OF e(2)]
  have "header_value_loop data (p + 2) (header_state pr1) (pr1\<lparr>nread := 3 + ?n\<rparr>) =
      (p + 2 + length vs, Go (At_CR, h', pr'\<lparr>nread := 3 + ?n\<rparr>))"
    by (rule value_loop [OF c(5)])
      (use v vs d(2) keeps s value_scan_nread [OF e(2), of "3 + ?n"] in \<open>auto simp: value_ok_def in_head_def\<close>)
  moreover have cnt: "unat (3 + ?n) + length vs \<le> HTTP_MAX_HEADER_SIZE"
    using w nr d(2) vs by simp
  ultimately have "\<exists>t. reexecute m_settings data (?s2\<lparr>hp := (hp ?s2)\<lparr>nread := nread (hp ?s2) + 1\<rparr>\<rparr>) = Break t \<and> usr t = with_value v u \<and>
      pos t = p + 2 + length vs \<and> marks t = (\<lambda>_. None) \<and> p_state t = s_header_almost_done \<and>
      hp t = pr'\<lparr>header_state := h', nread := 3 + ?n + of_nat (length vs), hstate := s_header_almost_done\<rparr>"
    using s c dv vs keeps
    by (subst reexecute_dispatch)
      (auto simp: dispatch_def exec_header_value_def prim_defs callback_defs CALLBACK_DATA_ER_def OnHeaderValue_with
        callback_quiet in_head_def COUNT_HEADER_SIZE_many(1))
  then obtain t where t: "reexecute m_settings data (?s2\<lparr>hp := (hp ?s2)\<lparr>nread := nread (hp ?s2) + 1\<rparr>\<rparr>) = Break t" "usr t = with_value v u"
    "pos t = p + 2 + length vs" "marks t = (\<lambda>_. None)" "p_state t = s_header_almost_done"
    "hp t = pr'\<lparr>header_state := h', nread := 3 + ?n + of_nat (length vs), hstate := s_header_almost_done\<rparr>"
    by blast
  have u3: "unat (3 + ?n + of_nat (length vs)) = unat ?n + 3 + length vs"
    using COUNT_HEADER_SIZE_many(2) [of "?s2\<lparr>hp := (hp s)\<lparr>nread := 3 + ?n\<rparr>\<rparr>" "length vs"] cnt w by simp
  have 3: "exec_loop m_settings data ?s2 = exec_loop m_settings data (t\<lparr>pos := Suc (pos t)\<rparr>)"
    using loop_header [of ?s2 data m_settings t] t(1) c w nr d(2) vs by (simp add: PARSING_HEADER_def)
  let ?t = "t\<lparr>pos := Suc (pos t)\<rparr>"
  let ?s3 = "t\<lparr>p_state := s_header_value_lws, hp := (hp t)\<lparr>nread := nread (hp t) + 1\<rparr>, pos := p + length v + 3\<rparr>"
  have n4: "unat (nread (hp t)) = unat ?n + 3 + length vs" "unat (nread (hp t)) < HTTP_MAX_HEADER_SIZE"
    using t(6) u3 nr d(2) vs by simp_all
  have lf: "Suc (pos t) < length data" "data ! Suc (pos t) = LF" "p + length v + 3 = Suc (Suc (pos t))"
    using c(8,9) t(3) vs by (simp_all add: numeral_2_eq_2 numeral_3_eq_3)
  have "\<exists>t'. reexecute m_settings data (?t\<lparr>hp := (hp ?t)\<lparr>nread := nread (hp ?t) + 1\<rparr>\<rparr>) = Break t' \<and> t'\<lparr>pos := Suc (pos t')\<rparr> = ?s3"
    using t(5) lf by (subst reexecute_dispatch) (auto simp: dispatch_def exec_header_almost_done_def UPDATE_STATE_def)
  then have 4: "exec_loop m_settings data ?t = exec_loop m_settings data ?s3"
    using loop_header [of ?t data m_settings] t(5) lf n4 by (force simp: PARSING_HEADER_def)
  show thesis
  proof (rule that)
    show "exec_loop m_settings data s = exec_loop m_settings data ?s3"
      unfolding 1 2 3 4 ..
    show "hp ?s3 = pr'\<lparr>header_state := h', nread := nread (hp t) + 1, hstate := s_header_almost_done\<rparr>"
      using t(6) by simp
    show "unat (nread (hp t) + 1) \<le> 2 * (p + length v + 3)"
      using nread_Suc [OF n4(2)] n4(1) nr vs by simp
  qed (use t in simp_all)
qed

end
