(* ===== verification/Http_Line.thy ===== *)
theory Http_Line
  imports Http_Header
begin

text \<open>
  Header lines as a whole: a printed header is read, whatever its name and value mean to the parser, and so is
  the block of headers the encoder prints.
\<close>

section \<open>One line\<close>

definition name_ok :: "bytes \<Rightarrow> bool" where
  "name_ok name \<longleftrightarrow> name \<noteq> [] \<and> (\<forall>c \<in> set name. TOKEN c \<noteq> 0)"

lemma print_header_bytes: "print_header (name, v) = (name @ [58]) @ ([32] @ v @ [CR, LF])"
  by (simp add: print_header_def str_def CR_def LF_def)

lemma header_line:
  assumes s: "in_head s_header_field_start fl cl k u p s" and n: "name_ok name" "value_ok v" "reads_as name v fl cl fl' cl'"
    and f: "sets_length [] (map TOKEN name) \<longrightarrow> fl AND F_CONTENTLENGTH = 0"
    and d: "coming data p (print_header (name, v) @ [c])" "c \<noteq> 32" "c \<noteq> 9"
    and b: "2 * (p + length (print_header (name, v))) < HTTP_MAX_HEADER_SIZE"
  obtains s' where "exec_loop m_settings data s = exec_loop m_settings data s'"
    "in_head s_header_field_start fl' cl' k (with_value v (with_name name u)) (p + length (print_header (name, v))) s'"
proof -
  let ?q = "Suc (p + length name)"
  have len: "p + length (print_header (name, v)) = ?q + length v + 3"
    by (simp add: print_header_bytes)
  have d1: "coming data p (name @ [58])" and d2: "coming data ?q ([32] @ v @ [CR, LF])"
    and c: "?q + length v + 3 < length data" "data ! (?q + length v + 3) = c"
    using d(1) by (simp_all add: print_header_bytes eval_nat_numeral)
  obtain s1 where s1: "exec_loop m_settings data s = exec_loop m_settings data s1" "header_state (hp s1) = name_state (map TOKEN name)"
    "in_head s_header_value_discard_ws (name_flags name fl) cl k (with_name name u) ?q s1"
    by (rule name_run [OF s d1 _ _ _ f]) (use n(1) b len in \<open>auto simp: name_ok_def\<close>)
  obtain pr1 h' pr' where e: "value_first (hd v) (hp s1) = Some pr1" "value_scan (tl v) (header_state pr1) pr1 = Some (h', pr')"
    "flags (finish_header (pr'\<lparr>header_state := h'\<rparr>)) = fl'" "content_length pr' = cl'"
    using n(3) s1(2,3) unfolding reads_as_def in_head_def by blast
  have bq: "2 * (?q + length v + 3) < HTTP_MAX_HEADER_SIZE"
    using b len by simp
  obtain s2 x y where s2: "exec_loop m_settings data s1 = exec_loop m_settings data s2" "p_state s2 = s_header_value_lws"
    "pos s2 = ?q + length v + 3" "usr s2 = with_value v (with_name name u)" "marks s2 = (\<lambda>_. None)"
    "hp s2 = pr'\<lparr>header_state := h', nread := x, hstate := y\<rparr>" "unat x \<le> 2 * (?q + length v + 3)"
    by (rule value_run [OF s1(3) n(2) d2 less_imp_le [OF bq] e(1,2)])
  let ?s = "s2\<lparr>hp := finish_header (hp s2), p_state := s_header_field_start\<rparr>"
  have 3: "exec_loop m_settings data s2 = exec_loop m_settings data ?s"
    by (rule next_line) (use s2 c d(2,3) bq in auto)
  have fl: "flags (finish_header (pr'\<lparr>header_state := h', nread := x, hstate := y\<rparr>)) = flags (finish_header (pr'\<lparr>header_state := h'\<rparr>))"
    by (simp add: finish_header_def add_flag_def split: header_states.split)
  note keeps = value_first_keeps [OF e(1)] value_scan_keeps [OF e(2)]
  show thesis
  proof (rule that)
    show "exec_loop m_settings data s = exec_loop m_settings data ?s"
      unfolding s1(1) s2(1) 3 ..
    show "in_head s_header_field_start fl' cl' k (with_value v (with_name name u)) (p + length (print_header (name, v))) ?s"
      using s2 s1(3) e(3,4) fl keeps unfolding len in_head_def by simp
  qed
qed

section \<open>Decimal numbers\<close>

definition dec_value :: "nat \<Rightarrow> bytes \<Rightarrow> nat" where
  "dec_value v ds = foldl (\<lambda>a c. a * 10 + digit c) v ds"

lemma dec_value_simps [simp]: "dec_value v [] = v" "dec_value v (c # ds) = dec_value (v * 10 + digit c) ds"
  "dec_value v (ds @ [c]) = dec_value v ds * 10 + digit c"
  by (simp_all add: dec_value_def)

lemma dec_value_mono: "v \<le> dec_value v ds"
proof (induction ds arbitrary: v)
  case (Cons c ds)
  show ?case using Cons.IH [of "v * 10 + digit c"] by simp
qed simp

lemma digit_char: "d < 10 \<Longrightarrow> IS_NUM (of_nat (48 + d)) \<and> digit (of_nat (48 + d)) = d"
  by (auto simp: IS_NUM_def digit_def word_le_nat_alt unat_word_ariths unat_of_nat)

lemma dec_str_digits: "\<forall>c \<in> set (dec_str n). IS_NUM c"
proof (induction n rule: dec_str.induct)
  case (1 n)
  show ?case
    using 1 digit_char [of n] digit_char [of "n mod 10"] by (subst dec_str.simps) auto
qed

lemma dec_str_value: "dec_value 0 (dec_str n) = n"
proof (induction n rule: dec_str.induct)
  case (1 n)
  show ?case
    using 1 digit_char [of n] digit_char [of "n mod 10"] by (subst dec_str.simps) auto
qed

lemma dec_str_nonempty [simp]: "dec_str n \<noteq> []"
  by (subst dec_str.simps) simp

lemma IS_NUM_plain: "IS_NUM c \<Longrightarrow> IS_HEADER_CHAR c \<and> c \<noteq> CR \<and> c \<noteq> LF \<and> c \<noteq> 32 \<and> c \<noteq> 9"
  by (auto simp: IS_NUM_def IS_HEADER_CHAR_def CR_def LF_def word_le_nat_alt word_less_nat_alt)

section \<open>What values mean\<close>

text \<open>A header the parser does not act on: only the byte behind the first one is looked at.\<close>

definition no_meaning :: "bytes \<Rightarrow> bool" where
  "no_meaning name \<longleftrightarrow> map TOKEN name \<notin> set known_names"

lemma reads_as_plain:
  assumes "no_meaning name" "length v > 1 \<longrightarrow> IS_HEADER_CHAR (v ! 1)"
  shows "reads_as name v fl cl (name_flags name fl) cl"
proof -
  have 1: "name_state (map TOKEN name) \<notin> {h_connection, h_content_length, h_transfer_encoding, h_upgrade, h_matching_connection_token_start}"
    using assms(1) by (auto simp: no_meaning_def known_names_def name_state_def)
  have 2: "value_first c pr = Some (pr\<lparr>index := 0, header_state := h_general\<rparr>)" if "header_state pr = name_state (map TOKEN name)" for c pr
    using 1 that by (auto simp: value_first_def Let_def split: header_states.split)
  have 3: "value_scan (tl v) h_general pr = Some (h_general, pr)" for pr
    using assms(2) by (cases v; cases "tl v") auto
  show ?thesis
    using 2 3 by (auto simp: reads_as_def finish_header_def)
qed

lemma scan_digits:
  assumes "\<forall>c \<in> set ds. IS_NUM c" "content_length pr = of_nat v" "dec_value v ds < 2 ^ 60"
  shows "value_scan ds h_content_length pr = Some (h_content_length, pr\<lparr>content_length := of_nat (dec_value v ds)\<rparr>)"
  using assms
proof (induction ds arbitrary: v pr)
  case (Cons c ds)
  have v: "v * 10 + digit c < 2 ^ 60"
    using dec_value_mono [of "v * 10 + digit c" ds] Cons.prems(3) by simp
  then have u: "unat (of_nat v :: u64) = v"
    by (simp add: unat_of_nat)
  have "\<not> (ULLONG_MAX - 10) div 10 < (of_nat v :: u64)"
    using v u by (simp add: word_less_nat_alt ULLONG_MAX_def)
  then have "content_length_digit c pr = Some (pr\<lparr>content_length := of_nat (v * 10 + digit c)\<rparr>)"
    using Cons.prems(2) by (simp add: content_length_digit_def Let_def)
  then have "header_value_char c h_content_length pr = Go (h_content_length, pr\<lparr>content_length := of_nat (v * 10 + digit c)\<rparr>)"
    using Cons.prems(1) IS_NUM_plain [of c] by (simp add: header_value_char_def)
  moreover have "value_scan ds h_content_length (pr\<lparr>content_length := of_nat (v * 10 + digit c)\<rparr>) =
      Some (h_content_length, pr\<lparr>content_length := of_nat (dec_value (v * 10 + digit c) ds)\<rparr>)"
    using Cons.IH [of "pr\<lparr>content_length := of_nat (v * 10 + digit c)\<rparr>" "v * 10 + digit c"] Cons.prems by simp
  ultimately show ?case
    using Cons.prems(1) IS_NUM_plain [of c] by simp
qed simp

lemma reads_as_length:
  assumes "map TOKEN name = CONTENT_LENGTH" "v \<noteq> []" "\<forall>c \<in> set v. IS_NUM c" "dec_value 0 v < 2 ^ 60"
  shows "reads_as name v fl cl (fl OR F_CONTENTLENGTH) (of_nat (dec_value 0 v))"
proof -
  obtain c ds where v: "v = c # ds"
    using assms(2) by (cases v) auto
  have f: "name_flags name fl = fl OR F_CONTENTLENGTH"
    by (simp add: name_flags_def assms(1) sets_length_def name_bytes)
  have read: "\<exists>pr1 h' pr'. value_first (hd v) pr = Some pr1 \<and> value_scan (tl v) (header_state pr1) pr1 = Some (h', pr') \<and>
      flags (finish_header (pr'\<lparr>header_state := h'\<rparr>)) = fl OR F_CONTENTLENGTH \<and> content_length pr' = of_nat (dec_value 0 v)"
    if pr: "header_state pr = h_content_length" "flags pr = fl OR F_CONTENTLENGTH" for pr
  proof -
    let ?pr1 = "pr\<lparr>index := 0, content_length := of_nat (digit c)\<rparr>"
    have 1: "value_first (hd v) pr = Some ?pr1"
      using assms(3) pr v by (simp add: value_first_def)
    have 2: "value_scan (tl v) (header_state ?pr1) ?pr1 = Some (h_content_length, ?pr1\<lparr>content_length := of_nat (dec_value 0 v)\<rparr>)"
      using scan_digits [of ds ?pr1 "digit c"] assms(3,4) pr v by simp
    show ?thesis
      using 1 2 pr by (simp add: finish_header_def)
  qed
  have n: "name_state CONTENT_LENGTH = h_content_length"
    by (simp add: name_state_known known_names_def matched_def)
  show ?thesis
    unfolding reads_as_def f assms(1) n by (intro allI impI) (rule read, simp_all)
qed

lemma reads_as_connection:
  assumes "map TOKEN name = CONNECTION"
  shows "reads_as name (str ''Keep-Alive'') fl cl (fl OR F_CONNECTION_KEEP_ALIVE) cl"
    "reads_as name (str ''close'') fl cl (fl OR F_CONNECTION_CLOSE) cl"
proof -
  have n: "name_state CONNECTION = h_connection" "\<not> sets_length [] CONNECTION"
    by (simp_all add: name_state_known known_names_def matched_def sets_length_def name_bytes)
  show "reads_as name (str ''Keep-Alive'') fl cl (fl OR F_CONNECTION_KEEP_ALIVE) cl"
    "reads_as name (str ''close'') fl cl (fl OR F_CONNECTION_CLOSE) cl"
    unfolding reads_as_def assms name_flags_def
    by (simp_all add: n str_def value_first_def LOWER_def header_value_char_def match_value_def KEEP_ALIVE_def CLOSE_def next_index_def
        cstr_at_def finish_header_def add_flag_def IS_HEADER_CHAR_def)
qed

section \<open>The block of headers\<close>

definition with_headers :: "(bytes \<times> bytes) list \<Rightarrow> http_msg \<Rightarrow> http_msg" where
  "with_headers kvs m = fold (\<lambda>(k, v) m. with_value v (with_name k m)) kvs m"

lemma with_headers_simps [simp]:
  "with_headers [] m = m" "with_headers ((k, v) # kvs) m = with_headers kvs (with_value v (with_name k m))"
  by (simp_all add: with_headers_def)

lemma header_callbacks_with: "header_callbacks pr kvs m = with_headers kvs m"
  unfolding header_callbacks_def by (induction kvs arbitrary: m) (auto simp: OnHeaderName_with OnHeaderValue_with)

text \<open>A header the parser only passes on.\<close>

definition plain_header :: "bytes \<times> bytes \<Rightarrow> bool" where
  "plain_header kv \<longleftrightarrow> name_ok (fst kv) \<and> value_ok (snd kv) \<and> no_meaning (fst kv) \<and> \<not> sets_length [] (map TOKEN (fst kv)) \<and>
     (length (snd kv) > 1 \<longrightarrow> IS_HEADER_CHAR (snd kv ! 1))"

lemma name_ok_first: "name_ok name \<Longrightarrow> hd (name @ xs) \<noteq> 32 \<and> hd (name @ xs) \<noteq> 9"
  by (cases name) (auto simp: name_ok_def TOKEN_def tokens_def)

text \<open>The first byte behind a header line: of the next name, or of the empty line.\<close>

lemma lines_first:
  assumes "\<forall>kv \<in> set kvs. name_ok (fst kv)"
  obtains c bs where "concat (map print_header kvs) @ [CR] = c # bs" "c \<noteq> 32" "c \<noteq> 9"
proof (cases kvs)
  case Nil
  then show thesis
    by (intro that [of CR "[]"]) (simp_all add: CR_def)
next
  case (Cons kv kvs')
  let ?b = "concat (map print_header kvs) @ [CR]"
  have "?b \<noteq> []" "hd ?b \<noteq> 32" "hd ?b \<noteq> 9"
    using name_ok_first [of "fst kv"] assms Cons by (simp_all add: print_header_def)
  then show thesis
    by (intro that [of "hd ?b" "tl ?b"]) (simp_all del: append_is_Nil_conv)
qed

text \<open>Lines that leave the length alone; \<open>g\<close> says what each of them does to the flags.\<close>

definition line_means :: "(bytes \<times> bytes \<Rightarrow> u8 \<Rightarrow> u8) \<Rightarrow> bytes \<times> bytes \<Rightarrow> bool" where
  "line_means g kv \<longleftrightarrow> name_ok (fst kv) \<and> value_ok (snd kv) \<and> \<not> sets_length [] (map TOKEN (fst kv)) \<and>
     (\<forall>fl cl. reads_as (fst kv) (snd kv) fl cl (g kv fl) cl)"

lemma header_lines:
  assumes "in_head s_header_field_start fl cl k u p s" "list_all (line_means g) kvs"
    and "coming data p (concat (map print_header kvs) @ [CR])" "2 * (p + length (concat (map print_header kvs))) < HTTP_MAX_HEADER_SIZE"
  obtains s' where "exec_loop m_settings data s = exec_loop m_settings data s'"
    "in_head s_header_field_start (fold g kvs fl) cl k (with_headers kvs u) (p + length (concat (map print_header kvs))) s'"
  using assms
proof (induction kvs arbitrary: s u p fl thesis)
  case Nil
  then show ?case by simp
next
  case (Cons kv kvs)
  obtain name v where kv: "kv = (name, v)" by (cases kv)
  have ok: "line_means g (name, v)" "list_all (line_means g) kvs"
    using Cons.prems(3) kv by simp_all
  obtain c bs where c: "concat (map print_header kvs) @ [CR] = c # bs" "c \<noteq> 32" "c \<noteq> 9"
    by (rule lines_first [of kvs]) (use ok(2) in \<open>auto simp: list_all_iff line_means_def\<close>)
  let ?q = "p + length (print_header (name, v))"
  have d: "coming data p (print_header (name, v))" "coming data ?q (concat (map print_header kvs) @ [CR])"
    using Cons.prems(4) kv by (simp_all add: add.assoc)
  then have d': "coming data p (print_header (name, v) @ [c])"
    using c(1) coming_append [of data p "print_header (name, v)"] by simp
  obtain s1 where s1: "exec_loop m_settings data s = exec_loop m_settings data s1"
    "in_head s_header_field_start (g (name, v) fl) cl k (with_value v (with_name name u)) ?q s1"
    by (rule header_line [OF Cons.prems(2) _ _ _ _ d' c(2,3), of "g (name, v) fl" cl])
      (use ok(1) Cons.prems(5) kv in \<open>auto simp: line_means_def\<close>)
  obtain s2 where s2: "exec_loop m_settings data s1 = exec_loop m_settings data s2"
    "in_head s_header_field_start (fold g kvs (g (name, v) fl)) cl k (with_headers kvs (with_value v (with_name name u)))
       (?q + length (concat (map print_header kvs))) s2"
    by (rule Cons.IH [OF _ s1(2) ok(2) d(2)]) (use Cons.prems(5) kv in \<open>simp_all add: add.assoc\<close>)
  show ?case
    by (rule Cons.prems(1) [of s2]) (use s1(1) s2 kv in \<open>simp_all add: add.assoc\<close>)
qed

lemma plain_means: "plain_header kv \<Longrightarrow> line_means (\<lambda>kv fl. fl) kv"
  using reads_as_plain [of "fst kv" "snd kv"] by (auto simp: line_means_def plain_header_def name_flags_def)

lemma plain_lines:
  assumes "in_head s_header_field_start fl cl k u p s" "list_all plain_header kvs"
    and "coming data p (concat (map print_header kvs) @ [CR])" "2 * (p + length (concat (map print_header kvs))) < HTTP_MAX_HEADER_SIZE"
  obtains s' where "exec_loop m_settings data s = exec_loop m_settings data s'"
    "in_head s_header_field_start fl cl k (with_headers kvs u) (p + length (concat (map print_header kvs))) s'"
proof -
  have m: "list_all (line_means (\<lambda>kv fl. fl)) kvs"
    using assms(2) plain_means by (auto simp: list_all_iff)
  have f: "fold (\<lambda>kv fl. fl) kvs fl = fl"
    by (induction kvs) simp_all
  show thesis
    by (rule header_lines [OF assms(1) m assms(3,4)]) (use that f in auto)
qed

text \<open>The headers of a message that the encoder prints.\<close>

definition all_headers :: "HttpEncoder \<Rightarrow> (bytes \<times> bytes) list" where
  "all_headers e =
     (str ''Content-Length'', dec_str (length (e_body e))) #
     (str ''Connection'', if e_closeConnection e then str ''close'' else str ''Keep-Alive'') # e_headers e"

definition head_block :: "HttpEncoder \<Rightarrow> bytes" where
  "head_block e = concat (map print_header (all_headers e))"

lemma AppendToStream_block: "AppendToStream e = head_block e @ [CR, LF] @ e_body e"
  by (simp add: AppendToStream_def head_block_def all_headers_def print_header_def str_def CR_def LF_def)

definition message_flags :: "HttpEncoder \<Rightarrow> u8" where
  "message_flags e = F_CONTENTLENGTH OR (if e_closeConnection e then F_CONNECTION_CLOSE else F_CONNECTION_KEEP_ALIVE)"

lemma names_ok: "name_ok (str ''Content-Length'')" "name_ok (str ''Connection'')"
  "map TOKEN (str ''Content-Length'') = CONTENT_LENGTH" "map TOKEN (str ''Connection'') = CONNECTION"
  by (simp_all add: name_ok_def str_def TOKEN_def tokens_def name_defs)

lemma block_run:
  assumes s: "in_head s_header_field_start 0 cl k u p s" and e: "list_all plain_header (e_headers e)" "length (e_body e) < 2 ^ 60"
    and d: "coming data p (head_block e @ [CR])" "2 * (p + length (head_block e)) < HTTP_MAX_HEADER_SIZE"
  obtains s' where "exec_loop m_settings data s = exec_loop m_settings data s'"
    "in_head s_header_field_start (message_flags e) (of_nat (length (e_body e))) k (with_headers (all_headers e) u) (p + length (head_block e)) s'"
proof -
  let ?n = "dec_str (length (e_body e))" and ?v = "if e_closeConnection e then str ''close'' else str ''Keep-Alive''"
  let ?h1 = "(str ''Content-Length'', ?n)" and ?h2 = "(str ''Connection'', ?v)"
  let ?p1 = "p + length (print_header ?h1)" and ?r = "concat (map print_header (e_headers e))"
  let ?p2 = "?p1 + length (print_header ?h2)"
  have b: "head_block e = print_header ?h1 @ print_header ?h2 @ ?r"
    by (simp add: head_block_def all_headers_def)
  obtain c bs where c: "?r @ [CR] = c # bs" "c \<noteq> 32" "c \<noteq> 9"
    by (rule lines_first [of "e_headers e"]) (use e(1) in \<open>auto simp: list_all_iff plain_header_def\<close>)
  have d2: "coming data ?p1 (print_header ?h2)" and d3: "coming data ?p2 (?r @ [CR])" and d1: "coming data p (print_header ?h1)"
    using d(1) unfolding b by (simp_all add: add.assoc)
  have "coming data ?p1 [67]"
    using d2 by (simp add: print_header_def str_def)
  then have d1': "coming data p (print_header ?h1 @ [67])"
    using d1 coming_append by blast
  have d2': "coming data ?p1 (print_header ?h2 @ [c])"
    using d2 d3 c(1) coming_append [of data ?p1 "print_header ?h2"] by simp
  have n: "hd ?n \<in> set ?n"
    by simp
  have v1: "value_ok ?n"
    unfolding value_ok_def using dec_str_digits [of "length (e_body e)"] IS_NUM_plain n by (metis dec_str_nonempty)
  have v2: "value_ok ?v"
    by (simp add: value_ok_def str_def CR_def LF_def)
  have r1: "reads_as (str ''Content-Length'') ?n 0 cl F_CONTENTLENGTH (of_nat (length (e_body e)))"
    using reads_as_length [OF names_ok(3), of ?n 0 cl] dec_str_digits dec_str_value e(2) by simp
  have r2: "reads_as (str ''Connection'') ?v F_CONTENTLENGTH x (message_flags e) x" for x
    using reads_as_connection [OF names_ok(4)] by (simp add: message_flags_def)
  have ns: "\<not> sets_length [] CONNECTION"
    by (simp add: sets_length_def name_bytes)
  obtain s1 where s1: "exec_loop m_settings data s = exec_loop m_settings data s1"
    "in_head s_header_field_start F_CONTENTLENGTH (of_nat (length (e_body e))) k (with_value ?n (with_name (str ''Content-Length'') u)) ?p1 s1"
    by (rule header_line [OF s names_ok(1) v1 r1 _ d1']) (use d(2) b in auto)
  obtain s2 where s2: "exec_loop m_settings data s1 = exec_loop m_settings data s2"
    "in_head s_header_field_start (message_flags e) (of_nat (length (e_body e))) k
       (with_value ?v (with_name (str ''Connection'') (with_value ?n (with_name (str ''Content-Length'') u)))) ?p2 s2"
    by (rule header_line [OF s1(2) names_ok(2) v2 r2 _ d2' c(2,3)]) (use d(2) b ns names_ok(4) in auto)
  obtain s3 where s3: "exec_loop m_settings data s2 = exec_loop m_settings data s3"
    "in_head s_header_field_start (message_flags e) (of_nat (length (e_body e))) k
       (with_headers (e_headers e) (with_value ?v (with_name (str ''Connection'') (with_value ?n (with_name (str ''Content-Length'') u)))))
       (?p2 + length ?r) s3"
    by (rule plain_lines [OF s2(2) e(1) d3]) (use d(2) b in auto)
  show thesis
    by (rule that [of s3]) (use s1(1) s2(1) s3 b in \<open>simp_all add: all_headers_def add.assoc del: length_concat\<close>)
qed

section \<open>The end of the head\<close>

definition plain_flags :: "u8 \<Rightarrow> bool" where
  "plain_flags fl \<longleftrightarrow> fl AND F_TRAILING = 0 \<and> fl AND F_CHUNKED = 0 \<and> fl AND F_SKIPBODY = 0 \<and>
     fl AND (F_UPGRADE OR F_CONNECTION_UPGRADE) \<noteq> F_UPGRADE OR F_CONNECTION_UPGRADE"

lemma plain_flags_message: "plain_flags (message_flags e)"
  by (simp add: plain_flags_def message_flags_def flag_defs)

text \<open>
  The parser behind the head: at the end of the message if the length is 0, otherwise in front of the
  body.
\<close>

definition behind_head :: "u64 \<Rightarrow> http_parser_type \<times> http_method \<times> nat \<times> nat \<times> nat \<Rightarrow> http_msg \<Rightarrow> nat \<Rightarrow> http_msg exec \<Rightarrow> bool" where
  "behind_head cl k u p s \<longleftrightarrow> pos s = p \<and> marks s = (\<lambda>_. None) \<and> herrno (hp s) = HPE_OK \<and> constants (hp s) = k \<and>
     (if cl = 0 then usr s = completed (hp s) u
      else p_state s = s_body_identity \<and> content_length (hp s) = cl \<and> \<not> upgrade (hp s) \<and> usr s = u)"

text \<open>Behind a message that is complete: where the parser goes on.\<close>

definition at_next :: "u8 \<Rightarrow> 'u exec \<Rightarrow> bool" where
  "at_next fl s \<longleftrightarrow> p_state s = NEW_MESSAGE (hp s) \<and> nread (hp s) = 0 \<and> flags (hp s) = fl \<and> \<not> lenient_http_headers (hp s)"

lemma NEW_MESSAGE_upd [simp]:
  "NEW_MESSAGE (pr\<lparr>hstate := st\<rparr>) = NEW_MESSAGE pr" "NEW_MESSAGE (pr\<lparr>nread := n\<rparr>) = NEW_MESSAGE pr" "NEW_MESSAGE (pr\<lparr>upgrade := b\<rparr>) = NEW_MESSAGE pr"
  by (simp_all add: NEW_MESSAGE_def http_should_keep_alive_def http_message_needs_eof_def start_state_def has_flag_def)

lemma head_end:
  assumes s: "in_head s_header_field_start fl cl k u p s" and f: "plain_flags fl" "fst (snd k) \<noteq> HTTP_CONNECT" "cl \<noteq> ULLONG_MAX"
    and d: "coming data p [CR, LF]" "2 * p + 2 < HTTP_MAX_HEADER_SIZE"
  obtains s' where "exec_loop m_settings data s = exec_loop m_settings data s'" "behind_head cl k u (p + 2) s'" "cl = 0 \<Longrightarrow> at_next fl s'"
proof -
  have c: "p < length data" "data ! p = CR" "Suc p < length data" "data ! Suc p = LF"
    using d(1) by simp_all
  have nr: "unat (nread (hp s)) < HTTP_MAX_HEADER_SIZE" "unat (nread (hp s) + 1) < HTTP_MAX_HEADER_SIZE"
    using s d(2) nread_Suc [of "hp s"] by (simp_all add: in_head_def)
  let ?n = "nread (hp s)"
  let ?s1 = "s\<lparr>hp := (hp s)\<lparr>nread := ?n + 1\<rparr>, p_state := s_headers_almost_done, pos := Suc p\<rparr>"
  have "\<exists>t. reexecute m_settings data (s\<lparr>hp := (hp s)\<lparr>nread := ?n + 1\<rparr>\<rparr>) = Break t \<and> t\<lparr>pos := Suc (pos t)\<rparr> = ?s1"
    using s c by (subst reexecute_dispatch) (auto simp: dispatch_def exec_header_field_start_def prim_defs in_head_def)
  then have 1: "exec_loop m_settings data s = exec_loop m_settings data ?s1"
    using loop_header [of s data m_settings] s c nr by (force simp: in_head_def PARSING_HEADER_def)
  let ?pr = "(hp s)\<lparr>nread := 0, upgrade := False\<rparr>"
  have k: "hmethod (hp s) \<noteq> HTTP_CONNECT"
    using s f(2) by (auto simp: in_head_def constants_def)
  let ?s2 = "?s1\<lparr>hp := (hp s)\<lparr>nread := ?n + 2\<rparr>\<rparr>"
  let ?t = "s\<lparr>pos := Suc p, p_state := s_headers_done, hp := (hp s)\<lparr>nread := ?n + 2, upgrade := False\<rparr>\<rparr>"
  have r1: "reexecute m_settings data ?s2 = reexecute m_settings data ?t"
    using s c f k
    by (subst reexecute_dispatch)
      (auto simp: dispatch_def exec_headers_almost_done_def call_headers_complete_def prim_defs in_head_def plain_flags_def has_flag_def)
  have r2: "\<exists>t. reexecute m_settings data ?t = Break t \<and> behind_head cl k u (p + 2) (t\<lparr>pos := Suc (pos t)\<rparr>) \<and> (cl = 0 \<longrightarrow> at_next fl (t\<lparr>pos := Suc (pos t)\<rparr>))"
    using s c f k
    by (subst reexecute_dispatch)
      (auto simp: dispatch_def exec_headers_done_def prim_defs in_head_def plain_flags_def has_flag_def has_body_def behind_head_def at_next_def
        new_message_def callback_defs CALLBACK_NOTIFY_ER_def callback_quiet Let_def completed_def OnComplete_def OnComplete_target_def)
  then obtain t where t: "reexecute m_settings data ?t = Break t" "behind_head cl k u (p + 2) (t\<lparr>pos := Suc (pos t)\<rparr>)"
    "cl = 0 \<Longrightarrow> at_next fl (t\<lparr>pos := Suc (pos t)\<rparr>)"
    by blast
  have 2: "exec_loop m_settings data ?s1 = exec_loop m_settings data (t\<lparr>pos := Suc (pos t)\<rparr>)"
    using loop_header [of ?s1 data m_settings t] r1 t(1) c nr by (simp add: PARSING_HEADER_def add.commute)
  show thesis
    by (rule that [OF trans [OF 1 2] t(2,3)])
qed

section \<open>The body\<close>

text \<open>The bytes behind the head that are in the same buffer.\<close>

lemma body_at:
  assumes "p_state s = s_body_identity" "content_length (hp s) = of_nat n" "n < 2 ^ 60" "herrno (hp s) = HPE_OK" "marks s = (\<lambda>_. None)"
    and "pos s < length data" "length data \<le> pos s + n" "\<not> upgrade (hp s)"
  obtains s' where "exec_loop m_settings data s = Break s'" "herrno (hp s') = HPE_OK" "constants (hp s') = constants (hp s)"
    "if length data = pos s + n
     then marks s' = (\<lambda>_. None) \<and> usr s' = completed (hp s') (add_body (drop (pos s) data) (usr s))
     else marks s' = (\<lambda>_. None)(body := Some (pos s)) \<and> p_state s' = s_body_identity \<and> pos s' = length data \<and> usr s' = usr s \<and>
       content_length (hp s') = of_nat (pos s + n - length data)"
proof -
  let ?r = "length data - pos s"
  have n: "0 < n" "?r \<le> n" "pos s + ?r - 1 < length data" "Suc (pos s + ?r - 1) = length data"
    using assms by auto
  have u: "unat (of_nat n :: u64) = n" "unat (of_nat (n - ?r) :: u64) = n - ?r"
    using assms(3) by (auto simp: unat_of_nat simp del: of_nat_diff)
  then have w: "(of_nat n :: u64) \<noteq> 0" "(of_nat n :: u64) \<noteq> ULLONG_MAX" "(of_nat (n - ?r) :: u64) = 0 \<longleftrightarrow> ?r = n"
    using n unat_ULLONG_MAX assms(3) unat_eq_zero [of "of_nat (n - ?r) :: u64"] by (auto simp del: of_nat_diff)
  have c: "(of_nat n :: u64) - of_nat ?r = of_nat (n - ?r)"
    using n by (simp add: of_nat_diff)
  let ?a = "take_body data s"
  have a: "?a = s\<lparr>marks := (\<lambda>_. None)(body := Some (pos s)), hp := (hp s)\<lparr>content_length := of_nat (n - ?r)\<rparr>, pos := length data - 1\<rparr>"
    using assms u n c by (simp add: take_body_def MARK_def on_hp_def Let_def min_def del: of_nat_diff)
  show thesis
  proof (cases "?r = n")
    case False
    have "reexecute m_settings data s = Break ?a"
      using assms(1,2,6) w False by (subst reexecute_dispatch) (auto simp: dispatch_def exec_body_identity_def Let_def a simp del: of_nat_diff)
    then have "exec_loop m_settings data s = Break (?a\<lparr>pos := pos ?a + 1\<rparr>)"
      using loop_body [of s data m_settings ?a] assms(1,6) n by (simp add: PARSING_HEADER_def exec_loop_end a)
    then show thesis
      by (rule that) (use assms False n in \<open>auto simp: a add.commute simp del: of_nat_diff\<close>)
  next
    case True
    let ?pr = "(hp s)\<lparr>content_length := 0, hstate := s_message_done\<rparr>"
    let ?m = "add_body (drop (pos s) data) (usr s)"
    have "\<exists>t. reexecute m_settings data s = reexecute m_settings data t \<and> p_state t = s_message_done \<and> hp t = ?pr \<and> usr t = ?m \<and>
        pos t = length data - 1 \<and> marks t = (\<lambda>_. None)"
      using assms w True n
      by (subst reexecute_dispatch)
        (auto simp: dispatch_def exec_body_identity_def Let_def a prim_defs CALLBACK_DATA_ER_def OnBody_add callback_quiet intro!: exI)
    then obtain t where t: "reexecute m_settings data s = reexecute m_settings data t" "p_state t = s_message_done" "hp t = ?pr" "usr t = ?m"
      "pos t = length data - 1" "marks t = (\<lambda>_. None)"
      by blast
    let ?t = "t\<lparr>hp := (hp t)\<lparr>hstate := NEW_MESSAGE (hp t)\<rparr>, usr := completed (hp t) (usr t), p_state := NEW_MESSAGE (hp t)\<rparr>"
    have "reexecute m_settings data s = Break ?t"
      using message_done_reexecute [of t data] t assms(4,8) n by (simp add: Let_def)
    then have "exec_loop m_settings data s = Break (?t\<lparr>pos := length data\<rparr>)"
      using loop_body [of s data m_settings ?t] assms(1,6) n t(5) by (simp add: PARSING_HEADER_def exec_loop_end)
    then show thesis
      by (rule that) (use assms True n t in \<open>auto simp: completed_def OnComplete_def OnComplete_target_def\<close>)
  qed
qed

text \<open>One call of the parser on a buffer with a head and the first bytes of the body.\<close>

lemma execute_behind_head:
  assumes s: "behind_head (of_nat n) k u p s" and n: "n < 2 ^ 60" and d: "p \<le> length data" "length data \<le> p + n" "0 < p"
    and h: "herrno pr = HPE_OK" "exec_loop m_settings data
      \<lparr>hp = pr, usr = m, pos = 0, p_state = hstate pr, marks = initial_marks (hstate pr)\<rparr> = exec_loop m_settings data s"
  obtains pr' where "http_parser_execute m_settings data pr m =
      Some (pr', (if length data = p + n then completed pr' else id) (add_body (drop p data) u), length data)"
    "herrno pr' = HPE_OK" "constants pr' = k" "length data < p + n \<Longrightarrow> awaits_body (p + n - length data) pr'"
proof -
  have z: "(of_nat n :: u64) = 0 \<longleftrightarrow> n = 0"
    using n by (auto simp: word_of_nat_eq_0_iff dest: dvd_imp_le)
  have ne: "data \<noteq> []"
    using d by auto
  have ex: "http_parser_execute m_settings data pr m = leave_ctl (case exec_loop m_settings data s of Break s' \<Rightarrow> leftover m_settings data s' | r \<Rightarrow> r)"
    using ne h by (simp add: http_parser_execute_def Let_def)
  have sp: "pos s = p" "marks s = (\<lambda>_. None)" "herrno (hp s) = HPE_OK" "constants (hp s) = k"
    using s by (simp_all add: behind_head_def)
  have cc: "completed (pr\<lparr>hstate := x\<rparr>) = completed pr" for pr x
    by (simp add: completed_def OnComplete_def OnComplete_target_def fun_eq_iff)
  show thesis
  proof (cases "length data = p")
    case True
    have l: "exec_loop m_settings data s = Break s"
      using True sp(1) by (simp add: exec_loop_end)
    have "http_parser_execute m_settings data pr m = Some ((hp s)\<lparr>hstate := p_state s\<rparr>, usr s, length data)"
      unfolding ex l using leftover_none [OF sp(2,3), of m_settings data] by (simp add: leave_ctl_def leave_def)
    then show thesis
      by (intro that [of "(hp s)\<lparr>hstate := p_state s\<rparr>"]) (use s sp True z n in \<open>auto simp: behind_head_def awaits_body_def cc\<close>)
  next
    case False
    then have n0: "n \<noteq> 0" "p < length data"
      using d by auto
    have b: "p_state s = s_body_identity" "content_length (hp s) = of_nat n" "\<not> upgrade (hp s)" "usr s = u"
      using s n0 z by (simp_all add: behind_head_def)
    obtain s' where s': "exec_loop m_settings data s = Break s'" "herrno (hp s') = HPE_OK" "constants (hp s') = k"
      "if length data = p + n
       then marks s' = (\<lambda>_. None) \<and> usr s' = completed (hp s') (add_body (drop p data) u)
       else marks s' = (\<lambda>_. None)(body := Some p) \<and> p_state s' = s_body_identity \<and> pos s' = length data \<and> usr s' = u \<and>
         content_length (hp s') = of_nat (p + n - length data)"
      by (rule body_at [OF b(1,2) n sp(3,2), of data]) (use b sp n0 d in auto)
    show thesis
    proof (cases "length data = p + n")
      case True
      then have "http_parser_execute m_settings data pr m = Some ((hp s')\<lparr>hstate := p_state s'\<rparr>, usr s', length data)"
        unfolding ex s'(1) using s' leftover_none [of s' m_settings data] by (simp add: leave_ctl_def leave_def)
      then show thesis
        by (intro that [of "(hp s')\<lparr>hstate := p_state s'\<rparr>"]) (use s' True in \<open>auto simp: cc\<close>)
    next
      case f: False
      have "http_parser_execute m_settings data pr m = Some ((hp s')\<lparr>hstate := s_body_identity\<rparr>, add_body (drop p data) u, length data)"
        unfolding ex s'(1) using s' f leftover_body [of s' p data] by (simp add: leave_ctl_def leave_def)
      then show thesis
        by (intro that [of "(hp s')\<lparr>hstate := s_body_identity\<rparr>"]) (use s' f d n in \<open>auto simp: awaits_body_def simp del: of_nat_diff\<close>)
    qed
  qed
qed

end
