(* ===== verification/Http_Start.thy ===== *)
theory Http_Start
  imports Http_Line
begin

text \<open>
  The first line of a message: the status line and the request line the encoder prints, byte by byte
  through the states of the streaming parser.
\<close>

section \<open>The automaton of the first line\<close>

text \<open>
  The states of the first line outside of a URL and of the text of a status, with the values that change there: the
  index into a method name and the kind, the method, the status and the version.
\<close>

type_synonym line_values = "http_parser_type \<times> http_method \<times> nat \<times> nat \<times> nat"

definition line_step :: "u8 \<Rightarrow> state \<times> nat \<times> line_values \<Rightarrow> (state \<times> nat \<times> line_values) option" where
  "line_step c x =
     (case x of (st, i, ty, m, code, maj, mino) \<Rightarrow>
      let go = (\<lambda>b st'. if b then Some (st', i, ty, m, code, maj, mino) else None) in
      (case st of
        s_res_or_resp_H \<Rightarrow>
          if c = ascii CHR ''T'' then Some (s_res_HT, i, HTTP_RESPONSE, m, code, maj, mino)
          else if c = ascii CHR ''E'' then Some (s_req_method, 2, HTTP_REQUEST, HTTP_HEAD, code, maj, mino)
          else None
      | s_res_HT \<Rightarrow> go (c = ascii CHR ''T'') s_res_HTT
      | s_res_HTT \<Rightarrow> go (c = ascii CHR ''P'') s_res_HTTP
      | s_res_HTTP \<Rightarrow> go (c = ascii CHR ''/'') s_res_first_http_major
      | s_res_first_http_major \<Rightarrow> if IS_NUM c then Some (s_res_http_major, i, ty, m, code, digit c, mino) else None
      | s_res_http_major \<Rightarrow> go (c = ascii CHR ''.'') s_res_first_http_minor
      | s_res_first_http_minor \<Rightarrow> if IS_NUM c then Some (s_res_http_minor, i, ty, m, code, maj, digit c) else None
      | s_res_http_minor \<Rightarrow> go (c = ascii CHR '' '') s_res_first_status_code
      | s_res_first_status_code \<Rightarrow> if IS_NUM c then Some (s_res_status_code, i, ty, m, digit c, maj, mino) else None
      | s_res_status_code \<Rightarrow>
          if IS_NUM c then
            if code * 10 + digit c \<le> 999 then Some (s_res_status_code, i, ty, m, code * 10 + digit c, maj, mino) else None
          else go (c = ascii CHR '' '') s_res_status_start
      | s_res_line_almost_done \<Rightarrow> go (c = LF) s_header_field_start
      | s_req_method \<Rightarrow>
          if c = ascii CHR '' '' then go (i = length (http_method_str m)) s_req_spaces_before_url
          else if i \<ge> 100 then None
          else (case method_step c (m, i) of None \<Rightarrow> None | Some (m', i') \<Rightarrow> Some (s_req_method, i', ty, m', code, maj, mino))
      | s_req_http_start \<Rightarrow> go (c = ascii CHR ''H'') s_req_http_H
      | s_req_http_H \<Rightarrow> go (c = ascii CHR ''T'') s_req_http_HT
      | s_req_http_HT \<Rightarrow> go (c = ascii CHR ''T'') s_req_http_HTT
      | s_req_http_HTT \<Rightarrow> go (c = ascii CHR ''P'') s_req_http_HTTP
      | s_req_http_HTTP \<Rightarrow> go (c = ascii CHR ''/'') s_req_first_http_major
      | s_req_first_http_major \<Rightarrow>
          if ascii CHR ''1'' \<le> c \<and> c \<le> ascii CHR ''9'' then Some (s_req_http_major, i, ty, m, code, digit c, mino) else None
      | s_req_http_major \<Rightarrow> go (c = ascii CHR ''.'') s_req_first_http_minor
      | s_req_first_http_minor \<Rightarrow> if IS_NUM c then Some (s_req_http_minor, i, ty, m, code, maj, digit c) else None
      | s_req_http_minor \<Rightarrow> go (c = CR) s_req_line_almost_done
      | s_req_line_almost_done \<Rightarrow> go (c = LF) s_header_field_start
      | _ \<Rightarrow> None))"

fun line_run :: "bytes \<Rightarrow> state \<times> nat \<times> line_values \<Rightarrow> (state \<times> nat \<times> line_values) option" where
  "line_run [] x = Some x"
| "line_run (c # bs) x = Option.bind (line_step c x) (line_run bs)"

definition in_line :: "state \<times> nat \<times> line_values \<Rightarrow> 'u \<Rightarrow> nat \<Rightarrow> 'u exec \<Rightarrow> bool" where
  "in_line x u p s \<longleftrightarrow> in_head (fst x) 0 ULLONG_MAX (snd (snd x)) u p s \<and>
     (fst x = s_req_method \<longrightarrow> index (hp s) = fst (snd x))"

lemma head_step:
  assumes s: "in_head st fl cl k u p s" "PARSING_HEADER st" "p < length data" "2 * p < HTTP_MAX_HEADER_SIZE"
    and t: "dispatch m_settings data (s\<lparr>hp := (hp s)\<lparr>nread := nread (hp s) + 1\<rparr>\<rparr>) = Break t"
    and e: "pos t = p" "nread (hp t) = nread (hp s) + 1"
    and h: "p_state t = st'" "flags (hp t) = fl'" "content_length (hp t) = cl'" "constants (hp t) = k'" "usr t = u'"
      "herrno (hp t) = HPE_OK" "\<not> lenient_http_headers (hp t)" "marks t = (\<lambda>_. None)"
  shows "exec_loop m_settings data s = exec_loop m_settings data (t\<lparr>pos := Suc p\<rparr>)"
    "in_head st' fl' cl' k' u' (Suc p) (t\<lparr>pos := Suc p\<rparr>)"
proof -
  have nr: "unat (nread (hp s)) < HTTP_MAX_HEADER_SIZE" "unat (nread (hp s)) \<le> 2 * p" "pos s = p" "p_state s = st"
    using s by (simp_all add: in_head_def)
  have "reexecute m_settings data (s\<lparr>hp := (hp s)\<lparr>nread := nread (hp s) + 1\<rparr>\<rparr>) = Break t"
    using s(3) nr(3) t by (simp add: reexecute_dispatch)
  then show "exec_loop m_settings data s = exec_loop m_settings data (t\<lparr>pos := Suc p\<rparr>)"
    using loop_header [of s data m_settings t] s nr e by simp
  show "in_head st' fl' cl' k' u' (Suc p) (t\<lparr>pos := Suc p\<rparr>)"
    using h e nread_Suc [OF nr(1)] nr(2) by (simp add: in_head_def)
qed

lemma line_step_states: "line_step c (st, x) = Some y \<Longrightarrow> PARSING_HEADER st"
  by (cases st) (auto simp: line_step_def PARSING_HEADER_def)

lemma line_dispatch:
  assumes "in_line (st, i, k) u p s" "line_step c (st, i, k) = Some (st', i', k')" "p < length data" "data ! p = c"
  shows "\<exists>t. dispatch m_settings data (s\<lparr>hp := (hp s)\<lparr>nread := n\<rparr>\<rparr>) = Break t \<and> pos t = p \<and> nread (hp t) = n \<and>
     p_state t = st' \<and> flags (hp t) = 0 \<and> content_length (hp t) = ULLONG_MAX \<and> constants (hp t) = k' \<and> usr t = u \<and>
     herrno (hp t) = HPE_OK \<and> \<not> lenient_http_headers (hp t) \<and> marks t = (\<lambda>_. None) \<and> (st' = s_req_method \<longrightarrow> index (hp t) = i')"
proof (cases "st = s_req_method")
  case False
  then show ?thesis
    using assms
    by (cases st; simp add: line_step_def in_line_def in_head_def dispatch_def prim_defs constants_def split: if_splits prod.splits)
      (auto simp: exec_res_or_resp_H_def exec_expect_def exec_first_major_def exec_major_def exec_first_minor_def exec_res_http_minor_def
        exec_res_first_status_code_def exec_res_status_code_def exec_req_http_start_def exec_req_http_minor_def exec_req_line_almost_done_def prim_defs
        IS_NUM_def CR_def LF_def)
next
  case True
  let ?s = "s\<lparr>hp := (hp s)\<lparr>nread := n\<rparr>\<rparr>"
  obtain ty m code maj mino where k: "k = (ty, m, code, maj, mino)"
    by (cases k) auto
  have d: "dispatch m_settings data ?s = exec_req_method c ?s"
    using assms True by (simp add: dispatch_def in_line_def in_head_def)
  show ?thesis
  proof (cases "c = 32")
    case c: True
    have "i = length (http_method_str m)" "st' = s_req_spaces_before_url" "k' = k"
      using assms(2) True c k by (auto simp: line_step_def split: if_splits)
    then show ?thesis
      using assms(1) True c k unfolding d
      by (simp add: exec_req_method_def in_line_def in_head_def constants_def cstr_at_def prim_defs next_index_def)
  next
    case c: False
    obtain m' where m: "method_step c (m, i) = Some (m', i')" "st' = s_req_method" "k' = (ty, m', code, maj, mino)" "i < 100"
      using assms(2) True c k by (auto simp: line_step_def split: if_splits option.splits)
    have "i' = Suc i"
      using method_step_prefix(1) [OF m(1)] .
    then show ?thesis
      using assms(1) True k m unfolding d exec_req_method_step [OF c]
      by (simp add: in_line_def in_head_def constants_def on_hp_def next_index_def)
  qed
qed

lemma line_byte:
  assumes "in_line x u p s" "line_step c x = Some y" "coming data p [c]" "2 * p < HTTP_MAX_HEADER_SIZE"
  obtains s' where "exec_loop m_settings data s = exec_loop m_settings data s'" "in_line y u (Suc p) s'"
proof -
  obtain st i k st' i' k' where x: "x = (st, i, k)" and y: "y = (st', i', k')"
    by (cases x, cases y) auto
  have c: "p < length data" "data ! p = c"
    using assms(3) by simp_all
  obtain t where t: "dispatch m_settings data (s\<lparr>hp := (hp s)\<lparr>nread := nread (hp s) + 1\<rparr>\<rparr>) = Break t" "pos t = p" "nread (hp t) = nread (hp s) + 1"
    "p_state t = st'" "flags (hp t) = 0" "content_length (hp t) = ULLONG_MAX" "constants (hp t) = k'" "usr t = u"
    "herrno (hp t) = HPE_OK" "\<not> lenient_http_headers (hp t)" "marks t = (\<lambda>_. None)" "st' = s_req_method \<longrightarrow> index (hp t) = i'"
    using line_dispatch [OF assms(1) [unfolded x] assms(2) [unfolded x y] c, of "nread (hp s) + 1"] by blast
  have h: "in_head st 0 ULLONG_MAX k u p s"
    using assms(1) x by (simp add: in_line_def)
  have ph: "PARSING_HEADER st"
    using line_step_states assms(2) x by blast
  show thesis
    by (rule that [OF head_step(1) [OF h ph c(1) assms(4) t(1-11)]])
      (use head_step(2) [OF h ph c(1) assms(4) t(1-11)] t(12) y in \<open>simp add: in_line_def\<close>)
qed

lemma line_bytes:
  assumes "in_line x u p s" "line_run bs x = Some y" "coming data p bs" "2 * (p + length bs) \<le> HTTP_MAX_HEADER_SIZE"
  obtains s' where "exec_loop m_settings data s = exec_loop m_settings data s'" "in_line y u (p + length bs) s'"
  using assms
proof (induction bs arbitrary: x p s thesis)
  case (Cons c bs)
  obtain z where z: "line_step c x = Some z" "line_run bs z = Some y"
    using Cons.prems(3) by (auto simp: bind_eq_Some_conv)
  obtain s1 where s1: "exec_loop m_settings data s = exec_loop m_settings data s1" "in_line z u (Suc p) s1"
    by (rule line_byte [OF Cons.prems(2) z(1), of data]) (use Cons.prems in auto)
  obtain s2 where s2: "exec_loop m_settings data s1 = exec_loop m_settings data s2" "in_line y u (Suc p + length bs) s2"
    by (rule Cons.IH [OF _ s1(2) z(2)]) (use Cons.prems in auto)
  show ?case
    by (rule Cons.prems(1) [of s2]) (use s1 s2 in simp_all)
qed auto

section \<open>The first byte\<close>

definition line_first :: "u8 \<Rightarrow> (state \<times> nat \<times> line_values) option" where
  "line_first c =
     (if c = ascii CHR ''H'' then Some (s_res_or_resp_H, 0, HTTP_BOTH, HTTP_DELETE, 0, 0, 0)
      else if \<not> IS_ALPHA c then None
      else map_option (\<lambda>m. (s_req_method, 1, HTTP_REQUEST, m, 0, 0, 0)) (first_method (char_of (unat c))))"

lemma start_byte:
  assumes "line_first c = Some x" "coming data 0 [c]"
  obtains s' where "exec_loop m_settings data \<lparr>hp = http_parser_init HTTP_BOTH, usr = u, pos = 0, p_state = s_start_req_or_res, marks = (\<lambda>_. None)\<rparr> =
      exec_loop m_settings data s'" "in_line x u 1 s'"
proof -
  let ?s = "\<lparr>hp = http_parser_init HTTP_BOTH, usr = u, pos = 0, p_state = s_start_req_or_res, marks = (\<lambda>_. None)\<rparr>"
  have n: "c \<noteq> CR" "c \<noteq> LF"
    using assms(1) by (auto simp: line_first_def IS_ALPHA_def LOWER_def CR_def LF_def split: if_splits)
  have "\<exists>t. reexecute m_settings data (?s\<lparr>hp := (hp ?s)\<lparr>nread := nread (hp ?s) + 1\<rparr>\<rparr>) = Break t \<and> in_line x u 1 (t\<lparr>pos := Suc (pos t)\<rparr>)"
  proof (cases "c = ascii CHR ''H''")
    case True
    then show ?thesis
      using assms n
      by (subst reexecute_dispatch)
        (auto simp: dispatch_def exec_start_req_or_res_def prim_defs callback_defs CALLBACK_NOTIFY_ER_def line_first_def in_line_def in_head_def
          http_parser_init_def reset_message_def constants_def)
  next
    case False
    obtain m where m: "first_method (char_of (unat c)) = Some m" "IS_ALPHA c" "x = (s_req_method, 1, HTTP_REQUEST, m, 0, 0, 0)"
      using assms(1) False by (auto simp: line_first_def simp del: first_method.simps split: if_splits)
    have 1: "reexecute m_settings data (?s\<lparr>hp := (hp ?s)\<lparr>nread := nread (hp ?s) + 1\<rparr>\<rparr>) =
        reexecute m_settings data (?s\<lparr>p_state := s_start_req, hp := (http_parser_init HTTP_BOTH)\<lparr>nread := 1, flags := 0, content_length := ULLONG_MAX, ptype := HTTP_REQUEST\<rparr>\<rparr>)"
      using assms(2) n False
      by (subst reexecute_dispatch)
        (auto simp: dispatch_def exec_start_req_or_res_def prim_defs http_parser_init_def reset_message_def)
    show ?thesis
      unfolding 1 using assms(2) n m
      by (subst reexecute_dispatch)
        (auto simp: dispatch_def exec_start_req_def prim_defs callback_defs CALLBACK_NOTIFY_ER_def in_line_def in_head_def
          http_parser_init_def reset_message_def constants_def simp del: first_method.simps)
  qed
  then obtain t where t: "reexecute m_settings data (?s\<lparr>hp := (hp ?s)\<lparr>nread := nread (hp ?s) + 1\<rparr>\<rparr>) = Break t" "in_line x u 1 (t\<lparr>pos := Suc (pos t)\<rparr>)"
    by blast
  show thesis
    by (rule that [of "t\<lparr>pos := Suc (pos t)\<rparr>"])
      (use loop_header [of ?s data m_settings t] t assms(2) in \<open>simp_all add: PARSING_HEADER_def HTTP_MAX_HEADER_SIZE_def http_parser_init_def\<close>)
qed

section \<open>Texts\<close>

text \<open>The parser in the text of a status or in a URL, which began at \<open>q\<close>.\<close>

definition in_text :: "data_cb \<Rightarrow> nat \<Rightarrow> state \<Rightarrow> line_values \<Rightarrow> 'u \<Rightarrow> nat \<Rightarrow> 'u exec \<Rightarrow> bool" where
  "in_text f q st k u p s \<longleftrightarrow> in_head st 0 ULLONG_MAX k u p (s\<lparr>marks := (\<lambda>_. None)\<rparr>) \<and> marks s = (\<lambda>_. None)(f := Some q)"

definition text_step :: "u8 \<Rightarrow> state \<Rightarrow> state option" where
  "text_step c st =
     (case st of
        s_res_status \<Rightarrow> if c \<noteq> CR \<and> c \<noteq> LF then Some st else None
      | s_req_path \<Rightarrow> if parse_url_char st c \<noteq> s_dead then Some (parse_url_char st c) else None
      | s_req_query_string_start \<Rightarrow> if parse_url_char st c \<noteq> s_dead then Some (parse_url_char st c) else None
      | s_req_query_string \<Rightarrow> if parse_url_char st c \<noteq> s_dead then Some (parse_url_char st c) else None
      | _ \<Rightarrow> None)"

fun text_run :: "bytes \<Rightarrow> state \<Rightarrow> state option" where
  "text_run [] st = Some st"
| "text_run (c # cs) st = Option.bind (text_step c st) (text_run cs)"

lemma parse_url_char_dead: "parse_url_char st c \<noteq> s_dead \<Longrightarrow> c \<noteq> 32 \<and> c \<noteq> CR \<and> c \<noteq> LF"
  by (auto simp: parse_url_char_def)

lemma text_dispatch:
  assumes "text_step c st = Some st'" "p_state s = st" "pos s < length data" "data ! pos s = c"
  shows "dispatch m_settings data s = Break (s\<lparr>p_state := st'\<rparr>)"
  using assms parse_url_char_dead [of st c]
  by (cases st) (auto simp: text_step_def dispatch_def exec_res_status_def exec_req_url_def exec_url_char_def prim_defs split: if_splits)

lemma text_byte:
  assumes "in_text f q st k u p s" "text_step c st = Some st'" "coming data p [c]" "2 * p < HTTP_MAX_HEADER_SIZE"
  obtains s' where "exec_loop m_settings data s = exec_loop m_settings data s'" "in_text f q st' k u (Suc p) s'"
proof -
  have nr: "unat (nread (hp s)) < HTTP_MAX_HEADER_SIZE" "unat (nread (hp s)) \<le> 2 * p" "pos s = p" "p_state s = st"
    using assms(1,4) by (simp_all add: in_text_def in_head_def)
  let ?s = "s\<lparr>hp := (hp s)\<lparr>nread := nread (hp s) + 1\<rparr>, p_state := st'\<rparr>"
  have "reexecute m_settings data (s\<lparr>hp := (hp s)\<lparr>nread := nread (hp s) + 1\<rparr>\<rparr>) = Break ?s"
    using assms(3) nr text_dispatch [OF assms(2), of "s\<lparr>hp := (hp s)\<lparr>nread := nread (hp s) + 1\<rparr>\<rparr>" data] by (simp add: reexecute_dispatch)
  moreover have "PARSING_HEADER st"
    using assms(2) by (cases st) (simp_all add: text_step_def PARSING_HEADER_def)
  ultimately have "exec_loop m_settings data s = exec_loop m_settings data (?s\<lparr>pos := Suc p\<rparr>)"
    using loop_header [of s data m_settings ?s] assms(3) nr by simp
  then show thesis
    by (rule that) (use assms(1) nr nread_Suc [OF nr(1)] in \<open>auto simp: in_text_def in_head_def\<close>)
qed

lemma text_bytes:
  assumes "in_text f q st k u p s" "text_run cs st = Some st'" "coming data p cs" "2 * (p + length cs) \<le> HTTP_MAX_HEADER_SIZE"
  obtains s' where "exec_loop m_settings data s = exec_loop m_settings data s'" "in_text f q st' k u (p + length cs) s'"
  using assms
proof (induction cs arbitrary: st p s thesis)
  case (Cons c cs)
  obtain z where z: "text_step c st = Some z" "text_run cs z = Some st'"
    using Cons.prems(3) by (auto simp: bind_eq_Some_conv)
  obtain s1 where s1: "exec_loop m_settings data s = exec_loop m_settings data s1" "in_text f q z k u (Suc p) s1"
    by (rule text_byte [OF Cons.prems(2) z(1), of data]) (use Cons.prems in auto)
  obtain s2 where s2: "exec_loop m_settings data s1 = exec_loop m_settings data s2" "in_text f q st' k u (Suc p + length cs) s2"
    by (rule Cons.IH [OF _ s1(2) z(2)]) (use Cons.prems in auto)
  show ?case
    by (rule Cons.prems(1) [of s2]) (use s1 s2 in simp_all)
qed auto

subsection \<open>The text of a status\<close>

lemma text_run_status: "CR \<notin> set cs \<Longrightarrow> LF \<notin> set cs \<Longrightarrow> text_run cs s_res_status = Some s_res_status"
  by (induction cs) (auto simp: text_step_def)

lemma status_text_first:
  assumes "in_line (s_res_status_start, i, k) u p s" "coming data p [c]" "2 * p < HTTP_MAX_HEADER_SIZE"
  obtains s' where "exec_loop m_settings data s = exec_loop m_settings data s'"
    "if c = CR then in_line (s_res_line_almost_done, i, k) u (Suc p) s' else c \<noteq> LF \<longrightarrow> in_text status p s_res_status k u (Suc p) s'"
proof -
  have nr: "unat (nread (hp s)) < HTTP_MAX_HEADER_SIZE" "unat (nread (hp s)) \<le> 2 * p" "pos s = p" "p_state s = s_res_status_start"
    using assms(1,3) by (simp_all add: in_line_def in_head_def)
  let ?n = "(hp s)\<lparr>nread := nread (hp s) + 1\<rparr>"
  have "\<exists>t. reexecute m_settings data (s\<lparr>hp := ?n\<rparr>) = Break t \<and>
      (if c = CR then in_line (s_res_line_almost_done, i, k) u (Suc p) (t\<lparr>pos := Suc (pos t)\<rparr>)
       else c \<noteq> LF \<longrightarrow> in_text status p s_res_status k u (Suc p) (t\<lparr>pos := Suc (pos t)\<rparr>))"
    using assms nr nread_Suc [OF nr(1)]
    by (subst reexecute_dispatch) (auto simp: dispatch_def exec_res_status_start_def prim_defs in_line_def in_head_def in_text_def)
  then obtain t where t: "reexecute m_settings data (s\<lparr>hp := ?n\<rparr>) = Break t"
      "if c = CR then in_line (s_res_line_almost_done, i, k) u (Suc p) (t\<lparr>pos := Suc (pos t)\<rparr>)
       else c \<noteq> LF \<longrightarrow> in_text status p s_res_status k u (Suc p) (t\<lparr>pos := Suc (pos t)\<rparr>)"
    by blast
  show thesis
    by (rule that [OF _ t(2)]) (use loop_header [of s data m_settings t] t(1) nr assms(2) in \<open>simp add: PARSING_HEADER_def\<close>)
qed

text \<open>The byte behind a text: the callback takes the text.\<close>

lemma status_text_end:
  assumes "in_text status q s_res_status k u p s" "coming data p [CR]" "2 * p < HTTP_MAX_HEADER_SIZE"
  obtains s' where "exec_loop m_settings data s = exec_loop m_settings data s'" "in_line (s_res_line_almost_done, i, k) u (Suc p) s'"
proof -
  have nr: "unat (nread (hp s)) < HTTP_MAX_HEADER_SIZE" "unat (nread (hp s)) \<le> 2 * p" "pos s = p" "p_state s = s_res_status"
    using assms(1,3) by (simp_all add: in_text_def in_head_def)
  let ?n = "(hp s)\<lparr>nread := nread (hp s) + 1\<rparr>"
  have "\<exists>t. reexecute m_settings data (s\<lparr>hp := ?n\<rparr>) = Break t \<and> in_line (s_res_line_almost_done, i, k) u (Suc p) (t\<lparr>pos := Suc (pos t)\<rparr>)"
    using assms nr nread_Suc [OF nr(1)]
    by (subst reexecute_dispatch)
      (auto simp: dispatch_def exec_res_status_def prim_defs callback_defs CALLBACK_DATA_ER_def in_line_def in_head_def in_text_def)
  then obtain t where t: "reexecute m_settings data (s\<lparr>hp := ?n\<rparr>) = Break t" "in_line (s_res_line_almost_done, i, k) u (Suc p) (t\<lparr>pos := Suc (pos t)\<rparr>)"
    by blast
  show thesis
    by (rule that [OF _ t(2)]) (use loop_header [of s data m_settings t] t(1) nr assms(2) in \<open>simp add: PARSING_HEADER_def\<close>)
qed

lemma status_text:
  assumes s: "in_line (s_res_status_start, i, k) u p s" and d: "CR \<notin> set msg" "LF \<notin> set msg" "coming data p (msg @ [CR])"
    and b: "2 * (p + length msg + 1) \<le> HTTP_MAX_HEADER_SIZE"
  obtains s' where "exec_loop m_settings data s = exec_loop m_settings data s'" "in_line (s_res_line_almost_done, i, k) u (p + length msg + 1) s'"
proof (cases msg)
  case Nil
  obtain s' where "exec_loop m_settings data s = exec_loop m_settings data s'"
    "if CR = CR then in_line (s_res_line_almost_done, i, k) u (Suc p) s' else CR \<noteq> LF \<longrightarrow> in_text status p s_res_status k u (Suc p) s'"
    by (rule status_text_first [OF s, of data CR]) (use d b Nil in auto)
  then show thesis
    using that Nil by simp
next
  case (Cons c cs)
  have c: "c \<noteq> CR" "c \<noteq> LF" "coming data p [c]" "coming data (Suc p) cs" "coming data (Suc p + length cs) [CR]" "CR \<notin> set cs" "LF \<notin> set cs"
    using d Cons by auto
  obtain s1 where s1: "exec_loop m_settings data s = exec_loop m_settings data s1"
    "if c = CR then in_line (s_res_line_almost_done, i, k) u (Suc p) s1 else c \<noteq> LF \<longrightarrow> in_text status p s_res_status k u (Suc p) s1"
    by (rule status_text_first [OF s c(3)]) (use b in auto)
  have "in_text status p s_res_status k u (Suc p) s1"
    using s1(2) c by simp
  then obtain s2 where s2: "exec_loop m_settings data s1 = exec_loop m_settings data s2" "in_text status p s_res_status k u (Suc p + length cs) s2"
    by (rule text_bytes [OF _ text_run_status [OF c(6,7)] c(4)]) (use b Cons in auto)
  obtain s3 where s3: "exec_loop m_settings data s2 = exec_loop m_settings data s3" "in_line (s_res_line_almost_done, i, k) u (Suc (Suc p + length cs)) s3"
    by (rule status_text_end [OF s2(2) c(5)]) (use b Cons in auto)
  show thesis
    by (rule that [of s3]) (use s1(1) s2(1) s3 Cons in simp_all)
qed

section \<open>The status line\<close>

definition status_line :: "HttpEncoder \<Rightarrow> bytes" where
  "status_line e = str ''HTTP/1.1 '' @ dec_str (status_value (e_statusCode e)) @ [32] @ e_statusMessage e @ [CR, LF]"

lemma status_run:
  "line_run (str ''TTP/1.1 '' @ dec_str (status_value code) @ [32]) (s_res_or_resp_H, 0, HTTP_BOTH, HTTP_DELETE, 0, 0, 0) =
     Some (s_res_status_start, 0, HTTP_RESPONSE, HTTP_DELETE, status_value code, 1, 1)"
  by (cases code; hypsubst; code_simp)

abbreviation start_exec :: "'u \<Rightarrow> 'u exec" where
  "start_exec u \<equiv> \<lparr>hp = http_parser_init HTTP_BOTH, usr = u, pos = 0, p_state = s_start_req_or_res, marks = (\<lambda>_. None)\<rparr>"

lemma status_line_run:
  assumes d: "coming data 0 (status_line e)" "2 * length (status_line e) \<le> HTTP_MAX_HEADER_SIZE"
    and m: "CR \<notin> set (e_statusMessage e)" "LF \<notin> set (e_statusMessage e)"
  obtains s' where "exec_loop m_settings data (start_exec u) = exec_loop m_settings data s'"
    "in_head s_header_field_start 0 ULLONG_MAX (HTTP_RESPONSE, HTTP_DELETE, status_value (e_statusCode e), 1, 1) u (length (status_line e)) s'"
proof -
  let ?k = "(HTTP_RESPONSE, HTTP_DELETE, status_value (e_statusCode e), 1, 1)"
  let ?b = "str ''TTP/1.1 '' @ dec_str (status_value (e_statusCode e)) @ [32]"
  have l: "status_line e = [72] @ ?b @ (e_statusMessage e @ [CR]) @ [LF]"
    by (simp add: status_line_def str_def)
  let ?p = "1 + length ?b"
  let ?q = "?p + length (e_statusMessage e) + 1"
  have c: "coming data 0 [72]" "coming data 1 ?b" "coming data ?p (e_statusMessage e @ [CR])" "coming data ?q [LF]"
    using d(1) unfolding l coming_append by (simp_all only: list.size add_0 One_nat_def length_append add.assoc add_Suc)
  have len: "length (status_line e) = Suc ?q"
    unfolding l by simp
  have f: "line_first 72 = Some (s_res_or_resp_H, 0, HTTP_BOTH, HTTP_DELETE, 0, 0, 0)"
    by (simp add: line_first_def)
  obtain s1 where s1: "exec_loop m_settings data (start_exec u) = exec_loop m_settings data s1"
    "in_line (s_res_or_resp_H, 0, HTTP_BOTH, HTTP_DELETE, 0, 0, 0) u 1 s1"
    by (rule start_byte [OF f c(1)])
  obtain s2 where s2: "exec_loop m_settings data s1 = exec_loop m_settings data s2" "in_line (s_res_status_start, 0, ?k) u ?p s2"
    by (rule line_bytes [OF s1(2) status_run c(2)]) (use d(2) len in auto)
  obtain s3 where s3: "exec_loop m_settings data s2 = exec_loop m_settings data s3" "in_line (s_res_line_almost_done, 0, ?k) u ?q s3"
    by (rule status_text [OF s2(2) m c(3)]) (use d(2) len in auto)
  have lf: "line_step LF (s_res_line_almost_done, 0, ?k) = Some (s_header_field_start, 0, ?k)"
    by (simp add: line_step_def)
  obtain s4 where s4: "exec_loop m_settings data s3 = exec_loop m_settings data s4" "in_line (s_header_field_start, 0, ?k) u (Suc ?q) s4"
    by (rule line_byte [OF s3(2) lf c(4)]) (use d(2) len in auto)
  show thesis
    by (rule that [of s4]) (use s1(1) s2(1) s3(1) s4 len in \<open>simp_all add: in_line_def\<close>)
qed

section \<open>The request line\<close>

text \<open>A target the parser accepts: it begins with a slash and has no fragment.\<close>

definition target_ok :: "bytes \<Rightarrow> bool" where
  "target_ok t \<longleftrightarrow> t \<noteq> [] \<and> hd t = ascii CHR ''/'' \<and> (\<forall>c \<in> set t. IS_URL_CHAR c \<or> c = ascii CHR ''?'')"

lemma IS_URL_CHAR_plain: "IS_URL_CHAR c \<Longrightarrow> c \<noteq> 32 \<and> c \<noteq> CR \<and> c \<noteq> LF \<and> c \<noteq> 9 \<and> c \<noteq> 12"
  by (auto simp: IS_URL_CHAR_def BIT_AT_def normal_url_char_def CR_def LF_def)

lemma text_run_url:
  assumes "\<forall>c \<in> set cs. IS_URL_CHAR c \<or> c = 63" "st \<in> {s_req_path, s_req_query_string_start, s_req_query_string}"
  shows "\<exists>st'. text_run cs st = Some st' \<and> st' \<in> {s_req_path, s_req_query_string_start, s_req_query_string}"
  using assms
proof (induction cs arbitrary: st)
  case (Cons c cs)
  have c: "c \<noteq> 32 \<and> c \<noteq> CR \<and> c \<noteq> LF \<and> c \<noteq> 9 \<and> c \<noteq> 12" "IS_URL_CHAR c \<or> c = 63"
    using Cons.prems(1) IS_URL_CHAR_plain [of c] by (auto simp: CR_def LF_def)
  have "\<exists>z. text_step c st = Some z \<and> z \<in> {s_req_path, s_req_query_string_start, s_req_query_string}"
    using Cons.prems(2) c by (auto simp: text_step_def parse_url_char_def)
  then obtain z where z: "text_step c st = Some z" "z \<in> {s_req_path, s_req_query_string_start, s_req_query_string}"
    by blast
  then show ?case
    using Cons.IH [OF _ z(2)] Cons.prems(1) by auto
qed simp

lemma url_first:
  assumes "in_line (s_req_spaces_before_url, i, k) u p s" "fst (snd k) \<noteq> HTTP_CONNECT" "coming data p [47]" "2 * p < HTTP_MAX_HEADER_SIZE"
  obtains s' where "exec_loop m_settings data s = exec_loop m_settings data s'" "in_text url p s_req_path k u (Suc p) s'"
proof -
  have nr: "unat (nread (hp s)) < HTTP_MAX_HEADER_SIZE" "unat (nread (hp s)) \<le> 2 * p" "pos s = p" "p_state s = s_req_spaces_before_url"
    "hmethod (hp s) \<noteq> HTTP_CONNECT"
    using assms(1,2,4) by (auto simp: in_line_def in_head_def constants_def)
  let ?n = "(hp s)\<lparr>nread := nread (hp s) + 1\<rparr>"
  have "\<exists>t. reexecute m_settings data (s\<lparr>hp := ?n\<rparr>) = Break t \<and> in_text url p s_req_path k u (Suc p) (t\<lparr>pos := Suc (pos t)\<rparr>)"
    using assms nr nread_Suc [OF nr(1)]
    by (subst reexecute_dispatch)
      (auto simp: dispatch_def exec_req_spaces_before_url_def exec_url_char_def parse_url_char_def prim_defs in_line_def in_head_def in_text_def CR_def LF_def)
  then obtain t where t: "reexecute m_settings data (s\<lparr>hp := ?n\<rparr>) = Break t" "in_text url p s_req_path k u (Suc p) (t\<lparr>pos := Suc (pos t)\<rparr>)"
    by blast
  show thesis
    by (rule that [OF _ t(2)]) (use loop_header [of s data m_settings t] t(1) nr assms(3) in \<open>simp add: PARSING_HEADER_def\<close>)
qed

definition with_url :: "bytes \<Rightarrow> http_msg \<Rightarrow> http_msg" where
  "with_url t m = snd (snd (OnUrl undefined t m))"

lemma OnUrl_with: "OnUrl pr t m = (0, False, with_url t m)"
  by (simp add: with_url_def OnUrl_def)

lemma url_end:
  assumes "in_text url q st k u p s" "st \<in> {s_req_path, s_req_query_string_start, s_req_query_string}"
    and "coming data p [32]" "2 * p < HTTP_MAX_HEADER_SIZE"
  obtains s' where "exec_loop m_settings data s = exec_loop m_settings data s'"
    "in_line (s_req_http_start, i, k) (with_url (take (p - q) (drop q data)) u) (Suc p) s'"
proof -
  have nr: "unat (nread (hp s)) < HTTP_MAX_HEADER_SIZE" "unat (nread (hp s)) \<le> 2 * p" "pos s = p" "p_state s = st"
    using assms(1,4) by (simp_all add: in_text_def in_head_def)
  let ?n = "(hp s)\<lparr>nread := nread (hp s) + 1\<rparr>" and ?u = "with_url (take (p - q) (drop q data)) u"
  have "\<exists>t. dispatch m_settings data (s\<lparr>hp := ?n\<rparr>) = Break t \<and> in_line (s_req_http_start, i, k) ?u (Suc p) (t\<lparr>pos := Suc (pos t)\<rparr>)"
    using assms nr nread_Suc [OF nr(1)]
    by (auto simp: dispatch_def exec_req_url_def prim_defs callback_defs CALLBACK_DATA_ER_def OnUrl_with callback_quiet
        in_line_def in_head_def in_text_def)
  then obtain t where t: "dispatch m_settings data (s\<lparr>hp := ?n\<rparr>) = Break t" "in_line (s_req_http_start, i, k) ?u (Suc p) (t\<lparr>pos := Suc (pos t)\<rparr>)"
    by blast
  have "reexecute m_settings data (s\<lparr>hp := ?n\<rparr>) = Break t"
    using t(1) assms(3) nr by (simp add: reexecute_dispatch)
  moreover have "PARSING_HEADER st"
    using assms(2) by (auto simp: PARSING_HEADER_def)
  ultimately show thesis
    by (intro that [OF _ t(2)]) (use loop_header [of s data m_settings t] nr assms(3) in simp)
qed

definition request_line :: "http_method \<Rightarrow> HttpEncoder \<Rightarrow> bytes" where
  "request_line m e = http_method_str m @ [32] @ request_target e @ str '' HTTP/1.1'' @ [CR, LF]"

lemma line_run_append: "line_run (as @ bs) x = Option.bind (line_run as x) (line_run bs)"
  by (induction as arbitrary: x) (auto split: Option.bind_split)

lemma line_run_method:
  assumes "method_run bs (m, i) = Some (m', i')" "32 \<notin> set bs" "i + length bs \<le> 100"
  shows "line_run bs (s_req_method, i, ty, m, r) = Some (s_req_method, i', ty, m', r)"
  using assms
proof (induction bs arbitrary: m i)
  case (Cons c bs)
  obtain m1 i1 where "method_step c (m, i) = Some (m1, i1)" "method_run bs (m1, i1) = Some (m', i')"
    using Cons.prems(1) by (auto simp: bind_eq_Some_conv)
  then have m1: "method_step c (m, i) = Some (m1, Suc i)" "method_run bs (m1, Suc i) = Some (m', i')"
    using method_step_prefix(1) by blast+
  then have "line_step c (s_req_method, i, ty, m, r) = Some (s_req_method, Suc i, ty, m1, r)"
    using Cons.prems(2,3) by (cases r) (simp add: line_step_def)
  then show ?case
    using Cons.IH [OF m1(2)] Cons.prems(2,3) by simp
qed simp

lemma method_name:
  "32 \<notin> set (http_method_str m)" "http_method_str m \<noteq> []" "m \<noteq> HTTP_HEAD \<longrightarrow> hd (http_method_str m) \<noteq> 72"
proof -
  show "32 \<notin> set (http_method_str m)"
    by (cases m) (simp_all add: http_method_str_def str_def)
  show "http_method_str m \<noteq> []"
    by (cases m) (simp_all add: http_method_str_def str_def)
  show "m \<noteq> HTTP_HEAD \<longrightarrow> hd (http_method_str m) \<noteq> 72"
    by (cases m) (simp_all add: http_method_str_def str_def)
qed

lemma method_name_alpha: "first_method (char_of (unat c)) = Some m \<Longrightarrow> IS_ALPHA c"
proof -
  assume "first_method (char_of (unat c)) = Some m"
  then have "(char_of (unat c) :: char) \<in> set ''ABCDGHLMNOPRSTU''"
    by (auto split: if_splits)
  then have "(of_char (char_of (unat c) :: char) :: u8) \<in> of_char ` set ''ABCDGHLMNOPRSTU''"
    by (rule imageI)
  then show "IS_ALPHA c"
    unfolding ascii_char_of by (auto simp: IS_ALPHA_def LOWER_def)
qed

lemma method_line_at:
  assumes "http_method_str m = c # bs"
  obtains m0 where "first_method (char_of (unat c)) = Some m0"
    "line_run (bs @ [32]) (s_req_method, 1, ty, m0, r) = Some (s_req_spaces_before_url, length (c # bs), ty, m, r)"
proof -
  obtain m0 where m0: "first_method (char_of (unat c)) = Some m0" "method_run bs (m0, 1) = Some (m, length (c # bs))"
    using method_scan_complete [of m] assms by (auto simp: method_scan_def bind_eq_Some_conv simp del: first_method.simps)
  have n: "32 \<notin> set bs" "1 + length bs \<le> 100"
    using method_name(1) [of m] method_longest [of m] assms by auto
  have "line_step 32 (s_req_method, length (c # bs), ty, m, r) = Some (s_req_spaces_before_url, length (c # bs), ty, m, r)"
    using assms by (cases r) (simp add: line_step_def)
  then show thesis
    using that [OF m0(1)] line_run_method [OF m0(2) n] by (simp add: line_run_append del: list.size)
qed

lemma method_line:
  "Option.bind (line_first (hd (http_method_str m))) (line_run (tl (http_method_str m) @ [32])) =
     Some (s_req_spaces_before_url, length (http_method_str m), HTTP_REQUEST, m, 0, 0, 0)"
proof (cases "m = HTTP_HEAD")
  case True
  show ?thesis
    unfolding True by code_simp
next
  case False
  obtain c bs where w: "http_method_str m = c # bs"
    using method_name(2) [of m] by (cases "http_method_str m") auto
  obtain m0 where m0: "first_method (char_of (unat c)) = Some m0"
    "line_run (bs @ [32]) (s_req_method, 1, HTTP_REQUEST, m0, 0, 0, 0) = Some (s_req_spaces_before_url, length (c # bs), HTTP_REQUEST, m, 0, 0, 0)"
    by (rule method_line_at [OF w])
  have "c \<noteq> 72" "IS_ALPHA c"
    using method_name(3) [of m] False w method_name_alpha [OF m0(1)] by auto
  then have "line_first c = Some (s_req_method, 1, HTTP_REQUEST, m0, 0, 0, 0)"
    using m0(1) by (simp add: line_first_def del: first_method.simps)
  then show ?thesis
    using m0(2) by (simp add: w del: list.size)
qed

text \<open>A request line at \<open>q\<close>, from its second byte on.\<close>

lemma request_line_rest:
  assumes s1: "in_line x u (Suc q) s1" and w: "http_method_str m = c # bs"
    and x: "line_run (bs @ [32]) x = Some (s_req_spaces_before_url, i, HTTP_REQUEST, m, 0, a, b)"
    and d: "coming data q (request_line m e)" "2 * (q + length (request_line m e)) \<le> HTTP_MAX_HEADER_SIZE"
    and t: "target_ok (request_target e)" "m \<noteq> HTTP_CONNECT"
  obtains s' where "exec_loop m_settings data s1 = exec_loop m_settings data s'"
    "in_head s_header_field_start 0 ULLONG_MAX (HTTP_REQUEST, m, 0, 1, 1) (with_url (request_target e) u) (q + length (request_line m e)) s'"
proof -
  let ?t = "request_target e" and ?k = "(HTTP_REQUEST, m, 0, a, b) :: line_values"
  let ?v = "str ''HTTP/1.1'' @ [CR, LF]"
  obtain ts where ts: "?t = 47 # ts" "\<forall>c \<in> set ts. IS_URL_CHAR c \<or> c = 63"
    using t(1) by (cases ?t) (auto simp: target_ok_def)
  obtain st where st: "text_run ts s_req_path = Some st" "st \<in> {s_req_path, s_req_query_string_start, s_req_query_string}"
    using text_run_url [OF ts(2)] by blast
  have l: "request_line m e = [c] @ (bs @ [32]) @ [47] @ ts @ [32] @ ?v"
    by (simp add: request_line_def w ts(1) str_def)
  let ?p = "Suc q + length (bs @ [32])"
  let ?q = "Suc ?p + length ts"
  have len: "q + length (request_line m e) = Suc ?q + length ?v"
    unfolding l by simp
  have c: "coming data (Suc q) (bs @ [32])" "coming data ?p [47]" "coming data (Suc ?p) ts" "coming data ?q [32]" "coming data (Suc ?q) ?v"
    using d(1) unfolding l by (simp_all add: str_def)
  have "coming data ?p ?t"
    using c(2,3) ts(1) by simp
  then have tk: "take (?q - ?p) (drop ?p data) = ?t"
    using ts(1) by (simp add: coming_def)
  obtain s2 where s2: "exec_loop m_settings data s1 = exec_loop m_settings data s2" "in_line (s_req_spaces_before_url, i, ?k) u ?p s2"
    by (rule line_bytes [OF s1 x c(1)]) (use d(2) len in auto)
  obtain s3 where s3: "exec_loop m_settings data s2 = exec_loop m_settings data s3" "in_text url ?p s_req_path ?k u (Suc ?p) s3"
    by (rule url_first [OF s2(2) _ c(2)]) (use d(2) len t(2) in auto)
  obtain s4 where s4: "exec_loop m_settings data s3 = exec_loop m_settings data s4" "in_text url ?p st ?k u ?q s4"
    by (rule text_bytes [OF s3(2) st(1) c(3)]) (use d(2) len in auto)
  obtain s5 where s5: "exec_loop m_settings data s4 = exec_loop m_settings data s5" "in_line (s_req_http_start, 0, ?k) (with_url ?t u) (Suc ?q) s5"
    by (rule url_end [OF s4(2) st(2) c(4), where i = 0]) (use d(2) len tk in auto)
  have v: "line_run ?v (s_req_http_start, 0, ?k) = Some (s_header_field_start, 0, HTTP_REQUEST, m, 0, 1, 1)"
    by (simp add: str_def line_step_def IS_NUM_def digit_def CR_def LF_def)
  obtain s6 where s6: "exec_loop m_settings data s5 = exec_loop m_settings data s6"
    "in_line (s_header_field_start, 0, HTTP_REQUEST, m, 0, 1, 1) (with_url ?t u) (Suc ?q + length ?v) s6"
    by (rule line_bytes [OF s5(2) v c(5)]) (use d(2) len in auto)
  have "in_head s_header_field_start 0 ULLONG_MAX (HTTP_REQUEST, m, 0, 1, 1) (with_url ?t u) (q + length (request_line m e)) s6"
    using s6(2) unfolding len by (simp add: in_line_def)
  with s2(1) s3(1) s4(1) s5(1) s6(1) show thesis
    using that by simp
qed

lemma request_line_run:
  assumes d: "coming data 0 (request_line m e)" "2 * length (request_line m e) \<le> HTTP_MAX_HEADER_SIZE"
    and t: "target_ok (request_target e)" "m \<noteq> HTTP_CONNECT"
  obtains s' where "exec_loop m_settings data (start_exec u) = exec_loop m_settings data s'"
    "in_head s_header_field_start 0 ULLONG_MAX (HTTP_REQUEST, m, 0, 1, 1) (with_url (request_target e) u) (length (request_line m e)) s'"
proof -
  obtain c bs where w: "http_method_str m = c # bs"
    using method_name(2) [of m] by (cases "http_method_str m") auto
  obtain x i where x: "line_first c = Some x" "line_run (bs @ [32]) x = Some (s_req_spaces_before_url, i, HTTP_REQUEST, m, 0, 0, 0)"
    using method_line [of m] w by (auto simp: bind_eq_Some_conv simp del: list.size)
  have "coming data 0 [c]"
    using d(1) w by (simp add: request_line_def)
  then obtain s1 where s1: "exec_loop m_settings data (start_exec u) = exec_loop m_settings data s1" "in_line x u 1 s1"
    by (rule start_byte [OF x(1)])
  obtain s' where s': "exec_loop m_settings data s1 = exec_loop m_settings data s'"
    "in_head s_header_field_start 0 ULLONG_MAX (HTTP_REQUEST, m, 0, 1, 1) (with_url (request_target e) u) (0 + length (request_line m e)) s'"
    by (rule request_line_rest [OF _ w x(2) d(1) _ t]) (use s1(2) d(2) in auto)
  show thesis
    by (rule that [of s']) (use s1(1) s' in simp_all)
qed

end
