(* ===== verification/Http_Roundtrip.thy ===== *)
theory Http_Roundtrip
  imports Http_Start
begin

text \<open>
  Messages from end to end: what the encoder prints is parsed by the streaming parser and collected by
  the message parser as the message it was made from.
\<close>

section \<open>A message in pieces\<close>

lemma head_run:
  assumes s: "in_head s_header_field_start 0 ULLONG_MAX k u p s" and e: "list_all plain_header (e_headers e)" "length (e_body e) < 2 ^ 60"
    and k: "fst (snd k) \<noteq> HTTP_CONNECT"
    and d: "coming data p (head_block e @ [CR, LF])" "2 * (p + length (head_block e) + 2) \<le> HTTP_MAX_HEADER_SIZE"
  obtains s' where "exec_loop m_settings data s = exec_loop m_settings data s'"
    "behind_head (of_nat (length (e_body e))) k (with_headers (all_headers e) u) (p + length (head_block e) + 2) s'"
    "e_body e = [] \<Longrightarrow> at_next (message_flags e) s'"
proof -
  let ?q = "p + length (head_block e)" and ?n = "of_nat (length (e_body e)) :: u64"
  have "unat ?n = length (e_body e)"
    using e(2) by (simp add: unat_of_nat)
  then have n: "?n \<noteq> ULLONG_MAX"
    using e(2) unat_ULLONG_MAX by auto
  obtain s1 where s1: "exec_loop m_settings data s = exec_loop m_settings data s1"
    "in_head s_header_field_start (message_flags e) ?n k (with_headers (all_headers e) u) ?q s1"
    by (rule block_run [OF s e, of data]) (use d in auto)
  obtain s2 where s2: "exec_loop m_settings data s1 = exec_loop m_settings data s2" "behind_head ?n k (with_headers (all_headers e) u) (?q + 2) s2"
    "?n = 0 \<Longrightarrow> at_next (message_flags e) s2"
    by (rule head_end [OF s1(2) plain_flags_message k n, of data]) (use d in auto)
  show thesis
    by (rule that [of s2]) (use s1(1) s2 in simp_all)
qed

text \<open>The message is complete with the last of the pieces, and not before.\<close>

fun completes :: "bytes list \<Rightarrow> HttpParser \<Rightarrow> HttpParser option" where
  "completes [] h = None"
| "completes (d # ds) h =
     (case HttpParser_Parse d h of
        Some (True, h') \<Rightarrow> if HttpParser_IsComplete h' then (if ds = [] then Some h' else None) else completes ds h'
      | _ \<Rightarrow> None)"

lemma m_complete_keeps [simp]:
  "m_complete (add_body bs m) = m_complete m" "m_complete (with_name k m) = m_complete m" "m_complete (with_value v m) = m_complete m"
proof -
  have "m_complete (store_header m) = m_complete m" for m
    by (simp add: store_header_def)
  then show "m_complete (with_name k m) = m_complete m" "m_complete (with_value v m) = m_complete m"
    by (simp_all add: with_name_def with_value_def OnHeaderName_def OnHeaderValue_def)
qed (simp add: add_body_def)

lemma m_complete_headers [simp]: "m_complete (with_headers kvs m) = m_complete m"
proof (induction kvs arbitrary: m)
  case (Cons kv kvs)
  then show ?case by (cases kv) simp
qed simp

lemma completed_content_length [simp]: "completed (pr\<lparr>content_length := n\<rparr>) m = completed pr m"
  by (simp add: completed_def OnComplete_def OnComplete_target_def)

lemma body_completes:
  assumes "awaits_body n (m_httpParser h)" "\<not> m_complete (m_msg h)" "[] \<notin> set ds" "length (concat ds) = n"
  shows "\<exists>h'. completes ds h = Some h' \<and> m_msg h' = completed (m_httpParser h) (add_body (concat ds) (m_msg h))"
  using assms
proof (induction ds arbitrary: h n)
  case (Cons d ds)
  show ?case
  proof (cases "length d < n")
    case True
    let ?h = "\<lparr>m_msg = add_body d (m_msg h), m_httpParser = (m_httpParser h)\<lparr>content_length := of_nat (n - length d)\<rparr>\<rparr>"
    have "d \<noteq> []"
      using Cons.prems(3) by auto
    then have p: "HttpParser_Parse d h = Some (True, ?h)" "\<not> HttpParser_IsComplete ?h"
      using body_piece [OF Cons.prems(1) _ True] Cons.prems(1,2) by (simp_all add: HttpParser_Parse_eq awaits_body_def HttpParser_IsComplete_def)
    have a: "awaits_body (n - length d) (m_httpParser ?h)" "\<not> m_complete (m_msg ?h)" "[] \<notin> set ds" "length (concat ds) = n - length d"
      using Cons.prems True by (auto simp: awaits_body_def)
    show ?thesis
      using Cons.IH [OF a] p by auto
  next
    case False
    then have l: "length d = n" "length (concat ds) = 0"
      using Cons.prems(4) by (simp_all only: concat.simps length_append)
    then have "ds = []"
      using Cons.prems(3) by (cases ds) auto
    then show ?thesis
      using body_end [OF Cons.prems(1) l(1), of "m_msg h"] by (auto simp: HttpParser_Parse_eq HttpParser_IsComplete_def)
  qed
qed (simp add: awaits_body_def)

lemma append_split_long: "xs @ ys = us @ vs \<Longrightarrow> length xs \<le> length us \<Longrightarrow> \<exists>zs. us = xs @ zs \<and> ys = zs @ vs"
  by (auto simp: append_eq_append_conv2)

text \<open>
  The first line \<open>L\<close> stands for a status line or a request line. The first piece has at least the whole head;
  the others are not empty, since an empty piece tells the parser that the connection has ended.
\<close>

lemma message_pieces:
  assumes h: "m_httpParser h = http_parser_init HTTP_BOTH"
    and start: "\<And>data. coming data 0 L \<Longrightarrow> \<exists>s. exec_loop m_settings data (start_exec (m_msg h)) = exec_loop m_settings data s \<and>
      in_head s_header_field_start 0 ULLONG_MAX k u (length L) s"
    and e: "list_all plain_header (e_headers e)" "length (e_body e) < 2 ^ 60" "fst (snd k) \<noteq> HTTP_CONNECT"
    and b: "2 * length (L @ head_block e @ [CR, LF]) \<le> HTTP_MAX_HEADER_SIZE"
    and d: "L @ AppendToStream e = concat (d # ds)" "length (L @ AppendToStream e) \<le> length d + length (e_body e)" "[] \<notin> set ds"
    and nc: "\<not> m_complete u"
  obtains h' pr where "completes (d # ds) h = Some h'" "constants pr = k"
    "m_msg h' = completed pr (add_body (e_body e) (with_headers (all_headers e) u))"
proof -
  let ?H = "L @ head_block e @ [CR, LF]" and ?n = "length (e_body e)" and ?u = "with_headers (all_headers e) u"
  have full: "?H @ e_body e = d @ concat ds"
    using d(1) by (simp add: AppendToStream_block)
  moreover have len: "length ?H \<le> length d"
    using d(2) by (simp add: AppendToStream_block)
  ultimately obtain b1 where b1: "d = ?H @ b1" "e_body e = b1 @ concat ds"
    using append_split_long [of ?H] by blast
  have c: "coming d 0 L" "coming d (length L) (head_block e @ [CR, LF])"
    using coming_append [of d 0 ?H b1] coming_append [of d 0 L "head_block e @ [CR, LF]"] b1(1) by (metis coming_all add_0)+
  obtain s where s: "exec_loop m_settings d (start_exec (m_msg h)) = exec_loop m_settings d s" "in_head s_header_field_start 0 ULLONG_MAX k u (length L) s"
    using start [OF c(1)] by blast
  obtain s1 where s1: "exec_loop m_settings d s = exec_loop m_settings d s1" "behind_head (of_nat ?n) k ?u (length L + length (head_block e) + 2) s1"
    by (rule head_run [OF s(2) e c(2)]) (use b in auto)
  have init: "herrno (m_httpParser h) = HPE_OK" "hstate (m_httpParser h) = s_start_req_or_res" "initial_marks s_start_req_or_res = (\<lambda>_. None)"
    using h by (auto simp: http_parser_init_def initial_marks_def split: data_cb.split)
  obtain pr' where pr': "http_parser_execute m_settings d (m_httpParser h) (m_msg h) =
      Some (pr', (if length d = length ?H + ?n then completed pr' else id) (add_body (drop (length ?H) d) ?u), length d)"
    "herrno pr' = HPE_OK" "constants pr' = k" "length d < length ?H + ?n \<Longrightarrow> awaits_body (length ?H + ?n - length d) pr'"
    by (rule execute_behind_head [OF s1(2) e(2), of d "m_httpParser h" "m_msg h"]) (use b1 init s(1) s1(1) h in \<open>auto simp: add.assoc\<close>)
  have b1d: "drop (length ?H) d = b1"
    using b1(1) by simp
  let ?h = "\<lparr>m_msg = (if length d = length ?H + ?n then completed pr' else id) (add_body b1 ?u), m_httpParser = pr'\<rparr>"
  have p1: "HttpParser_Parse d h = Some (True, ?h)"
    using pr'(1,2) unfolding b1d by (simp add: HttpParser_Parse_eq)
  show thesis
  proof (cases "length d = length ?H + ?n")
    case True
    then have "concat ds = []" "ds = []" "b1 = e_body e"
      using b1 d(3) by (cases ds; auto)+
    then show thesis
      by (intro that [of ?h pr']) (use p1 True pr'(3) in \<open>simp_all add: HttpParser_IsComplete_def\<close>)
  next
    case False
    then have l: "length d < length ?H + ?n" "length (concat ds) = length ?H + ?n - length d"
      using b1 by auto
    have ni: "\<not> m_complete (m_msg ?h)"
      using False nc by simp
    obtain h' where h': "completes ds ?h = Some h'" "m_msg h' = completed pr' (add_body (concat ds) (add_body b1 ?u))"
      using body_completes [OF _ ni d(3) l(2)] pr'(4) [OF l(1)] False by auto
    show thesis
      by (rule that [of h' pr']) (use p1 h' pr'(3) b1(2) ni in \<open>simp_all add: HttpParser_IsComplete_def\<close>)
  qed
qed

section \<open>Responses\<close>

text \<open>The pieces in which a string arrives: the first has everything but at most the body.\<close>

definition in_pieces :: "bytes \<Rightarrow> HttpEncoder \<Rightarrow> bytes list \<Rightarrow> bool" where
  "in_pieces s e ds \<longleftrightarrow> ds \<noteq> [] \<and> [] \<notin> set ds \<and> concat ds = s \<and> length s \<le> length (hd ds) + length (e_body e)"

text \<open>What the parser has collected is the message of the encoder.\<close>

definition same_headers :: "HttpEncoder \<Rightarrow> HttpParser \<Rightarrow> bool" where
  "same_headers e h \<longleftrightarrow> (\<forall>key. map_find key (m_headers (m_msg h)) = map_of (rev (all_headers e)) key)"

definition parsed_response :: "HttpEncoder \<Rightarrow> HttpParser \<Rightarrow> bool" where
  "parsed_response e h \<longleftrightarrow> HttpParser_IsComplete h \<and> m_status (m_msg h) = status_value (e_statusCode e) \<and>
     m_body (m_msg h) = e_body e \<and> same_headers e h"

definition parsed_request :: "HttpEncoder \<Rightarrow> HttpParser \<Rightarrow> bool" where
  "parsed_request e h \<longleftrightarrow> HttpParser_IsComplete h \<and> m_method (m_msg h) = e_method e \<and> m_url (m_msg h) = e_url e \<and>
     m_parameters (m_msg h) = e_parameters e \<and> m_body (m_msg h) = e_body e \<and> same_headers e h"

text \<open>A message the encoder can print so that the parser understands it.\<close>

definition message_ok :: "HttpEncoder \<Rightarrow> bool" where
  "message_ok e \<longleftrightarrow> list_all plain_header (e_headers e) \<and> length (e_body e) < 2 ^ 60"

definition response_ok :: "HttpEncoder \<Rightarrow> bool" where
  "response_ok e \<longleftrightarrow> message_ok e \<and> CR \<notin> set (e_statusMessage e) \<and> LF \<notin> set (e_statusMessage e) \<and>
     2 * length (status_line e @ head_block e @ [CR, LF]) \<le> HTTP_MAX_HEADER_SIZE"

lemma GetReponseString_line: "GetReponseString e = status_line e @ AppendToStream e"
  by (simp add: GetReponseString_def status_line_def str_def CR_def LF_def)

lemma all_headers_stored:
  assumes "message_ok e" "m_headerState m = HeaderState_None" "m_headers m = []"
  shows "map_find key (m_headers (with_headers (all_headers e) m)) = map_of (rev (all_headers e)) key"
proof -
  have v: "snd kv \<noteq> [] \<and> fst kv \<noteq> []" if "kv \<in> set (all_headers e)" for kv
    using that assms(1) by (auto simp: all_headers_def message_ok_def list_all_iff plain_header_def value_ok_def name_ok_def str_def split: if_splits)
  then have f: "filter (\<lambda>(k, v). v \<noteq> []) (all_headers e) = all_headers e"
    by (force simp: filter_id_conv)
  have "m_headers (with_headers (all_headers e) m) = std.set_all (all_headers e) []"
    using headers_stored [of "all_headers e" m undefined] v assms(2,3) unfolding header_callbacks_with f by fastforce
  then show ?thesis
    using std.find_set_all [OF std.ok_empty, of key "all_headers e"] by (simp add: map_find_def [of _ "[]"] split: option.splits)
qed

lemma response_pieces:
  assumes h: "m_httpParser h = http_parser_init HTTP_BOTH" "\<not> m_complete (m_msg h)" and e: "response_ok e"
    and d: "GetReponseString e = concat (d # ds)" "length (GetReponseString e) \<le> length d + length (e_body e)" "[] \<notin> set ds"
  obtains h' pr where "completes (d # ds) h = Some h'" "status_code pr = status_value (e_statusCode e)"
    "m_msg h' = completed pr (add_body (e_body e) (with_headers (all_headers e) (m_msg h)))"
proof -
  have ok: "list_all plain_header (e_headers e)" "length (e_body e) < 2 ^ 60" "CR \<notin> set (e_statusMessage e)" "LF \<notin> set (e_statusMessage e)"
    "2 * length (status_line e @ head_block e @ [CR, LF]) \<le> HTTP_MAX_HEADER_SIZE" "2 * length (status_line e) \<le> HTTP_MAX_HEADER_SIZE"
    using e by (simp_all add: response_ok_def message_ok_def)
  have start: "\<exists>s. exec_loop m_settings data (start_exec (m_msg h)) = exec_loop m_settings data s \<and>
      in_head s_header_field_start 0 ULLONG_MAX (HTTP_RESPONSE, HTTP_DELETE, status_value (e_statusCode e), 1, 1) (m_msg h) (length (status_line e)) s"
    if "coming data 0 (status_line e)" for data
    by (rule status_line_run [OF that ok(6,3,4)]) blast
  show thesis
    by (rule message_pieces [OF h(1) start ok(1,2) _ ok(5) d [unfolded GetReponseString_line]])
      (use that h(2) in \<open>auto simp: constants_def\<close>)
qed

lemma response_parsed:
  assumes "response_ok e" "in_pieces (GetReponseString e) e ds"
  shows "\<exists>h. completes ds (HttpParser_new g) = Some h \<and> parsed_response e h"
proof -
  let ?m = "m_msg (HttpParser_new g)"
  have h: "m_httpParser (HttpParser_new g) = http_parser_init HTTP_BOTH" "m_headerState ?m = HeaderState_None"
    "m_headers ?m = []" "m_body ?m = []" "\<not> m_complete ?m"
    by (simp_all add: HttpParser_new_def)
  obtain x xs where ds: "ds = x # xs"
    using assms(2) by (cases ds) (auto simp: in_pieces_def)
  obtain h' pr where h': "completes (x # xs) (HttpParser_new g) = Some h'" "status_code pr = status_value (e_statusCode e)"
    "m_msg h' = completed pr (add_body (e_body e) (with_headers (all_headers e) ?m))"
    by (rule response_pieces [OF h(1,5) assms(1), of x xs]) (use assms(2) ds in \<open>auto simp: in_pieces_def\<close>)
  have "m_body (with_headers (all_headers e) ?m) = []"
    using header_callbacks_keeps(2) [of undefined "all_headers e" ?m] h(4) by (simp add: header_callbacks_with)
  then show ?thesis
    using h' all_headers_stored [OF _ h(2,3), of e] assms(1) unfolding ds
    by (auto simp: parsed_response_def same_headers_def HttpParser_IsComplete_def add_body_def response_ok_def)
qed

text \<open>
  C9: What the encoder prints as a response is parsed as that response: whatever pieces it arrives in, as long as
  the first one has the whole head and the head has at most 40 KiB, the parser reports no error and, with the last piece, a
  complete message with the status, the body and the headers of the encoder, those it adds itself included. The headers have values that
  are not empty, and names without a meaning for the framing of the message.
\<close>

theorem response_roundtrip:
  assumes "response_ok e" "in_pieces (GetReponseString e) e ds"
  shows "\<exists>h. completes ds (HttpParser_new g) = Some h \<and> m_status (m_msg h) = status_value (e_statusCode e) \<and> m_body (m_msg h) = e_body e \<and>
    (\<forall>key. map_find key (m_headers (m_msg h)) = map_of (rev (all_headers e)) key)"
  using response_parsed [OF assms, of g] by (auto simp: parsed_response_def same_headers_def)

definition sample_response :: HttpEncoder where
  "sample_response = SetBody (str ''hi'') (SetStatusMessage (str ''OK'') (SetStatusCode StatusCode_200Ok
     (AddHeader (str ''Server'') (str ''co'') (HttpEncoder_new False))))"

lemma sample_response_sel:
  "e_body sample_response = str ''hi''" "e_headers sample_response = [(str ''Server'', str ''co'')]"
  "e_statusMessage sample_response = str ''OK''" "e_statusCode sample_response = StatusCode_200Ok" "\<not> e_closeConnection sample_response"
  by (simp_all add: sample_response_def SetBody_def SetStatusMessage_def SetStatusCode_def AddHeader_def HttpEncoder_new_def)

lemma plain_server: "plain_header (str ''Server'', str ''co'')"
  by code_simp

lemma response_ok_sample: "response_ok sample_response"
  using plain_server
  by (simp add: response_ok_def message_ok_def sample_response_sel str_def CR_def LF_def status_line_def head_block_def all_headers_def
      print_header_def dec_str.simps HTTP_MAX_HEADER_SIZE_def)

abbreviation two_pieces :: "bytes \<Rightarrow> bytes list" where
  "two_pieces s \<equiv> [take (length s - 1) s, drop (length s - 1) s]"

lemma in_two_pieces: "2 \<le> length s \<Longrightarrow> e_body e \<noteq> [] \<Longrightarrow> in_pieces s e (two_pieces s)"
  by (cases "e_body e") (auto simp: in_pieces_def)

lemma in_pieces_sample: "in_pieces (GetReponseString sample_response) sample_response (two_pieces (GetReponseString sample_response))"
  by (rule in_two_pieces) (simp_all add: GetReponseString_def AppendToStream_def sample_response_sel str_def)

theorem response_roundtrip_witness:
  "\<exists>h. completes (two_pieces (GetReponseString sample_response)) (HttpParser_new 0) = Some h \<and> m_status (m_msg h) = 200 \<and>
     m_body (m_msg h) = str ''hi'' \<and> map_find (str ''Connection'') (m_headers (m_msg h)) = Some (str ''Keep-Alive'')"
proof -
  have f: "map_of (rev (all_headers sample_response)) (str ''Connection'') = Some (str ''Keep-Alive'')"
    by (simp add: all_headers_def sample_response_sel str_def)
  show ?thesis
    using response_roundtrip [OF response_ok_sample in_pieces_sample, of 0] f unfolding sample_response_sel
    by (metis status_value.simps(2))
qed

section \<open>Requests\<close>

definition request_ok :: "http_method \<Rightarrow> HttpEncoder \<Rightarrow> bool" where
  "request_ok m e \<longleftrightarrow> message_ok e \<and> m \<noteq> HTTP_CONNECT \<and> e_method e = http_method_str m \<and> target_ok (request_target e) \<and>
     2 * length (request_line m e @ head_block e @ [CR, LF]) \<le> HTTP_MAX_HEADER_SIZE"

definition params_ok :: "HttpEncoder \<Rightarrow> bool" where
  "params_ok e \<longleftrightarrow> map_ok (e_parameters e) \<and> list_all param_ok (e_parameters e) \<and> ascii CHR ''?'' \<notin> set (e_url e) \<and>
     {ascii CHR ''%'', ascii CHR ''+''} \<inter> set (request_target e) = {}"

lemma GetRequestString_line: "e_method e = http_method_str m \<Longrightarrow> GetRequestString e = request_line m e @ AppendToStream e"
  by (simp add: GetRequestString_def request_line_def str_def CR_def LF_def)

lemma with_url_sel [simp]:
  "m_urlAndParams (with_url t m) = m_urlAndParams m @ t" "m_headers (with_url t m) = m_headers m" "m_body (with_url t m) = m_body m"
  "m_headerState (with_url t m) = m_headerState m" "m_parameters (with_url t m) = m_parameters m"
  "m_complete (with_url t m) = m_complete m"
  by (simp_all add: with_url_def OnUrl_def)

lemma request_pieces:
  assumes h: "m_httpParser h = http_parser_init HTTP_BOTH" "\<not> m_complete (m_msg h)" and e: "request_ok m e"
    and d: "GetRequestString e = concat (d # ds)" "length (GetRequestString e) \<le> length d + length (e_body e)" "[] \<notin> set ds"
  obtains h' pr where "completes (d # ds) h = Some h'" "hmethod pr = m"
    "m_msg h' = completed pr (add_body (e_body e) (with_headers (all_headers e) (with_url (request_target e) (m_msg h))))"
proof -
  have ok: "list_all plain_header (e_headers e)" "length (e_body e) < 2 ^ 60" "target_ok (request_target e)" "m \<noteq> HTTP_CONNECT"
    "2 * length (request_line m e @ head_block e @ [CR, LF]) \<le> HTTP_MAX_HEADER_SIZE" "2 * length (request_line m e) \<le> HTTP_MAX_HEADER_SIZE"
    "e_method e = http_method_str m"
    using e by (simp_all add: request_ok_def message_ok_def)
  have start: "\<exists>s. exec_loop m_settings data (start_exec (m_msg h)) = exec_loop m_settings data s \<and>
      in_head s_header_field_start 0 ULLONG_MAX (HTTP_REQUEST, m, 0, 1, 1) (with_url (request_target e) (m_msg h)) (length (request_line m e)) s"
    if "coming data 0 (request_line m e)" for data
    by (rule request_line_run [OF that ok(6,3,4)]) blast
  show thesis
    by (rule message_pieces [OF h(1) start ok(1,2) _ ok(5) d [unfolded GetRequestString_line [OF ok(7)]]])
      (use that ok(4) h(2) in \<open>auto simp: constants_def\<close>)
qed

lemma request_parsed:
  assumes "request_ok m e" "params_ok e" "in_pieces (GetRequestString e) e ds"
  shows "\<exists>h. completes ds (HttpParser_new g) = Some h \<and> parsed_request e h"
proof -
  let ?m = "m_msg (HttpParser_new g)"
  have h: "m_httpParser (HttpParser_new g) = http_parser_init HTTP_BOTH" "m_headerState ?m = HeaderState_None"
    "m_headers ?m = []" "m_body ?m = []" "m_urlAndParams ?m = []" "m_parameters ?m = []" "\<not> m_complete ?m"
    by (simp_all add: HttpParser_new_def)
  obtain x xs where ds: "ds = x # xs"
    using assms(3) by (cases ds) (auto simp: in_pieces_def)
  obtain h' pr where h': "completes (x # xs) (HttpParser_new g) = Some h'" "hmethod pr = m"
    "m_msg h' = completed pr (add_body (e_body e) (with_headers (all_headers e) (with_url (request_target e) ?m)))"
    by (rule request_pieces [OF h(1,7) assms(1), of x xs]) (use assms(3) ds in \<open>auto simp: in_pieces_def\<close>)
  let ?w = "with_headers (all_headers e) (with_url (request_target e) ?m)"
  have w: "m_body ?w = []" "m_urlAndParams ?w = request_target e" "m_parameters ?w = []"
    using header_callbacks_keeps [of undefined "all_headers e" "with_url (request_target e) ?m"] h(4-6) by (simp_all add: header_callbacks_with)
  have t: "UrlDecode (request_target e) = request_target e" "GetStringBefore (ascii CHR ''?'') (request_target e) 0 = Some (e_url e)"
    "params_loop (request_target e) (length (e_url e) + 1) [] = Some (e_parameters e)"
    using target_parts [of e] assms(2) by (simp_all add: params_ok_def)
  have k: "map_find key (m_headers ?w) = map_of (rev (all_headers e)) key" for key
    by (rule all_headers_stored) (use assms(1) h in \<open>simp_all add: request_ok_def\<close>)
  show ?thesis
    using h' w t k assms(1) unfolding ds
    by (auto simp: parsed_request_def same_headers_def HttpParser_IsComplete_def add_body_def request_ok_def completed_def OnComplete_def OnComplete_target_def
        ParseUrlAndParam_def Let_def)
qed

text \<open>
  C10: What the encoder prints as a request is parsed as that request: in whatever pieces it arrives, as long as the first one
  has the whole head and the head has at most 40 KiB, the parser reports no error and, with the last piece, a complete message with the
  method, the URL, the parameters, the body and the headers of the encoder. That is for plain headers, as for responses, and for targets that mean what they
  say: without percent and plus signs, which the parser decodes though the encoder does not encode them, without a question mark in the URL, without an empty key or
  one with an equals sign, and without an ampersand in a value.
\<close>

theorem request_roundtrip:
  assumes "request_ok m e" "params_ok e" "in_pieces (GetRequestString e) e ds"
  shows "\<exists>h. completes ds (HttpParser_new g) = Some h \<and>
    m_method (m_msg h) = e_method e \<and> m_url (m_msg h) = e_url e \<and> m_parameters (m_msg h) = e_parameters e \<and> m_body (m_msg h) = e_body e \<and>
    (\<forall>key. map_find key (m_headers (m_msg h)) = map_of (rev (all_headers e)) key)"
  using request_parsed [OF assms, of g] by (auto simp: parsed_request_def same_headers_def)

definition sample_request :: HttpEncoder where
  "sample_request = SetBody (str ''hi'') (SetMethod (str ''POST'') (SetUrl (str ''/p'')
     (AddParameter (str ''k'') (str ''v'') (AddHeader (str ''Server'') (str ''co'') (HttpEncoder_new True)))))"

lemma sample_request_sel:
  "e_body sample_request = str ''hi''" "e_headers sample_request = [(str ''Server'', str ''co'')]" "e_method sample_request = str ''POST''"
  "e_url sample_request = str ''/p''" "e_parameters sample_request = [(str ''k'', str ''v'')]" "e_closeConnection sample_request"
  by (simp_all add: sample_request_def SetBody_def SetMethod_def SetUrl_def AddHeader_def AddParameter_def HttpEncoder_new_def)

lemma request_ok_sample: "request_ok HTTP_POST sample_request" "params_ok sample_request"
proof -
  have t: "target_ok (request_target sample_request)"
    by code_simp
  have l: "http_method_str HTTP_POST = str ''POST''"
    by (simp add: http_method_str_def)
  show "request_ok HTTP_POST sample_request"
    using plain_server t l
    by (simp add: request_ok_def message_ok_def sample_request_sel str_def CR_def LF_def request_line_def request_target_def head_block_def
        all_headers_def print_header_def dec_str.simps HTTP_MAX_HEADER_SIZE_def)
  show "params_ok sample_request"
    by (simp add: params_ok_def sample_request_sel param_ok_def map_ok_def request_target_def str_def)
qed

lemma in_pieces_sample_request: "in_pieces (GetRequestString sample_request) sample_request (two_pieces (GetRequestString sample_request))"
  by (rule in_two_pieces) (simp_all add: GetRequestString_def AppendToStream_def sample_request_sel str_def)

theorem request_roundtrip_witness:
  "\<exists>h. completes (two_pieces (GetRequestString sample_request)) (HttpParser_new 0) = Some h \<and> m_method (m_msg h) = str ''POST'' \<and>
     m_url (m_msg h) = str ''/p'' \<and> m_parameters (m_msg h) = [(str ''k'', str ''v'')] \<and> m_body (m_msg h) = str ''hi''"
  using request_roundtrip [OF request_ok_sample in_pieces_sample_request, of 0] unfolding sample_request_sel by blast

end
