(* ===== verification/Base64.thy ===== *)
theory Base64
  imports Url_Codec
begin

text \<open>
  \<open>3rd/base64/base64.cpp\<close>, used by the WebSocket handshake. The accumulator is the 32-bit
  \<open>unsigned int\<close> of the code (its high bits overflow), the output string of the encoder is a
  buffer that is filled by index. The exceptions and a failed \<open>assert\<close> are values of \<open>b64_error\<close>; the
  comparisons of the closing assertions are made at the 64 bits of \<open>size_t\<close>, where a subtraction wraps around.
\<close>

section \<open>The code\<close>

datatype b64_error = length_error | invalid_argument | assertion_failed

definition b64_table :: bytes where
  "b64_table = map (\<lambda>c. of_nat c)
     ([65..<91] @ [97..<123] @ [48..<58] @ [43, 47])"

definition reverse_table :: "u8 list" where
  "reverse_table =
    [64, 64, 64, 64, 64, 64, 64, 64, 64, 64, 64, 64, 64, 64, 64, 64,
     64, 64, 64, 64, 64, 64, 64, 64, 64, 64, 64, 64, 64, 64, 64, 64,
     64, 64, 64, 64, 64, 64, 64, 64, 64, 64, 64, 62, 64, 64, 64, 63,
     52, 53, 54, 55, 56, 57, 58, 59, 60, 61, 64, 64, 64, 64, 64, 64,
     64,  0,  1,  2,  3,  4,  5,  6,  7,  8,  9, 10, 11, 12, 13, 14,
     15, 16, 17, 18, 19, 20, 21, 22, 23, 24, 25, 64, 64, 64, 64, 64,
     64, 26, 27, 28, 29, 30, 31, 32, 33, 34, 35, 36, 37, 38, 39, 40,
     41, 42, 43, 44, 45, 46, 47, 48, 49, 50, 51, 64, 64, 64, 64, 64]"

record b64_state =
  accumulator :: u32
  bits_collected :: nat
  retval :: bytes
  outpos :: nat

definition b64_char :: "u32 \<Rightarrow> u8" where
  "b64_char v = b64_table ! unat (v AND 0x3F)"

text \<open>The inner loop of the encoder.\<close>

function emit_sextets :: "b64_state \<Rightarrow> b64_state" where
  "emit_sextets s =
     (if bits_collected s \<ge> 6 then
        let bits = bits_collected s - 6 in
        emit_sextets
          (s\<lparr>bits_collected := bits,
             retval := (retval s)[outpos s := b64_char (drop_bit bits (accumulator s))],
             outpos := outpos s + 1\<rparr>)
      else s)"
  by auto
termination
  by (relation "measure bits_collected") auto

declare emit_sextets.simps [simp del]

definition encode_byte :: "u8 \<Rightarrow> b64_state \<Rightarrow> b64_state" where
  "encode_byte b s =
     emit_sextets
       (s\<lparr>accumulator := push_bit 8 (accumulator s) OR ucast b,
          bits_collected := bits_collected s + 8\<rparr>)"

definition encode_loop :: "bytes \<Rightarrow> b64_state \<Rightarrow> b64_state" where
  "encode_loop = fold encode_byte"

definition encode_tail :: "b64_state \<Rightarrow> b64_error + b64_state" where
  "encode_tail s =
     (if bits_collected s > 0 then
        if \<not> bits_collected s < 6 then Inl assertion_failed
        else
          let acc = push_bit (6 - bits_collected s) (accumulator s) in
          Inr (s\<lparr>accumulator := acc,
            retval := (retval s)[outpos s := b64_char acc],
            outpos := outpos s + 1\<rparr>)
      else Inr s)"

text \<open>\<open>'=' = 61\<close>. The string starts as padding of the final length.\<close>

definition encode_start :: "nat \<Rightarrow> b64_state" where
  "encode_start binlen =
     \<lparr>accumulator = 0, bits_collected = 0, retval = replicate ((binlen + 2) div 3 * 4) 61, outpos = 0\<rparr>"

definition max_bindata :: nat where
  "max_bindata = (2 ^ 64 - 1) div 4 * 3"

text \<open>The two assertions before the \<open>return\<close>.\<close>

definition closing_asserts :: "b64_state \<Rightarrow> bool" where
  "closing_asserts s \<longleftrightarrow>
     (let pos = of_nat (outpos s) :: u64; size = of_nat (length (retval s)) in pos \<ge> size - 2 \<and> pos \<le> size)"

definition base64_encode :: "bytes \<Rightarrow> b64_error + bytes" where
  "base64_encode bindata =
     (if length bindata > max_bindata then Inl length_error
      else case encode_tail (encode_loop bindata (encode_start (length bindata))) of
             Inl err \<Rightarrow> Inl err
           | Inr s \<Rightarrow> if closing_asserts s then Inr (retval s) else Inl assertion_failed)"

text \<open>\<open>isspace\<close> in the C locale; \<open>char\<close> is signed, so a byte above 127 is a negative \<open>c\<close>.\<close>

definition isspace :: "int \<Rightarrow> bool" where
  "isspace c \<longleftrightarrow> c = 32 \<or> 9 \<le> c \<and> c \<le> 13"

fun decode_loop :: "bytes \<Rightarrow> u32 \<Rightarrow> nat \<Rightarrow> bytes \<Rightarrow> b64_error + bytes" where
  "decode_loop [] acc bits out = Inr out"
| "decode_loop (x # xs) acc bits out =
     (let c = sint x in
      if isspace c \<or> c = 61 then decode_loop xs acc bits out
      else if c > 127 \<or> c < 0 \<or> reverse_table ! nat c > 63 then Inl invalid_argument
      else
        let acc' = push_bit 6 acc OR ucast (reverse_table ! nat c);
            bits' = bits + 6
        in if bits' \<ge> 8
           then decode_loop xs acc' (bits' - 8) (out @ [ucast (drop_bit (bits' - 8) acc' AND 0xFF)])
           else decode_loop xs acc' bits' out)"

definition base64_decode :: "bytes \<Rightarrow> b64_error + bytes" where
  "base64_decode ascdata = decode_loop ascdata 0 0 []"

section \<open>The standard encoding\<close>

text \<open>RFC 4648, section 4: three bytes are four characters, a shorter last group is padded.\<close>

definition sextet :: "nat \<Rightarrow> u8" where
  "sextet n = b64_table ! (n mod 64)"

fun rfc4648 :: "bytes \<Rightarrow> bytes" where
  "rfc4648 [] = []"
| "rfc4648 [a] = [sextet (unat a div 4), sextet (unat a * 16), 61, 61]"
| "rfc4648 [a, b] =
     (let n = unat a * 256 + unat b in [sextet (n div 1024), sextet (n div 16), sextet (n * 4), 61])"
| "rfc4648 (a # b # c # xs) =
     (let n = unat a * 65536 + unat b * 256 + unat c in
      sextet (n div 262144) # sextet (n div 4096) # sextet (n div 64) # sextet n # rfc4648 xs)"

section \<open>The encoder writes the standard encoding\<close>

lemma unat_push_or:
  fixes acc :: u32
  assumes "unat x < 2 ^ k" "k \<le> 32"
  shows "unat (push_bit k acc OR x) = (unat acc * 2 ^ k + unat x) mod 2 ^ 32"
proof -
  have "unat (take_bit k x) = unat x"
    using assms(1) by (simp add: unat_take_bit)
  then have x: "take_bit k x = x"
    by (simp add: word_unat_eq_iff)
  have "push_bit k acc AND take_bit k x = 0"
    by (rule bit_word_eqI) (auto simp: bit_simps)
  then have "push_bit k acc OR x = push_bit k acc + x"
    using disjunctive_add_eq_or [of "push_bit k acc" x] by (simp add: x)
  moreover have "unat (push_bit k acc) = unat acc * 2 ^ k mod 2 ^ 32"
    by (simp add: unat_push_bit)
  ultimately show ?thesis
    by (simp add: unat_word_ariths mod_simps)
qed

lemma unat_b64_index: "unat (v AND 0x3F) = unat v mod 64" for v :: u32
  using unat_and_mask [of v 6] by (simp add: mask_eq_exp_minus_1)

lemma b64_char_sextet: "b64_char (drop_bit k v) = sextet (unat v div 2 ^ k)"
  by (simp add: b64_char_def sextet_def unat_b64_index unat_drop_bit)

text \<open>\<open>holds m acc y\<close>: the low \<open>m\<close> bits of the accumulator are those of the number \<open>y\<close>.\<close>

definition holds :: "nat \<Rightarrow> u32 \<Rightarrow> nat \<Rightarrow> bool" where
  "holds m acc y \<longleftrightarrow> unat acc mod 2 ^ m = y mod 2 ^ m"

lemma holds_0 [simp]: "holds 0 acc y"
  by (simp add: holds_def)

lemma holds_push:
  assumes "holds m acc y" "unat x < 2 ^ k" "m + k \<le> 32"
  shows "holds (m + k) (push_bit k acc OR x) (y * 2 ^ k + unat x)"
proof -
  have "unat acc * 2 ^ k mod 2 ^ (m + k) = y * 2 ^ k mod 2 ^ (m + k)"
    using assms(1) by (simp add: holds_def power_add flip: mult_mod_left)
  then have "(unat acc * 2 ^ k + unat x) mod 2 ^ (m + k) = (y * 2 ^ k + unat x) mod 2 ^ (m + k)"
    by (rule mod_add_cong) simp
  then show ?thesis
    using assms mod_pow_cancel [of "m + k" 32] by (simp add: holds_def unat_push_or)
qed

lemma holds_bits:
  assumes "holds m acc y" "k + j \<le> m"
  shows "unat acc div 2 ^ k mod 2 ^ j = y div 2 ^ k mod 2 ^ j"
proof -
  have "unat acc mod 2 ^ (k + j) = y mod 2 ^ (k + j)"
    using assms by (metis holds_def mod_pow_cancel)
  then show ?thesis
    by (metis drop_bit_eq_div drop_bit_take_bit add_diff_cancel_left' take_bit_eq_mod)
qed

lemma holds_sextet: "holds m acc y \<Longrightarrow> k + 6 \<le> m \<Longrightarrow> b64_char (drop_bit k acc) = sextet (y div 2 ^ k)"
  using holds_bits [of m acc y k 6] by (simp add: b64_char_sextet sextet_def)

text \<open>The state of the encoder with \<open>out\<close> written and \<open>m\<close> padding characters left.\<close>

definition enc_state :: "u32 \<Rightarrow> nat \<Rightarrow> bytes \<Rightarrow> nat \<Rightarrow> b64_state" where
  "enc_state acc bits out m =
     \<lparr>accumulator = acc, bits_collected = bits, retval = out @ replicate m 61, outpos = length out\<rparr>"

lemma emit_one:
  "6 \<le> bits \<Longrightarrow> emit_sextets (enc_state acc bits out (Suc m)) =
     emit_sextets (enc_state acc (bits - 6) (out @ [b64_char (drop_bit (bits - 6) acc)]) m)"
  by (subst emit_sextets.simps) (simp add: Let_def enc_state_def)

lemma emit_none: "bits < 6 \<Longrightarrow> emit_sextets (enc_state acc bits out m) = enc_state acc bits out m"
  by (subst emit_sextets.simps) (simp add: enc_state_def)

lemma byte_lt: "unat b < 256" for b :: u8
  using unsigned_less [of b] by simp

lemma unat_ucast_byte [simp]: "unat (ucast b :: u32) = unat b" for b :: u8
proof -
  have "unat b < 2 ^ 32"
    using byte_lt [of b] by simp
  then show ?thesis
    by (simp add: unsigned_ucast_eq take_bit_eq_mod)
qed

text \<open>One byte: the accumulator takes it in, and the complete sextets are written.\<close>

lemma encode_byte_step:
  assumes "holds m acc y" "m + 8 \<le> 32"
  obtains acc' where "holds (m + 8) acc' (y * 256 + unat b)"
    "\<forall>bits out k. encode_byte b (enc_state acc bits out k) = emit_sextets (enc_state acc' (bits + 8) out k)"
proof
  show "holds (m + 8) (push_bit 8 acc OR ucast b) (y * 256 + unat b)"
    using holds_push [OF assms(1), of "ucast b" 8] assms(2) byte_lt [of b] by simp
  show "\<forall>bits out k. encode_byte b (enc_state acc bits out k) =
      emit_sextets (enc_state (push_bit 8 acc OR ucast b) (bits + 8) out k)"
    by (simp add: encode_byte_def enc_state_def)
qed

lemma encode_1:
  obtains acc' where "holds 8 acc' (unat a)"
    "\<forall>k. encode_byte a (enc_state acc 0 out (Suc k)) = enc_state acc' 2 (out @ [sextet (unat a div 4)]) k"
proof -
  obtain acc' where h: "holds 8 acc' (unat a)"
    "\<forall>bits out k. encode_byte a (enc_state acc bits out k) = emit_sextets (enc_state acc' (bits + 8) out k)"
    by (rule encode_byte_step [of 0 acc 0 a]) simp_all
  then show thesis
    using holds_sextet [OF h(1), of 2] that [of acc'] by (simp add: emit_one emit_none)
qed

lemma encode_2:
  assumes "holds 8 acc y"
  obtains acc' where "holds 16 acc' (y * 256 + unat b)"
    "\<forall>k. encode_byte b (enc_state acc 2 out (Suc k)) =
       enc_state acc' 4 (out @ [sextet ((y * 256 + unat b) div 16)]) k"
proof -
  obtain acc' where h: "holds 16 acc' (y * 256 + unat b)"
    "\<forall>bits out k. encode_byte b (enc_state acc bits out k) = emit_sextets (enc_state acc' (bits + 8) out k)"
    by (rule encode_byte_step [OF assms]) simp_all
  then show thesis
    using holds_sextet [OF h(1), of 4] that [of acc'] by (simp add: emit_one emit_none)
qed

lemma encode_3:
  assumes "holds 16 acc y"
  obtains acc' where
    "\<forall>k. encode_byte c (enc_state acc 4 out (Suc (Suc k))) =
       enc_state acc' 0 (out @ [sextet ((y * 256 + unat c) div 64), sextet (y * 256 + unat c)]) k"
proof -
  obtain acc' where h: "holds 24 acc' (y * 256 + unat c)"
    "\<forall>bits out k. encode_byte c (enc_state acc bits out k) = emit_sextets (enc_state acc' (bits + 8) out k)"
    by (rule encode_byte_step [OF assms]) simp_all
  then show thesis
    using holds_sextet [OF h(1), of 6] holds_sextet [OF h(1), of 0] that [of acc']
    by (simp add: emit_one emit_none)
qed

lemma encode_tail_none: "encode_tail (enc_state acc 0 out m) = Inr (enc_state acc 0 out m)"
  by (simp add: encode_tail_def enc_state_def)

lemma encode_tail_some:
  assumes "holds m acc y" "6 \<le> m + k" "m + k \<le> 32" "k < 6" "0 < k"
  shows "\<exists>acc'. encode_tail (enc_state acc (6 - k) out (Suc n)) =
    Inr (enc_state acc' (6 - k) (out @ [sextet (y * 2 ^ k)]) n)"
proof -
  have "holds (m + k) (push_bit k acc) (y * 2 ^ k)"
    using holds_push [of m acc y 0 k] assms by simp
  then have "b64_char (push_bit k acc) = sextet (y * 2 ^ k)"
    using holds_sextet [of "m + k" "push_bit k acc" "y * 2 ^ k" 0] assms by simp
  then show ?thesis
    using assms by (auto simp: encode_tail_def enc_state_def Let_def)
qed

lemma encode_tail_2:
  "holds 8 acc y \<Longrightarrow> \<exists>acc'. encode_tail (enc_state acc 2 out (Suc n)) = Inr (enc_state acc' 2 (out @ [sextet (y * 16)]) n)"
  using encode_tail_some [of 8 acc y 4 out n] by simp

lemma encode_tail_4:
  "holds 16 acc y \<Longrightarrow> \<exists>acc'. encode_tail (enc_state acc 4 out (Suc n)) = Inr (enc_state acc' 4 (out @ [sextet (y * 4)]) n)"
  using encode_tail_some [of 16 acc y 2 out n] by simp

lemma rfc_group:
  fixes a b c :: nat
  assumes "a < 256" "b < 256" "c < 256"
  defines "n \<equiv> a * 65536 + b * 256 + c"
  shows "n div 262144 = a div 4" "n div 4096 = (a * 256 + b) div 16" "n = (a * 256 + b) * 256 + c"
proof -
  show n: "n = (a * 256 + b) * 256 + c"
    by (simp add: n_def algebra_simps)
  have n1: "n div 256 = a * 256 + b" and n2: "(a * 256 + b) div 256 = a"
    using assms by (simp_all add: n)
  show "n div 4096 = (a * 256 + b) div 16"
    using div_mult2_eq [of n 256 16] by (simp add: n1)
  have "n div 65536 = a"
    using div_mult2_eq [of n 256 256] by (simp add: n1 n2)
  then show "n div 262144 = a div 4"
    using div_mult2_eq [of n 65536 4] by simp
qed

lemma rfc4648_3:
  assumes "n = (unat a * 256 + unat b) * 256 + unat c"
  shows "rfc4648 (a # b # c # xs) =
    [sextet (unat a div 4), sextet ((unat a * 256 + unat b) div 16), sextet (n div 64), sextet n] @ rfc4648 xs"
  using rfc_group [of "unat a" "unat b" "unat c"] byte_lt [of a] byte_lt [of b] byte_lt [of c] assms
  by (simp only: rfc4648.simps Let_def append.simps)

lemma rfc4648_3':
  assumes "n = (unat a * 256 + unat b) * 256 + unat c"
  shows "rfc4648 (a # b # c # xs) =
    sextet (n div 262144) # sextet (n div 4096) # sextet (n div 64) # sextet n # rfc4648 xs"
  using rfc_group(3) [of "unat a" "unat b" "unat c"] byte_lt [of a] byte_lt [of b] byte_lt [of c] assms
  by (simp only: rfc4648.simps Let_def)

lemma enc_state_sel [simp]:
  "retval (enc_state acc bits out m) = out @ replicate m 61" "outpos (enc_state acc bits out m) = length out"
  by (simp_all add: enc_state_def)

text \<open>
  The encoder fills the rest of the buffer with the standard encoding of the rest, and ends at
  most two characters before the end of the buffer: what the closing assertions ask for.
\<close>

definition filled :: "b64_state \<Rightarrow> bytes \<Rightarrow> bool" where
  "filled s ys \<longleftrightarrow> retval s = ys \<and> outpos s \<le> length (retval s) \<and> length (retval s) \<le> outpos s + 2"

definition fills :: "b64_error + b64_state \<Rightarrow> bytes \<Rightarrow> bool" where
  "fills r ys \<longleftrightarrow> (\<exists>s. r = Inr s \<and> filled s ys)"

lemma fills_Inr [simp]: "fills (Inr s) ys = filled s ys"
  by (simp add: fills_def)

lemma encode_rfc4648:
  "fills (encode_tail (encode_loop xs (enc_state acc 0 out ((length xs + 2) div 3 * 4)))) (out @ rfc4648 xs)"
proof (induction xs arbitrary: acc out rule: rfc4648.induct)
  case 1
  then show ?case
    by (simp add: encode_loop_def encode_tail_none filled_def)
next
  case (2 a)
  obtain acc1 where 1: "holds 8 acc1 (unat a)"
    "\<forall>k. encode_byte a (enc_state acc 0 out (Suc k)) = enc_state acc1 2 (out @ [sextet (unat a div 4)]) k"
    by (rule encode_1)
  obtain acc' where t: "encode_tail (enc_state acc1 2 (out @ [sextet (unat a div 4)]) (Suc 2)) =
      Inr (enc_state acc' 2 ((out @ [sextet (unat a div 4)]) @ [sextet (unat a * 16)]) 2)"
    using encode_tail_2 [OF 1(1)] by blast
  have "enc_state acc 0 out 4 = enc_state acc 0 out (Suc (Suc 2))" by simp
  then show ?case
    using 1(2) t by (simp add: encode_loop_def filled_def numeral_2_eq_2)
next
  case (3 a b)
  obtain acc1 where 1: "holds 8 acc1 (unat a)"
    "\<forall>k. encode_byte a (enc_state acc 0 out (Suc k)) = enc_state acc1 2 (out @ [sextet (unat a div 4)]) k"
    by (rule encode_1)
  let ?n = "unat a * 256 + unat b"
  obtain acc2 where 2: "holds 16 acc2 ?n"
    "\<forall>k. encode_byte b (enc_state acc1 2 (out @ [sextet (unat a div 4)]) (Suc k)) =
       enc_state acc2 4 ((out @ [sextet (unat a div 4)]) @ [sextet (?n div 16)]) k"
    by (rule encode_2 [OF 1(1)])
  obtain acc' where t: "encode_tail (enc_state acc2 4 ((out @ [sextet (unat a div 4)]) @ [sextet (?n div 16)]) (Suc 1)) =
      Inr (enc_state acc' 4 (((out @ [sextet (unat a div 4)]) @ [sextet (?n div 16)]) @ [sextet (?n * 4)]) 1)"
    using encode_tail_4 [OF 2(1)] by blast
  have "enc_state acc 0 out 4 = enc_state acc 0 out (Suc (Suc (Suc 1)))"
    by (simp add: numeral_eq_Suc)
  moreover have "?n div 1024 = unat a div 4"
    using rfc_group(1) [of "unat a" "unat b" 0] byte_lt by (simp add: algebra_simps div_mult2_eq)
  ultimately show ?case
    using 1(2) 2(2) t by (simp add: encode_loop_def filled_def Let_def)
next
  case (4 a b c xs)
  obtain acc1 where 1: "holds 8 acc1 (unat a)"
    "\<forall>k. encode_byte a (enc_state acc 0 out (Suc k)) = enc_state acc1 2 (out @ [sextet (unat a div 4)]) k"
    by (rule encode_1)
  let ?ab = "unat a * 256 + unat b" and ?out1 = "out @ [sextet (unat a div 4)]"
  obtain acc2 where 2: "holds 16 acc2 ?ab"
    "\<forall>k. encode_byte b (enc_state acc1 2 ?out1 (Suc k)) = enc_state acc2 4 (?out1 @ [sextet (?ab div 16)]) k"
    by (rule encode_2 [OF 1(1)])
  define n where "n = ?ab * 256 + unat c"
  let ?out2 = "?out1 @ [sextet (?ab div 16)]"
  obtain acc3 where 3: "\<forall>k. encode_byte c (enc_state acc2 4 ?out2 (Suc (Suc k))) =
      enc_state acc3 0 (?out2 @ [sextet (n div 64), sextet n]) k"
    unfolding n_def by (rule encode_3 [OF 2(1)])
  have "(length (a # b # c # xs) + 2) div 3 * 4 = Suc (Suc (Suc (Suc ((length xs + 2) div 3 * 4))))"
    by (simp, presburger)
  then have "encode_loop (a # b # c # xs) (enc_state acc 0 out ((length (a # b # c # xs) + 2) div 3 * 4)) =
      encode_loop xs (enc_state acc3 0 (?out2 @ [sextet (n div 64), sextet n]) ((length xs + 2) div 3 * 4))"
    using 1(2) 2(2) 3 by (simp add: encode_loop_def)
  then show ?case
    using "4.IH" [OF refl, of acc3 "?out2 @ [sextet (n div 64), sextet n]"]
    by (simp only: rfc4648_3 [OF n_def] append_assoc append.simps)
qed


lemma encode_start_state: "encode_start n = enc_state 0 0 [] ((n + 2) div 3 * 4)"
  by (simp add: encode_start_def enc_state_def)

text \<open>
  The closing assertions: the subtraction wraps around exactly for an empty buffer, whose size is 0,
  and then the first assertion fails.
\<close>

lemma closing_asserts_filled:
  assumes "filled s ys" "length ys < 2 ^ 64" "4 \<le> length ys"
  shows "closing_asserts s"
proof -
  have o: "outpos s \<le> length ys" "length ys \<le> outpos s + 2" "retval s = ys"
    using assms(1) by (auto simp: filled_def)
  have u: "unat (of_nat (outpos s) :: u64) = outpos s" "unat (of_nat (length ys) :: u64) = length ys"
    using assms(2) o(1) by (simp_all add: unat_of_nat)
  then have "unat (of_nat (length ys) - 2 :: u64) = length ys - 2"
    using assms(3) by (subst unat_sub) (simp_all add: word_le_nat_alt)
  then show ?thesis
    using o u by (simp add: closing_asserts_def Let_def word_le_nat_alt)
qed

lemma closing_asserts_empty: "filled s [] \<Longrightarrow> \<not> closing_asserts s"
  by (auto simp: filled_def closing_asserts_def Let_def word_le_nat_alt)

lemma rfc4648_size: "length (rfc4648 xs) = (length xs + 2) div 3 * 4"
  by (induction xs rule: rfc4648.induct) (simp_all add: Let_def, presburger)

lemma base64_encode_eq:
  "base64_encode s =
     (if length s > max_bindata then Inl length_error else if s = [] then Inl assertion_failed else Inr (rfc4648 s))"
proof -
  obtain t where t: "encode_tail (encode_loop s (encode_start (length s))) = Inr t" "filled t (rfc4648 s)"
    using encode_rfc4648 [of s 0 "[]"] by (auto simp: encode_start_state fills_def)
  have "closing_asserts t" if "length s \<le> max_bindata" "s \<noteq> []"
  proof (rule closing_asserts_filled [OF t(2)])
    show "length (rfc4648 s) < 2 ^ 64"
      using that(1) by (simp add: rfc4648_size max_bindata_def)
    have "0 < length s"
      using that(2) by simp
    then show "4 \<le> length (rfc4648 s)"
      unfolding rfc4648_size by presburger
  qed
  moreover have "\<not> closing_asserts t" if "s = []"
    using closing_asserts_empty t(2) that by simp
  ultimately show ?thesis
    using t by (auto simp: base64_encode_def filled_def)
qed

text \<open>
  C19: \<open>base64_encode\<close> writes the encoding of RFC 4648, whatever overflows from the 32-bit
  accumulator, for every input that is not empty, and its assertions hold there. It throws \<open>length_error\<close> exactly
  for an input over the limit. For the empty input the unsigned subtraction of an assertion wraps around and the assertion fails.
\<close>

theorem base64_encode_rfc4648:
  "base64_encode s =
     (if length s > max_bindata then Inl length_error else if s = [] then Inl assertion_failed else Inr (rfc4648 s))"
  by (rule base64_encode_eq)


section \<open>The decoder undoes the standard encoding\<close>

text \<open>The character of a sextet is not skipped, legal, and has that sextet in the reverse table.\<close>

definition char_ok :: "nat \<Rightarrow> bool" where
  "char_ok v \<longleftrightarrow>
     (let c = sint (b64_table ! v) in
      \<not> isspace c \<and> c \<noteq> 61 \<and> 0 \<le> c \<and> c \<le> 127 \<and> reverse_table ! nat c = of_nat v \<and> v \<le> 63)"

lemma char_ok_all: "v < 64 \<Longrightarrow> char_ok v"
proof -
  have "list_all char_ok [0..<64]"
    by code_simp
  then show "v < 64 \<Longrightarrow> char_ok v"
    by (simp add: list_all_iff)
qed


lemma holds_byte:
  assumes "holds m acc y" "k + 8 \<le> m"
  shows "ucast (drop_bit k acc AND 0xFF) = (of_nat (y div 2 ^ k) :: u8)"
proof -
  have "unat (drop_bit k acc AND 0xFF) = unat acc div 2 ^ k mod 2 ^ 8"
    using unat_and_mask [of "drop_bit k acc" 8] by (simp add: mask_eq_exp_minus_1 unat_drop_bit)
  also have "\<dots> = y div 2 ^ k mod 2 ^ 8"
    by (rule holds_bits [OF assms])
  finally have "unat (ucast (drop_bit k acc AND 0xFF) :: u8) = unat (of_nat (y div 2 ^ k) :: u8)"
    by (simp add: unsigned_ucast_eq take_bit_eq_mod unat_of_nat)
  then show ?thesis
    by (simp only: word_unat_eq_iff)
qed

text \<open>One character: the accumulator takes its sextet in, and a complete byte is written.\<close>

lemma decode_char:
  assumes "holds m acc y" "m + 6 \<le> 32"
  obtains acc' where "holds (m + 6) acc' (y * 64 + n mod 64)"
    "\<forall>xs bits out. decode_loop (sextet n # xs) acc bits out =
       (if 2 \<le> bits then decode_loop xs acc' (bits - 2) (out @ [ucast (drop_bit (bits - 2) acc' AND 0xFF)])
        else decode_loop xs acc' (bits + 6) out)"
proof
  let ?v = "of_nat (n mod 64) :: u8" and ?c = "sint (sextet n)"
  have ok: "\<not> isspace ?c" "?c \<noteq> 61" "0 \<le> ?c" "?c \<le> 127" "reverse_table ! nat ?c = ?v"
    using char_ok_all [of "n mod 64"] by (simp_all add: char_ok_def sextet_def Let_def)
  have v: "unat ?v = n mod 64"
    by (simp add: unat_of_nat)
  then have "?v \<le> 63"
    by (simp add: word_le_nat_alt less_Suc_eq_le [symmetric])
  then show "\<forall>xs bits out. decode_loop (sextet n # xs) acc bits out =
      (if 2 \<le> bits
       then decode_loop xs (push_bit 6 acc OR ucast ?v) (bits - 2)
              (out @ [ucast (drop_bit (bits - 2) (push_bit 6 acc OR ucast ?v) AND 0xFF)])
       else decode_loop xs (push_bit 6 acc OR ucast ?v) (bits + 6) out)"
    using ok by (auto simp: Let_def)
  show "holds (m + 6) (push_bit 6 acc OR ucast ?v) (y * 64 + n mod 64)"
    using holds_push [OF assms(1), of "ucast ?v" 6] assms(2) v by simp
qed

lemma decode_pad: "decode_loop (61 # xs) acc bits out = decode_loop xs acc bits out"
  by (simp add: Let_def)

declare decode_loop.simps(2) [simp del]

lemma le_32: "0 + 6 \<le> (32 :: nat)" "6 + 6 \<le> (32 :: nat)" "12 + 6 \<le> (32 :: nat)" "18 + 6 \<le> (32 :: nat)"
  by simp_all

lemma sextet_join: "n div 64 * 64 + n mod 64 = (n :: nat)"
  by (rule div_mult_mod_eq)

lemma decode_2:
  assumes "n < 4096"
  obtains acc' where "holds 12 acc' n"
    "\<forall>xs out. decode_loop (sextet (n div 64) # sextet n # xs) acc 0 out =
       decode_loop xs acc' 4 (out @ [of_nat (n div 16)])"
proof -
  obtain acc1 where 1: "holds (0 + 6) acc1 (0 * 64 + n div 64 mod 64)"
    "\<forall>xs bits out. decode_loop (sextet (n div 64) # xs) acc bits out =
       (if 2 \<le> bits then decode_loop xs acc1 (bits - 2) (out @ [ucast (drop_bit (bits - 2) acc1 AND 0xFF)])
        else decode_loop xs acc1 (bits + 6) out)"
    by (rule decode_char [OF holds_0 le_32(1), where n = "n div 64"])
  have "n div 64 mod 64 = n div 64"
    using assms by (simp add: less_mult_imp_div_less)
  then have h1: "holds 6 acc1 (n div 64)"
    using 1(1) by simp
  obtain acc2 where 2: "holds (6 + 6) acc2 (n div 64 * 64 + n mod 64)"
    "\<forall>xs bits out. decode_loop (sextet n # xs) acc1 bits out =
       (if 2 \<le> bits then decode_loop xs acc2 (bits - 2) (out @ [ucast (drop_bit (bits - 2) acc2 AND 0xFF)])
        else decode_loop xs acc2 (bits + 6) out)"
    by (rule decode_char [OF h1 le_32(2), where n = n])
  then have h2: "holds 12 acc2 n"
    by (simp add: sextet_join)
  then show thesis
    using that [OF h2] 1(2) 2(2) holds_byte [OF h2, of 4] by simp
qed

lemma decode_3:
  assumes "n < 262144"
  obtains acc' where "holds 18 acc' n"
    "\<forall>xs out. decode_loop (sextet (n div 4096) # sextet (n div 64) # sextet n # xs) acc 0 out =
       decode_loop xs acc' 2 (out @ [of_nat (n div 1024), of_nat (n div 4)])"
proof -
  have "n div 64 < 4096"
    using assms by (simp add: less_mult_imp_div_less)
  then obtain acc1 where 1: "holds 12 acc1 (n div 64)"
    "\<forall>xs out. decode_loop (sextet (n div 64 div 64) # sextet (n div 64) # xs) acc 0 out =
       decode_loop xs acc1 4 (out @ [of_nat (n div 64 div 16)])"
    by (rule decode_2)
  obtain acc2 where 2: "holds (12 + 6) acc2 (n div 64 * 64 + n mod 64)"
    "\<forall>xs bits out. decode_loop (sextet n # xs) acc1 bits out =
       (if 2 \<le> bits then decode_loop xs acc2 (bits - 2) (out @ [ucast (drop_bit (bits - 2) acc2 AND 0xFF)])
        else decode_loop xs acc2 (bits + 6) out)"
    by (rule decode_char [OF 1(1) le_32(3), where n = n])
  then have h2: "holds 18 acc2 n"
    by (simp add: sextet_join)
  then show thesis
    using that [OF h2] 1(2) 2(2) holds_byte [OF h2, of 2] by (simp flip: div_mult2_eq)
qed

lemma decode_4:
  assumes "n < 16777216"
  obtains acc' where
    "\<forall>xs out. decode_loop (sextet (n div 262144) # sextet (n div 4096) # sextet (n div 64) # sextet n # xs) acc 0 out =
       decode_loop xs acc' 0 (out @ [of_nat (n div 65536), of_nat (n div 256), of_nat n])"
proof -
  have "n div 64 < 262144"
    using assms by (simp add: less_mult_imp_div_less)
  then obtain acc1 where 1: "holds 18 acc1 (n div 64)"
    "\<forall>xs out. decode_loop (sextet (n div 64 div 4096) # sextet (n div 64 div 64) # sextet (n div 64) # xs) acc 0 out =
       decode_loop xs acc1 2 (out @ [of_nat (n div 64 div 1024), of_nat (n div 64 div 4)])"
    by (rule decode_3)
  obtain acc2 where 2: "holds (18 + 6) acc2 (n div 64 * 64 + n mod 64)"
    "\<forall>xs bits out. decode_loop (sextet n # xs) acc1 bits out =
       (if 2 \<le> bits then decode_loop xs acc2 (bits - 2) (out @ [ucast (drop_bit (bits - 2) acc2 AND 0xFF)])
        else decode_loop xs acc2 (bits + 6) out)"
    by (rule decode_char [OF 1(1) le_32(4), where n = n])
  then have h2: "holds 24 acc2 n"
    by (simp add: sextet_join)
  then show thesis
    using that [of acc2] 1(2) 2(2) holds_byte [OF h2, of 0] by (simp flip: div_mult2_eq)
qed


lemma of_nat_byte: "(of_nat (x * 256 + unat b) :: u8) = b"
  using byte_lt [of b] by (simp only: word_unat_eq_iff unat_of_nat) simp

lemma decode_rfc4648: "decode_loop (rfc4648 xs) acc 0 out = Inr (out @ xs)"
proof (induction xs arbitrary: acc out rule: rfc4648.induct)
  case (2 a)
  have lt: "unat a * 16 < 4096" and d: "unat a * 16 div 64 = unat a div 4"
    using byte_lt [of a] by (simp_all add: div_mult2_eq [of "unat a * 16" 16 4, simplified])
  obtain acc' where "\<forall>xs out. decode_loop (sextet (unat a * 16 div 64) # sextet (unat a * 16) # xs) acc 0 out =
      decode_loop xs acc' 4 (out @ [of_nat (unat a * 16 div 16)])"
    by (rule decode_2 [OF lt])
  then show ?case
    by (simp add: decode_pad d)
next
  case (3 a b)
  define n where "n = unat a * 256 + unat b"
  have n: "n < 65536" "n div 256 = unat a"
    using byte_lt [of a] byte_lt [of b] by (simp_all add: n_def)
  have lt: "n * 4 < 262144"
    using n by simp
  have d: "n * 4 div 4096 = n div 1024" "n * 4 div 64 = n div 16" "n * 4 div 1024 = unat a" "n * 4 div 4 = n"
    using n(2) div_mult2_eq [of "n * 4" 4 1024] div_mult2_eq [of "n * 4" 4 16] div_mult2_eq [of "n * 4" 4 256]
    by simp_all
  obtain acc' where "\<forall>xs out. decode_loop (sextet (n * 4 div 4096) # sextet (n * 4 div 64) # sextet (n * 4) # xs) acc 0 out =
      decode_loop xs acc' 2 (out @ [of_nat (n * 4 div 1024), of_nat (n * 4 div 4)])"
    by (rule decode_3 [OF lt])
  moreover have "(of_nat n :: u8) = b"
    unfolding n_def by (rule of_nat_byte)
  ultimately show ?case
    unfolding d by (simp add: decode_pad Let_def flip: n_def)
next
  case (4 a b c xs)
  define n where "n = (unat a * 256 + unat b) * 256 + unat c"
  have ab: "n div 256 = unat a * 256 + unat b"
    using byte_lt [of c] by (simp add: n_def)
  then have d: "n div 65536 = unat a"
    using byte_lt [of b] div_mult2_eq [of n 256 256] by simp
  have lt: "n < 16777216"
    using byte_lt [of a] byte_lt [of b] byte_lt [of c] by (simp add: n_def)
  obtain acc' where "\<forall>xs out. decode_loop (sextet (n div 262144) # sextet (n div 4096) # sextet (n div 64) # sextet n # xs) acc 0 out =
      decode_loop xs acc' 0 (out @ [of_nat (n div 65536), of_nat (n div 256), of_nat n])"
    by (rule decode_4 [OF lt])
  moreover have "[of_nat (n div 65536), of_nat (n div 256), of_nat n] = [a, b, c]"
    unfolding d ab of_nat_byte unfolding n_def of_nat_byte by simp
  ultimately show ?case
    using "4.IH" [OF refl, of acc' "out @ [a, b, c]"] by (simp only: rfc4648_3' [OF n_def]) simp
qed simp

lemma base64_decode_rfc4648: "base64_decode (rfc4648 s) = Inr s"
  by (simp add: base64_decode_def decode_rfc4648)

definition b64_enc :: "bytes \<Rightarrow> bytes" where
  "b64_enc s = (case base64_encode s of Inl _ \<Rightarrow> [] | Inr t \<Rightarrow> t)"

definition b64_dec :: "bytes \<Rightarrow> bytes option" where
  "b64_dec s = (case base64_decode s of Inl _ \<Rightarrow> None | Inr t \<Rightarrow> Some t)"

interpretation b64: codec "\<lambda>s. s \<noteq> [] \<and> length s \<le> max_bindata" b64_enc b64_dec
  by unfold_locales (simp add: b64_enc_def b64_dec_def base64_encode_eq base64_decode_rfc4648)

text \<open>
  C20: What \<open>base64_encode\<close> returns, \<open>base64_decode\<close> accepts and decodes to the original bytes;
  so different inputs have different encodings.
\<close>

theorem base64_roundtrip:
  assumes "base64_encode s = Inr e"
  shows "base64_decode e = Inr s \<and> (base64_encode t = Inr e \<longleftrightarrow> t = s)"
proof -
  have len: "s \<noteq> [] \<and> length s \<le> max_bindata" and e: "e = rfc4648 s"
    using assms by (simp_all add: base64_encode_eq split: if_splits)
  have "t = s" if "base64_encode t = Inr e"
    using b64.enc_inject [of t s] that assms len by (simp add: b64_enc_def base64_encode_eq split: if_splits)
  then show ?thesis
    using assms e by (auto simp: base64_decode_rfc4648)
qed

theorem base64_roundtrip_witness:
  "base64_encode [77, 97] = Inr [84, 87, 69, 61] \<and> base64_decode [84, 87, 69, 61] = Inr [77, 97]"
proof -
  have e: "base64_encode [77, 97] = Inr [84, 87, 69, 61]"
    by (simp add: base64_encode_eq max_bindata_def sextet_def b64_table_def upt_rec Let_def)
  show ?thesis
    using base64_roundtrip [OF e] e by blast
qed

end
