(* ===== verification/Web_Socket.thy ===== *)
theory Web_Socket
  imports Co_Prelude
begin

text \<open>
  The WebSocket framing of \<open>net/http\<close>: \<open>WebSocketEncoder.h\<close>, \<open>WebSocketParser.h\<close> and its
  wrapper \<open>WebSocketDecoder.h\<close>. The 64-bit lengths and offsets are numbers with the reduction
  modulo \<open>2 ^ 64\<close> written out; the machine is little-endian, so \<open>ntohs\<close>, \<open>ntohll\<close> and their
  inverses read and write numbers in big-endian order.
\<close>

section \<open>The encoder\<close>

definition OpCodeType_Continue :: u8 where "OpCodeType_Continue = 0"
definition OpCodeType_Text :: u8 where "OpCodeType_Text = 1"
definition OpCodeType_Binary :: u8 where "OpCodeType_Binary = 2"
definition OpCodeType_Close :: u8 where "OpCodeType_Close = 8"
definition OpCodeType_Ping :: u8 where "OpCodeType_Ping = 9"
definition OpCodeType_Pong :: u8 where "OpCodeType_Pong = 10"

lemmas opcode_defs = OpCodeType_Continue_def OpCodeType_Text_def OpCodeType_Binary_def
  OpCodeType_Close_def OpCodeType_Ping_def OpCodeType_Pong_def

definition kFrameSize :: nat where
  "kFrameSize = 1446"

text \<open>\<open>e_data\<close> is the memory from the pointer \<open>m_data\<close> on.\<close>

record WebSocketEncoder =
  e_isClient :: bool
  e_opCode :: u8
  e_frameSize :: nat
  e_data :: bytes
  e_len :: nat
  e_offset :: nat
  e_outputBuf :: bytes

definition WebSocketEncoder_new :: "bool \<Rightarrow> WebSocketEncoder" where
  "WebSocketEncoder_new isClient =
     \<lparr>e_isClient = isClient, e_opCode = OpCodeType_Binary, e_frameSize = kFrameSize,
      e_data = [], e_len = 0, e_offset = 0, e_outputBuf = []\<rparr>"

definition SetPayload :: "bytes \<Rightarrow> nat \<Rightarrow> WebSocketEncoder \<Rightarrow> WebSocketEncoder" where
  "SetPayload data len e = e\<lparr>e_data := data, e_len := len\<rparr>"

definition SetOpCode :: "u8 \<Rightarrow> WebSocketEncoder \<Rightarrow> WebSocketEncoder" where
  "SetOpCode code e = e\<lparr>e_opCode := code\<rparr>"

definition SetFrameSize :: "nat \<Rightarrow> WebSocketEncoder \<Rightarrow> WebSocketEncoder" where
  "SetFrameSize frameSize e = e\<lparr>e_frameSize := frameSize\<rparr>"

definition enc_IsComplete :: "WebSocketEncoder \<Rightarrow> bool" where
  "enc_IsComplete e \<longleftrightarrow> e_offset e = e_len e"

text \<open>Big-endian numbers of \<open>n\<close> bytes.\<close>

fun to_be :: "nat \<Rightarrow> nat \<Rightarrow> bytes" where
  "to_be 0 x = []"
| "to_be (Suc n) x = to_be n (x div 256) @ [of_nat x]"

fun from_be :: "bytes \<Rightarrow> nat" where
  "from_be [] = 0"
| "from_be (b # bs) = unat b * 256 ^ length bs + from_be bs"

text \<open>Byte \<open>i\<close> is xored with byte \<open>i mod 4\<close> of the key.\<close>

definition xor_mask :: "bytes \<Rightarrow> bytes \<Rightarrow> bytes" where
  "xor_mask key data = map (\<lambda>i. data ! i XOR key ! (i mod length key)) [0..<length data]"

text \<open>
  The second byte and the length that follows it. For a frame over \<open>0xFFFF\<close> bytes the code
  appends four of the eight bytes of the length.
\<close>

definition length_field :: "bool \<Rightarrow> nat \<Rightarrow> bytes" where
  "length_field isClient frameSize =
     (let m = (if isClient then 0x80 else 0) in
      if frameSize > 0xFFFF then (m OR 127) # take 4 (to_be 8 frameSize)
      else if frameSize > 126 then (m OR 126) # to_be 2 frameSize
      else [m OR of_nat frameSize])"

text \<open>\<open>key\<close> is the memory of the four bytes of the random number.\<close>

definition Encode :: "bytes \<Rightarrow> WebSocketEncoder \<Rightarrow> WebSocketEncoder" where
  "Encode key e =
     (let opCode = (if e_offset e \<noteq> 0 then OpCodeType_Continue else e_opCode e);
          left = (e_len e + 2 ^ 64 - e_offset e) mod 2 ^ 64;
          last = e_frameSize e > left;
          frameSize = (if last then left else e_frameSize e);
          fin = (if last then 0x80 else 0 :: u8);
          payload = take frameSize (e_data e)
      in e\<lparr>e_opCode := opCode,
           e_outputBuf := (fin OR opCode) # length_field (e_isClient e) frameSize @
             (if e_isClient e then key @ xor_mask key payload else payload),
           e_data := drop frameSize (e_data e),
           e_offset := (e_offset e + frameSize) mod 2 ^ 64\<rparr>)"

definition GetFrame :: "bytes \<Rightarrow> WebSocketEncoder \<Rightarrow> WebSocketEncoder \<times> bytes" where
  "GetFrame key e = (let e' = Encode key e in (e', e_outputBuf e'))"

section \<open>The parser\<close>

definition kMaxLength :: nat where
  "kMaxLength = 10 * 1024 * 1024"

record WebSocketParser =
  m_complete :: bool
  m_headerComplete :: bool
  m_fin :: bool
  m_opCode :: u8
  m_payloadLen :: nat
  m_offset :: nat
  m_maskKey :: bytes
  m_inputCache :: bytes
  m_payload :: bytes

definition WebSocketParser_new :: WebSocketParser where
  "WebSocketParser_new =
     \<lparr>m_complete = False, m_headerComplete = False, m_fin = False, m_opCode = 0, m_payloadLen = 0,
      m_offset = 0, m_maskKey = [], m_inputCache = [], m_payload = []\<rparr>"

definition ResetCurrentFrame :: "WebSocketParser \<Rightarrow> WebSocketParser" where
  "ResetCurrentFrame p =
     p\<lparr>m_headerComplete := False, m_fin := False, m_payloadLen := 0, m_offset := 0, m_inputCache := []\<rparr>"

definition Reset :: "WebSocketParser \<Rightarrow> WebSocketParser" where
  "Reset p = (ResetCurrentFrame p)\<lparr>m_complete := False, m_payload := []\<rparr>"

definition HaveBytes :: "nat \<Rightarrow> WebSocketParser \<Rightarrow> bool" where
  "HaveBytes len p \<longleftrightarrow> (length (m_inputCache p) + 2 ^ 64 - m_offset p) mod 2 ^ 64 \<ge> len"

definition data_at :: "nat \<Rightarrow> WebSocketParser \<Rightarrow> bytes" where
  "data_at n p = take n (drop (m_offset p) (m_inputCache p))"

text \<open>The three parts of \<open>ParseHeader\<close>; each says whether the function goes on.\<close>

definition parse_first_bytes :: "WebSocketParser \<Rightarrow> WebSocketParser \<times> bool option" where
  "parse_first_bytes p0 =
     (let p = p0\<lparr>m_offset := 0\<rparr> in
      if \<not> HaveBytes 1 p then (p, None)
      else
        let b = hd (data_at 1 p);
            p1 = p\<lparr>m_opCode := 0x0F AND b, m_fin := 0x80 AND b \<noteq> 0, m_offset := m_offset p + 1\<rparr>
        in if \<not> HaveBytes 1 p1 then (p1, None)
           else
             let c = hd (data_at 1 p1)
             in (p1\<lparr>m_payloadLen := unat (0x7F AND c), m_offset := m_offset p1 + 1\<rparr>,
                 Some (0x80 AND c \<noteq> 0)))"

definition parse_length :: "WebSocketParser \<Rightarrow> WebSocketParser \<times> bool" where
  "parse_length p =
     (if m_payloadLen p = 126 then
        if \<not> HaveBytes 2 p then (p, False)
        else (p\<lparr>m_payloadLen := from_be (data_at 2 p), m_offset := m_offset p + 2\<rparr>, True)
      else if m_payloadLen p = 127 then
        if \<not> HaveBytes 8 p then (p, False)
        else (p\<lparr>m_payloadLen := from_be (data_at 8 p), m_offset := m_offset p + 8\<rparr>, True)
      else (p, True))"

definition parse_mask :: "bool \<Rightarrow> WebSocketParser \<Rightarrow> WebSocketParser \<times> bool" where
  "parse_mask masked p0 =
     (let p = p0\<lparr>m_maskKey := []\<rparr> in
      if masked then
        if \<not> HaveBytes 4 p then (p, False)
        else (p\<lparr>m_maskKey := data_at 4 p, m_offset := m_offset p + 4\<rparr>, True)
      else (p, True))"

definition ParseHeader :: "WebSocketParser \<Rightarrow> WebSocketParser \<times> bool" where
  "ParseHeader p =
     (case parse_first_bytes p of
        (p1, None) \<Rightarrow> (p1, False)
      | (p1, Some masked) \<Rightarrow>
          (case parse_length p1 of
             (p2, False) \<Rightarrow> (p2, False)
           | (p2, True) \<Rightarrow> parse_mask masked p2))"

text \<open>The first case of the switch falls through to the next ones.\<close>

definition CheckOpCode :: "WebSocketParser \<Rightarrow> bool" where
  "CheckOpCode p \<longleftrightarrow>
     (if m_opCode p = OpCodeType_Continue \<and> m_payload p = [] then False
      else m_opCode p \<in> {OpCodeType_Continue, OpCodeType_Text, OpCodeType_Binary,
             OpCodeType_Close, OpCodeType_Ping, OpCodeType_Pong})"

definition IsValidFrame :: "WebSocketParser \<Rightarrow> bool" where
  "IsValidFrame p \<longleftrightarrow>
     m_maskKey p \<noteq> [] \<and> CheckOpCode p \<and>
     (length (m_payload p) + m_payloadLen p) mod 2 ^ 64 \<le> kMaxLength"

definition ProcessPayload :: "WebSocketParser \<Rightarrow> WebSocketParser" where
  "ProcessPayload p =
     (if \<not> HaveBytes (m_payloadLen p) p then p
      else
        ResetCurrentFrame
          (p\<lparr>m_payload := m_payload p @ xor_mask (m_maskKey p) (data_at (m_payloadLen p) p),
             m_offset := m_offset p + m_payloadLen p,
             m_complete := m_fin p\<rparr>))"

definition Parse :: "bytes \<Rightarrow> WebSocketParser \<Rightarrow> WebSocketParser \<times> bool" where
  "Parse data p0 =
     (if data = [] then (p0, True)
      else
        let p = p0\<lparr>m_inputCache := m_inputCache p0 @ data\<rparr>;
            p1 = (if m_headerComplete p then p
                  else let (q, done) = ParseHeader p in q\<lparr>m_headerComplete := done\<rparr>)
        in if \<not> m_headerComplete p1 then (p1, True)
           else if \<not> IsValidFrame p1 then (p1, False)
           else (ProcessPayload p1, True))"

text \<open>\<open>WebSocketDecoder\<close> hands its calls to the parser.\<close>

definition GetPayLoad :: "WebSocketParser \<Rightarrow> bytes" where
  "GetPayLoad p = m_payload p"

fun Parse_all :: "bytes list \<Rightarrow> WebSocketParser \<Rightarrow> WebSocketParser \<times> bool" where
  "Parse_all [] p = (p, True)"
| "Parse_all (d # ds) p = (case Parse d p of (p', True) \<Rightarrow> Parse_all ds p' | (p', False) \<Rightarrow> (p', False))"

section \<open>Masking and numbers\<close>

lemma length_xor_mask [simp]: "length (xor_mask key d) = length d"
  by (simp add: xor_mask_def)

lemma xor_mask_involution [simp]: "xor_mask key (xor_mask key d) = d"
  by (rule nth_equalityI) (simp_all add: xor_mask_def xor.assoc)

lemma length_to_be [simp]: "length (to_be n x) = n"
  by (induction n arbitrary: x) auto

lemma from_be_append: "from_be (xs @ [b]) = from_be xs * 256 + unat b"
  by (induction xs) (auto simp: algebra_simps)

lemma from_be_to_be: "x < 256 ^ n \<Longrightarrow> from_be (to_be n x) = x"
  by (induction n arbitrary: x) (auto simp: from_be_append unat_of_nat less_mult_imp_div_less algebra_simps)

section \<open>The header\<close>

text \<open>Strings are shorter than \<open>2 ^ 64\<close> bytes, so the subtraction of \<open>HaveBytes\<close> does not wrap.\<close>

lemma wrap_diff:
  fixes a b m :: nat
  assumes "b \<le> a" "a < m"
  shows "(a + m - b) mod m = a - b"
proof -
  have "a + m - b = (a - b) + m"
    using assms(1) by simp
  then have "(a + m - b) mod m = (a - b) mod m"
    by (simp only: mod_add_self2)
  also have "\<dots> = a - b"
    using assms(2) by simp
  finally show ?thesis .
qed

lemma HaveBytes_iff:
  assumes "length (m_inputCache p) < 2 ^ 64" "m_offset p \<le> length (m_inputCache p)"
  shows "HaveBytes n p \<longleftrightarrow> n \<le> length (m_inputCache p) - m_offset p"
  using wrap_diff [OF assms(2,1)] by (simp only: HaveBytes_def)

definition set_header :: "u8 \<Rightarrow> u8 \<Rightarrow> WebSocketParser \<Rightarrow> WebSocketParser" where
  "set_header b c p =
     p\<lparr>m_opCode := 0x0F AND b, m_fin := 0x80 AND b \<noteq> 0, m_payloadLen := unat (0x7F AND c), m_offset := 2\<rparr>"

lemma set_header_sel [simp]:
  "m_inputCache (set_header b c p) = m_inputCache p" "m_offset (set_header b c p) = 2"
  "m_payloadLen (set_header b c p) = unat (0x7F AND c)" "m_opCode (set_header b c p) = 0x0F AND b"
  "m_fin (set_header b c p) \<longleftrightarrow> 0x80 AND b \<noteq> 0" "m_payload (set_header b c p) = m_payload p"
  "m_complete (set_header b c p) = m_complete p" "m_headerComplete (set_header b c p) = m_headerComplete p"
  by (simp_all add: set_header_def)

lemma ParseHeader_short:
  "m_inputCache p = [] \<Longrightarrow> ParseHeader p = (p\<lparr>m_offset := 0\<rparr>, False)"
  "m_inputCache p = [b] \<Longrightarrow> ParseHeader p =
     (p\<lparr>m_opCode := 0x0F AND b, m_fin := 0x80 AND b \<noteq> 0, m_offset := 1\<rparr>, False)"
  by (simp_all add: ParseHeader_def parse_first_bytes_def Let_def HaveBytes_iff data_at_def)

text \<open>The number of bytes of the extended length, and of the whole header.\<close>

definition ext_len :: "u8 \<Rightarrow> nat" where
  "ext_len c = (if 0x7F AND c = 126 then 2 else if 0x7F AND c = 127 then 8 else 0)"

definition mask_len :: "u8 \<Rightarrow> nat" where
  "mask_len c = (if 0x80 AND c \<noteq> 0 then 4 else 0)"

definition payload_len :: "u8 \<Rightarrow> bytes \<Rightarrow> nat" where
  "payload_len c rest = (if ext_len c = 0 then unat (0x7F AND c) else from_be (take (ext_len c) rest))"

lemma ParseHeader_long:
  assumes cache: "m_inputCache p = b # c # rest" and len: "length (m_inputCache p) < 2 ^ 64"
  shows "ParseHeader p =
    (if length rest < ext_len c then (set_header b c p, False)
     else if length rest < ext_len c + mask_len c
       then ((set_header b c p)\<lparr>m_payloadLen := payload_len c rest, m_offset := 2 + ext_len c, m_maskKey := []\<rparr>, False)
     else ((set_header b c p)\<lparr>m_payloadLen := payload_len c rest, m_offset := 2 + ext_len c + mask_len c,
              m_maskKey := take (mask_len c) (drop (ext_len c) rest)\<rparr>, True))"
proof -
  have 1: "parse_first_bytes p = (set_header b c p, Some (0x80 AND c \<noteq> 0))"
    using assms by (simp add: parse_first_bytes_def Let_def HaveBytes_iff data_at_def set_header_def)
  have u: "unat (0x7F AND c) = 126 \<longleftrightarrow> 0x7F AND c = 126" "unat (0x7F AND c) = 127 \<longleftrightarrow> 0x7F AND c = 127"
    by (simp_all add: word_unat_eq_iff)
  have 2: "parse_length (set_header b c p) =
      (if length rest < ext_len c then (set_header b c p, False)
       else ((set_header b c p)\<lparr>m_payloadLen := payload_len c rest, m_offset := 2 + ext_len c\<rparr>, True))"
    using assms
    by (auto simp: parse_length_def HaveBytes_iff data_at_def ext_len_def payload_len_def u set_header_def)
  show ?thesis
    using assms
    by (auto simp: ParseHeader_def 1 2 parse_mask_def HaveBytes_iff data_at_def mask_len_def Let_def add.commute)
qed


text \<open>
  Parsing a longer prefix: what a first, incomplete attempt has stored is overwritten, and a
  complete header stays what it is.
\<close>

lemma ParseHeader_more:
  assumes "length (d1 @ d2) < 2 ^ 64" "d1 \<noteq> []"
    and h: "ParseHeader (p\<lparr>m_inputCache := d1\<rparr>) = (q, done)"
  shows "ParseHeader ((if done then p else q)\<lparr>m_inputCache := d1 @ d2\<rparr>) =
      ParseHeader (p\<lparr>m_inputCache := d1 @ d2\<rparr>)"
    and "done \<Longrightarrow> ParseHeader (p\<lparr>m_inputCache := d1 @ d2\<rparr>) = (q\<lparr>m_inputCache := d1 @ d2\<rparr>, True)"
proof -
  have *: "ParseHeader ((if done then p else q)\<lparr>m_inputCache := d1 @ d2\<rparr>) =
      ParseHeader (p\<lparr>m_inputCache := d1 @ d2\<rparr>) \<and>
      (done \<longrightarrow> ParseHeader (p\<lparr>m_inputCache := d1 @ d2\<rparr>) = (q\<lparr>m_inputCache := d1 @ d2\<rparr>, True))"
  proof (cases d1)
    case Nil
    then show ?thesis using assms(2) by simp
  next
    case (Cons b rest1)
    show ?thesis
    proof (cases rest1)
      case Nil
      then have "done = False" "q = p\<lparr>m_inputCache := d1, m_opCode := 0x0F AND b, m_fin := 0x80 AND b \<noteq> 0, m_offset := 1\<rparr>"
        using h Cons by (simp_all add: ParseHeader_short)
      then show ?thesis
        using Nil Cons assms(1)
        by (cases d2) (simp_all add: ParseHeader_short ParseHeader_long set_header_def)
    next
      case C2: (Cons c rest)
      show ?thesis
        using h Cons C2 assms(1)
        by (auto simp: ParseHeader_long set_header_def payload_len_def split: if_splits)
    qed
  qed
  then show "ParseHeader ((if done then p else q)\<lparr>m_inputCache := d1 @ d2\<rparr>) =
      ParseHeader (p\<lparr>m_inputCache := d1 @ d2\<rparr>)"
    and "done \<Longrightarrow> ParseHeader (p\<lparr>m_inputCache := d1 @ d2\<rparr>) = (q\<lparr>m_inputCache := d1 @ d2\<rparr>, True)"
    by blast+
qed

lemma ParseHeader_keeps:
  assumes "ParseHeader p = (q, done)"
  shows "m_inputCache q = m_inputCache p" "m_headerComplete q = m_headerComplete p"
    "m_payload q = m_payload p" "m_complete q = m_complete p"
  using assms
  by (auto simp: ParseHeader_def parse_first_bytes_def parse_length_def parse_mask_def Let_def
      split: if_splits)

lemma ParseHeader_offset:
  assumes "ParseHeader p = (q, True)" "length (m_inputCache p) < 2 ^ 64"
  shows "m_offset q \<le> length (m_inputCache p)"
proof (cases "m_inputCache p")
  case Nil
  then show ?thesis using assms(1) by (simp add: ParseHeader_short)
next
  case (Cons b t)
  then show ?thesis
    using assms by (cases t) (auto simp: ParseHeader_short ParseHeader_long split: if_splits)
qed

section \<open>A frame may arrive in pieces\<close>

definition idle :: "WebSocketParser \<Rightarrow> bool" where
  "idle p \<longleftrightarrow> \<not> m_headerComplete p \<and> m_inputCache p = []"

text \<open>What \<open>Parse\<close> does once the header is read.\<close>

definition after_header :: "WebSocketParser \<Rightarrow> WebSocketParser \<times> bool" where
  "after_header p = (if \<not> IsValidFrame p then (p, False) else (ProcessPayload p, True))"

lemma Parse_idle:
  assumes "idle p" "d \<noteq> []" "ParseHeader (p\<lparr>m_inputCache := d\<rparr>) = (q, done)"
  shows "Parse d p = (if done then after_header (q\<lparr>m_headerComplete := True\<rparr>) else (q\<lparr>m_headerComplete := False\<rparr>, True))"
  using assms by (simp add: idle_def Parse_def after_header_def)

lemma Parse_header_done:
  assumes "m_headerComplete p" "d \<noteq> []"
  shows "Parse d p = after_header (p\<lparr>m_inputCache := m_inputCache p @ d\<rparr>)"
  using assms by (simp add: Parse_def after_header_def)

lemma IsValidFrame_cache [simp]: "IsValidFrame (p\<lparr>m_inputCache := d\<rparr>) = IsValidFrame p"
  by (simp add: IsValidFrame_def CheckOpCode_def)

lemma ProcessPayload_waits:
  assumes "m_inputCache (ProcessPayload p) \<noteq> []"
  shows "ProcessPayload p = p"
  using assms by (auto simp: ProcessPayload_def ResetCurrentFrame_def split: if_splits)

lemma Parse_join:
  assumes p: "idle p" and d: "d1 \<noteq> []" "d2 \<noteq> []" "length (d1 @ d2) < 2 ^ 64"
    and r: "Parse d1 p = (p1, True)" "m_inputCache p1 \<noteq> []"
  shows "Parse d2 p1 = Parse (d1 @ d2) p"
proof -
  obtain q dn where h: "ParseHeader (p\<lparr>m_inputCache := d1\<rparr>) = (q, dn)"
    by (cases "ParseHeader (p\<lparr>m_inputCache := d1\<rparr>)")
  note k = ParseHeader_keeps [OF h]
  note more = ParseHeader_more [OF d(3,1) h]
  show ?thesis
  proof (cases dn)
    case False
    then have p1: "p1 = q\<lparr>m_headerComplete := False\<rparr>"
      using r(1) Parse_idle [OF p d(1) h] by simp
    have "q\<lparr>m_headerComplete := False\<rparr> = q"
      using k(2) p by (cases q) (simp add: idle_def)
    then have "Parse d2 p1 = (let (r, done) = ParseHeader (q\<lparr>m_inputCache := d1 @ d2\<rparr>) in
        if done then after_header (r\<lparr>m_headerComplete := True\<rparr>) else (r\<lparr>m_headerComplete := False\<rparr>, True))"
      using k p d p1 by (auto simp: Parse_def Let_def after_header_def idle_def split: prod.split)
    also have "\<dots> = Parse (d1 @ d2) p"
      using more(1) False p d Parse_idle [OF p, of "d1 @ d2"]
      by (auto simp: Let_def split: prod.split)
    finally show ?thesis .
  next
    case True
    then have v: "IsValidFrame (q\<lparr>m_headerComplete := True\<rparr>)"
      and p1: "p1 = q\<lparr>m_headerComplete := True\<rparr>"
      using r Parse_idle [OF p d(1) h] ProcessPayload_waits
      by (auto simp: after_header_def split: if_splits)
    have "Parse d2 p1 = after_header (q\<lparr>m_headerComplete := True, m_inputCache := d1 @ d2\<rparr>)"
      using Parse_header_done [of p1 d2] d(2) p1 k(1) by simp
    also have "q\<lparr>m_headerComplete := True, m_inputCache := d1 @ d2\<rparr> =
        q\<lparr>m_inputCache := d1 @ d2, m_headerComplete := True\<rparr>"
      by (cases q) simp
    also have "after_header \<dots> = Parse (d1 @ d2) p"
      using Parse_idle [OF p _ more(2) [OF True]] d(1) by simp
    finally show ?thesis .
  qed
qed


section \<open>The frames the encoder writes\<close>

text \<open>A masked frame, and the payload sizes whose length field the encoder writes as the standard asks.\<close>

definition client_frame :: "u8 \<Rightarrow> u8 \<Rightarrow> bytes \<Rightarrow> bytes \<Rightarrow> bytes" where
  "client_frame fin op key payload =
     (fin OR op) # length_field True (length payload) @ key @ xor_mask key payload"

definition size_ok :: "nat \<Rightarrow> bool" where
  "size_ok n \<longleftrightarrow> n \<noteq> 126 \<and> n \<le> 0xFFFF"

definition opcodes :: "u8 set" where
  "opcodes = {OpCodeType_Continue, OpCodeType_Text, OpCodeType_Binary, OpCodeType_Close, OpCodeType_Ping, OpCodeType_Pong}"

lemma and_or_cancel: "a AND (b OR x) = a AND x" if "a AND b = 0" for a b x :: u8
  using that by (simp add: bit.conj_disj_distrib)

lemma and_or_keep: "a AND (a OR x) = a" for a x :: u8
  by (rule bit_word_eqI) (auto simp: bit_simps)

lemma low7: "unat (0x7F AND x) = unat x mod 128" for x :: u8
  using unat_and_mask [of x 7] by (simp add: mask_eq_exp_minus_1 and.commute)

lemma first_byte:
  assumes "op \<in> opcodes" "fin = 0 \<or> fin = 0x80"
  shows "0x0F AND (fin OR op) = op" "0x80 AND (fin OR op) \<noteq> 0 \<longleftrightarrow> fin \<noteq> 0"
  using assms by (auto simp: opcodes_def opcode_defs)

lemma second_byte:
  assumes "size_ok n"
  obtains c ext where "length_field True n = c # ext" "ext_len c = length ext" "mask_len c = 4"
    "\<forall>r. payload_len c (ext @ r) = n"
proof (cases "126 < n")
  case True
  then have lf: "length_field True n = 0xFE # to_be 2 n"
    using assms by (simp add: length_field_def size_ok_def)
  have "from_be (to_be 2 n) = n"
    using assms by (intro from_be_to_be) (simp add: size_ok_def)
  then show thesis
    using that [OF lf] by (simp add: ext_len_def mask_len_def payload_len_def)
next
  case False
  let ?c = "0x80 OR of_nat n :: u8"
  have n: "n < 126"
    using False assms by (simp add: size_ok_def)
  have lf: "length_field True n = ?c # []"
    using False by (simp add: length_field_def Let_def)
  have a: "0x7F AND ?c = 0x7F AND of_nat n"
    by (rule and_or_cancel) simp
  have "unat (0x7F AND ?c) = n"
    unfolding a using n by (simp only: low7 unat_of_nat) simp
  moreover from this n have "0x7F AND ?c \<noteq> 126" "0x7F AND ?c \<noteq> 127"
    by (auto simp: word_unat_eq_iff)
  moreover have "0x80 AND ?c = 0x80"
    by (rule and_or_keep)
  ultimately show thesis
    using that [OF lf] by (simp add: ext_len_def mask_len_def payload_len_def)
qed


text \<open>The state of a parser that has read the header of a frame and has the bytes \<open>d\<close>.\<close>

definition in_frame :: "u8 \<Rightarrow> u8 \<Rightarrow> bytes \<Rightarrow> nat \<Rightarrow> nat \<Rightarrow> WebSocketParser \<Rightarrow> WebSocketParser \<Rightarrow> bool" where
  "in_frame fin op key n off p q \<longleftrightarrow>
     m_opCode q = op \<and> (m_fin q \<longleftrightarrow> fin \<noteq> 0) \<and> m_payloadLen q = n \<and> m_offset q = off \<and>
     m_maskKey q = key \<and> m_payload q = m_payload p"

lemma frame_header:
  assumes "op \<in> opcodes" "fin = 0 \<or> fin = 0x80" "length key = 4" "size_ok (length payload)"
  defines "f \<equiv> client_frame fin op key payload"
  obtains q where "ParseHeader (p\<lparr>m_inputCache := f\<rparr>) = (q, True)"
    "in_frame fin op key (length payload) (length f - length payload) p q"
    "drop (length f - length payload) f = xor_mask key payload" "length payload \<le> length f" "length f < 2 ^ 64"
proof -
  obtain c ext where b: "length_field True (length payload) = c # ext" "ext_len c = length ext" "mask_len c = 4"
    "\<forall>r. payload_len c (ext @ r) = length payload"
    by (rule second_byte [OF assms(4)])
  have f: "f = (fin OR op) # c # ext @ key @ xor_mask key payload"
    by (simp add: f_def client_frame_def b(1))
  have "length ext \<le> 8"
    using b(2) by (auto simp: ext_len_def split: if_splits)
  then have len: "length f < 2 ^ 64"
    using assms(3,4) by (simp add: f size_ok_def)
  have off: "length f - length payload = 2 + length ext + 4"
    using assms(3) by (simp add: f)
  let ?p = "p\<lparr>m_inputCache := f\<rparr>"
  let ?q = "(set_header (fin OR op) c ?p)\<lparr>m_payloadLen := length payload, m_offset := 2 + length ext + 4, m_maskKey := key\<rparr>"
  have "ParseHeader ?p = (?q, True)"
    using ParseHeader_long [of ?p "fin OR op" c "ext @ key @ xor_mask key payload"] len b assms(3) by (simp add: f)
  moreover have "in_frame fin op key (length payload) (length f - length payload) p ?q"
    using first_byte [OF assms(1,2)] by (simp add: in_frame_def off set_header_def)
  moreover have "f = ((fin OR op) # c # ext @ key) @ xor_mask key payload" "length ((fin OR op) # c # ext @ key) = 2 + length ext + 4"
    using assms(3) by (simp_all add: f)
  then have "drop (length f - length payload) f = xor_mask key payload"
    unfolding off by (metis append_eq_conv_conj)
  ultimately show thesis
    using that len by (simp add: f)
qed

lemma in_frame_valid:
  assumes "in_frame fin op key n off p q" "op \<in> opcodes" "length key = 4"
    "op = OpCodeType_Continue \<longrightarrow> m_payload p \<noteq> []" "length (m_payload p) + n \<le> kMaxLength"
  shows "IsValidFrame (q\<lparr>m_headerComplete := b\<rparr>)"
proof -
  have "(length (m_payload p) + n) mod 2 ^ 64 = length (m_payload p) + n"
    using assms(5) by (simp add: kMaxLength_def)
  then show ?thesis
    using assms by (auto simp: in_frame_def IsValidFrame_def CheckOpCode_def opcodes_def)
qed

text \<open>A whole frame in one call: the payload is appended and the parser is idle again.\<close>

lemma Parse_frame:
  assumes p: "idle p" and a: "op \<in> opcodes" "fin = 0 \<or> fin = 0x80" "length key = 4" "size_ok (length payload)"
    and v: "op = OpCodeType_Continue \<longrightarrow> m_payload p \<noteq> []" "length (m_payload p) + length payload \<le> kMaxLength"
  obtains p' where "Parse (client_frame fin op key payload) p = (p', True)" "idle p'"
    "m_payload p' = m_payload p @ payload" "m_complete p' \<longleftrightarrow> fin \<noteq> 0"
proof -
  let ?f = "client_frame fin op key payload"
  obtain q where q: "ParseHeader (p\<lparr>m_inputCache := ?f\<rparr>) = (q, True)"
    "in_frame fin op key (length payload) (length ?f - length payload) p q"
    "drop (length ?f - length payload) ?f = xor_mask key payload" "length payload \<le> length ?f" "length ?f < 2 ^ 64"
    by (rule frame_header [OF a])
  let ?q = "q\<lparr>m_headerComplete := True\<rparr>"
  have cache: "m_inputCache ?q = ?f"
    using ParseHeader_keeps(1) [OF q(1)] by simp
  have "?f \<noteq> []"
    by (simp add: client_frame_def)
  then have "Parse ?f p = (ProcessPayload ?q, True)"
    using Parse_idle [OF p _ q(1)] in_frame_valid [OF q(2) a(1,3) v] by (simp add: after_header_def)
  moreover have "HaveBytes (length payload) ?q" "data_at (length payload) ?q = xor_mask key payload"
    using q cache by (simp_all add: HaveBytes_iff in_frame_def data_at_def)
  ultimately show thesis
    using that [of "ProcessPayload ?q"] q(2)
    by (simp add: ProcessPayload_def in_frame_def idle_def ResetCurrentFrame_def)
qed

text \<open>Part of a frame: the parser keeps it and waits.\<close>

lemma Parse_partial:
  assumes p: "idle p" and a: "op \<in> opcodes" "fin = 0 \<or> fin = 0x80" "length key = 4" "size_ok (length payload)"
    and v: "op = OpCodeType_Continue \<longrightarrow> m_payload p \<noteq> []" "length (m_payload p) + length payload \<le> kMaxLength"
    and d: "client_frame fin op key payload = d1 @ d2" "d1 \<noteq> []" "d2 \<noteq> []"
  obtains p1 where "Parse d1 p = (p1, True)" "m_inputCache p1 \<noteq> []"
proof -
  obtain q where q: "ParseHeader (p\<lparr>m_inputCache := d1 @ d2\<rparr>) = (q, True)"
    "in_frame fin op key (length payload) (length (d1 @ d2) - length payload) p q"
    "length payload \<le> length (d1 @ d2)" "length (d1 @ d2) < 2 ^ 64"
    using frame_header [OF a, of p] d(1) by metis
  obtain q1 dn where h: "ParseHeader (p\<lparr>m_inputCache := d1\<rparr>) = (q1, dn)"
    by (cases "ParseHeader (p\<lparr>m_inputCache := d1\<rparr>)")
  note k = ParseHeader_keeps [OF h]
  show thesis
  proof (cases dn)
    case False
    then show thesis
      using that [of "q1\<lparr>m_headerComplete := False\<rparr>"] Parse_idle [OF p d(2) h] k d(2) by simp
  next
    case True
    let ?q1 = "q1\<lparr>m_headerComplete := True\<rparr>"
    have "q = q1\<lparr>m_inputCache := d1 @ d2\<rparr>"
      using ParseHeader_more(2) [OF q(4) d(2) h True] q(1) by simp
    then have i: "in_frame fin op key (length payload) (length (d1 @ d2) - length payload) p q1"
      using q(2) by (simp add: in_frame_def)
    have o: "m_offset q1 \<le> length d1"
      using ParseHeader_offset [of "p\<lparr>m_inputCache := d1\<rparr>" q1] h True q(4) by simp
    have off: "m_offset q1 + length payload = length d1 + length d2" "0 < length d2"
      using i q(3) d(3) by (auto simp: in_frame_def)
    have "HaveBytes (length payload) ?q1 \<longleftrightarrow> length payload \<le> length d1 - m_offset q1"
      using o k(1) q(4) by (subst HaveBytes_iff) simp_all
    then have "\<not> HaveBytes (length payload) ?q1"
      using o off by linarith
    then have "Parse d1 p = (?q1, True)"
      using Parse_idle [OF p d(2) h] in_frame_valid [OF i a(1,3) v] True i
      by (simp add: after_header_def ProcessPayload_def in_frame_def)
    then show thesis
      using that k(1) d(2) by simp
  qed
qed

lemma Parse_pieces:
  assumes p: "idle p" and a: "op \<in> opcodes" "fin = 0 \<or> fin = 0x80" "length key = 4" "size_ok (length payload)"
    and v: "op = OpCodeType_Continue \<longrightarrow> m_payload p \<noteq> []" "length (m_payload p) + length payload \<le> kMaxLength"
    and d: "concat (d1 # ds) = client_frame fin op key payload" "[] \<notin> set (d1 # ds)"
  shows "Parse_all (d1 # ds) p = Parse_all [client_frame fin op key payload] p"
  using d
proof (induction ds arbitrary: d1)
  case Nil
  then show ?case by simp
next
  case (Cons d2 ds)
  have f: "client_frame fin op key payload = d1 @ (d2 @ concat ds)"
    using Cons.prems(1) by simp
  obtain p1 where p1: "Parse d1 p = (p1, True)" "m_inputCache p1 \<noteq> []"
    by (rule Parse_partial [OF p a v f]) (use Cons.prems(2) in auto)
  obtain q where "length (client_frame fin op key payload) < 2 ^ 64"
    by (rule frame_header [OF a, of p])
  then have len: "length (d1 @ d2) < 2 ^ 64"
    unfolding f by simp
  have "Parse d2 p1 = Parse (d1 @ d2) p"
    using Parse_join [OF p _ _ len p1] Cons.prems(2) by auto
  then have "Parse_all (d1 # d2 # ds) p = Parse_all ((d1 @ d2) # ds) p"
    using p1(1) by simp
  also have "\<dots> = Parse_all [client_frame fin op key payload] p"
    using Cons.prems by (intro Cons.IH) auto
  finally show ?case .
qed

text \<open>
  A masked frame can arrive in any pieces: feeding the non-empty pieces one by one leaves the
  parser in exactly the state that the whole frame in one call does, with the unmasked payload
  appended to the message.
\<close>

theorem ws_frame_in_pieces:
  assumes p: "idle p" and a: "op \<in> opcodes" "fin = 0 \<or> fin = 0x80" "length key = 4" "size_ok (length payload)"
    and v: "op = OpCodeType_Continue \<longrightarrow> m_payload p \<noteq> []" "length (m_payload p) + length payload \<le> kMaxLength"
    and pieces: "concat pieces = client_frame fin op key payload" "[] \<notin> set pieces"
  shows "\<exists>p'. Parse_all pieces p = (p', True) \<and> Parse (client_frame fin op key payload) p = (p', True) \<and>
    idle p' \<and> m_payload p' = m_payload p @ payload \<and> (m_complete p' \<longleftrightarrow> fin \<noteq> 0)"
proof -
  obtain p' where p': "Parse (client_frame fin op key payload) p = (p', True)" "idle p'"
    "m_payload p' = m_payload p @ payload" "m_complete p' \<longleftrightarrow> fin \<noteq> 0"
    by (rule Parse_frame [OF p a v])
  obtain d1 ds where ds: "pieces = d1 # ds"
    using pieces(1) by (cases pieces) (auto simp: client_frame_def)
  then have "Parse_all pieces p = (p', True)"
    using Parse_pieces [OF p a v] pieces p'(1) by simp
  then show ?thesis
    using p' by blast
qed

theorem ws_frame_in_pieces_witness:
  "\<exists>p'. Parse_all [[0x82], [0x82, 1, 2, 3], [4, 4, 7]] WebSocketParser_new = (p', True) \<and>
     m_payload p' = [5, 5] \<and> m_complete p'"
proof -
  have f: "concat [[0x82], [0x82, 1, 2, 3], [4, 4, 7]] = client_frame 0x80 OpCodeType_Binary [1, 2, 3, 4] [5, 5]"
    by (simp add: client_frame_def length_field_def xor_mask_def opcode_defs)
  show ?thesis
    using ws_frame_in_pieces [where p = WebSocketParser_new, OF _ _ _ _ _ _ _ f]
    by (auto simp: idle_def WebSocketParser_new_def opcodes_def opcode_defs size_ok_def kMaxLength_def)
qed


section \<open>Messages\<close>

text \<open>The frames the encoder gives until it reports that it is complete, with the masking keys used.\<close>

fun frames :: "bytes list \<Rightarrow> WebSocketEncoder \<Rightarrow> bytes list" where
  "frames [] e = []"
| "frames (key # keys) e =
     (if enc_IsComplete e then [] else let (e', f) = GetFrame key e in f # frames keys e')"

text \<open>A client encoder in the middle of a message: \<open>data\<close> is still to be sent.\<close>

definition sending :: "WebSocketEncoder \<Rightarrow> bytes \<Rightarrow> bool" where
  "sending e data \<longleftrightarrow> e_isClient e \<and> e_data e = data \<and> e_offset e + length data = e_len e \<and> e_len e < 2 ^ 64"

lemma Encode_sending:
  assumes "sending e data" "data \<noteq> []"
  defines "n \<equiv> min (e_frameSize e) (length data)"
    and "op \<equiv> (if e_offset e \<noteq> 0 then OpCodeType_Continue else e_opCode e)"
    and "fin \<equiv> (if e_frameSize e > length data then 0x80 else 0 :: u8)"
  shows "e_outputBuf (Encode key e) = client_frame fin op key (take n data)"
    "sending (Encode key e) (drop n data)" "e_frameSize (Encode key e) = e_frameSize e"
    "e_opCode (Encode key e) = op" "e_offset (Encode key e) = e_offset e + n"
proof -
  have left: "(e_len e + 2 ^ 64 - e_offset e) mod 2 ^ 64 = length data"
    using wrap_diff [of "e_offset e" "e_len e" "2 ^ 64"] assms(1) by (auto simp: sending_def)
  have "e_offset e + n \<le> e_offset e + length data"
    by (simp add: n_def)
  then have off: "(e_offset e + n) mod 2 ^ 64 = e_offset e + n"
    using assms(1) by (intro mod_less) (auto simp: sending_def)
  have n: "(if length data < e_frameSize e then length data else e_frameSize e) = n"
    by (simp add: n_def min_def)
  note e = Encode_def [of key e, unfolded Let_def left n]
  show "e_outputBuf (Encode key e) = client_frame fin op key (take n data)"
    using assms(1) by (simp add: e client_frame_def sending_def op_def fin_def n_def)
  show "sending (Encode key e) (drop n data)" "e_offset (Encode key e) = e_offset e + n"
    "e_frameSize (Encode key e) = e_frameSize e" "e_opCode (Encode key e) = op"
    using assms(1) off by (auto simp: e sending_def op_def n_def)
qed


lemma sending_complete: "sending e data \<Longrightarrow> enc_IsComplete e \<longleftrightarrow> data = []"
  by (auto simp: sending_def enc_IsComplete_def)

lemma frames_next:
  assumes "sending e data" "data \<noteq> []"
  shows "frames (key # keys) e = e_outputBuf (Encode key e) # frames keys (Encode key e)"
  using sending_complete [OF assms(1)] assms(2) by (simp add: GetFrame_def Let_def)

lemma frames_end: "sending e [] \<Longrightarrow> frames keys e = []"
  using sending_complete [of e "[]"] by (cases keys) simp_all

definition may_send :: "WebSocketEncoder \<Rightarrow> WebSocketParser \<Rightarrow> bool" where
  "may_send e p \<longleftrightarrow> (if e_offset e = 0 then e_opCode e \<in> opcodes - {OpCodeType_Continue} else m_payload p \<noteq> [])"

lemma message_parsed:
  assumes "sending e data" "data \<noteq> []" "0 < e_frameSize e" "size_ok (e_frameSize e)" "size_ok (length data mod e_frameSize e)"
    and "\<forall>k \<in> set keys. length k = 4" "length data div e_frameSize e < length keys"
    and "idle p" "may_send e p" "length (m_payload p) + length data \<le> kMaxLength"
  shows "\<exists>p'. Parse_all (frames keys e) p = (p', True) \<and> m_payload p' = m_payload p @ data \<and>
    (m_complete p' \<longleftrightarrow> length data mod e_frameSize e \<noteq> 0)"
  using assms
proof (induction keys arbitrary: e data p)
  case Nil
  then show ?case by simp
next
  case (Cons key keys)
  let ?F = "e_frameSize e"
  define n where "n = min ?F (length data)"
  define op where "op = (if e_offset e \<noteq> 0 then OpCodeType_Continue else e_opCode e)"
  define fin where "fin = (if ?F > length data then 0x80 else 0 :: u8)"
  note enc = Encode_sending [OF Cons.prems(1,2), of key, folded n_def op_def fin_def]
  have n: "0 < n" "n \<le> length data" "length (take n data) = n"
    using Cons.prems(2,3) by (auto simp: n_def)
  have ok: "op \<in> opcodes" "fin = 0 \<or> fin = 0x80" "op = OpCodeType_Continue \<longrightarrow> m_payload p \<noteq> []"
    using Cons.prems(9) by (auto simp: op_def fin_def may_send_def opcodes_def split: if_splits)
  have sz: "size_ok n"
    using Cons.prems(4,5) by (auto simp: n_def min_def)
  obtain p1 where p1: "Parse (client_frame fin op key (take n data)) p = (p1, True)" "idle p1"
    "m_payload p1 = m_payload p @ take n data" "m_complete p1 \<longleftrightarrow> fin \<noteq> 0"
    by (rule Parse_frame [OF Cons.prems(8) ok(1,2) _ _ ok(3), of key "take n data"])
      (use Cons.prems(6,10) n sz in auto)
  have run: "Parse_all (frames (key # keys) e) p = Parse_all (frames keys (Encode key e)) p1"
    using frames_next [OF Cons.prems(1,2)] enc(1) p1(1) by simp
  show ?case
  proof (cases "drop n data = []")
    case True
    then have "length data = n" using n by simp
    then have "fin \<noteq> 0 \<longleftrightarrow> length data mod ?F \<noteq> 0"
      using n by (auto simp: fin_def n_def min_def split: if_splits)
    moreover have "frames keys (Encode key e) = []"
      using frames_end enc(2) True by simp
    ultimately show ?thesis
      using run p1 True by simp
  next
    case False
    then have F: "n = ?F" "?F < length data"
      by (auto simp: n_def min_def split: if_splits)
    have "\<exists>p'. Parse_all (frames keys (Encode key e)) p1 = (p', True) \<and> m_payload p' = m_payload p1 @ drop n data \<and>
        (m_complete p' \<longleftrightarrow> length (drop n data) mod e_frameSize (Encode key e) \<noteq> 0)"
    proof (rule Cons.IH [OF enc(2) False])
      show "may_send (Encode key e) p1"
        using n enc(5) p1(3) by (auto simp: may_send_def)
      show "length (drop n data) div e_frameSize (Encode key e) < length keys"
        using Cons.prems(3,7) F enc(3) by (simp add: le_div_geq)
    qed (use Cons.prems F n p1 enc(3) in \<open>auto simp: le_mod_geq\<close>)
    then show ?thesis
      using run p1(3) F enc(3) by (auto simp: le_mod_geq)
  qed
qed


definition client_encoder :: "u8 \<Rightarrow> nat \<Rightarrow> bytes \<Rightarrow> WebSocketEncoder" where
  "client_encoder op F data =
     SetPayload data (length data) (SetFrameSize F (SetOpCode op (WebSocketEncoder_new True)))"

text \<open>
  C21: What a client encodes, the server's parser receives: the frames of a message, whatever the
  frame size and the random masks, are all accepted and add up to the payload. The excluded
  frame sizes are 126 and those above \<open>0xFFFF\<close>, whose length field the encoder writes wrongly.
  The parser reports the message complete exactly if its length is not a multiple of the frame
  size: for a multiple the encoder sets the FIN bit in no frame.
\<close>

theorem ws_message_roundtrip:
  assumes "data \<noteq> []" "length data \<le> kMaxLength" "0 < F" "size_ok F" "size_ok (length data mod F)"
    and "op \<in> opcodes" "op \<noteq> OpCodeType_Continue"
    and "\<forall>k \<in> set keys. length k = 4" "length data div F < length keys"
  shows "\<exists>p. Parse_all (frames keys (client_encoder op F data)) WebSocketParser_new = (p, True) \<and>
    GetPayLoad p = data \<and> (m_complete p \<longleftrightarrow> length data mod F \<noteq> 0)"
proof -
  let ?e = "client_encoder op F data"
  have e: "sending ?e data" "e_frameSize ?e = F" "may_send ?e WebSocketParser_new"
    using assms(2,6,7)
    by (simp_all add: client_encoder_def SetPayload_def SetFrameSize_def SetOpCode_def WebSocketEncoder_new_def
        sending_def may_send_def kMaxLength_def)
  then show ?thesis
    using message_parsed [OF e(1) assms(1), of keys WebSocketParser_new] assms
    by (simp add: idle_def WebSocketParser_new_def GetPayLoad_def)
qed

theorem ws_message_roundtrip_witness:
  "\<exists>p. Parse_all (frames [[1, 2, 3, 4], [9, 8, 7, 6]] (client_encoder OpCodeType_Text 2 [65, 66, 67])) WebSocketParser_new = (p, True) \<and>
    GetPayLoad p = [65, 66, 67] \<and> m_complete p"
  using ws_message_roundtrip [of "[65, 66, 67]" 2 OpCodeType_Text "[[1, 2, 3, 4], [9, 8, 7, 6]]"]
  by (simp add: kMaxLength_def size_ok_def opcodes_def opcode_defs)

section \<open>The limit on the size of a message\<close>

text \<open>The parser after \<open>N\<close> bytes of any input.\<close>

definition parser_inv :: "nat \<Rightarrow> WebSocketParser \<Rightarrow> bool" where
  "parser_inv N p \<longleftrightarrow> length (m_inputCache p) \<le> N \<and> length (m_payload p) \<le> kMaxLength \<and>
     (m_headerComplete p \<longrightarrow> m_offset p \<le> length (m_inputCache p))"

lemma after_header_inv:
  assumes "parser_inv N p" "N < 2 ^ 63" "m_headerComplete p" "after_header p = (p', ok)"
  shows "parser_inv N p'"
proof (cases "IsValidFrame p \<and> HaveBytes (m_payloadLen p) p")
  case False
  then have "p' = p"
    using assms(4) by (auto simp: after_header_def ProcessPayload_def split: if_splits)
  then show ?thesis using assms(1) by simp
next
  case True
  have off: "m_offset p \<le> length (m_inputCache p)" and len: "length (m_inputCache p) < 2 ^ 63"
    and pl: "length (m_payload p) \<le> kMaxLength"
    using assms(1-3) by (auto simp: parser_inv_def)
  then have have_n: "m_payloadLen p \<le> length (m_inputCache p) - m_offset p"
    using True HaveBytes_iff [of p] by simp
  then have "length (m_payload p) + m_payloadLen p < 2 ^ 64"
    using len pl by (simp add: kMaxLength_def)
  then have "length (m_payload p) + m_payloadLen p \<le> kMaxLength"
    using True by (simp add: IsValidFrame_def)
  moreover have "p' = ProcessPayload p"
    using True assms(4) by (simp add: after_header_def)
  ultimately show ?thesis
    using True have_n by (simp add: parser_inv_def ProcessPayload_def ResetCurrentFrame_def data_at_def)
qed

lemma Parse_inv:
  assumes "parser_inv N p" "N + length d < 2 ^ 63" "Parse d p = (p', ok)"
  shows "parser_inv (N + length d) p'"
proof (cases "d = [] \<or> m_headerComplete p")
  case True
  then show ?thesis
  proof
    assume "d = []"
    then show ?thesis using assms by (simp add: Parse_def)
  next
    assume h: "m_headerComplete p"
    have i: "parser_inv (N + length d) (p\<lparr>m_inputCache := m_inputCache p @ d\<rparr>)"
      using assms(1) by (auto simp: parser_inv_def)
    show ?thesis
    proof (cases "d = []")
      case True
      then show ?thesis using assms by (simp add: Parse_def)
    next
      case False
      then show ?thesis
        using after_header_inv [OF i assms(2)] h assms(3) Parse_header_done [OF h False] by simp
    qed
  qed
next
  case False
  obtain q dn where h: "ParseHeader (p\<lparr>m_inputCache := m_inputCache p @ d\<rparr>) = (q, dn)"
    by (cases "ParseHeader (p\<lparr>m_inputCache := m_inputCache p @ d\<rparr>)")
  note k = ParseHeader_keeps [OF h]
  have len: "length (m_inputCache p @ d) < 2 ^ 64"
    using assms(1,2) by (simp add: parser_inv_def)
  have "dn \<Longrightarrow> m_offset q \<le> length (m_inputCache p @ d)"
    using ParseHeader_offset [of "p\<lparr>m_inputCache := m_inputCache p @ d\<rparr>" q] h len by simp
  then have i: "parser_inv (N + length d) (q\<lparr>m_headerComplete := dn\<rparr>)"
    using assms(1) k by (auto simp: parser_inv_def)
  have "Parse d p = (if dn then after_header (q\<lparr>m_headerComplete := dn\<rparr>) else (q\<lparr>m_headerComplete := dn\<rparr>, True))"
    using False h by (simp add: Parse_def after_header_def)
  then show ?thesis
    using i after_header_inv [OF i assms(2), of p' ok] assms(3) by (cases dn) auto
qed

lemma Parse_all_inv:
  "parser_inv N p \<Longrightarrow> N + length (concat ds) < 2 ^ 63 \<Longrightarrow> Parse_all ds p = (p', ok) \<Longrightarrow>
     length (m_payload p') \<le> kMaxLength"
proof (induction ds arbitrary: p N)
  case Nil
  then show ?case by (simp add: parser_inv_def)
next
  case (Cons d ds)
  obtain q b where q: "Parse d p = (q, b)" by (cases "Parse d p")
  then have i: "parser_inv (N + length d) q"
    using Cons.prems(1,2) by (intro Parse_inv [OF Cons.prems(1) _ q]) simp
  then show ?case
    using Cons.prems Cons.IH [OF i] q by (cases b) (auto simp: parser_inv_def add.assoc)
qed

text \<open>
  C22: Whatever bytes arrive, in whatever pieces, the message a parser holds never exceeds the
  limit of 10 MB, also when the sum in the check of the limit wraps around.
\<close>

theorem ws_payload_bounded:
  assumes "length (concat ds) < 2 ^ 63" "Parse_all ds WebSocketParser_new = (p, ok)"
  shows "length (GetPayLoad p) \<le> kMaxLength"
  using Parse_all_inv [of 0 WebSocketParser_new ds] assms
  by (simp add: parser_inv_def WebSocketParser_new_def kMaxLength_def GetPayLoad_def)

theorem ws_payload_bounded_witness:
  "length (GetPayLoad (fst (Parse_all [[0x82, 0x81, 1, 2], [3, 4, 5]] WebSocketParser_new))) \<le> kMaxLength"
  using ws_payload_bounded [of "[[0x82, 0x81, 1, 2], [3, 4, 5]]"]
  by (cases "Parse_all [[0x82, 0x81, 1, 2], [3, 4, 5]] WebSocketParser_new") simp

text \<open>
  The check of the limit can be passed by a frame that announces \<open>2 ^ 64 - 1\<close> bytes: after a
  first fragment of one byte the sum wraps to 0, the frame is not refused, and the parser waits
  for the announced bytes, keeping everything that arrives.
\<close>

theorem ws_limit_wraps:
  "IsValidFrame (p\<lparr>m_payload := [b], m_payloadLen := 2 ^ 64 - 1, m_maskKey := [k0, k1, k2, k3], m_opCode := OpCodeType_Continue\<rparr>)"
  by (simp add: IsValidFrame_def CheckOpCode_def kMaxLength_def opcode_defs)

end
