(* ===== verification/Http_Dispatch.thy ===== *)
theory Http_Dispatch
  imports Http_Session Base64 Web_Socket
begin

text \<open>
  \<open>net/http/HttpDispatch.cpp\<close>, with the decoders it uses (\<open>HttpDecoder.h\<close>, \<open>WebSocketDecoder.h\<close>): the
  handler of one connection. The results of \<open>Read\<close> and \<open>WriteAll\<close> on the connection are lists, the
  environment of a run; the handlers that the application registers and SHA1 are parameters. A call
  of an empty \<open>std::function\<close>, an exception or failed assertion of the Base64 encoder, and one of the HTTP parser, are errors of the model.
  The member \<open>m_connectorPtr\<close>, the connection that \<open>operator()\<close> stores for \<open>Response\<close>, is the argument \<open>c\<close> of the
  functions: \<open>example/http_server/HttpServer.cpp\<close> makes a dispatcher for each connection.
\<close>

section \<open>Decoders\<close>

record HttpDecoder =
  d_httpParser :: HttpParser
  d_peerIp :: bytes
  d_peerPort :: u16

definition HttpDecoder_new :: "nat \<Rightarrow> u16 \<Rightarrow> HttpDecoder" where
  "HttpDecoder_new g p = \<lparr>d_httpParser = HttpParser_new g, d_peerIp = [], d_peerPort = p\<rparr>"

definition HttpDecoder_Parse :: "bytes \<Rightarrow> HttpDecoder \<Rightarrow> (bool \<times> HttpDecoder) option" where
  "HttpDecoder_Parse data d =
     map_option (\<lambda>(ok, h). (ok, d\<lparr>d_httpParser := h\<rparr>)) (HttpParser_Parse data (d_httpParser d))"

definition HttpDecoder_IsComplete :: "HttpDecoder \<Rightarrow> bool" where
  "HttpDecoder_IsComplete d = HttpParser_IsComplete (d_httpParser d)"

definition HttpDecoder_Reset :: "HttpDecoder \<Rightarrow> HttpDecoder" where
  "HttpDecoder_Reset d = d\<lparr>d_httpParser := HttpParser_Reset (d_httpParser d)\<rparr>"

definition SetPeerIp :: "bytes \<Rightarrow> HttpDecoder \<Rightarrow> HttpDecoder" where
  "SetPeerIp ip d = d\<lparr>d_peerIp := ip\<rparr>"

definition SetPeerPort :: "u16 \<Rightarrow> HttpDecoder \<Rightarrow> HttpDecoder" where
  "SetPeerPort p d = d\<lparr>d_peerPort := p\<rparr>"

record WebSocketDecoder =
  m_wsParser :: WebSocketParser

definition WebSocketDecoder_new :: WebSocketDecoder where
  "WebSocketDecoder_new = \<lparr>m_wsParser = WebSocketParser_new\<rparr>"

definition WebSocketDecoder_Parse :: "bytes \<Rightarrow> WebSocketDecoder \<Rightarrow> bool \<times> WebSocketDecoder" where
  "WebSocketDecoder_Parse data w = (let (p, ok) = Parse data (m_wsParser w) in (ok, w\<lparr>m_wsParser := p\<rparr>))"

definition WebSocketDecoder_IsComplete :: "WebSocketDecoder \<Rightarrow> bool" where
  "WebSocketDecoder_IsComplete w = WebSocketParser.m_complete (m_wsParser w)"

definition WebSocketDecoder_Reset :: "WebSocketDecoder \<Rightarrow> WebSocketDecoder" where
  "WebSocketDecoder_Reset w = w\<lparr>m_wsParser := Reset (m_wsParser w)\<rparr>"

section \<open>The dispatcher\<close>

type_synonym HttpHandler = "HttpDecoder \<Rightarrow> HttpEncoder \<Rightarrow> HttpEncoder"
type_synonym WebSocketHandler = "WebSocketDecoder \<Rightarrow> WebSocketEncoder \<Rightarrow> WebSocketEncoder"

record Handler =
  httpHandler :: "HttpHandler option"
  webSocketHandler :: "WebSocketHandler option"

record HttpDispatch =
  m_isWebSocketReq :: bool
  m_enableWebSocket :: bool
  m_handlers :: "Handler std_map"
  m_wsHandler :: "WebSocketHandler option"

definition HttpDispatch_new :: "bool \<Rightarrow> HttpDispatch" where
  "HttpDispatch_new enableWebSocket =
     \<lparr>m_isWebSocketReq = False, m_enableWebSocket = enableWebSocket, m_handlers = [], m_wsHandler = None\<rparr>"

definition handler_at :: "bytes \<Rightarrow> HttpDispatch \<Rightarrow> Handler" where
  "handler_at u d = (case map_find u (m_handlers d) of Some h \<Rightarrow> h | None \<Rightarrow> \<lparr>httpHandler = None, webSocketHandler = None\<rparr>)"

definition AddHandler_http :: "bytes \<Rightarrow> HttpHandler \<Rightarrow> HttpDispatch \<Rightarrow> HttpDispatch" where
  "AddHandler_http u h d = d\<lparr>m_handlers := map_set u ((handler_at u d)\<lparr>httpHandler := Some h\<rparr>) (m_handlers d)\<rparr>"

definition AddHandler_ws :: "bytes \<Rightarrow> WebSocketHandler \<Rightarrow> HttpDispatch \<Rightarrow> HttpDispatch" where
  "AddHandler_ws u h d = d\<lparr>m_handlers := map_set u ((handler_at u d)\<lparr>webSocketHandler := Some h\<rparr>) (m_handlers d)\<rparr>"

definition RSP_OK :: bytes where
  "RSP_OK = str ''{'' @ [34] @ str ''code'' @ [34] @ str '': 0, '' @ [34] @ str ''message'' @ [34] @ str '': '' @ [34, 34] @ str ''}'' @ [10]"

definition rsp_failed :: "string \<Rightarrow> bytes" where
  "rsp_failed msg =
     str ''{'' @ [34] @ str ''code'' @ [34] @ str '': 1, '' @ [34] @ str ''message'' @ [34] @ str '': '' @ [34] @ str msg @ [34] @ str ''}'' @ [10]"

definition ResponseHttpOk :: "HttpEncoder \<Rightarrow> HttpEncoder" where
  "ResponseHttpOk e = SetBody RSP_OK (SetStatusCode StatusCode_200Ok e)"

definition ResponseHttpError :: "HttpEncoder \<Rightarrow> HttpEncoder" where
  "ResponseHttpError e = SetCloseConnection True (SetBody (rsp_failed ''Bad Method'') (SetStatusCode StatusCode_400BadRequest e))"

definition ResponseHttpNotFound :: "HttpEncoder \<Rightarrow> HttpEncoder" where
  "ResponseHttpNotFound e = SetCloseConnection True (SetBody (rsp_failed ''Not Found'') (SetStatusCode StatusCode_404NotFound e))"

datatype dispatch_error = bad_function_call | encoder_raised b64_error | parser_raised

text \<open>
  The digest is passed to \<open>base64_encode\<close> as a C string: \<open>webSockAccept\<close> has a zero byte behind the
  20 bytes of the digest, and the string ends at the first zero byte.
\<close>

definition c_string :: "bytes \<Rightarrow> bytes" where
  "c_string s = takeWhile (\<lambda>c. c \<noteq> 0) s"

definition websocket_guid :: bytes where
  "websocket_guid = str ''258EAFA5-E914-47DA-95CA-C5AB0DC85B11''"

definition ResponseWebSocketHandshake ::
  "(bytes \<Rightarrow> bytes) \<Rightarrow> bytes \<Rightarrow> HttpEncoder \<Rightarrow> dispatch_error + HttpEncoder" where
  "ResponseWebSocketHandshake SHA1 key e =
     (case base64_encode (c_string (SHA1 (key @ websocket_guid) @ [0])) of
        Inl err \<Rightarrow> Inl (encoder_raised err)
      | Inr accept \<Rightarrow>
          Inr (AddHeader (str ''Sec-WebSocket-Accept'') accept
                (AddHeader (str ''Connection'') (str ''Upgrade'')
                  (AddHeader (str ''Upgrade'') (str ''websocket'')
                    (SetStatusMessage (str ''Switching Protocols'')
                      (SetStatusCode StatusCode_101WebSocket e))))))"

definition Dispatch ::
  "(bytes \<Rightarrow> bytes) \<Rightarrow> HttpDispatch \<Rightarrow> HttpDecoder \<Rightarrow> HttpEncoder \<Rightarrow> dispatch_error + HttpDispatch \<times> HttpEncoder" where
  "Dispatch SHA1 d0 req resp =
     (let webSocketKey =
            (if m_enableWebSocket d0 then GetHeader (str ''Sec-WebSocket-Key'') (d_httpParser req) else []);
          d = (if m_enableWebSocket d0 then d0\<lparr>m_isWebSocketReq := (webSocketKey \<noteq> [])\<rparr> else d0)
      in case map_find (c_string (m_url (m_msg (d_httpParser req)))) (m_handlers d) of
           None \<Rightarrow> Inr (d, ResponseHttpNotFound resp)
         | Some h \<Rightarrow>
             if m_isWebSocketReq d then
               if webSocketHandler h = None then Inr (d, ResponseHttpNotFound resp)
               else (case ResponseWebSocketHandshake SHA1 webSocketKey resp of
                       Inl err \<Rightarrow> Inl err
                     | Inr r \<Rightarrow> Inr (d\<lparr>m_wsHandler := webSocketHandler h\<rparr>, r))
             else
               (case httpHandler h of
                  None \<Rightarrow> Inr (d, ResponseHttpNotFound resp)
                | Some f \<Rightarrow> Inr (d, f req resp)))"

section \<open>The connection\<close>

text \<open>
  What \<open>WriteAll\<close> will return, and the data it was called with so far. A run ends where the list does.
\<close>

record conn =
  c_writes :: "int list"
  c_sent :: "bytes list"

datatype 'a run = Ran 'a | Raised dispatch_error | Waiting

definition Response :: "bytes \<Rightarrow> conn \<Rightarrow> (bool \<times> conn) run" where
  "Response data c =
     (case c_writes c of
        [] \<Rightarrow> Waiting
      | r # rs \<Rightarrow> Ran (r mod 2 ^ 64 = int (length data), c\<lparr>c_writes := rs, c_sent := c_sent c @ [data]\<rparr>))"

definition ParseHttpToDispatch ::
  "(bytes \<Rightarrow> bytes) \<Rightarrow> bytes \<Rightarrow> HttpDispatch \<Rightarrow> HttpDecoder \<Rightarrow> conn \<Rightarrow> (bool \<times> HttpDispatch \<times> HttpDecoder \<times> conn) run" where
  "ParseHttpToDispatch SHA1 data d req c =
     (case HttpDecoder_Parse data req of
        None \<Rightarrow> Raised parser_raised
      | Some (False, req1) \<Rightarrow> Ran (False, d, req1, c)
      | Some (True, req1) \<Rightarrow>
          if HttpDecoder_IsComplete req1 then
            (case Dispatch SHA1 d req1 (HttpEncoder_new False) of
               Inl err \<Rightarrow> Raised err
             | Inr (d1, resp) \<Rightarrow>
                 (case Response (GetReponseString resp) c of
                    Ran (True, c1) \<Rightarrow> Ran (True, d1, HttpDecoder_Reset req1, c1)
                  | Ran (False, c1) \<Rightarrow> Ran (False, d1, req1, c1)
                  | Raised err \<Rightarrow> Raised err
                  | Waiting \<Rightarrow> Waiting))
          else Ran (True, d, req1, c))"

text \<open>The loop over the frames: each round uses up a result of \<open>WriteAll\<close>.\<close>

function ResponseWebSocketData :: "WebSocketEncoder \<Rightarrow> conn \<Rightarrow> (bool \<times> conn) run" where
  "ResponseWebSocketData e c =
     (if enc_IsComplete e then Ran (True, c)
      else
        let (e1, frame) = GetFrame [] e in
        case Response frame c of
          Ran (True, c1) \<Rightarrow> ResponseWebSocketData e1 c1
        | r \<Rightarrow> r)"
  by auto
termination
  by (relation "measure (\<lambda>(e, c). length (c_writes c))") (auto simp: Response_def split: list.splits)

declare ResponseWebSocketData.simps [simp del]

definition ProcessWebSocketData ::
  "bytes \<Rightarrow> HttpDispatch \<Rightarrow> WebSocketDecoder \<Rightarrow> conn \<Rightarrow> (bool \<times> WebSocketDecoder \<times> conn) run" where
  "ProcessWebSocketData data d w c =
     (let (ok, w1) = WebSocketDecoder_Parse data w in
      if \<not> ok then Ran (False, w1, c)
      else if WebSocketDecoder_IsComplete w1 then
        (case m_wsHandler d of
           None \<Rightarrow> Raised bad_function_call
         | Some f \<Rightarrow>
             (case ResponseWebSocketData (f w1 (WebSocketEncoder_new False)) c of
                Ran (True, c1) \<Rightarrow> Ran (True, WebSocketDecoder_Reset w1, c1)
              | Ran (False, c1) \<Rightarrow> Ran (False, w1, c1)
              | Raised err \<Rightarrow> Raised err
              | Waiting \<Rightarrow> Waiting))
      else Ran (True, w1, c))"

text \<open>
  \<open>operator()\<close>: the reads deliver some bytes, or nothing at the end of the stream and on errors.
\<close>

fun serve ::
  "(bytes \<Rightarrow> bytes) \<Rightarrow> bytes list \<Rightarrow> HttpDispatch \<Rightarrow> HttpDecoder \<Rightarrow> WebSocketDecoder \<Rightarrow> conn \<Rightarrow> (HttpDispatch \<times> conn) run" where
  "serve SHA1 [] d req w c = Waiting"
| "serve SHA1 (data # reads) d req w c =
     (if data = [] then Ran (d, c)
      else if \<not> m_isWebSocketReq d then
        (case ParseHttpToDispatch SHA1 data d req c of
           Ran (True, d1, req1, c1) \<Rightarrow> serve SHA1 reads d1 req1 w c1
         | Ran (False, d1, req1, c1) \<Rightarrow> Ran (d1, c1)
         | Raised err \<Rightarrow> Raised err
         | Waiting \<Rightarrow> Waiting)
      else
        (case ProcessWebSocketData data d w c of
           Ran (True, w1, c1) \<Rightarrow> serve SHA1 reads d req w1 c1
         | Ran (False, w1, c1) \<Rightarrow> Ran (d, c1)
         | Raised err \<Rightarrow> Raised err
         | Waiting \<Rightarrow> Waiting))"

section \<open>Properties\<close>

lemma rfc4648_length: "length (rfc4648 xs) \<le> 4 * length xs"
  by (induction xs rule: rfc4648.induct) (simp_all add: Let_def)

lemma handshake_encodes:
  assumes "length (SHA1 (key @ websocket_guid)) = 20" "hd (SHA1 (key @ websocket_guid)) \<noteq> 0"
  shows "ResponseWebSocketHandshake SHA1 key e =
    Inr (AddHeader (str ''Sec-WebSocket-Accept'') (rfc4648 (takeWhile (\<lambda>c. c \<noteq> 0) (SHA1 (key @ websocket_guid))))
          (AddHeader (str ''Connection'') (str ''Upgrade'')
            (AddHeader (str ''Upgrade'') (str ''websocket'')
              (SetStatusMessage (str ''Switching Protocols'') (SetStatusCode StatusCode_101WebSocket e)))))"
proof -
  let ?d = "SHA1 (key @ websocket_guid)"
  have c: "c_string (?d @ [0]) = takeWhile (\<lambda>c. c \<noteq> 0) ?d"
    unfolding c_string_def by (induction ?d arbitrary: rule: list.induct) (simp_all add: takeWhile_tail)
  have "length (takeWhile (\<lambda>c. c \<noteq> 0) ?d) \<le> 20"
    using assms(1) length_takeWhile_le [of _ ?d] by metis
  moreover have "takeWhile (\<lambda>c. c \<noteq> 0) ?d \<noteq> []"
    using assms by (cases ?d) simp_all
  ultimately have b: "base64_encode (c_string (?d @ [0])) = Inr (rfc4648 (takeWhile (\<lambda>c. c \<noteq> 0) ?d))"
    unfolding c by (simp add: base64_encode_eq max_bindata_def)
  show ?thesis
    by (simp add: ResponseWebSocketHandshake_def b)
qed

text \<open>A digest that starts with a zero byte is passed on as an empty string: an assertion of the encoder fails.\<close>

lemma handshake_asserts:
  assumes "hd (SHA1 (key @ websocket_guid)) = 0"
  shows "ResponseWebSocketHandshake SHA1 key e = Inl (encoder_raised assertion_failed)"
proof -
  have "c_string (SHA1 (key @ websocket_guid) @ [0]) = []"
    using assms by (cases "SHA1 (key @ websocket_guid)") (simp_all add: c_string_def)
  then show ?thesis
    by (simp add: ResponseWebSocketHandshake_def base64_encode_eq)
qed

text \<open>The streaming parser inside a decoder is one that \<open>Http_Safety\<close> is about.\<close>

definition decoder_ok :: "HttpDecoder \<Rightarrow> bool" where
  "decoder_ok req \<longleftrightarrow> http_reachable m_settings (m_httpParser (d_httpParser req))"

lemma decoder_ok_new: "decoder_ok (HttpDecoder_new g p)"
  by (simp add: decoder_ok_def HttpDecoder_new_def HttpParser_new_def http_reachable.init)

lemma decoder_ok_Reset: "decoder_ok (HttpDecoder_Reset req)"
  by (simp add: decoder_ok_def HttpDecoder_Reset_def HttpParser_Reset_def http_reachable.init)

lemma decoder_Parse:
  assumes "decoder_ok req"
  obtains ok req' where "HttpDecoder_Parse data req = Some (ok, req')" "decoder_ok req'"
proof -
  let ?h = "d_httpParser req"
  obtain pr m n where x: "http_parser_execute m_settings data (m_httpParser ?h) (m_msg ?h) = Some (pr, m, n)"
    using execute_ok [OF http_reachable_ok, of m_settings "m_httpParser ?h"] assms unfolding decoder_ok_def by metis
  then have "http_reachable m_settings pr"
    using http_reachable.execute [OF _ x] assms by (simp add: decoder_ok_def)
  then show ?thesis
    using that [of "herrno pr = HPE_OK" "req\<lparr>d_httpParser := \<lparr>m_msg = m, m_httpParser = pr\<rparr>\<rparr>"] x
    by (simp add: HttpDecoder_Parse_def HttpParser_Parse_eq decoder_ok_def)
qed

lemma Dispatch_plain:
  assumes "\<not> m_enableWebSocket d" "\<not> m_isWebSocketReq d"
  shows "\<exists>resp'. Dispatch SHA1 d req resp = Inr (d, resp')"
  using assms by (auto simp: Dispatch_def Let_def split: option.split)

lemma ParseHttpToDispatch_plain:
  assumes "\<not> m_enableWebSocket d" "\<not> m_isWebSocketReq d" "decoder_ok req"
  shows "case ParseHttpToDispatch SHA1 data d req c of
      Ran (ok, d', req', c') \<Rightarrow> d' = d \<and> decoder_ok req' | Raised err \<Rightarrow> False | Waiting \<Rightarrow> True"
proof -
  obtain ok req' where p: "HttpDecoder_Parse data req = Some (ok, req')" "decoder_ok req'"
    using decoder_Parse [OF assms(3)] .
  obtain resp where d: "Dispatch SHA1 d req' (HttpEncoder_new False) = Inr (d, resp)"
    using Dispatch_plain [OF assms(1,2)] by blast
  show ?thesis
    using p d decoder_ok_Reset [of req']
    by (cases ok; cases "c_writes c") (auto simp: ParseHttpToDispatch_def Response_def split: bool.split)
qed

text \<open>
  C18: With WebSockets switched off the handler of a connection raises no exception of its own, whatever it
  reads, and it never leaves the HTTP protocol: no assertion of the streaming parser fails, \<open>std::string::substr\<close> does not throw in the callback for a complete message,
  and no empty function is called. (What the application's handlers raise and a failed allocation are outside of the model.)
\<close>

theorem serve_safe:
  assumes "\<not> m_enableWebSocket d" "\<not> m_isWebSocketReq d" "decoder_ok req"
  shows "case serve SHA1 reads d req w c of
      Ran (d', c') \<Rightarrow> d' = d | Raised err \<Rightarrow> False | Waiting \<Rightarrow> True"
  using assms(3)
proof (induction reads arbitrary: req c)
  case (Cons data reads)
  show ?case
  proof (cases "ParseHttpToDispatch SHA1 data d req c")
    case (Ran x)
    obtain ok d1 req1 c1 where x: "x = (ok, d1, req1, c1)" by (cases x)
    then have "d1 = d" "decoder_ok req1"
      using ParseHttpToDispatch_plain [OF assms(1,2) Cons.prems, of SHA1 data c] Ran by simp_all
    then show ?thesis
      using Cons.IH [of req1 c1] Ran x assms(2) by (cases ok) simp_all
  qed (use ParseHttpToDispatch_plain [OF assms(1,2) Cons.prems, of SHA1 data c] assms(2) in simp_all)
qed simp

theorem serve_safe_witness:
  "case serve (\<lambda>_. []) [[71], []] (HttpDispatch_new False) (HttpDecoder_new 0 0) WebSocketDecoder_new \<lparr>c_writes = [], c_sent = []\<rparr> of
      Ran (d', c') \<Rightarrow> d' = HttpDispatch_new False | Raised err \<Rightarrow> False | Waiting \<Rightarrow> True"
  by (rule serve_safe) (simp_all add: HttpDispatch_new_def decoder_ok_new)

end
