(* ===== verification/Http_Client.thy ===== *)
theory Http_Client
  imports Http_Dispatch
begin

text \<open>
  \<open>net/http/HttpClient.h\<close>: a request over an open connection. What \<open>WriteAll\<close> returns, and the results of
  the calls of \<open>Read\<close> (a negative number, or the bytes that were read, none at the end of the
  stream), are arguments.
\<close>

definition EPIPE :: int where
  "EPIPE = 32"

definition EINVAL :: int where
  "EINVAL = 22"

record HttpClient =
  hc_decoder :: HttpDecoder
  hc_encoder :: HttpEncoder

definition HttpClient_new :: "nat \<Rightarrow> u16 \<Rightarrow> HttpClient" where
  "HttpClient_new g p = \<lparr>hc_decoder = HttpDecoder_new g p, hc_encoder = HttpEncoder_new False\<rparr>"

fun request_loop :: "(int + bytes) list \<Rightarrow> HttpDecoder \<Rightarrow> (int \<times> HttpDecoder) run" where
  "request_loop [] d = Waiting"
| "request_loop (Inl ret # reads) d = Ran (ret, d)"
| "request_loop (Inr data # reads) d =
     (if data = [] then Ran (- EPIPE, d)
      else
        (case HttpDecoder_Parse data d of
           None \<Rightarrow> Raised parser_raised
         | Some (False, d1) \<Rightarrow> Ran (- EINVAL, d1)
         | Some (True, d1) \<Rightarrow> if HttpDecoder_IsComplete d1 then Ran (0, d1) else request_loop reads d1))"

text \<open>The result comes with the string that was written.\<close>

definition Request :: "int \<Rightarrow> (int + bytes) list \<Rightarrow> HttpClient \<Rightarrow> bytes \<times> (int \<times> HttpClient) run" where
  "Request write_result reads c =
     (GetRequestString (hc_encoder c),
      if write_result < 0 then Ran (write_result, c)
      else
        (case request_loop reads (HttpDecoder_Reset (hc_decoder c)) of
           Ran (ret, d) \<Rightarrow> Ran (ret, c\<lparr>hc_decoder := d\<rparr>)
         | Raised err \<Rightarrow> Raised err
         | Waiting \<Rightarrow> Waiting))"

section \<open>Properties\<close>

lemma request_loop_result:
  assumes "decoder_ok d" "\<forall>e. Inl e \<in> set reads \<longrightarrow> e < 0"
  shows "case request_loop reads d of
      Ran (ret, d') \<Rightarrow> ret \<le> 0 \<and> (ret = 0 \<longrightarrow> HttpDecoder_IsComplete d')
    | Raised err \<Rightarrow> False
    | Waiting \<Rightarrow> \<forall>r \<in> set reads. \<exists>data. r = Inr data \<and> data \<noteq> []"
  using assms
proof (induction reads d rule: request_loop.induct)
  case (3 data reads d)
  obtain ok d1 where p: "HttpDecoder_Parse data d = Some (ok, d1)" "decoder_ok d1"
    using decoder_Parse [OF 3(2)] .
  show ?case
  proof (cases "data \<noteq> [] \<and> ok \<and> \<not> HttpDecoder_IsComplete d1")
    case True
    then have "case request_loop reads d1 of
        Ran (ret, d') \<Rightarrow> ret \<le> 0 \<and> (ret = 0 \<longrightarrow> HttpDecoder_IsComplete d')
      | Raised err \<Rightarrow> False
      | Waiting \<Rightarrow> \<forall>r \<in> set reads. \<exists>data. r = Inr data \<and> data \<noteq> []"
      using 3(1) [OF _ p(1)] p(2) 3(3) by simp
    then show ?thesis
      using True p(1) by (auto split: run.splits)
  next
    case False
    then show ?thesis
      using p(1) by (auto simp: EPIPE_def EINVAL_def split: bool.split)
  qed
qed auto

text \<open>
  The reads that make up a response: none is empty, each is parsed without an error, and the response is complete with the last one and not before.
\<close>

fun response_read :: "bytes list \<Rightarrow> HttpDecoder \<Rightarrow> HttpDecoder option" where
  "response_read [] d = None"
| "response_read (data # reads) d =
     (if data = [] then None
      else
        (case HttpDecoder_Parse data d of
           Some (True, d1) \<Rightarrow> if HttpDecoder_IsComplete d1 then (if reads = [] then Some d1 else None) else response_read reads d1
         | _ \<Rightarrow> None))"

lemma request_loop_read:
  "response_read xs d = Some d' \<Longrightarrow> request_loop (map Inr xs @ rest) d = Ran (0, d')"
  by (induction xs d rule: response_read.induct) (auto split: if_splits option.splits prod.splits bool.splits)

lemma request_loop_0:
  assumes "request_loop reads d = Ran (0, d')" "\<forall>e. Inl e \<in> set reads \<longrightarrow> e < 0"
  shows "\<exists>xs rest. reads = map Inr xs @ rest \<and> response_read xs d = Some d'"
  using assms
proof (induction reads d rule: request_loop.induct)
  case (3 data reads d)
  then obtain d1 where d1: "data \<noteq> []" "HttpDecoder_Parse data d = Some (True, d1)"
    by (auto simp: EPIPE_def EINVAL_def split: if_splits option.splits prod.splits bool.splits)
  show ?case
  proof (cases "HttpDecoder_IsComplete d1")
    case True
    then have "Inr data # reads = map Inr [data] @ reads" "response_read [data] d = Some d'"
      using d1 "3.prems"(1) by simp_all
    then show ?thesis by blast
  next
    case False
    then obtain xs rest where xs: "reads = map Inr xs @ rest" "response_read xs d1 = Some d'"
      using "3.IH" [OF d1(1) d1(2) refl] d1 "3.prems" by auto
    then have "Inr data # reads = map Inr (data # xs) @ rest" "response_read (data # xs) d = Some d'"
      using d1 False by simp_all
    then show ?thesis by blast
  qed
qed auto

end
