(* ===== verification/Http_Exchange.thy ===== *)
theory Http_Exchange
  imports Http_Roundtrip Http_Client
begin

text \<open>
  The client and the server together: requests and responses that are printed by one side and parsed by the
  other, over connections that deliver them in pieces.
\<close>

lemma HttpParser_Reset_new: "HttpParser_Reset h = HttpParser_new 0"
  by (simp add: HttpParser_Reset_def HttpParser_new_def)

section \<open>The client\<close>

lemma response_read_completes:
  assumes "completes ds (d_httpParser d) = Some h" "[] \<notin> set ds"
  shows "response_read ds d = Some (d\<lparr>d_httpParser := h\<rparr>)"
  using assms
proof (induction ds arbitrary: d)
  case (Cons x ds)
  obtain h1 where p: "HttpParser_Parse x (d_httpParser d) = Some (True, h1)"
    using Cons.prems(1) by (auto split: option.splits bool.splits)
  have ne: "x \<noteq> []" "[] \<notin> set ds"
    using Cons.prems(2) by auto
  show ?case
  proof (cases "HttpParser_IsComplete h1")
    case True
    then show ?thesis
      using Cons.prems(1) p ne by (auto simp: HttpDecoder_Parse_def HttpDecoder_IsComplete_def split: if_splits)
  next
    case False
    then show ?thesis
      using Cons.IH [of "d\<lparr>d_httpParser := h1\<rparr>"] Cons.prems p ne by (simp add: HttpDecoder_Parse_def HttpDecoder_IsComplete_def)
  qed
qed simp

lemma request_loop_completes:
  assumes "completes ds (d_httpParser d) = Some h" "[] \<notin> set ds"
  shows "request_loop (map Inr ds @ rest) d = Ran (0, d\<lparr>d_httpParser := h\<rparr>)"
  by (rule request_loop_read [OF response_read_completes [OF assms]])

lemma Request_answered:
  assumes "response_ok resp" "in_pieces (GetReponseString resp) resp rs" "0 \<le> wr"
  shows "\<exists>c'. Request wr (map Inr rs @ rest) c = (GetRequestString (hc_encoder c), Ran (0, c')) \<and> parsed_response resp (d_httpParser (hc_decoder c'))"
proof -
  obtain h where h: "completes rs (HttpParser_new 0) = Some h" "parsed_response resp h"
    using response_parsed [OF assms(1,2)] by blast
  have "request_loop (map Inr rs @ rest) (HttpDecoder_Reset (hc_decoder c)) = Ran (0, (HttpDecoder_Reset (hc_decoder c))\<lparr>d_httpParser := h\<rparr>)"
    by (rule request_loop_completes) (use h(1) assms(2) in \<open>simp_all add: HttpDecoder_Reset_def HttpParser_Reset_new in_pieces_def\<close>)
  then show ?thesis
    using h(2) assms(3) by (simp add: Request_def)
qed

text \<open>
  C31: \<open>Request\<close> returns 0 exactly if the request was written and the connection delivers a response: reads that are parsed without an error and
  complete the response with the last of them (bytes in that last read behind the response that make the parser fail are an error too). Then the client holds what
  the parser has collected. Otherwise it returns a negative number; it never fails
  an assertion of the parser, and it goes on waiting only as long as the connection delivers data. What
  was left in the decoder by an earlier request has no influence.
\<close>

theorem request_result:
  assumes "\<forall>e. Inl e \<in> set reads \<longrightarrow> e < 0"
  shows "(snd (Request w reads c) = Ran (0, c') \<longleftrightarrow>
      0 \<le> w \<and> (\<exists>xs rest d. reads = map Inr xs @ rest \<and> response_read xs (HttpDecoder_Reset (hc_decoder c)) = Some d \<and> c' = c\<lparr>hc_decoder := d\<rparr>)) \<and>
    (case snd (Request w reads c) of
      Ran (ret, c1) \<Rightarrow> hc_encoder c1 = hc_encoder c \<and> ret \<le> 0
    | Raised err \<Rightarrow> False
    | Waiting \<Rightarrow> \<forall>r \<in> set reads. \<exists>data. r = Inr data \<and> data \<noteq> []) \<and>
    (0 \<le> w \<longrightarrow> Request w reads c =
       Request w reads (c\<lparr>hc_decoder := (hc_decoder c)\<lparr>d_httpParser := h\<rparr>\<rparr>))"
proof -
  note r = request_loop_result [OF decoder_ok_Reset assms, of "hc_decoder c"]
  have d: "HttpDecoder_Reset (hc_decoder c) = HttpDecoder_Reset ((hc_decoder c)\<lparr>d_httpParser := h\<rparr>)"
    by (simp add: HttpDecoder_Reset_def HttpParser_Reset_def)
  have z: "snd (Request w reads c) = Ran (0, c') \<longleftrightarrow>
      0 \<le> w \<and> (\<exists>d. request_loop reads (HttpDecoder_Reset (hc_decoder c)) = Ran (0, d) \<and> c' = c\<lparr>hc_decoder := d\<rparr>)"
    by (auto simp: Request_def split: run.splits)
  have "request_loop reads (HttpDecoder_Reset (hc_decoder c)) = Ran (0, d) \<longleftrightarrow>
      (\<exists>xs rest. reads = map Inr xs @ rest \<and> response_read xs (HttpDecoder_Reset (hc_decoder c)) = Some d)" for d
    using request_loop_0 [OF _ assms] request_loop_read by blast
  then show ?thesis
    unfolding z using r d by (auto simp: Request_def split: run.splits)
qed

theorem request_result_witness:
  "\<exists>c'. snd (Request 5 (map Inr (two_pieces (GetReponseString sample_response)) @ [Inl (- 110)]) (HttpClient_new 0 0)) = Ran (0, c') \<and>
     m_body (m_msg (d_httpParser (hc_decoder c'))) = str ''hi''"
proof -
  obtain h where h: "completes (two_pieces (GetReponseString sample_response)) (HttpParser_new 0) = Some h" "m_body (m_msg h) = str ''hi''"
    using response_parsed [OF response_ok_sample in_pieces_sample, of 0] by (auto simp: parsed_response_def sample_response_sel)
  let ?c = "HttpClient_new 0 0"
  let ?d = "(HttpDecoder_Reset (hc_decoder ?c))\<lparr>d_httpParser := h\<rparr>"
  have r: "response_read (two_pieces (GetReponseString sample_response)) (HttpDecoder_Reset (hc_decoder ?c)) = Some ?d"
    by (rule response_read_completes) (use h(1) in_pieces_sample in \<open>simp_all add: HttpDecoder_Reset_def HttpParser_Reset_new in_pieces_def\<close>)
  have a: "\<forall>e. Inl e \<in> set (map Inr (two_pieces (GetReponseString sample_response)) @ [Inl (- 110)]) \<longrightarrow> e < (0 :: int)"
    by auto
  have "snd (Request 5 (map Inr (two_pieces (GetReponseString sample_response)) @ [Inl (- 110)]) ?c) = Ran (0, ?c\<lparr>hc_decoder := ?d\<rparr>)"
    using request_result [OF a, of 5 ?c "?c\<lparr>hc_decoder := ?d\<rparr>"] r by (metis zero_le_numeral)
  then show ?thesis
    using h(2) by (intro exI [of _ "?c\<lparr>hc_decoder := ?d\<rparr>"]) simp
qed

section \<open>The server\<close>

lemma ParseHttpToDispatch_completes:
  assumes "HttpParser_Parse x (d_httpParser req) = Some (True, h)"
  shows "ParseHttpToDispatch SHA1 x D req c =
    (if HttpParser_IsComplete h then
       (case Dispatch SHA1 D (req\<lparr>d_httpParser := h\<rparr>) (HttpEncoder_new False) of
          Inl err \<Rightarrow> Raised err
        | Inr (D1, resp) \<Rightarrow>
            (case Response (GetReponseString resp) c of
               Ran (True, c1) \<Rightarrow> Ran (True, D1, HttpDecoder_Reset (req\<lparr>d_httpParser := h\<rparr>), c1)
             | Ran (False, c1) \<Rightarrow> Ran (False, D1, req\<lparr>d_httpParser := h\<rparr>, c1)
             | Raised err \<Rightarrow> Raised err
             | Waiting \<Rightarrow> Waiting))
     else Ran (True, D, req\<lparr>d_httpParser := h\<rparr>, c))"
  using assms by (simp add: ParseHttpToDispatch_def HttpDecoder_Parse_def HttpDecoder_IsComplete_def)

lemma serve_completes:
  assumes "completes ds (d_httpParser req) = Some h" "[] \<notin> set ds" "\<not> m_isWebSocketReq D"
    and "Dispatch SHA1 D (req\<lparr>d_httpParser := h\<rparr>) (HttpEncoder_new False) = Inr (D, resp)"
    and "length (GetReponseString resp) < 2 ^ 64"
  shows "serve SHA1 (ds @ reads) D req w \<lparr>c_writes = int (length (GetReponseString resp)) # ws, c_sent = sent\<rparr> =
    serve SHA1 reads D (req\<lparr>d_httpParser := HttpParser_new 0\<rparr>) w \<lparr>c_writes = ws, c_sent = sent @ [GetReponseString resp]\<rparr>"
  using assms
proof (induction ds arbitrary: req)
  case (Cons x ds)
  obtain h1 where p: "HttpParser_Parse x (d_httpParser req) = Some (True, h1)"
    using Cons.prems(1) by (auto split: option.splits bool.splits)
  note step = ParseHttpToDispatch_completes [OF p, of SHA1 D]
  have ne: "x \<noteq> []" "[] \<notin> set ds"
    using Cons.prems(2) by auto
  show ?case
  proof (cases "HttpParser_IsComplete h1")
    case True
    then have "h1 = h" "ds = []"
      using Cons.prems(1) p by (auto split: if_splits)
    then show ?thesis
      using True Cons.prems step ne
      by (simp add: Response_def HttpDecoder_Reset_def HttpParser_Reset_new)
  next
    case False
    have "serve SHA1 (ds @ reads) D (req\<lparr>d_httpParser := h1\<rparr>) w \<lparr>c_writes = int (length (GetReponseString resp)) # ws, c_sent = sent\<rparr> =
        serve SHA1 reads D (req\<lparr>d_httpParser := h1, d_httpParser := HttpParser_new 0\<rparr>) w \<lparr>c_writes = ws, c_sent = sent @ [GetReponseString resp]\<rparr>"
      by (rule Cons.IH) (use Cons.prems p False in simp_all)
    then show ?thesis
      using False Cons.prems(3) step ne by simp
  qed
qed simp

text \<open>
  A dispatcher with a handler at a URL, and a request that does not ask for a WebSocket, so that the dispatcher stays with HTTP even if
  WebSockets are switched on.
\<close>

definition handles :: "HttpDispatch \<Rightarrow> bytes \<Rightarrow> HttpHandler \<Rightarrow> bool" where
  "handles D u f \<longleftrightarrow> (case map_find u (m_handlers D) of Some h \<Rightarrow> httpHandler h = Some f | None \<Rightarrow> False)"

definition plain_http :: "HttpDispatch \<Rightarrow> bool" where
  "plain_http D \<longleftrightarrow> \<not> m_isWebSocketReq D"

definition no_websocket :: "HttpDispatch \<Rightarrow> HttpEncoder \<Rightarrow> bool" where
  "no_websocket D e \<longleftrightarrow> (m_enableWebSocket D \<longrightarrow> str ''Sec-WebSocket-Key'' \<notin> fst ` set (e_headers e))"

lemma no_websocket_key:
  assumes "m_enableWebSocket D" "no_websocket D e" "same_headers e h"
  shows "GetHeader (str ''Sec-WebSocket-Key'') h = []"
proof -
  have "str ''Sec-WebSocket-Key'' \<noteq> str ''Content-Length''" "str ''Sec-WebSocket-Key'' \<noteq> str ''Connection''"
    by (simp_all add: str_def)
  then have "str ''Sec-WebSocket-Key'' \<notin> fst ` set (rev (all_headers e))"
    using assms(1,2) by (simp add: no_websocket_def all_headers_def)
  then have "map_of (rev (all_headers e)) (str ''Sec-WebSocket-Key'') = None"
    by (rule map_of_eq_None_iff [THEN iffD2])
  then show ?thesis
    using assms(3) by (simp add: GetHeader_def same_headers_def)
qed

lemma Dispatch_handles:
  assumes "plain_http D" "handles D (m_url (m_msg (d_httpParser req))) f" "0 \<notin> set (m_url (m_msg (d_httpParser req)))"
    and "no_websocket D e" "same_headers e (d_httpParser req)"
  shows "Dispatch SHA1 D req resp = Inr (D, f req resp)"
proof -
  have "c_string (m_url (m_msg (d_httpParser req))) = m_url (m_msg (d_httpParser req))"
    using takeWhile_all [OF assms(3)] by (simp add: c_string_def)
  moreover have "D\<lparr>m_isWebSocketReq := False\<rparr> = D"
    using assms(1) by (simp add: plain_http_def)
  ultimately show ?thesis
    using assms(1,2) no_websocket_key [OF _ assms(4,5)] by (auto simp: Dispatch_def Let_def plain_http_def handles_def split: option.splits)
qed

lemma url_no_zero: "request_ok m e \<Longrightarrow> 0 \<notin> set (e_url e)"
proof -
  have "\<not> IS_URL_CHAR 0"
    by (simp add: IS_URL_CHAR_def BIT_AT_def normal_url_char_def)
  then show "request_ok m e \<Longrightarrow> 0 \<notin> set (e_url e)"
    by (auto simp: request_ok_def target_ok_def request_target_def)
qed

text \<open>
  A request that arrives in pieces, as the method and the encoder it was printed from; and what the server
  makes of it: the handler of its URL gets the request, and what it returns is sent.
\<close>

type_synonym wire_request = "http_method \<times> HttpEncoder \<times> bytes list"

definition arrives :: "HttpDispatch \<Rightarrow> wire_request \<Rightarrow> bool" where
  "arrives D r \<longleftrightarrow> (case r of (m, e, ds) \<Rightarrow>
     request_ok m e \<and> params_ok e \<and> in_pieces (GetRequestString e) e ds \<and> no_websocket D e \<and> (\<exists>f. handles D (e_url e) f))"

definition answer_to :: "HttpDispatch \<Rightarrow> HttpDecoder \<Rightarrow> HttpEncoder \<Rightarrow> bytes \<Rightarrow> bool" where
  "answer_to D d0 e out \<longleftrightarrow>
     (\<exists>req f. handles D (e_url e) f \<and> parsed_request e (d_httpParser req) \<and> d_peerIp req = d_peerIp d0 \<and> d_peerPort req = d_peerPort d0 \<and>
        out = GetReponseString (f req (HttpEncoder_new False)))"

lemma serve_one:
  assumes D: "plain_http D" and r: "arrives D (m, e, ds)" and d: "d_httpParser d0 = HttpParser_new g"
  obtains out where "answer_to D d0 e out"
    "\<forall>reads w ws sent. length out < 2 ^ 64 \<longrightarrow> serve SHA1 (ds @ reads) D d0 w \<lparr>c_writes = int (length out) # ws, c_sent = sent\<rparr> =
       serve SHA1 reads D (d0\<lparr>d_httpParser := HttpParser_new 0\<rparr>) w \<lparr>c_writes = ws, c_sent = sent @ [out]\<rparr>"
proof -
  obtain f where ok: "request_ok m e" "params_ok e" "in_pieces (GetRequestString e) e ds" "handles D (e_url e) f" "no_websocket D e"
    using r by (auto simp: arrives_def)
  obtain h where h: "completes ds (HttpParser_new g) = Some h" "parsed_request e h"
    using request_parsed [OF ok(1-3)] by blast
  let ?req = "d0\<lparr>d_httpParser := h\<rparr>"
  have u: "m_url (m_msg h) = e_url e"
    using h(2) by (simp add: parsed_request_def)
  have disp: "Dispatch SHA1 D ?req (HttpEncoder_new False) = Inr (D, f ?req (HttpEncoder_new False))"
    by (rule Dispatch_handles [where e = e]) (use D ok(4,5) u url_no_zero [OF ok(1)] h(2) in \<open>simp_all add: parsed_request_def\<close>)
  have c: "completes ds (d_httpParser d0) = Some h" "[] \<notin> set ds" "\<not> m_isWebSocketReq D"
    using h(1) d ok(3) D by (simp_all add: in_pieces_def plain_http_def)
  show thesis
  proof (rule that)
    show "answer_to D d0 e (GetReponseString (f ?req (HttpEncoder_new False)))"
      unfolding answer_to_def using ok(4) h(2) by (intro exI [of _ ?req] exI [of _ f]) simp
  qed (use serve_completes [OF c disp] in blast)
qed

text \<open>
  C11: Over one connection the server answers any number of requests, one after the other and in their order: every
  request, printed by the encoder and arriving in reads of its own, is parsed, the handler registered for its URL gets it, and exactly
  the responses that the handlers return are sent. The first read of a request has its whole head of at most 40 KiB, the body may come in any further reads, and no read has bytes of
  two requests; the headers are plain ones, and the target has no percent or plus sign and its parameters can be told apart.
\<close>

theorem serve_answers_all:
  assumes "plain_http D" "\<forall>r \<in> set rs. arrives D r" "d_httpParser d0 = HttpParser_new g"
  shows "\<exists>outs. list_all2 (\<lambda>r out. answer_to D d0 (fst (snd r)) out) rs outs \<and>
    ((\<forall>out \<in> set outs. length out < 2 ^ 64) \<longrightarrow>
      serve SHA1 (concat (map (\<lambda>r. snd (snd r)) rs) @ [[]]) D d0 w \<lparr>c_writes = map (\<lambda>out. int (length out)) outs, c_sent = sent\<rparr> =
        Ran (D, \<lparr>c_writes = [], c_sent = sent @ outs\<rparr>))"
  using assms(2,3)
proof (induction rs arbitrary: d0 g sent)
  case Nil
  then show ?case by simp
next
  case (Cons r rs)
  obtain m e ds where r: "r = (m, e, ds)" by (cases r)
  have a: "arrives D (m, e, ds)" "\<forall>r \<in> set rs. arrives D r"
    using Cons.prems(1) r by auto
  obtain out where out: "answer_to D d0 e out"
    "\<forall>reads w ws sent. length out < 2 ^ 64 \<longrightarrow> serve SHA1 (ds @ reads) D d0 w \<lparr>c_writes = int (length out) # ws, c_sent = sent\<rparr> =
       serve SHA1 reads D (d0\<lparr>d_httpParser := HttpParser_new 0\<rparr>) w \<lparr>c_writes = ws, c_sent = sent @ [out]\<rparr>"
    by (rule serve_one [where ?SHA1.0 = SHA1, OF assms(1) a(1) Cons.prems(2)])
  let ?d = "d0\<lparr>d_httpParser := HttpParser_new 0\<rparr>"
  have same: "answer_to D ?d e' = answer_to D d0 e'" for e'
    by (simp add: answer_to_def fun_eq_iff)
  obtain outs where outs: "list_all2 (\<lambda>r out. answer_to D d0 (fst (snd r)) out) rs outs"
    "(\<forall>out \<in> set outs. length out < 2 ^ 64) \<longrightarrow>
      serve SHA1 (concat (map (\<lambda>r. snd (snd r)) rs) @ [[]]) D ?d w \<lparr>c_writes = map (\<lambda>out. int (length out)) outs, c_sent = sent @ [out]\<rparr> =
        Ran (D, \<lparr>c_writes = [], c_sent = (sent @ [out]) @ outs\<rparr>)"
    using Cons.IH [OF a(2), of ?d 0 "sent @ [out]"] unfolding same by auto
  show ?case
    by (rule exI [of _ "out # outs"]) (use out outs r in simp)
qed

text \<open>A server with one handler, which answers with the body of the request.\<close>

definition echo_handler :: HttpHandler where
  "echo_handler req resp = SetBody (m_body (m_msg (d_httpParser req))) (SetStatusMessage (str ''OK'') (SetStatusCode StatusCode_200Ok resp))"

definition sample_server :: HttpDispatch where
  "sample_server = AddHandler_http (str ''/p'') echo_handler (HttpDispatch_new False)"

lemma sample_server_plain: "plain_http sample_server" "handles sample_server (str ''/p'') echo_handler"
  by (simp_all add: plain_http_def sample_server_def HttpDispatch_new_def AddHandler_http_def handles_def handler_at_def map_find_def)

lemma arrives_sample: "arrives sample_server (HTTP_POST, sample_request, two_pieces (GetRequestString sample_request))"
  using request_ok_sample in_pieces_sample_request sample_server_plain(2) by (auto simp: arrives_def sample_request_sel no_websocket_def str_def)

theorem serve_answers_all_witness:
  "\<exists>out. answer_to sample_server (HttpDecoder_new 0 0) sample_request out \<and>
    (length out < 2 ^ 64 \<longrightarrow>
      serve (\<lambda>_. []) (two_pieces (GetRequestString sample_request) @ [[]]) sample_server (HttpDecoder_new 0 0) WebSocketDecoder_new
        \<lparr>c_writes = [int (length out)], c_sent = []\<rparr> = Ran (sample_server, \<lparr>c_writes = [], c_sent = [out]\<rparr>))"
  using serve_answers_all [OF sample_server_plain(1), of "[(HTTP_POST, sample_request, two_pieces (GetRequestString sample_request))]"
      "HttpDecoder_new 0 0" 0 "\<lambda>_. []" WebSocketDecoder_new "[]"] arrives_sample
  by (auto simp: HttpDecoder_new_def list_all2_Cons1 simp del: serve.simps)

section \<open>Both sides\<close>

text \<open>
  C3: A request of the client reaches the handler of the server and its response the client: the string that \<open>Request\<close> writes is
  parsed by the server as the request the client had set up, the server sends what the handler for its URL returns, and with that
  response \<open>Request\<close> returns 0 and the client has the status, the body and the headers that the handler
  had set. Of both messages the whole head, of at most 40 KiB, arrives with the first read and the body in any pieces; the headers are plain ones (not empty, none with a
  meaning for the framing), and the request has no percent or plus sign in its target, no question mark in the URL, no equals sign in a key and no ampersand in a value.
\<close>

theorem http_exchange:
  assumes "plain_http D" "arrives D (m, hc_encoder c, ds)" "handles D (e_url (hc_encoder c)) f" "0 \<le> wr" "d_httpParser d0 = HttpParser_new g"
  shows "\<exists>req. parsed_request (hc_encoder c) (d_httpParser req) \<and>
    (let resp = f req (HttpEncoder_new False); out = GetReponseString resp in
     (length out < 2 ^ 64 \<longrightarrow>
        serve SHA1 (ds @ [[]]) D d0 w \<lparr>c_writes = [int (length out)], c_sent = []\<rparr> = Ran (D, \<lparr>c_writes = [], c_sent = [out]\<rparr>)) \<and>
     (\<forall>rs rest. response_ok resp \<and> in_pieces out resp rs \<longrightarrow>
        (\<exists>c'. Request wr (map Inr rs @ rest) c = (concat ds, Ran (0, c')) \<and> parsed_response resp (d_httpParser (hc_decoder c')))))"
proof -
  obtain out where out: "answer_to D d0 (hc_encoder c) out"
    "\<forall>reads w ws sent. length out < 2 ^ 64 \<longrightarrow> serve SHA1 (ds @ reads) D d0 w \<lparr>c_writes = int (length out) # ws, c_sent = sent\<rparr> =
       serve SHA1 reads D (d0\<lparr>d_httpParser := HttpParser_new 0\<rparr>) w \<lparr>c_writes = ws, c_sent = sent @ [out]\<rparr>"
    by (rule serve_one [where ?SHA1.0 = SHA1, OF assms(1,2,5)])
  obtain req where req: "parsed_request (hc_encoder c) (d_httpParser req)" "out = GetReponseString (f req (HttpEncoder_new False))"
    using out(1) assms(3) by (auto simp: answer_to_def handles_def split: option.splits)
  let ?resp = "f req (HttpEncoder_new False)"
  have sent: "GetRequestString (hc_encoder c) = concat ds"
    using assms(2) by (simp add: arrives_def in_pieces_def)
  have cl: "\<exists>c'. Request wr (map Inr rs @ rest) c = (concat ds, Ran (0, c')) \<and> parsed_response ?resp (d_httpParser (hc_decoder c'))"
    if "response_ok ?resp" "in_pieces out ?resp rs" for rs rest
    using Request_answered [OF that(1) _ assms(4), of rs rest c] that(2) sent req(2) by simp
  show ?thesis
    using req out(2) [rule_format, of "[[]]" w "[]" "[]"] cl by (intro exI [of _ req]) (auto simp: Let_def)
qed

theorem http_exchange_witness:
  "\<exists>req. parsed_request sample_request (d_httpParser req) \<and>
    (let out = GetReponseString (echo_handler req (HttpEncoder_new False)) in
       serve (\<lambda>_. []) (two_pieces (GetRequestString sample_request) @ [[]]) sample_server (HttpDecoder_new 0 0) WebSocketDecoder_new
          \<lparr>c_writes = [int (length out)], c_sent = []\<rparr> = Ran (sample_server, \<lparr>c_writes = [], c_sent = [out]\<rparr>) \<and>
       (\<exists>c'. Request 0 (map Inr (two_pieces out)) \<lparr>hc_decoder = HttpDecoder_new 0 0, hc_encoder = sample_request\<rparr> =
            (GetRequestString sample_request, Ran (0, c')) \<and>
          m_status (m_msg (d_httpParser (hc_decoder c'))) = 200 \<and> m_body (m_msg (d_httpParser (hc_decoder c'))) = str ''hi''))"
proof -
  let ?c = "\<lparr>hc_decoder = HttpDecoder_new 0 0, hc_encoder = sample_request\<rparr>"
  have d: "d_httpParser (HttpDecoder_new 0 0) = HttpParser_new 0"
    by (simp add: HttpDecoder_new_def)
  have a: "arrives sample_server (HTTP_POST, hc_encoder ?c, two_pieces (GetRequestString sample_request))"
    "handles sample_server (e_url (hc_encoder ?c)) echo_handler"
    using arrives_sample sample_server_plain(2) by (simp_all add: sample_request_sel)
  have z: "(0 :: int) \<le> 0" by simp
  obtain req where req: "parsed_request sample_request (d_httpParser req)"
    "let resp = echo_handler req (HttpEncoder_new False); out = GetReponseString resp in
     (length out < 2 ^ 64 \<longrightarrow>
        serve (\<lambda>_. []) (two_pieces (GetRequestString sample_request) @ [[]]) sample_server (HttpDecoder_new 0 0) WebSocketDecoder_new
          \<lparr>c_writes = [int (length out)], c_sent = []\<rparr> = Ran (sample_server, \<lparr>c_writes = [], c_sent = [out]\<rparr>)) \<and>
     (\<forall>rs rest. response_ok resp \<and> in_pieces out resp rs \<longrightarrow>
        (\<exists>c'. Request 0 (map Inr rs @ rest) ?c = (concat (two_pieces (GetRequestString sample_request)), Ran (0, c')) \<and>
          parsed_response resp (d_httpParser (hc_decoder c'))))"
    using http_exchange [OF sample_server_plain(1) a z d, of "\<lambda>_. []" WebSocketDecoder_new] unfolding HttpClient.simps by blast
  define resp where "resp = echo_handler req (HttpEncoder_new False)"
  have e: "e_body resp = str ''hi''" "e_headers resp = []" "e_statusMessage resp = str ''OK''" "e_statusCode resp = StatusCode_200Ok" "\<not> e_closeConnection resp"
    using req(1) by (simp_all add: resp_def echo_handler_def SetBody_def SetStatusMessage_def SetStatusCode_def HttpEncoder_new_def parsed_request_def sample_request_sel)
  have ok: "response_ok resp"
    by (simp add: response_ok_def message_ok_def e str_def CR_def LF_def status_line_def head_block_def all_headers_def
        print_header_def dec_str.simps HTTP_MAX_HEADER_SIZE_def)
  have p: "in_pieces (GetReponseString resp) resp (two_pieces (GetReponseString resp))"
    by (rule in_two_pieces) (simp_all add: GetReponseString_def AppendToStream_def e str_def)
  have l: "length (GetReponseString resp) < 2 ^ 64"
    by (simp add: GetReponseString_def AppendToStream_def e print_header_def dec_str.simps str_def)
  obtain c' where "Request 0 (map Inr (two_pieces (GetReponseString resp)) @ []) ?c = (GetRequestString sample_request, Ran (0, c'))"
    "parsed_response resp (d_httpParser (hc_decoder c'))"
    using req(2) [unfolded Let_def, folded resp_def] ok p by fastforce
  then show ?thesis
    using req(1) req(2) [unfolded Let_def, folded resp_def] l
    by (intro exI [of _ req]) (auto simp: Let_def resp_def [symmetric] parsed_response_def e simp del: serve.simps list.map)
qed

end
