(* ===== verification/Http_Pipeline.thy ===== *)
theory Http_Pipeline
  imports Http_Exchange
begin

text \<open>
  Requests that a client sends without waiting for the answers, so that the server reads several of them at once. The streaming parser goes
  on with the next message behind a complete one; \<open>net/http/HttpParser.cpp\<close> does not stop it, and collects all of them into one message.
\<close>

section \<open>From one request to the next\<close>

text \<open>The parser between two requests of a connection that is kept alive.\<close>

definition ready :: "http_msg \<Rightarrow> nat \<Rightarrow> http_msg exec \<Rightarrow> bool" where
  "ready u p s \<longleftrightarrow> p_state s = s_start_req \<and> pos s = p \<and> marks s = (\<lambda>_. None) \<and> herrno (hp s) = HPE_OK \<and> nread (hp s) = 0 \<and>
     \<not> lenient_http_headers (hp s) \<and> (\<exists>m. constants (hp s) = (HTTP_REQUEST, m, 0, 1, 1)) \<and> usr s = u"

lemma ready_behind:
  assumes "behind_head 0 (HTTP_REQUEST, m, 0, 1, 1) u p s" "at_next (message_flags e) s" "\<not> e_closeConnection e"
  shows "ready (completed (hp s) u) p s" "hmethod (hp s) = m"
  using assms
  by (auto simp: ready_def behind_head_def at_next_def NEW_MESSAGE_def http_should_keep_alive_def http_message_needs_eof_def start_state_def constants_def
      has_flag_def message_flags_def flag_defs)

lemma next_byte:
  assumes s: "ready u p s" and c: "coming data p [c]" "first_method (char_of (unat c)) = Some m"
  obtains s' where "exec_loop m_settings data s = exec_loop m_settings data s'" "in_line (s_req_method, 1, HTTP_REQUEST, m, 0, 1, 1) u (Suc p) s'"
proof -
  have a: "IS_ALPHA c" using c(2) by (rule method_name_alpha)
  have n: "c \<noteq> CR" "c \<noteq> LF"
    using a by (auto simp: IS_ALPHA_def LOWER_def CR_def LF_def)
  have "\<exists>t. reexecute m_settings data (s\<lparr>hp := (hp s)\<lparr>nread := nread (hp s) + 1\<rparr>\<rparr>) = Break t \<and> pos t = p \<and>
      in_line (s_req_method, 1, HTTP_REQUEST, m, 0, 1, 1) u (Suc p) (t\<lparr>pos := Suc (pos t)\<rparr>)"
    using s c a n
    by (subst reexecute_dispatch)
      (auto simp: dispatch_def exec_start_req_def prim_defs callback_defs CALLBACK_NOTIFY_ER_def in_line_def in_head_def ready_def
        reset_message_def constants_def simp del: first_method.simps)
  then obtain t where t: "reexecute m_settings data (s\<lparr>hp := (hp s)\<lparr>nread := nread (hp s) + 1\<rparr>\<rparr>) = Break t" "pos t = p"
    "in_line (s_req_method, 1, HTTP_REQUEST, m, 0, 1, 1) u (Suc p) (t\<lparr>pos := Suc (pos t)\<rparr>)"
    by blast
  show thesis
    by (rule that [of "t\<lparr>pos := Suc (pos t)\<rparr>"])
      (use loop_header [of s data m_settings t] t s c in \<open>simp_all add: ready_def PARSING_HEADER_def HTTP_MAX_HEADER_SIZE_def\<close>)
qed

text \<open>Requests without parameters and body, on a connection that is kept alive.\<close>

definition simple_request :: "http_method \<Rightarrow> HttpEncoder \<Rightarrow> bool" where
  "simple_request m e \<longleftrightarrow> request_ok m e \<and> e_parameters e = [] \<and> e_body e = [] \<and> \<not> e_closeConnection e \<and>
     set (e_url e) \<inter> {ascii CHR ''?'', ascii CHR ''%'', ascii CHR ''+''} = {}"

text \<open>The headers of such a request, and its end.\<close>

lemma request_end:
  assumes s: "in_head s_header_field_start 0 ULLONG_MAX (HTTP_REQUEST, m, 0, 1, 1) u (p + length (request_line m e)) s"
    and e: "simple_request m e" and d: "coming data p (GetRequestString e)" "2 * (p + length (GetRequestString e)) \<le> HTTP_MAX_HEADER_SIZE"
  obtains s' where "exec_loop m_settings data s = exec_loop m_settings data s'" "hmethod (hp s') = m"
    "ready (completed (hp s') (with_headers (all_headers e) u)) (p + length (GetRequestString e)) s'"
proof -
  have ok: "list_all plain_header (e_headers e)" "e_body e = []" "m \<noteq> HTTP_CONNECT" "e_method e = http_method_str m" "\<not> e_closeConnection e"
    using e by (simp_all add: simple_request_def request_ok_def message_ok_def)
  have g: "GetRequestString e = request_line m e @ head_block e @ [CR, LF]"
    using GetRequestString_line [OF ok(4)] ok(2) by (simp add: AppendToStream_block)
  obtain s' where s': "exec_loop m_settings data s = exec_loop m_settings data s'"
    "behind_head (of_nat (length (e_body e))) (HTTP_REQUEST, m, 0, 1, 1) (with_headers (all_headers e) u) (p + length (request_line m e) + length (head_block e) + 2) s'"
    "e_body e = [] \<Longrightarrow> at_next (message_flags e) s'"
    by (rule head_run [OF s ok(1) _ _ , of data]) (use ok d g in auto)
  have b: "behind_head 0 (HTTP_REQUEST, m, 0, 1, 1) (with_headers (all_headers e) u) (p + length (GetRequestString e)) s'"
    using s'(2) ok(2) unfolding g by (simp add: add.assoc)
  show thesis
    by (rule that [OF s'(1)]) (use ready_behind [OF b s'(3) [OF ok(2)] ok(5)] in simp_all)
qed

section \<open>What is collected\<close>

definition plain_text :: "bytes \<Rightarrow> bool" where
  "plain_text t \<longleftrightarrow> set t \<inter> {ascii CHR ''?'', ascii CHR ''%'', ascii CHR ''+''} = {}"

lemma completed_plain:
  assumes "plain_text (m_urlAndParams u)"
  shows "m_urlAndParams (completed pr u) = m_urlAndParams u" "m_url (completed pr u) = m_urlAndParams u" "m_method (completed pr u) = http_method_str (hmethod pr)"
    "http_msg.m_complete (completed pr u)" "m_body (completed pr u) = m_body u"
proof -
  have "UrlDecode (m_urlAndParams u) = m_urlAndParams u"
    using assms by (intro UrlDecode_plain) (auto simp: plain_text_def)
  moreover have "GetStringBefore (ascii CHR ''?'') (m_urlAndParams u) 0 = Some (m_urlAndParams u)"
    using assms by (auto simp: GetStringBefore_takeWhile plain_text_def takeWhile_eq_all_conv)
  moreover have "params_loop (m_urlAndParams u) (length (m_urlAndParams u) + 1) ps = Some ps" for ps
    by (simp add: params_loop.simps)
  ultimately show "m_urlAndParams (completed pr u) = m_urlAndParams u" "m_url (completed pr u) = m_urlAndParams u"
    "m_method (completed pr u) = http_method_str (hmethod pr)" "http_msg.m_complete (completed pr u)" "m_body (completed pr u) = m_body u"
    by (simp_all add: completed_def OnComplete_def OnComplete_target_def ParseUrlAndParam_def Let_def)
qed

text \<open>The message after some requests: the URLs behind each other, the method of the last one.\<close>

definition merged :: "bytes \<Rightarrow> http_method \<Rightarrow> http_msg \<Rightarrow> bool" where
  "merged t m u \<longleftrightarrow> m_urlAndParams u = t \<and> m_url u = t \<and> m_method u = http_method_str m \<and> m_body u = [] \<and> http_msg.m_complete u"

lemma plain_text_request: "simple_request m e \<Longrightarrow> plain_text t \<Longrightarrow> plain_text (t @ e_url e)"
  by (auto simp: simple_request_def plain_text_def)

lemma merged_request:
  assumes "simple_request m e" "m_urlAndParams u = t" "m_body u = []" "plain_text t" "hmethod pr = m"
  shows "merged (t @ e_url e) m (completed pr (with_headers (all_headers e) (with_url (request_target e) u)))"
proof -
  have r: "request_target e = e_url e"
    using assms(1) by (simp add: simple_request_def request_target_def)
  note p = plain_text_request [OF assms(1,4)]
  have w: "m_urlAndParams (with_headers (all_headers e) (with_url (request_target e) u)) = t @ e_url e"
    "m_body (with_headers (all_headers e) (with_url (request_target e) u)) = []"
    using header_callbacks_keeps [of undefined "all_headers e" "with_url (request_target e) u"] assms(2,3) r by (simp_all add: header_callbacks_with)
  show "merged (t @ e_url e) m (completed pr (with_headers (all_headers e) (with_url (request_target e) u)))"
    using completed_plain [of "with_headers (all_headers e) (with_url (request_target e) u)" pr] w p assms(5) by (simp add: merged_def)
qed

lemma first_request:
  assumes e: "simple_request m e" and d: "coming data 0 (GetRequestString e)" "2 * length (GetRequestString e) \<le> HTTP_MAX_HEADER_SIZE"
    and u: "m_urlAndParams u = []" "m_body u = []"
  obtains s' u' where "exec_loop m_settings data (start_exec u) = exec_loop m_settings data s'" "ready u' (length (GetRequestString e)) s'" "merged (e_url e) m u'"
proof -
  have ok: "m \<noteq> HTTP_CONNECT" "e_method e = http_method_str m" "target_ok (request_target e)"
    using e by (simp_all add: simple_request_def request_ok_def)
  note g = GetRequestString_line [OF ok(2)]
  obtain s where s: "exec_loop m_settings data (start_exec u) = exec_loop m_settings data s"
    "in_head s_header_field_start 0 ULLONG_MAX (HTTP_REQUEST, m, 0, 1, 1) (with_url (request_target e) u) (length (request_line m e)) s"
    by (rule request_line_run [OF _ _ ok(3,1), of data u]) (use d g in auto)
  obtain s' where s': "exec_loop m_settings data s = exec_loop m_settings data s'" "hmethod (hp s') = m"
    "ready (completed (hp s') (with_headers (all_headers e) (with_url (request_target e) u))) (0 + length (GetRequestString e)) s'"
    by (rule request_end [of m "with_url (request_target e) u" 0 e s data]) (use s(2) e d in auto)
  show thesis
    by (rule that [OF trans [OF s(1) s'(1)]]) (use s'(3) merged_request [OF e u _ s'(2)] in \<open>simp_all add: plain_text_def\<close>)
qed

lemma next_request:
  assumes s: "ready u p s" "merged t m0 u" "plain_text t" and e: "simple_request m e"
    and d: "coming data p (GetRequestString e)" "2 * (p + length (GetRequestString e)) \<le> HTTP_MAX_HEADER_SIZE"
  obtains s' u' where "exec_loop m_settings data s = exec_loop m_settings data s'" "ready u' (p + length (GetRequestString e)) s'" "merged (t @ e_url e) m u'"
proof -
  have ok: "m \<noteq> HTTP_CONNECT" "e_method e = http_method_str m" "target_ok (request_target e)"
    using e by (simp_all add: simple_request_def request_ok_def)
  note g = GetRequestString_line [OF ok(2)]
  obtain c bs where w: "http_method_str m = c # bs"
    using method_name(2) [of m] by (cases "http_method_str m") auto
  obtain m1 where m1: "first_method (char_of (unat c)) = Some m1"
    "line_run (bs @ [32]) (s_req_method, 1, HTTP_REQUEST, m1, 0, 1, 1) = Some (s_req_spaces_before_url, length (c # bs), HTTP_REQUEST, m, 0, 1, 1)"
    by (rule method_line_at [OF w])
  have c: "coming data p (request_line m e)" "coming data p [c]"
    using d(1) g w by (simp_all add: request_line_def)
  obtain s1 where s1: "exec_loop m_settings data s = exec_loop m_settings data s1" "in_line (s_req_method, 1, HTTP_REQUEST, m1, 0, 1, 1) u (Suc p) s1"
    by (rule next_byte [OF s(1) c(2) m1(1)])
  obtain s2 where s2: "exec_loop m_settings data s1 = exec_loop m_settings data s2"
    "in_head s_header_field_start 0 ULLONG_MAX (HTTP_REQUEST, m, 0, 1, 1) (with_url (request_target e) u) (p + length (request_line m e)) s2"
    by (rule request_line_rest [OF s1(2) w m1(2) c(1) _ ok(3,1)]) (use d(2) g in auto)
  obtain s' where s': "exec_loop m_settings data s2 = exec_loop m_settings data s'" "hmethod (hp s') = m"
    "ready (completed (hp s') (with_headers (all_headers e) (with_url (request_target e) u))) (p + length (GetRequestString e)) s'"
    by (rule request_end [OF s2(2) e d])
  have u: "m_urlAndParams u = t" "m_body u = []"
    using s(2) by (simp_all add: merged_def)
  show thesis
    by (rule that [of s']) (use s1(1) s2(1) s' merged_request [OF e u s(3) s'(2)] in simp_all)
qed

lemma further_requests:
  assumes "ready u p s" "merged t m0 u" "plain_text t" "list_all (\<lambda>(m, e). simple_request m e) xs"
    and "coming data p (concat (map (GetRequestString \<circ> snd) xs))"
    and "2 * (p + length (concat (map (GetRequestString \<circ> snd) xs))) \<le> HTTP_MAX_HEADER_SIZE"
  shows "\<exists>s' u'. exec_loop m_settings data s = exec_loop m_settings data s' \<and> ready u' (p + length (concat (map (GetRequestString \<circ> snd) xs))) s' \<and>
    merged (t @ concat (map (e_url \<circ> snd) xs)) (last (m0 # map fst xs)) u'"
  using assms
proof (induction xs arbitrary: u p s t m0)
  case (Cons x xs)
  obtain m e where x: "x = (m, e)" by (cases x)
  have e: "simple_request m e" and d: "coming data p (GetRequestString e)" "2 * (p + length (GetRequestString e)) \<le> HTTP_MAX_HEADER_SIZE"
    using Cons.prems x by simp_all
  obtain s1 u1 where s1: "exec_loop m_settings data s = exec_loop m_settings data s1" "ready u1 (p + length (GetRequestString e)) s1" "merged (t @ e_url e) m u1"
    by (rule next_request [OF Cons.prems(1-3) e d])
  have p: "plain_text (t @ e_url e)"
    by (rule plain_text_request [OF e Cons.prems(3)])
  show ?case
    using Cons.IH [OF s1(2,3) p] Cons.prems s1(1) x by (simp add: add.assoc)
qed auto

lemma requests_merged:
  assumes xs: "xs \<noteq> []" "list_all (\<lambda>(m, e). simple_request m e) xs"
    and l: "2 * length (concat (map (GetRequestString \<circ> snd) xs)) \<le> HTTP_MAX_HEADER_SIZE"
  obtains h where "HttpParser_Parse (concat (map (GetRequestString \<circ> snd) xs)) (HttpParser_new g) = Some (True, h)"
    "merged (concat (map (e_url \<circ> snd) xs)) (fst (last xs)) (m_msg h)"
proof -
  let ?d = "concat (map (GetRequestString \<circ> snd) xs)" and ?m = "m_msg (HttpParser_new g)"
  obtain m e ys where x: "xs = (m, e) # ys" using xs(1) by (cases xs) auto
  have ok: "simple_request m e" "list_all (\<lambda>(m, e). simple_request m e) ys" using xs(2) x by simp_all
  have c: "coming ?d 0 (GetRequestString e)" "coming ?d (length (GetRequestString e)) (concat (map (GetRequestString \<circ> snd) ys))"
    using coming_all [of ?d] unfolding x by (simp_all add: comp_def)
  obtain s1 u1 where s1: "exec_loop m_settings ?d (start_exec ?m) = exec_loop m_settings ?d s1" "ready u1 (length (GetRequestString e)) s1" "merged (e_url e) m u1"
    by (rule first_request [OF ok(1) c(1), of ?m]) (use l x in \<open>auto simp: HttpParser_new_def\<close>)
  have p: "plain_text (e_url e)"
    using ok(1) by (simp add: simple_request_def plain_text_def)
  have m: "fst (last xs) = last (m # map fst ys)"
    by (simp add: x last_map)
  have "\<exists>s' u'. exec_loop m_settings ?d s1 = exec_loop m_settings ?d s' \<and> ready u' (length ?d) s' \<and>
      merged (concat (map (e_url \<circ> snd) xs)) (fst (last xs)) u'"
    using further_requests [OF s1(2,3) p ok(2) c(2)] l unfolding m by (simp add: x)
  then obtain s2 u2 where s2: "exec_loop m_settings ?d s1 = exec_loop m_settings ?d s2" "ready u2 (length ?d) s2"
    "merged (concat (map (e_url \<circ> snd) xs)) (fst (last xs)) u2"
    by blast
  have r: "pos s2 = length ?d" "marks s2 = (\<lambda>_. None)" "herrno (hp s2) = HPE_OK" "usr s2 = u2"
    using s2(2) by (simp_all add: ready_def)
  have ne: "?d \<noteq> []"
    using c(1) GetRequestString_line [of e m] ok(1) method_name(2) [of m] x by (auto simp: simple_request_def request_ok_def request_line_def)
  have init: "hstate (http_parser_init HTTP_BOTH) = s_start_req_or_res" "herrno (http_parser_init HTTP_BOTH) = HPE_OK"
    "initial_marks s_start_req_or_res = (\<lambda>_. None)"
    by (auto simp: http_parser_init_def initial_marks_def split: data_cb.split)
  have lo: "exec_loop m_settings ?d (start_exec ?m) = Break s2"
    using s1(1) s2(1) r(1) by (simp add: exec_loop_end)
  have "http_parser_execute m_settings ?d (http_parser_init HTTP_BOTH) ?m = Some ((hp s2)\<lparr>hstate := p_state s2\<rparr>, u2, length ?d)"
    using ne init lo r leftover_none [OF r(2,3), of m_settings ?d] by (simp add: http_parser_execute_def leave_ctl_def leave_def del: concat_eq_Nil_conv)
  then show thesis
    by (intro that [of "\<lparr>m_msg = u2, m_httpParser = (hp s2)\<lparr>hstate := p_state s2\<rparr>\<rparr>"])
      (use r(3) s2(3) in \<open>simp_all add: HttpParser_Parse_eq HttpParser_new_def\<close>)
qed

text \<open>
  C32: Requests that are read together are lost. Whatever number of requests without body, on a connection that is kept alive, arrives in one read, the
  server sends a single response, and it looks for the handler under the URLs of all of them put together: without one there it answers 404,
  also if every single URL has a handler.
\<close>

theorem pipelined_lost:
  assumes "xs \<noteq> []" "list_all (\<lambda>(m, e). simple_request m e) xs" "2 * length (concat (map (GetRequestString \<circ> snd) xs)) \<le> HTTP_MAX_HEADER_SIZE"
    and "\<not> m_enableWebSocket D" "\<not> m_isWebSocketReq D" "map_find (c_string (concat (map (e_url \<circ> snd) xs))) (m_handlers D) = None"
  shows "let out = GetReponseString (ResponseHttpNotFound (HttpEncoder_new False)) in
    serve SHA1 [concat (map (GetRequestString \<circ> snd) xs), []] D (HttpDecoder_new g p) w \<lparr>c_writes = [int (length out)], c_sent = []\<rparr> =
    Ran (D, \<lparr>c_writes = [], c_sent = [out]\<rparr>)"
proof -
  let ?d = "concat (map (GetRequestString \<circ> snd) xs)" and ?r = "ResponseHttpNotFound (HttpEncoder_new False)"
  obtain h where h: "HttpParser_Parse ?d (HttpParser_new g) = Some (True, h)" "merged (concat (map (e_url \<circ> snd) xs)) (fst (last xs)) (m_msg h)"
    by (rule requests_merged [OF assms(1-3)])
  have c: "completes [?d] (d_httpParser (HttpDecoder_new g p)) = Some h"
    using h by (simp add: HttpDecoder_new_def merged_def HttpParser_IsComplete_def)
  obtain m e ys where x: "xs = (m, e) # ys" using assms(1) by (cases xs) auto
  have ne: "[] \<notin> set [?d]"
    using x assms(2) GetRequestString_line [of e m] method_name(2) [of m] by (auto simp: simple_request_def request_ok_def request_line_def)
  have D: "Dispatch SHA1 D ((HttpDecoder_new g p)\<lparr>d_httpParser := h\<rparr>) (HttpEncoder_new False) = Inr (D, ?r)"
    using assms(4-6) h(2) by (simp add: Dispatch_def merged_def Let_def)
  have l: "length (GetReponseString ?r) < 2 ^ 64"
    by (simp add: ResponseHttpNotFound_def SetBody_def SetStatusMessage_def SetStatusCode_def SetCloseConnection_def HttpEncoder_new_def GetReponseString_def
        AppendToStream_def rsp_failed_def dec_str.simps str_def)
  show ?thesis
    using serve_completes [OF c ne assms(5) D l, of "[[]]" w "[]" "[]"] by (simp add: Let_def del: serve.simps) simp
qed

definition get_request :: "string \<Rightarrow> HttpEncoder" where
  "get_request u = SetUrl (str u) (SetMethod (str ''GET'') (HttpEncoder_new False))"

lemma get_request_simple: "simple_request HTTP_GET (get_request ''/a'')" "simple_request HTTP_GET (get_request ''/b'')"
proof -
  have t: "target_ok (str ''/a'')" "target_ok (str ''/b'')" by code_simp+
  show "simple_request HTTP_GET (get_request ''/a'')" "simple_request HTTP_GET (get_request ''/b'')"
    using t by (simp_all add: simple_request_def request_ok_def message_ok_def get_request_def SetUrl_def SetMethod_def HttpEncoder_new_def request_target_def
        request_line_def head_block_def all_headers_def print_header_def dec_str.simps http_method_str_def HTTP_MAX_HEADER_SIZE_def str_def)
qed

theorem pipelined_lost_witness:
  "let D = AddHandler_http (str ''/b'') (\<lambda>_ r. r) (AddHandler_http (str ''/a'') (\<lambda>_ r. r) (HttpDispatch_new False));
       out = GetReponseString (ResponseHttpNotFound (HttpEncoder_new False)) in
   serve (\<lambda>_. []) [GetRequestString (get_request ''/a'') @ GetRequestString (get_request ''/b''), []] D (HttpDecoder_new 0 0) WebSocketDecoder_new
     \<lparr>c_writes = [int (length out)], c_sent = []\<rparr> = Ran (D, \<lparr>c_writes = [], c_sent = [out]\<rparr>)"
proof -
  let ?D = "AddHandler_http (str ''/b'') (\<lambda>_ r. r) (AddHandler_http (str ''/a'') (\<lambda>_ r. r) (HttpDispatch_new False))"
  let ?xs = "[(HTTP_GET, get_request ''/a''), (HTTP_GET, get_request ''/b'')]"
  have x: "?xs \<noteq> []" "list_all (\<lambda>(m, e). simple_request m e) ?xs" "2 * length (concat (map (GetRequestString \<circ> snd) ?xs)) \<le> HTTP_MAX_HEADER_SIZE"
    using get_request_simple
    by (simp_all add: get_request_def SetUrl_def SetMethod_def HttpEncoder_new_def GetRequestString_def request_target_def AppendToStream_def
        dec_str.simps HTTP_MAX_HEADER_SIZE_def str_def)
  have d: "\<not> m_enableWebSocket ?D" "\<not> m_isWebSocketReq ?D" "map_find (c_string (concat (map (e_url \<circ> snd) ?xs))) (m_handlers ?D) = None"
    by (simp_all add: AddHandler_http_def HttpDispatch_new_def handler_at_def map_find_def get_request_def SetUrl_def c_string_def str_def)
  show ?thesis
    using pipelined_lost [where ?SHA1.0 = "\<lambda>_. []" and g = 0 and p = 0 and w = WebSocketDecoder_new, OF x d] by (simp add: Let_def del: serve.simps)
qed

section \<open>Behind the last request\<close>

text \<open>
  After a request that closes the connection the parser takes no further byte but the ends of lines. What follows in the same read makes the whole
  read fail, and the request, though complete, gets no answer.
\<close>

lemma closed_execute:
  assumes e: "request_ok m e" "e_body e = []" "e_closeConnection e" and c: "c \<noteq> CR" "c \<noteq> LF"
  obtains h where "HttpParser_Parse (GetRequestString e @ c # rest) (HttpParser_new g) = Some (False, h)" "herrno (m_httpParser h) = HPE_CLOSED_CONNECTION"
proof -
  let ?L = "request_line m e" and ?H = "head_block e @ [CR, LF]" and ?m = "m_msg (HttpParser_new g)" and ?k = "(HTTP_REQUEST, m, 0, 1, 1)"
  let ?d = "GetRequestString e @ c # rest"
  have ok: "list_all plain_header (e_headers e)" "m \<noteq> HTTP_CONNECT" "e_method e = http_method_str m" "target_ok (request_target e)"
    "2 * length (?L @ ?H) \<le> HTTP_MAX_HEADER_SIZE"
    using e(1) by (simp_all add: request_ok_def message_ok_def)
  have r: "GetRequestString e = ?L @ ?H"
    using GetRequestString_line [OF ok(3)] e(2) by (simp add: AppendToStream_block)
  have d: "coming ?d 0 ?L" "coming ?d (length ?L) ?H" "coming ?d (length (GetRequestString e)) [c]"
    using coming_all [of ?d] unfolding r by (simp_all add: add.assoc)
  obtain s where s: "exec_loop m_settings ?d (start_exec ?m) = exec_loop m_settings ?d s"
    "in_head s_header_field_start 0 ULLONG_MAX ?k (with_url (request_target e) ?m) (length ?L) s"
    by (rule request_line_run [OF d(1) _ ok(4,2)]) (use ok(5) in auto)
  obtain s1 where s1: "exec_loop m_settings ?d s = exec_loop m_settings ?d s1"
    "behind_head (of_nat (length (e_body e))) ?k (with_headers (all_headers e) (with_url (request_target e) ?m)) (length ?L + length (head_block e) + 2) s1"
    "e_body e = [] \<Longrightarrow> at_next (message_flags e) s1"
    by (rule head_run [OF s(2) ok(1) _ _ d(2)]) (use ok(2,5) e(2) in auto)
  have p: "p_state s1 = s_dead" "pos s1 = length (GetRequestString e)" "herrno (hp s1) = HPE_OK" "nread (hp s1) = 0"
    using s1(2) s1(3) [OF e(2)] e(2,3)
    by (auto simp: r behind_head_def at_next_def NEW_MESSAGE_def http_should_keep_alive_def constants_def has_flag_def message_flags_def flag_defs)
  let ?s = "s1\<lparr>hp := (hp s1)\<lparr>nread := 1\<rparr>\<rparr>"
  have "reexecute m_settings ?d ?s = Goto_error (SET_ERRNO HPE_CLOSED_CONNECTION ?s)"
    using p d(3) c by (subst reexecute_dispatch) (auto simp: dispatch_def exec_dead_def error_def)
  then have "exec_byte m_settings ?d s1 = Goto_error (SET_ERRNO HPE_CLOSED_CONNECTION ?s)"
    using p(1,4) by (simp add: exec_byte_def PARSING_HEADER_def COUNT_HEADER_SIZE_ok [unfolded One_nat_def] HTTP_MAX_HEADER_SIZE_def)
  then have x: "exec_loop m_settings ?d s1 = Goto_error (SET_ERRNO HPE_CLOSED_CONNECTION ?s)"
    using p(2) by (subst exec_loop.simps) simp
  have init: "hstate (http_parser_init HTTP_BOTH) = s_start_req_or_res" "herrno (http_parser_init HTTP_BOTH) = HPE_OK"
    "initial_marks s_start_req_or_res = (\<lambda>_. None)" "m_httpParser (HttpParser_new g) = http_parser_init HTTP_BOTH"
    by (auto simp: http_parser_init_def initial_marks_def HttpParser_new_def split: data_cb.split)
  obtain pr u n where "http_parser_execute m_settings ?d (http_parser_init HTTP_BOTH) ?m = Some (pr, u, n)" "herrno pr = HPE_CLOSED_CONNECTION"
    using init s(1) s1(1) x by (simp add: http_parser_execute_def leave_ctl_def leave_def leave_error_def SET_ERRNO_def on_hp_def)
  then show thesis
    using that init(4) by (simp add: HttpParser_Parse_eq)
qed

lemma closed_unanswered:
  assumes "request_ok m e" "e_body e = []" "e_closeConnection e" "c \<noteq> CR" "c \<noteq> LF" "\<not> m_isWebSocketReq D"
  shows "serve SHA1 ((GetRequestString e @ c # rest) # reads) D (HttpDecoder_new g p) w conn = Ran (D, conn)"
proof -
  obtain h where "HttpParser_Parse (GetRequestString e @ c # rest) (HttpParser_new g) = Some (False, h)"
    by (rule closed_execute [OF assms(1-5)])
  then show ?thesis
    using assms(6) by (simp add: ParseHttpToDispatch_def HttpDecoder_Parse_def HttpDecoder_new_def)
qed

end
