(* ===== verification/Full_Transfer.thy ===== *)
theory Full_Transfer
  imports Co_Prelude
begin

text \<open>
  \<open>CoSocket::ReadFull\<close> and \<open>CoSocket::WriteAll\<close> of \<open>net/CoSocket.cpp\<close>: the loops that call
  \<open>Read\<close> and \<open>Write\<close> until the whole buffer is transferred. What the successive calls return
  is a list; the value \<open>None\<close> means that the loop has used up the list and waits in its next call.
\<close>

section \<open>The code\<close>

text \<open>A call of \<open>Read\<close> returns a negative value \<open>Inl e\<close>, or stores and counts some bytes.\<close>

definition store :: "nat \<Rightarrow> bytes \<Rightarrow> bytes \<Rightarrow> bytes" where
  "store off chunk buffer = take off buffer @ chunk @ drop (off + length chunk) buffer"

fun ReadFull :: "(int + bytes) list \<Rightarrow> nat \<Rightarrow> nat \<Rightarrow> bytes \<Rightarrow> (int \<times> bytes) option" where
  "ReadFull rs sz readBytes buffer =
     (if readBytes < sz then
        (case rs of
           [] \<Rightarrow> None
         | Inl ret # _ \<Rightarrow> Some (ret, buffer)
         | Inr chunk # rs' \<Rightarrow>
             if chunk = [] then Some (int readBytes, buffer)
             else ReadFull rs' sz (readBytes + length chunk) (store readBytes chunk buffer))
      else Some (int readBytes, buffer))"

text \<open>
  A call of \<open>Write\<close> returns a negative value or the number of bytes it sent, the first ones
  of those it was offered; \<open>wire\<close> is what has been sent.
\<close>

fun WriteAll :: "int list \<Rightarrow> bytes \<Rightarrow> nat \<Rightarrow> nat \<Rightarrow> bytes \<Rightarrow> (int \<times> bytes) option" where
  "WriteAll rs buffer sz writeBytes wire =
     (if writeBytes < sz then
        (case rs of
           [] \<Rightarrow> None
         | ret # rs' \<Rightarrow>
             if ret < 0 then Some (ret, wire)
             else WriteAll rs' buffer sz (writeBytes + nat ret)
                    (wire @ take (nat ret) (drop writeBytes buffer)))
      else Some (int writeBytes, wire))"

declare ReadFull.simps [simp del] WriteAll.simps [simp del]

section \<open>ReadFull\<close>

lemma store_next:
  assumes "length got + length chunk \<le> length buffer"
  shows "store (length got) chunk (got @ drop (length got) buffer) =
    (got @ chunk) @ drop (length (got @ chunk)) buffer"
  using assms by (simp add: store_def add.commute)

text \<open>After the bytes \<open>got\<close>, the buffer starts with them.\<close>

lemma ReadFull_chunks:
  assumes "\<forall>c \<in> set chunks. c \<noteq> []" "length got + length (concat chunks) \<le> sz" "sz \<le> length buffer"
  shows "ReadFull (map Inr chunks @ rs) sz (length got) (got @ drop (length got) buffer) =
    ReadFull rs sz (length got + length (concat chunks))
      ((got @ concat chunks) @ drop (length (got @ concat chunks)) buffer)"
  using assms
proof (induction chunks arbitrary: got)
  case (Cons c chunks)
  have "length got < sz"
    using Cons.prems by (cases c) auto
  then have "ReadFull (map Inr (c # chunks) @ rs) sz (length got) (got @ drop (length got) buffer) =
      ReadFull (map Inr chunks @ rs) sz (length (got @ c)) ((got @ c) @ drop (length (got @ c)) buffer)"
    using Cons.prems store_next [of got c buffer] by (subst ReadFull.simps) simp
  also have "\<dots> = ReadFull rs sz (length (got @ c) + length (concat chunks))
      (((got @ c) @ concat chunks) @ drop (length ((got @ c) @ concat chunks)) buffer)"
    using Cons.prems by (intro Cons.IH) auto
  finally show ?case
    by (simp add: add.assoc)
qed simp

text \<open>
  \<open>ReadFull\<close> reassembles the stream. Whatever pieces the calls of \<open>Read\<close> deliver, it
  returns as soon as \<open>sz\<close> bytes are there, with exactly these bytes, in order, at the start
  of the buffer and the rest of the buffer unchanged; at the end of the stream it returns the
  number of bytes received so far, on an error the error; and it makes at most \<open>sz\<close> calls
  that deliver data.
\<close>

theorem ReadFull_reassembles:
  assumes "\<forall>c \<in> set chunks. c \<noteq> []" "length (concat chunks) \<le> sz" "sz \<le> length buffer"
  shows "ReadFull (map Inr chunks @ rs) sz 0 buffer =
      (if length (concat chunks) = sz then Some (int sz, concat chunks @ drop sz buffer)
       else case rs of
         [] \<Rightarrow> None
       | Inl e # _ \<Rightarrow> Some (e, concat chunks @ drop (length (concat chunks)) buffer)
       | Inr [] # _ \<Rightarrow> Some (int (length (concat chunks)), concat chunks @ drop (length (concat chunks)) buffer)
       | Inr (x # xs) # rs' \<Rightarrow> ReadFull rs' sz (length (concat chunks) + length (x # xs))
           (store (length (concat chunks)) (x # xs) (concat chunks @ drop (length (concat chunks)) buffer))) \<and>
     length chunks \<le> sz"
proof -
  have "ReadFull (map Inr chunks @ rs) sz 0 buffer =
      ReadFull rs sz (length (concat chunks)) (concat chunks @ drop (length (concat chunks)) buffer)"
    using ReadFull_chunks [of chunks "[]" sz buffer rs] assms by simp
  moreover have "length chunks \<le> length (concat chunks)"
    using assms(1) by (induction chunks) (auto simp: neq_Nil_conv)
  ultimately show ?thesis
    using assms(2) by (subst (asm) (2) ReadFull.simps) (auto split: list.splits sum.splits)
qed

theorem ReadFull_reassembles_witness:
  "ReadFull [Inr [1, 2], Inr [3]] 3 0 [0, 0, 0, 9] = Some (3, [1, 2, 3, 9])"
  using ReadFull_reassembles [of "[[1, 2], [3]]" 3 "[0, 0, 0, 9]" "[]"] by simp

section \<open>WriteAll\<close>

text \<open>What the calls of \<open>Write\<close> return: a negative value, or at most the bytes offered.\<close>

fun writes_ok :: "int list \<Rightarrow> nat \<Rightarrow> bool" where
  "writes_ok [] left \<longleftrightarrow> True"
| "writes_ok (r # rs) left \<longleftrightarrow> r < 0 \<or> r \<le> int left \<and> writes_ok rs (left - nat r)"

lemma take_take_drop: "take a xs @ take b (drop a xs) = take (a + b) xs"
  by (simp add: take_add)

lemma WriteAll_wire:
  assumes "writes_ok rs (sz - n)" "n \<le> sz"
    and "WriteAll rs buffer sz n (take n buffer) = Some (ret, wire)"
  shows "ret = int sz \<and> wire = take sz buffer \<or> ret < 0 \<and> (\<exists>k < sz. wire = take k buffer)"
  using assms
proof (induction rs arbitrary: n)
  case Nil
  then show ?case
    by (subst (asm) WriteAll.simps) (auto split: if_splits)
next
  case (Cons r rs)
  show ?case
  proof (cases "n < sz \<and> 0 \<le> r")
    case True
    then have "WriteAll rs buffer sz (n + nat r) (take (n + nat r) buffer) = Some (ret, wire)"
      using Cons.prems(3) by (subst (asm) WriteAll.simps) (simp add: take_take_drop)
    moreover have "writes_ok rs (sz - (n + nat r))" "n + nat r \<le> sz"
      using Cons.prems(1) True by auto
    ultimately show ?thesis
      by (intro Cons.IH)
  next
    case False
    then show ?thesis
      using Cons.prems by (auto simp: WriteAll.simps [of "r # rs"] split: if_splits)
  qed
qed

lemma WriteAll_returns:
  assumes "sz - n \<le> length rs" "0 \<notin> set rs"
  shows "WriteAll rs buffer sz n wire \<noteq> None"
  using assms by (induction rs arbitrary: n wire) (subst WriteAll.simps, force)+

text \<open>
  C29: When \<open>WriteAll\<close> returns a non-negative value, it is the size asked for, and exactly the
  bytes of the buffer have gone out, each once and in order; when it returns an error, a proper
  prefix has. It returns after at most \<open>sz\<close> calls if every call sends something.
\<close>

theorem WriteAll_sends_all:
  assumes "writes_ok rs sz"
  shows "(WriteAll rs buffer sz 0 [] = Some (ret, wire) \<longrightarrow>
      ret = int sz \<and> wire = take sz buffer \<or> ret < 0 \<and> (\<exists>k < sz. wire = take k buffer)) \<and>
    (sz \<le> length rs \<and> 0 \<notin> set rs \<longrightarrow> WriteAll rs buffer sz 0 [] \<noteq> None)"
  using WriteAll_wire [of rs sz 0 buffer ret wire] WriteAll_returns [of sz 0 rs buffer "[]"] assms by simp

theorem WriteAll_sends_all_witness:
  "WriteAll [2, 1] [7, 8, 9] 3 0 [] = Some (3, [7, 8, 9]) \<and> [7, 8, 9] = take 3 [7, 8, 9 :: u8]"
proof -
  have e: "WriteAll [2, 1] [7, 8, 9] 3 0 [] = Some (3, [7, 8, 9])"
    by (simp add: WriteAll.simps)
  have "writes_ok [2, 1] 3" by simp
  from WriteAll_sends_all [OF this, of "[7, 8, 9]" 3 "[7, 8, 9]"] e show ?thesis
    by simp
qed

end
