(* ===== verification/Tcp_Transfer.thy ===== *)
theory Tcp_Transfer
  imports Tcp_Server Co_Socket Full_Transfer
begin

text \<open>
  The operations of \<open>net/TcpConnector.cpp\<close>, \<open>net/TcpClient.cpp\<close> and \<open>net/Timer.cpp\<close> that transfer data: they hand their
  arguments on to \<open>CoSocket\<close> with the descriptor they own. For \<open>ReadFull\<close> and \<open>WriteAll\<close> the results of the single calls on a
  descriptor are a function of the descriptor.
\<close>

section \<open>TcpConnector\<close>

definition TcpConnector_Read ::
  "'k epoll_ctl \<Rightarrow> int \<Rightarrow> (int \<Rightarrow> sysres) \<Rightarrow> timestamp \<Rightarrow> stack_at \<Rightarrow> (int \<Rightarrow> sysres) \<Rightarrow> TcpConnector \<Rightarrow> ('f, 'k) CoSocket \<Rightarrow>
     (('f, 'k) CoSocket \<times> outcome) res" where
  "TcpConnector_Read ctl timeoutMs first now sp retry c cs =
     Read ctl (m_fd c) timeoutMs (first (m_fd c)) now sp (retry (m_fd c)) cs"

definition TcpConnector_Write ::
  "'k epoll_ctl \<Rightarrow> bytes \<Rightarrow> int \<Rightarrow> (int \<Rightarrow> sysres) \<Rightarrow> timestamp \<Rightarrow> stack_at \<Rightarrow> (int \<Rightarrow> sysres) \<Rightarrow> TcpConnector \<Rightarrow> ('f, 'k) CoSocket \<Rightarrow>
     (('f, 'k) CoSocket \<times> outcome) res" where
  "TcpConnector_Write ctl buffer timeoutMs first now sp retry c cs =
     Write ctl (m_fd c) (length buffer) False timeoutMs (first (m_fd c)) now sp (retry (m_fd c)) cs"

definition TcpConnector_ReadFull :: "(int \<Rightarrow> (int + bytes) list) \<Rightarrow> nat \<Rightarrow> bytes \<Rightarrow> TcpConnector \<Rightarrow> (int \<times> bytes) option" where
  "TcpConnector_ReadFull reads sz buffer c = ReadFull (reads (m_fd c)) sz 0 buffer"

definition TcpConnector_WriteAll :: "(int \<Rightarrow> int list) \<Rightarrow> bytes \<Rightarrow> TcpConnector \<Rightarrow> (int \<times> bytes) option" where
  "TcpConnector_WriteAll writes buffer c = WriteAll (writes (m_fd c)) buffer (length buffer) 0 []"

definition GetFd :: "TcpConnector \<Rightarrow> int" where
  "GetFd c = m_fd c"

section \<open>TcpClient\<close>

text \<open>The address of a peer. \<open>inet_addr\<close> is a parameter; \<open>htons\<close> swaps the bytes, as on a little-endian machine.\<close>

record sockaddr_in =
  sin_family :: u16
  sin_port :: u16
  sin_addr :: u32

definition AF_INET :: u16 where
  "AF_INET = 2"

definition htons :: "u16 \<Rightarrow> u16" where
  "htons p = push_bit 8 p OR drop_bit 8 p"

definition TcpClient_address :: "(bytes \<Rightarrow> u32) \<Rightarrow> bytes \<Rightarrow> u16 \<Rightarrow> sockaddr_in" where
  "TcpClient_address inet_addr ip port = \<lparr>sin_family = AF_INET, sin_port = htons port, sin_addr = inet_addr ip\<rparr>"

definition TcpClient_Connect ::
  "(bytes \<Rightarrow> u32) \<Rightarrow> 'k epoll_ctl \<Rightarrow> bytes \<Rightarrow> u16 \<Rightarrow> int \<Rightarrow> (int \<Rightarrow> sockaddr_in \<Rightarrow> sysres) \<Rightarrow> timestamp \<Rightarrow> stack_at \<Rightarrow> (int \<Rightarrow> sysres) \<Rightarrow>
     TcpClient \<Rightarrow> ('f, 'k) CoSocket \<Rightarrow> (('f, 'k) CoSocket \<times> outcome) res" where
  "TcpClient_Connect inet_addr ctl ip port timeoutMs first now sp so_error c cs =
     Connect ctl (client_fd c) timeoutMs (first (client_fd c) (TcpClient_address inet_addr ip port)) now sp (so_error (client_fd c)) cs"

definition TcpClient_Read ::
  "'k epoll_ctl \<Rightarrow> int \<Rightarrow> (int \<Rightarrow> sysres) \<Rightarrow> timestamp \<Rightarrow> stack_at \<Rightarrow> (int \<Rightarrow> sysres) \<Rightarrow> TcpClient \<Rightarrow> ('f, 'k) CoSocket \<Rightarrow>
     (('f, 'k) CoSocket \<times> outcome) res" where
  "TcpClient_Read ctl timeoutMs first now sp retry c cs =
     Read ctl (client_fd c) timeoutMs (first (client_fd c)) now sp (retry (client_fd c)) cs"

definition TcpClient_Write ::
  "'k epoll_ctl \<Rightarrow> bytes \<Rightarrow> int \<Rightarrow> (int \<Rightarrow> sysres) \<Rightarrow> timestamp \<Rightarrow> stack_at \<Rightarrow> (int \<Rightarrow> sysres) \<Rightarrow> TcpClient \<Rightarrow> ('f, 'k) CoSocket \<Rightarrow>
     (('f, 'k) CoSocket \<times> outcome) res" where
  "TcpClient_Write ctl buffer timeoutMs first now sp retry c cs =
     Write ctl (client_fd c) (length buffer) False timeoutMs (first (client_fd c)) now sp (retry (client_fd c)) cs"

definition TcpClient_ReadFull :: "(int \<Rightarrow> (int + bytes) list) \<Rightarrow> nat \<Rightarrow> bytes \<Rightarrow> TcpClient \<Rightarrow> (int \<times> bytes) option" where
  "TcpClient_ReadFull reads sz buffer c = ReadFull (reads (client_fd c)) sz 0 buffer"

definition TcpClient_WriteAll :: "(int \<Rightarrow> int list) \<Rightarrow> bytes \<Rightarrow> TcpClient \<Rightarrow> (int \<times> bytes) option" where
  "TcpClient_WriteAll writes buffer c = WriteAll (writes (client_fd c)) buffer (length buffer) 0 []"

section \<open>Timer\<close>

record Timer =
  timer_fd :: int

definition Timer_new :: "int \<Rightarrow> Timer option" where
  "Timer_new create_result = (if create_result < 0 then None else Some \<lparr>timer_fd = create_result\<rparr>)"

definition Timer_destruct :: "Timer \<Rightarrow> syscall list" where
  "Timer_destruct t = (if timer_fd t \<ge> 0 then [CloseFd (timer_fd t)] else [])"

text \<open>\<open>Wait\<close> as a whole: the read has no timeout, and its result is not used.\<close>

definition Timer_Wait_run ::
  "'k epoll_ctl \<Rightarrow> (int \<Rightarrow> int \<times> int \<Rightarrow> int) \<Rightarrow> int \<Rightarrow> (int \<Rightarrow> sysres) \<Rightarrow> timestamp \<Rightarrow> stack_at \<Rightarrow> (int \<Rightarrow> sysres) \<Rightarrow> Timer \<Rightarrow> ('f, 'k) CoSocket \<Rightarrow>
     (('f, 'k) CoSocket \<times> outcome) res" where
  "Timer_Wait_run ctl settime ms first now sp retry t cs =
     (if settime (timer_fd t) (timer_spec ms) < 0 then Inr (cs, Returned 0)
      else Read ctl (timer_fd t) (-1) (first (timer_fd t)) now sp (retry (timer_fd t)) cs)"

section \<open>Properties\<close>

lemma htons_twice: "htons (htons p) = p"
  by (rule bit_word_eqI) (auto simp: htons_def bit_simps)

text \<open>In memory the port stands with its high byte first.\<close>

lemma htons_bytes: "unat (htons p) = (unat p mod 256) * 256 + unat p div 256"
proof -
  have "push_bit 8 p AND drop_bit 8 p = 0"
    by (rule bit_word_eqI) (auto simp: bit_simps dest!: bit_imp_le_length)
  then have h: "htons p = push_bit 8 p + drop_bit 8 p"
    unfolding htons_def by (rule disjunctive_add_eq_or [symmetric])
  have a: "unat (push_bit 8 p) = (unat p mod 256) * 256"
    by (simp add: push_bit_eq_mult unat_word_ariths mod_mult_mult2 [of _ 256, symmetric])
  have b: "unat (drop_bit 8 p) = unat p div 256"
    by (simp add: drop_bit_eq_div unat_div)
  have "unat p div 256 < 256"
    using unsigned_less [where ?'a = nat, of p] by simp
  then show ?thesis
    unfolding h by (simp add: unat_word_ariths a b)
qed

text \<open>
  A connection that was closed, any number of times, does nothing any more: its descriptor is \<open>-1\<close>, on which the system calls fail with
  \<open>EBADF\<close>, so its operations return that error at once, suspend no coroutine and leave the tables of the event loop as they are; and the descriptor
  it had was closed once.
\<close>

theorem closed_connection_inert:
  assumes "0 \<le> fd" "Close_times (Suc n) (TcpConnector_new fd) = (c, l)"
    and "first (-1) = SysErr EBADF" "writes (-1) = - EBADF # ws" "reads (-1) = Inl (- EBADF) # rs" "buffer \<noteq> []" "0 < sz"
  shows "l @ TcpConnector_destruct c = [CloseFd fd] \<and>
    TcpConnector_Read ctl timeoutMs first now sp retry c cs = Inr (cs, Returned (- EBADF)) \<and>
    TcpConnector_Write ctl buffer timeoutMs first now sp retry c cs = Inr (cs, Returned (- EBADF)) \<and>
    TcpConnector_ReadFull reads sz buffer' c = Some (- EBADF, buffer') \<and>
    TcpConnector_WriteAll writes buffer c = Some (- EBADF, [])"
proof -
  have c: "m_fd c = -1"
    using assms(2) by (auto simp: TcpConnector_new_def TcpConnector_Close_def)
  show ?thesis
    using connector_closed_once [OF assms(1,2)] assms(3-7) c
    by (simp add: TcpConnector_Read_def TcpConnector_Write_def TcpConnector_ReadFull_def TcpConnector_WriteAll_def Read_def Write_def errno_defs
        ReadFull.simps WriteAll.simps)
qed

theorem closed_connection_inert_witness:
  "snd (Close_times 2 (TcpConnector_new 7)) @ TcpConnector_destruct (fst (Close_times 2 (TcpConnector_new 7))) = [CloseFd 7] \<and>
   TcpConnector_Read (\<lambda>k _ _ _. (k, None)) 5 (\<lambda>_. SysErr EBADF) (Timestamp 0 0) (1, 0) (\<lambda>_. SysOk 1) (fst (Close_times 2 (TcpConnector_new 7)))
       (CoSocket_init [] () :: (unit, unit) CoSocket) = Inr (CoSocket_init [] (), Returned (- EBADF))"
  using closed_connection_inert [of 7 1 "fst (Close_times 2 (TcpConnector_new 7))" "snd (Close_times 2 (TcpConnector_new 7))" "\<lambda>_. SysErr EBADF"
      "\<lambda>_. [- EBADF]" "[]" "\<lambda>_. [Inl (- EBADF)]" "[]" "[0]" 1 "\<lambda>k _ _ _. (k, None)" 5 "Timestamp 0 0" "(1, 0)" "\<lambda>_. SysOk 1"
      "CoSocket_init [] () :: (unit, unit) CoSocket"]
  by (simp add: numeral_2_eq_2)

end
