(* ===== verification/Co_Queue.thy ===== *)
theory Co_Queue
  imports Loop_Properties
begin

text \<open>
  \<open>net/CoQueue.h\<close>: the queue between coroutines, and the buffers it carries. A queue lives in
  the world of theory \<open>Event_Loop\<close>: \<open>Enque\<close> notifies its condition, \<open>Deque\<close> waits on it
  while the queue is empty. The properties hold for every interleaving of producers, consumers
  and the rest of the program.
\<close>

section \<open>The code\<close>

record 'a CoQueue =
  m_condition :: u64
  m_queue :: "'a list"

definition CoQueue_new :: "('f, 'k) CoSocket \<Rightarrow> (('f, 'k) CoSocket \<times> 'a CoQueue) res" where
  "CoQueue_new c =
     bind_res (GetCondition c) (\<lambda>(c', cnd). Inr (c', \<lparr>m_condition = cnd, m_queue = []\<rparr>))"

definition Enque :: "'a \<Rightarrow> 'a CoQueue \<Rightarrow> ('f, 'k) CoSocket \<Rightarrow> 'a CoQueue \<times> ('f, 'k) CoSocket" where
  "Enque ptr q c = (q\<lparr>m_queue := m_queue q @ [ptr]\<rparr>, ConditionNotify (m_condition q) c)"

text \<open>
  One round of \<open>Deque\<close>: the test of the loop, then either the wait, after which the coroutine
  comes back to the test, or the removal of the front. \<open>sp\<close> is the stack pointer at the wait.
\<close>

definition Deque ::
  "stack_at \<Rightarrow> 'a CoQueue \<Rightarrow> ('f, 'k) CoSocket \<Rightarrow> ('a CoQueue \<times> ('f, 'k) CoSocket \<times> 'a option) res" where
  "Deque sp q c =
     (case m_queue q of
        [] \<Rightarrow> bind_res (ConditionWait (m_condition q) sp c) (\<lambda>c'. Inr (q, c', None))
      | front # rest \<Rightarrow> Inr (q\<lparr>m_queue := rest\<rparr>, c, Some front))"

text \<open>The buffers: a flag, a size and the bytes.\<close>

record Buffer =
  m_stop :: bool
  m_size :: int
  m_capacity :: int
  m_data :: bytes

definition Buffer_new :: "int \<Rightarrow> bytes \<Rightarrow> Buffer" where
  "Buffer_new capacity fresh = \<lparr>m_stop = False, m_size = 0, m_capacity = capacity, m_data = fresh\<rparr>"

definition Stop :: "Buffer \<Rightarrow> Buffer" where
  "Stop b = b\<lparr>m_stop := True\<rparr>"

text \<open>The readers, and the destructor, which frees the bytes.\<close>

definition IsStop :: "Buffer \<Rightarrow> bool" where [simp]: "IsStop b = m_stop b"
definition Size :: "Buffer \<Rightarrow> int" where [simp]: "Size b = m_size b"
definition Capacity :: "Buffer \<Rightarrow> int" where [simp]: "Capacity b = m_capacity b"
definition Data :: "Buffer \<Rightarrow> bytes" where [simp]: "Data b = m_data b"

definition Buffer_destruct :: "Buffer \<Rightarrow> Buffer" where
  "Buffer_destruct b = b\<lparr>m_data := []\<rparr>"

definition SetSize :: "int \<Rightarrow> Buffer \<Rightarrow> Buffer" where
  "SetSize n b = b\<lparr>m_size := n\<rparr>"

section \<open>Queues in the running program\<close>

text \<open>
  The system: the world, one queue, and two histories, what was put in and what came out. A
  step is a call of \<open>Enque\<close> or \<open>Deque\<close> by the running coroutine, or any other step of the
  world that does not use the condition of the queue (nor one that the key of the condition map
  confuses with it).
\<close>

record ('a, 'f, 'k) qsystem =
  qworld :: "('f, 'k) world"
  queue :: "'a CoQueue"
  put :: "'a list"
  taken :: "'a list"

datatype ('a, 'f) qlabel = QEnque 'a | QDeque stack_at | QWorld "'f label"

fun uses_key :: "int \<Rightarrow> 'f label \<Rightarrow> bool" where
  "uses_key key (LWait c sp) \<longleftrightarrow> cond_key c = key"
| "uses_key key (LNotify c) \<longleftrightarrow> cond_key c = key"
| "uses_key key _ \<longleftrightarrow> False"

definition can_call :: "('f, 'k) world \<Rightarrow> bool" where
  "can_call w \<longleftrightarrow> running w \<noteq> -1 \<and> pend w (running w) = None"

fun qstep ::
  "'k kernel \<Rightarrow> ('a, 'f, 'k) qsystem \<Rightarrow> ('a, 'f) qlabel \<Rightarrow> ('a, 'f, 'k) qsystem res" where
  "qstep K s (QEnque x) =
     (let w = qworld s in
      if can_call w then
        let (q', c') = Enque x (queue s) (cs w)
        in Inr (s\<lparr>qworld := w\<lparr>cs := c'\<rparr>, queue := q', put := put s @ [x]\<rparr>)
      else Inr s)"
| "qstep K s (QDeque sp) =
     (let w = qworld s in
      if can_call w then
        bind_res (Deque sp (queue s) (cs w))
          (\<lambda>(q', c', r). case r of
              None \<Rightarrow> Inr (s\<lparr>qworld := w\<lparr>cs := c',
                        pend := (pend w)(running w \<mapsto> PendCond (m_condition (queue s)))\<rparr>, queue := q'\<rparr>)
            | Some x \<Rightarrow> Inr (s\<lparr>qworld := w\<lparr>cs := c'\<rparr>, queue := q', taken := taken s @ [x]\<rparr>))
      else Inr s)"
| "qstep K s (QWorld l) =
     (if uses_key (cond_key (m_condition (queue s))) l then Inr s
      else bind_res (world_step K (qworld s) l) (\<lambda>w'. Inr (s\<lparr>qworld := w'\<rparr>)))"

text \<open>The rules of the event loop for such a step, and runs that keep them.\<close>

fun qrule_ok :: "('k \<Rightarrow> int \<Rightarrow> bool) \<Rightarrow> ('a, 'f, 'k) qsystem \<Rightarrow> ('a, 'f) qlabel \<Rightarrow> bool" where
  "qrule_ok can_watch s (QEnque x) \<longleftrightarrow> True"
| "qrule_ok can_watch s (QDeque sp) \<longleftrightarrow> stack_fits sp"
| "qrule_ok can_watch s (QWorld l) \<longleftrightarrow> (enabled (qworld s) l \<longrightarrow> rule_ok can_watch (qworld s) l)"

fun qfollows_rules :: "('k \<Rightarrow> int \<Rightarrow> bool) \<Rightarrow> 'k kernel \<Rightarrow> ('a, 'f, 'k) qsystem \<Rightarrow> ('a, 'f) qlabel list \<Rightarrow> bool" where
  "qfollows_rules can_watch K s [] = True"
| "qfollows_rules can_watch K s (l # ls) =
     (qrule_ok can_watch s l \<and>
      (case qstep K s l of Inl _ \<Rightarrow> True | Inr t \<Rightarrow> qfollows_rules can_watch K t ls))"

definition qinit :: "u64 \<Rightarrow> ('f, 'k) world \<Rightarrow> ('a, 'f, 'k) qsystem" where
  "qinit cnd w = \<lparr>qworld = w, queue = \<lparr>m_condition = cnd, m_queue = []\<rparr>, put = [], taken = []\<rparr>"

section \<open>What other steps leave alone\<close>

text \<open>Only \<open>ConditionWait\<close> and \<open>ConditionNotify\<close> change the lists of waiting coroutines.\<close>

named_theorems cond_frame \<open>operations that keep the condition map\<close>

lemma resume_in_frame [cond_frame]: "resume_in i c = Inr c' \<Longrightarrow> m_conditionMap c' = m_conditionMap c"
  by (auto simp: resume_in_def)

lemma NewCoroutine_frame [cond_frame]: "NewCoroutine f c = Inr c' \<Longrightarrow> m_conditionMap c' = m_conditionMap c"
  by (auto simp: NewCoroutine_def split: if_splits)

lemma GetCondition_frame [cond_frame]: "GetCondition c = Inr (c', n) \<Longrightarrow> m_conditionMap c' = m_conditionMap c"
  by (auto simp: GetCondition_def split: if_splits)

lemma DeleteEvent_frame [cond_frame]:
  "DeleteEvent ctl fd ev c = Inr c' \<Longrightarrow> m_conditionMap c' = m_conditionMap c"
  by (auto simp: DeleteEvent_def ResetInCoIdMap_def Let_def split: if_splits prod.splits)

lemma AddEventAndYield_frame [cond_frame]:
  "AddEventAndYield ctl fd ev sp c = Inr (c', y) \<Longrightarrow> m_conditionMap c' = m_conditionMap c"
  by (auto simp: AddEventAndYield_def SaveToCoIdMap_def Let_def split: if_splits prod.splits)

lemma io_resumed_frame [cond_frame]:
  "io_resumed ctl fd ev i n r c = Inr (c', y) \<Longrightarrow> m_conditionMap c' = m_conditionMap c"
  by (auto simp: io_resumed_def dest: cond_frame)

lemma connect_resumed_frame [cond_frame]:
  "connect_resumed ctl fd i n r c = Inr (c', y) \<Longrightarrow> m_conditionMap c' = m_conditionMap c"
  by (auto simp: connect_resumed_def dest: cond_frame)

lemma finish_call_frame [cond_frame]:
  "finish_call ctl i r w = Inr w' \<Longrightarrow> m_conditionMap (cs w') = m_conditionMap (cs w)"
proof (cases "pend w i")
  case (Some p)
  assume fin: "finish_call ctl i r w = Inr w'"
  show ?thesis
  proof (cases p)
    case (PendCond c)
    then show ?thesis using Some fin by (auto simp: finish_call_def)
  qed (use Some fin in \<open>auto simp: finish_call_IO finish_call_Connect dest!: cond_frame\<close>)
qed (simp add: finish_call_def)

lemma EventHandler_read_frame [cond_frame]:
  "EventHandler_read fd ev c = Inr (c', g) \<Longrightarrow> m_conditionMap c' = m_conditionMap c"
  by (auto simp: EventHandler_read_def Let_def dest: cond_frame split: if_splits)

lemma EventHandler_write_frame [cond_frame]:
  "EventHandler_write fd ev c = Inr c' \<Longrightarrow> m_conditionMap c' = m_conditionMap c"
  by (auto simp: EventHandler_write_def Let_def dest: cond_frame split: if_splits)

lemma main_step_frame [cond_frame]:
  "main_step evs now w = Inr w' \<Longrightarrow> m_conditionMap (cs w') = m_conditionMap (cs w)"
  by (auto simp: main_step_def RunNewCoFunc_iter_def RunWaitResumeCo_iter_def RunTimeoutCo_iter_def
      RunTimeoutCo_begin_def Let_def
      dest!: cond_frame split: loop_pc.splits list.splits if_splits sum.splits)

lemma Read_frame [cond_frame]:
  "Read ctl fd n r now sp r2 c = Inr (c', y) \<Longrightarrow> m_conditionMap c' = m_conditionMap c"
  by (auto simp: Read_def Let_def dest!: cond_frame split: if_splits sysres.splits)

lemma Write_frame [cond_frame]:
  "Write ctl fd z b n r now sp r2 c = Inr (c', y) \<Longrightarrow> m_conditionMap c' = m_conditionMap c"
  by (auto simp: Write_def Let_def dest!: cond_frame split: if_splits sysres.splits)

lemma Accept_frame [cond_frame]:
  "Accept ctl fd n r now sp r2 c = Inr (c', y) \<Longrightarrow> m_conditionMap c' = m_conditionMap c"
  by (auto simp: Accept_def Let_def dest!: cond_frame split: if_splits sysres.splits)

lemma Connect_frame [cond_frame]:
  "Connect ctl fd n r now sp r2 c = Inr (c', y) \<Longrightarrow> m_conditionMap c' = m_conditionMap c"
  by (auto simp: Connect_def Let_def dest!: cond_frame split: if_splits sysres.splits)

lemma after_call_frame:
  assumes "after_call i p w r = Inr w'" "\<And>c y. r = Inr (c, y) \<Longrightarrow> m_conditionMap c = m_conditionMap (cs w)"
  shows "m_conditionMap (cs w') = m_conditionMap (cs w)"
proof -
  obtain c y where r: "r = Inr (c, y)"
    using assms(1) by (auto simp: after_call_def)
  then show ?thesis
    using assms by (cases y) auto
qed

lemma world_step_frame:
  assumes "world_step K w l = Inr w'" "\<not> uses_key key l"
  shows "m_conditionMap (cs w') key = m_conditionMap (cs w) key"
proof (cases "enabled w l")
  case False
  then show ?thesis using assms(1) by (simp add: world_step_def)
next
  case True
  then have st: "label_step K w l = Inr w'" using assms(1) by (simp add: world_step_def)
  show ?thesis
    using st assms(2)
    by (cases l) (auto simp: ConditionWait_def ConditionNotify_def Let_def
        dest: cond_frame after_call_frame [OF _ Read_frame] after_call_frame [OF _ Write_frame]
          after_call_frame [OF _ Accept_frame] after_call_frame [OF _ Connect_frame])
qed


section \<open>Properties\<close>

text \<open>
  The invariant of the system: the world is in order, the histories match, and while the queue
  holds an item nobody is in the waiting list of its condition.
\<close>

definition qinv :: "('k \<Rightarrow> int \<rightharpoonup> u32) \<Rightarrow> ('a, 'f, 'k) qsystem \<Rightarrow> bool" where
  "qinv interest s \<longleftrightarrow>
     winv interest (qworld s) \<and>
     put s = taken s @ m_queue (queue s) \<and>
     (m_queue (queue s) \<noteq> [] \<longrightarrow>
        m_conditionMap (cs (qworld s)) (cond_key (m_condition (queue s))) = [])"

lemma enque_winv:
  assumes "kernel_laws K interest can_watch" "winv interest w" "can_call w"
  shows "winv interest (w\<lparr>cs := ConditionNotify c (cs w)\<rparr>)"
  using notify_ok [OF assms(2)] assms(3)
  by (auto simp: world_step_def can_call_def)

lemma deque_winv:
  assumes "kernel_laws K interest can_watch" "winv interest w" "can_call w" "stack_fits sp"
  obtains c' where "ConditionWait c sp (cs w) = Inr c'"
    "winv interest (w\<lparr>cs := c', pend := (pend w)(running w \<mapsto> PendCond c)\<rparr>)"
  using world_step_ok [OF assms(1,2), of "LWait c sp"] assms(3,4)
  by (auto simp: world_step_def can_call_def)

lemma qstep_ok:
  assumes laws: "kernel_laws K interest can_watch" and inv: "qinv interest s" and rule: "qrule_ok can_watch s l"
  shows "\<exists>t. qstep K s l = Inr t \<and> qinv interest t"
proof (cases l)
  case (QEnque x)
  then show ?thesis
    using inv enque_winv [OF laws, of "qworld s" "m_condition (queue s)"]
    by (auto simp: qinv_def Enque_def Let_def ConditionNotify_def)
next
  case (QDeque sp)
  show ?thesis
  proof (cases "can_call (qworld s) \<and> m_queue (queue s) = []")
    case True
    then obtain c' where "ConditionWait (m_condition (queue s)) sp (cs (qworld s)) = Inr c'"
      "winv interest (qworld s\<lparr>cs := c',
         pend := (pend (qworld s))(running (qworld s) \<mapsto> PendCond (m_condition (queue s)))\<rparr>)"
      using inv rule QDeque deque_winv [OF laws, of "qworld s" sp] by (auto simp: qinv_def)
    then show ?thesis
      using True inv QDeque by (auto simp: qinv_def Deque_def Let_def)
  next
    case False
    then show ?thesis
      using inv QDeque by (auto simp: qinv_def Deque_def Let_def neq_Nil_conv)
  qed
next
  case (QWorld k)
  obtain w' where "world_step K (qworld s) k = Inr w'" "winv interest w'"
    using world_step_ok [OF laws, of "qworld s" k] inv rule QWorld by (auto simp: qinv_def)
  then show ?thesis
    using QWorld inv world_step_frame [of K "qworld s" k _ "cond_key (m_condition (queue s))"]
    by (auto simp: qinv_def)
qed

lemma qrun_ok:
  assumes "kernel_laws K interest can_watch" "qinv interest s"
    "qfollows_rules can_watch K s ls"
  shows "\<exists>t. run_steps (qstep K) s ls = Inr t \<and> qinv interest t"
  using assms(2,3)
proof (induction ls arbitrary: s)
  case (Cons l ls)
  then obtain t where "qstep K s l = Inr t" "qinv interest t"
    using qstep_ok [OF assms(1), of s l] by auto
  then show ?case
    using Cons.IH [of t] Cons.prems(2) by simp
qed simp

lemma qinv_init:
  assumes "length mem = STACK_SIZE" "interest k = Map.empty"
  shows "qinv interest (qinit c (world_init mem k))"
  using winv_init [of mem interest k, OF assms] by (simp add: qinv_def qinit_def)

text \<open>
  C15: A \<open>CoQueue\<close> is a first-in first-out queue between coroutines: for any interleaving of
  \<open>Enque\<close>, \<open>Deque\<close> and other steps of the program in which the rules of the event loop are kept, what \<open>Deque\<close> has returned, followed by
  what the queue holds, is what \<open>Enque\<close> was given, in that order. No wake-up is lost: while
  the queue holds an item, every coroutine blocked in \<open>Deque\<close> is among those the loop will
  resume.
\<close>

theorem queue_fifo:
  assumes "kernel_laws K interest can_watch" "length mem = STACK_SIZE" "interest k = Map.empty"
    and "qfollows_rules can_watch K (qinit cnd (world_init mem k)) ls"
  shows "\<exists>s. run_steps (qstep K) (qinit cnd (world_init mem k)) ls = Inr s \<and>
     put s = taken s @ m_queue (queue s) \<and>
     (m_queue (queue s) \<noteq> [] \<longrightarrow>
       (\<forall>c. pend (qworld s) c = Some (PendCond (m_condition (queue s))) \<longrightarrow> c \<noteq> running (qworld s) \<longrightarrow>
         c \<in> set (wait_list (pc (qworld s)) (m_waitResumeList (cs (qworld s))))))"
proof -
  obtain s where s: "run_steps (qstep K) (qinit cnd (world_init mem k)) ls = Inr s" "qinv interest s"
    using qrun_ok [OF assms(1) qinv_init [of mem interest k, OF assms(2,3)] assms(4)] by blast
  then have w: "winv interest (qworld s)" and "put s = taken s @ m_queue (queue s)"
    and e: "m_queue (queue s) \<noteq> [] \<longrightarrow> m_conditionMap (cs (qworld s)) (cond_key (m_condition (queue s))) = []"
    by (auto simp: qinv_def)
  then show ?thesis
    using s(1) cond_okD(5) [OF winvD(5) [OF w]] by fastforce
qed

definition demo_qlabels :: "(nat, unit) qlabel list" where
  "demo_qlabels = [QWorld (LNew ()), QDeque (20, 9), QWorld (LNew ()), QEnque 4, QEnque 6]"

lemma demo_queue:
  "qfollows_rules table_watch table_kernel (qinit 7 (world_init zero_stack fresh_table)) demo_qlabels \<and>
   (\<exists>s. run_steps (qstep table_kernel) (qinit 7 (world_init zero_stack fresh_table)) demo_qlabels = Inr s \<and>
     m_queue (queue s) = [4, 6] \<and> m_condition (queue s) = 7 \<and> pend (qworld s) 0 = Some (PendCond 7) \<and>
     running (qworld s) = 1)"
  by (simp add: demo_qlabels_def qinit_def ConditionWait_def can_call_def Deque_def Enque_def ConditionNotify_def
      demo_open demo_probe demo_stack demo_eval del: bind_res_Inr assert_that_Inr)

theorem queue_fifo_witness:
  "\<exists>s. run_steps (qstep table_kernel) (qinit 7 (world_init zero_stack fresh_table)) demo_qlabels = Inr s \<and>
     put s = taken s @ [4, 6] \<and> 0 \<in> set (wait_list (pc (qworld s)) (m_waitResumeList (cs (qworld s))))"
proof -
  obtain s where f: "qfollows_rules table_watch table_kernel (qinit 7 (world_init zero_stack fresh_table)) demo_qlabels"
    and s: "run_steps (qstep table_kernel) (qinit 7 (world_init zero_stack fresh_table)) demo_qlabels = Inr s"
    "m_queue (queue s) = [4, 6]" "m_condition (queue s) = 7" "pend (qworld s) 0 = Some (PendCond 7)"
    "running (qworld s) = 1"
    using demo_queue by blast
  have "put s = taken s @ m_queue (queue s) \<and>
     (m_queue (queue s) \<noteq> [] \<longrightarrow>
       (\<forall>c. pend (qworld s) c = Some (PendCond (m_condition (queue s))) \<longrightarrow> c \<noteq> running (qworld s) \<longrightarrow>
         c \<in> set (wait_list (pc (qworld s)) (m_waitResumeList (cs (qworld s))))))"
    using queue_fifo [OF table_kernel_laws _ _ f] s(1) by auto
  then show ?thesis
    using s by auto
qed

end
