(* ===== verification/Example_Tcp.thy ===== *)
theory Example_Tcp
  imports Tcp_Transfer Co_Queue "HOL-Library.Sublist"
begin

text \<open>
  The example programs over TCP: the echo server (\<open>example/echo/Echo.cpp\<close>), the proxy (\<open>example/tcp_proxy/TcpProxy.cpp\<close>), both of which copy
  what they read, and the server and client that measure the throughput (\<open>example/throughput\<close>), the server with a queue between its reading and its
  writing coroutine. What the calls of \<open>Read\<close> return is a list, and so is, for each call of \<open>WriteAll\<close>, what its single calls of
  \<open>Write\<close> return; a loop that has used up a list waits in its next call.
\<close>

section \<open>Copying\<close>

text \<open>A result is whether the loop has ended, and what its finished calls of \<open>WriteAll\<close> have sent.\<close>

fun Echo_HandleRequest :: "(int + bytes) list \<Rightarrow> int list list \<Rightarrow> bool \<times> bytes" where
  "Echo_HandleRequest [] ws = (False, [])"
| "Echo_HandleRequest (Inl ret # rs) ws = (True, [])"
| "Echo_HandleRequest (Inr c # rs) ws =
     (if c = [] then (True, [])
      else
        (case ws of
           [] \<Rightarrow> (False, [])
         | w # ws' \<Rightarrow>
             (case WriteAll w c (length c) 0 [] of
                None \<Rightarrow> (False, [])
              | Some (ret, out) \<Rightarrow>
                  if ret < 0 then (True, out)
                  else let (ended, rest) = Echo_HandleRequest rs ws' in (ended, out @ rest))))"

fun ReadServerCoroutine :: "(int + bytes) list \<Rightarrow> int list list \<Rightarrow> bool \<times> bytes" where
  "ReadServerCoroutine [] ws = (False, [])"
| "ReadServerCoroutine (Inl readBytes # rs) ws = (True, [])"
| "ReadServerCoroutine (Inr c # rs) ws =
     (if c = [] then (True, [])
      else
        (case ws of
           [] \<Rightarrow> (False, [])
         | w # ws' \<Rightarrow>
             (case WriteAll w c (length c) 0 [] of
                None \<Rightarrow> (False, [])
              | Some (writeBytes, out) \<Rightarrow>
                  if writeBytes \<noteq> int (length c) then (True, out)
                  else let (ended, rest) = ReadServerCoroutine rs ws' in (ended, out @ rest))))"

text \<open>The other direction is the same loop in the coroutine of the connection; it starts once the server was reached.\<close>

fun request_relay :: "(int + bytes) list \<Rightarrow> int list list \<Rightarrow> bool \<times> bytes" where
  "request_relay [] ws = (False, [])"
| "request_relay (Inl readBytes # rs) ws = (True, [])"
| "request_relay (Inr c # rs) ws =
     (if c = [] then (True, [])
      else
        (case ws of
           [] \<Rightarrow> (False, [])
         | w # ws' \<Rightarrow>
             (case WriteAll w c (length c) 0 [] of
                None \<Rightarrow> (False, [])
              | Some (writeBytes, out) \<Rightarrow>
                  if writeBytes \<noteq> int (length c) then (True, out)
                  else let (ended, rest) = request_relay rs ws' in (ended, out @ rest))))"

definition Proxy_HandleRequest ::
  "int \<Rightarrow> (int + bytes) list \<Rightarrow> int list list \<Rightarrow> (int + bytes) list \<Rightarrow> int list list \<Rightarrow> ((bool \<times> bytes) \<times> (bool \<times> bytes)) option" where
  "Proxy_HandleRequest ret client_reads server_writes server_reads client_writes =
     (if ret < 0 then None
      else Some (request_relay client_reads server_writes, ReadServerCoroutine server_reads client_writes))"

text \<open>What a loop receives before it ends, and writes that never claim more than was offered.\<close>

fun received :: "(int + bytes) list \<Rightarrow> bytes" where
  "received (Inr c # rs) = (if c = [] then [] else c @ received rs)"
| "received _ = []"

fun writes_fit :: "(int + bytes) list \<Rightarrow> int list list \<Rightarrow> bool" where
  "writes_fit (Inr c # rs) (w # ws) \<longleftrightarrow> writes_ok w (length c) \<and> writes_fit rs ws"
| "writes_fit _ _ \<longleftrightarrow> True"

text \<open>A call of \<open>WriteAll\<close> that sends everything.\<close>

definition sends :: "bytes \<Rightarrow> int list \<Rightarrow> bool" where
  "sends c w \<longleftrightarrow> WriteAll w c (length c) 0 [] = Some (int (length c), c)"

text \<open>The contract the loops share: they copy chunk by chunk until a read or a write fails.\<close>

locale copy_loop =
  fixes loop :: "(int + bytes) list \<Rightarrow> int list list \<Rightarrow> bool \<times> bytes"
  assumes no_more: "loop [] ws = (False, [])"
    and read_fails: "loop (Inl e # rs) ws = (True, [])"
    and at_end: "loop (Inr [] # rs) ws = (True, [])"
    and writing: "c \<noteq> [] \<Longrightarrow> loop (Inr c # rs) [] = (False, [])"
    and write_waits: "c \<noteq> [] \<Longrightarrow> WriteAll w c (length c) 0 [] = None \<Longrightarrow> loop (Inr c # rs) (w # ws) = (False, [])"
    and write_fails: "c \<noteq> [] \<Longrightarrow> WriteAll w c (length c) 0 [] = Some (ret, out) \<Longrightarrow> ret < 0 \<Longrightarrow> loop (Inr c # rs) (w # ws) = (True, out)"
    and copies: "c \<noteq> [] \<Longrightarrow> sends c w \<Longrightarrow> loop (Inr c # rs) (w # ws) = (let (ended, rest) = loop rs ws in (ended, c @ rest))"
begin

lemma step_prefix:
  assumes "c \<noteq> []" "writes_ok w (length c)" "prefix (snd (loop rs ws)) X"
  shows "prefix (snd (loop (Inr c # rs) (w # ws))) (c @ X)"
proof (cases "WriteAll w c (length c) 0 []")
  case None
  then show ?thesis using assms(1) by (simp add: write_waits)
next
  case (Some x)
  obtain ret out where x: "WriteAll w c (length c) 0 [] = Some (ret, out)"
    using Some by (cases x) auto
  then consider "ret = int (length c)" "out = c" | "ret < 0" "prefix out c"
    using WriteAll_wire [of w "length c" 0 c ret out] assms(2) by (auto simp: take_is_prefix)
  then show ?thesis
  proof cases
    case 1
    then have "loop (Inr c # rs) (w # ws) = (let (ended, rest) = loop rs ws in (ended, c @ rest))"
      using assms(1) x by (intro copies) (simp_all add: sends_def)
    then show ?thesis
      using assms(3) by (simp add: split_def Let_def)
  next
    case 2
    then show ?thesis
      using write_fails [OF assms(1) x] by (simp add: prefix_prefix)
  qed
qed

lemma sent_prefix: "writes_fit rs ws \<Longrightarrow> prefix (snd (loop rs ws)) (received rs)"
proof (induction rs arbitrary: ws)
  case Nil
  show ?case by (simp add: no_more)
next
  case (Cons r rs)
  show ?case
  proof (cases r)
    case (Inl e)
    then show ?thesis by (simp add: read_fails)
  next
    case (Inr c)
    show ?thesis
    proof (cases "c = [] \<or> ws = []")
      case True
      then show ?thesis using Inr by (auto simp: at_end writing)
    next
      case False
      then obtain w ws' where ws: "ws = w # ws'" by (cases ws) auto
      then show ?thesis
        using Cons.prems Cons.IH [of ws'] False Inr step_prefix [of c w rs ws'] by simp
    qed
  qed
qed

lemma all_sent:
  assumes "list_all2 sends chunks ws" "[] \<notin> set chunks"
  shows "loop (map Inr chunks @ rs) (ws @ ws') = (fst (loop rs ws'), concat chunks @ snd (loop rs ws'))"
  using assms
proof (induction chunks arbitrary: ws)
  case (Cons c chunks)
  then obtain w ws1 where ws: "ws = w # ws1" "sends c w" "list_all2 sends chunks ws1"
    by (auto simp: list_all2_Cons1)
  then show ?case
    using Cons.IH [OF ws(3)] Cons.prems(2) copies [of c w] by (auto simp: Let_def)
qed simp

end

interpretation echo: copy_loop Echo_HandleRequest
  by unfold_locales (auto simp: sends_def split: option.splits)

interpretation to_server: copy_loop request_relay
  by unfold_locales (auto simp: sends_def split: option.splits)

interpretation to_client: copy_loop ReadServerCoroutine
  by unfold_locales (auto simp: sends_def split: option.splits)

text \<open>
  C36: The proxy is transparent. Whatever pieces the reads deliver and the writes take, what it has sent to the server is a beginning of what
  it has received from the client, byte for byte and in order, and the other way round; and as long as the writes succeed, everything that was
  received has been sent. If the server cannot be reached, nothing is transferred.
\<close>

theorem proxy_transparent:
  assumes "writes_fit client_reads server_writes" "writes_fit server_reads client_writes"
  shows "case Proxy_HandleRequest ret client_reads server_writes server_reads client_writes of
      None \<Rightarrow> ret < 0
    | Some ((ended1, up), (ended2, down)) \<Rightarrow>
        0 \<le> ret \<and> prefix up (received client_reads) \<and> prefix down (received server_reads) \<and>
        (\<forall>chunks. client_reads = map Inr chunks @ [Inr []] \<and> [] \<notin> set chunks \<and> list_all2 sends chunks server_writes \<longrightarrow>
           ended1 \<and> up = concat chunks) \<and>
        (\<forall>chunks. server_reads = map Inr chunks @ [Inr []] \<and> [] \<notin> set chunks \<and> list_all2 sends chunks client_writes \<longrightarrow>
           ended2 \<and> down = concat chunks)"
proof -
  have "ended \<and> out = concat chunks"
    if "request_relay (map Inr chunks @ [Inr []]) ws = (ended, out) \<or> ReadServerCoroutine (map Inr chunks @ [Inr []]) ws = (ended, out)"
      "[] \<notin> set chunks" "list_all2 sends chunks ws" for chunks ws ended out
    using to_server.all_sent [OF that(3), of "[Inr []]" "[]"] to_client.all_sent [OF that(3), of "[Inr []]" "[]"] that(1,2)
    by (auto simp: to_server.at_end to_client.at_end)
  then show ?thesis
    using to_server.sent_prefix [OF assms(1)] to_client.sent_prefix [OF assms(2)]
    by (auto simp: Proxy_HandleRequest_def split: prod.splits)
qed

theorem proxy_transparent_witness:
  "Proxy_HandleRequest 0 [Inr [1, 2], Inr []] [[1, 1]] [Inr [3]] [[1]] = Some ((True, [1, 2]), (False, [3])) \<and>
   prefix [1, 2] (received [Inr [1, 2], Inr []]) \<and> prefix [3] (received [Inr [3]])"
proof -
  have e: "Proxy_HandleRequest 0 [Inr [1, 2], Inr []] [[1, 1]] [Inr [3]] [[1]] = Some ((True, [1, 2]), (False, [3]))"
    by (simp add: Proxy_HandleRequest_def WriteAll.simps)
  show ?thesis
    using proxy_transparent [of "[Inr [1, 2], Inr []]" "[[1, 1]]" "[Inr [3]]" "[[1]]" 0] unfolding e by simp
qed

section \<open>The throughput server\<close>

text \<open>
  \<open>RequestHandle\<close> and \<open>WriteCoroutine\<close> run as two coroutines of one connection, in any interleaving; a step is what one of them does up to its
  next call that can suspend it. The queue between them is taken by its contract, first in and first out (\<open>Co_Queue\<close>); the coroutine that finds
  it empty makes no step. \<open>t_read\<close> and \<open>t_wire\<close> are what was received and sent so far.
\<close>

record throughput =
  t_reading :: bool
  t_writing :: bool
  t_failed :: bool
  t_queue :: "Buffer list"
  t_read :: bytes
  t_wire :: bytes

definition throughput_start :: throughput where
  "throughput_start = \<lparr>t_reading = True, t_writing = True, t_failed = False, t_queue = [], t_read = [], t_wire = []\<rparr>"

text \<open>A buffer that \<open>Read\<close> has filled with the bytes \<open>c\<close>, in front of what the allocator left there.\<close>

definition filled :: "int \<Rightarrow> bytes \<Rightarrow> bytes \<Rightarrow> Buffer" where
  "filled bufferSize fresh c = SetSize (int (length c)) ((Buffer_new bufferSize fresh)\<lparr>m_data := c @ drop (length c) fresh\<rparr>)"

definition payload :: "Buffer \<Rightarrow> bytes" where
  "payload b = take (nat (m_size b)) (m_data b)"

inductive throughput_step :: "int \<Rightarrow> throughput \<Rightarrow> throughput \<Rightarrow> bool" for bufferSize where
  receive: "t_reading s \<Longrightarrow> c \<noteq> [] \<Longrightarrow> length c \<le> length fresh \<Longrightarrow> int (length fresh) = bufferSize \<Longrightarrow>
    throughput_step bufferSize s (s\<lparr>t_queue := t_queue s @ [filled bufferSize fresh c], t_read := t_read s @ c\<rparr>)"
| receive_failed: "t_reading s \<Longrightarrow>
    throughput_step bufferSize s (s\<lparr>t_reading := False, t_queue := t_queue s @ [Stop (Buffer_new 4 fresh)]\<rparr>)"
| send: "t_writing s \<Longrightarrow> t_queue s = b # q \<Longrightarrow> \<not> IsStop b \<Longrightarrow> WriteAll ws (Data b) (nat (Size b)) 0 [] = Some (Size b, out) \<Longrightarrow>
    writes_ok ws (nat (Size b)) \<Longrightarrow>
    throughput_step bufferSize s (s\<lparr>t_queue := q, t_wire := t_wire s @ out\<rparr>)"
| send_failed: "t_writing s \<Longrightarrow> t_queue s = b # q \<Longrightarrow> \<not> IsStop b \<Longrightarrow> WriteAll ws (Data b) (nat (Size b)) 0 [] = Some (ret, out) \<Longrightarrow>
    writes_ok ws (nat (Size b)) \<Longrightarrow> ret \<noteq> Size b \<Longrightarrow>
    throughput_step bufferSize s (s\<lparr>t_writing := False, t_failed := True, t_queue := q, t_wire := t_wire s @ out\<rparr>)"
| ends: "t_writing s \<Longrightarrow> t_queue s = b # q \<Longrightarrow> IsStop b \<Longrightarrow> throughput_step bufferSize s (s\<lparr>t_writing := False, t_queue := q\<rparr>)"

inductive throughput_reachable :: "int \<Rightarrow> throughput \<Rightarrow> bool" for bufferSize where
  start: "throughput_reachable bufferSize throughput_start"
| step: "throughput_reachable bufferSize s \<Longrightarrow> throughput_step bufferSize s s' \<Longrightarrow> throughput_reachable bufferSize s'"

inductive_cases throughput_stepE: "throughput_step bufferSize s s'"

text \<open>
  The buffers in the queue hold what was received and not yet sent; behind them is the one that ends the
  writing coroutine, once the reading one has ended.
\<close>

definition throughput_inv :: "throughput \<Rightarrow> bool" where
  "throughput_inv s \<longleftrightarrow>
     (if t_failed s then \<not> t_writing s \<and> prefix (t_wire s) (t_read s)
      else \<exists>bs. (\<forall>b \<in> set bs. \<not> m_stop b \<and> 0 < m_size b \<and> nat (m_size b) \<le> length (m_data b)) \<and>
        t_read s = t_wire s @ concat (map payload bs) \<and>
        (if t_reading s then t_writing s \<and> t_queue s = bs
         else if t_writing s then \<exists>b. m_stop b \<and> t_queue s = bs @ [b]
         else bs = [] \<and> t_queue s = []))"

lemma filled_ok:
  assumes "c \<noteq> []" "length c \<le> length fresh"
  shows "\<not> m_stop (filled n fresh c)" "0 < m_size (filled n fresh c)" "nat (m_size (filled n fresh c)) \<le> length (m_data (filled n fresh c))"
    "payload (filled n fresh c) = c"
  using assms by (simp_all add: filled_def SetSize_def Buffer_new_def payload_def)

lemma send_cases:
  assumes "WriteAll ws (m_data b) (nat (m_size b)) 0 [] = Some (ret, out)" "writes_ok ws (nat (m_size b))" "0 < m_size b"
  shows "ret = m_size b \<and> out = payload b \<or> ret < 0 \<and> prefix out (payload b)"
proof -
  have "prefix (take k xs) (take n xs)" if "k < n" for k n and xs :: bytes
    using that take_is_prefix [of k "take n xs"] by simp
  then show ?thesis
    using WriteAll_wire [of ws "nat (m_size b)" 0 "m_data b" ret out] assms by (auto simp: payload_def)
qed

abbreviation full :: "Buffer \<Rightarrow> bool" where
  "full b \<equiv> \<not> m_stop b \<and> 0 < m_size b \<and> nat (m_size b) \<le> length (m_data b)"

lemma writing_inv:
  assumes "throughput_inv s" "t_writing s" "t_queue s = b # q"
  shows "\<not> t_failed s"
    and "m_stop b \<Longrightarrow> q = [] \<and> \<not> t_reading s \<and> t_read s = t_wire s"
    and "\<not> m_stop b \<Longrightarrow> full b \<and> (\<exists>bs. (\<forall>b \<in> set bs. full b) \<and> t_read s = t_wire s @ payload b @ concat (map payload bs) \<and>
      (if t_reading s then q = bs else \<exists>x. m_stop x \<and> q = bs @ [x]))"
proof -
  show f: "\<not> t_failed s"
    using assms(1,2) by (auto simp: throughput_inv_def)
  have "\<exists>bs. (\<forall>b \<in> set bs. full b) \<and> t_read s = t_wire s @ concat (map payload bs) \<and>
      (if t_reading s then b # q = bs else \<exists>x. m_stop x \<and> b # q = bs @ [x])"
    using assms f by (cases "t_reading s") (simp_all add: throughput_inv_def)
  then obtain bs where bs: "\<forall>b \<in> set bs. full b" "t_read s = t_wire s @ concat (map payload bs)"
    "if t_reading s then b # q = bs else \<exists>x. m_stop x \<and> b # q = bs @ [x]"
    by blast
  show "q = [] \<and> \<not> t_reading s \<and> t_read s = t_wire s" if "m_stop b"
    using bs that by (cases bs) (auto split: if_splits)
  show "full b \<and> (\<exists>bs. (\<forall>b \<in> set bs. full b) \<and> t_read s = t_wire s @ payload b @ concat (map payload bs) \<and>
      (if t_reading s then q = bs else \<exists>x. m_stop x \<and> q = bs @ [x]))" if "\<not> m_stop b"
    using bs that by (cases bs) (auto split: if_splits)
qed

lemma throughput_step_inv:
  assumes "throughput_step bufferSize s s'" "throughput_inv s"
  shows "throughput_inv s'"
  using assms
proof (induction rule: throughput_step.induct)
  case (receive s c fresh)
  show ?case
  proof (cases "t_failed s")
    case True
    then show ?thesis using receive by (auto simp: throughput_inv_def prefix_prefix)
  next
    case False
    then obtain bs where "\<forall>b \<in> set bs. full b" "t_read s = t_wire s @ concat (map payload bs)" "t_writing s" "t_queue s = bs"
      using receive by (auto simp: throughput_inv_def)
    then show ?thesis
      using receive False filled_ok [OF receive(2,3), of bufferSize]
      by (auto simp: throughput_inv_def intro!: exI [of _ "bs @ [filled bufferSize fresh c]"])
  qed
next
  case (receive_failed s fresh)
  then show ?case
    by (auto simp: throughput_inv_def Stop_def split: if_splits)
next
  case (send s b q ws out)
  note send = send [unfolded IsStop_def Size_def Data_def]
  note w = writing_inv [OF send(6,1,2)]
  have out: "out = payload b"
    using send_cases [OF send(4,5)] w(3) [OF send(3)] by auto
  show ?case
    using w(1,3) send(1,3) out by (auto simp: throughput_inv_def)
next
  case (send_failed s b q ws ret out)
  note send_failed = send_failed [unfolded IsStop_def Size_def Data_def]
  note w = writing_inv [OF send_failed(7,1,2)]
  have out: "prefix out (payload b)"
    using send_cases [OF send_failed(4,5)] w(3) [OF send_failed(3)] send_failed(6) by auto
  show ?case
    using w(1,3) send_failed(1,3) out by (auto simp: throughput_inv_def prefix_prefix)
next
  case (ends s b q)
  then show ?case
    using writing_inv [OF ends(4,1,2)] by (auto simp: throughput_inv_def)
qed

text \<open>
  C35: The throughput server echoes: however its two coroutines interleave, what has been sent is a beginning of what was received, byte for byte and in order;
  and once both have ended without a failed write, everything that was received has been sent, and the queue is empty.
\<close>

theorem throughput_echoes:
  assumes "throughput_reachable bufferSize s"
  shows "prefix (t_wire s) (t_read s) \<and>
    (\<not> t_reading s \<and> \<not> t_writing s \<and> \<not> t_failed s \<longrightarrow> t_wire s = t_read s \<and> t_queue s = [])"
proof -
  have "throughput_inv s"
    using assms
  proof induction
    case start
    show ?case by (simp add: throughput_inv_def throughput_start_def)
  qed (rule throughput_step_inv)
  then show ?thesis
    by (auto simp: throughput_inv_def split: if_splits)
qed

theorem throughput_echoes_witness:
  "\<exists>s. throughput_reachable 2 s \<and> t_read s = [5] \<and> t_wire s = [5] \<and> \<not> t_writing s"
proof -
  let ?b = "filled 2 [0, 0] [5]" and ?e = "Stop (Buffer_new 4 [0, 0, 0, 0])"
  let ?s1 = "throughput_start\<lparr>t_queue := [?b], t_read := [5]\<rparr>"
  let ?s2 = "?s1\<lparr>t_reading := False, t_queue := [?b, ?e]\<rparr>"
  let ?s3 = "?s2\<lparr>t_queue := [?e], t_wire := [5]\<rparr>"
  let ?s4 = "?s3\<lparr>t_writing := False, t_queue := []\<rparr>"
  have 1: "throughput_step 2 throughput_start ?s1"
    using throughput_step.receive [of throughput_start "[5]" "[0, 0]" 2] by (simp add: throughput_start_def)
  have 2: "throughput_step 2 ?s1 ?s2"
    using throughput_step.receive_failed [of ?s1 2 "[0, 0, 0, 0]"] by (simp add: throughput_start_def)
  have 3: "throughput_step 2 ?s2 ?s3"
    using throughput_step.send [of ?s2 ?b "[?e]" "[1]" "[5]" 2]
    by (simp add: throughput_start_def filled_def SetSize_def Buffer_new_def WriteAll.simps)
  have 4: "throughput_step 2 ?s3 ?s4"
    using throughput_step.ends [of ?s3 ?e "[]" 2] by (simp add: throughput_start_def Stop_def)
  have r: "throughput_reachable 2 ?s4"
    using 1 2 3 4 throughput_reachable.intros by meson
  then show ?thesis
    using throughput_echoes [OF r] by (intro exI [of _ ?s4]) (simp add: throughput_start_def)
qed

section \<open>The throughput client\<close>

text \<open>\<open>htonl\<close> and a store into the buffer leave the bytes of a number with the highest first; \<open>ntohl\<close> reads them back.\<close>

definition store_htonl :: "u32 \<Rightarrow> bytes" where
  "store_htonl n = [ucast (drop_bit 24 n), ucast (drop_bit 16 n), ucast (drop_bit 8 n), ucast n]"

fun load_ntohl :: "bytes \<Rightarrow> u32" where
  "load_ntohl (a # b # c # d # _) = push_bit 24 (ucast a) OR push_bit 16 (ucast b) OR push_bit 8 (ucast c) OR ucast d"
| "load_ntohl _ = 0"

lemma load_store: "load_ntohl (store_htonl n @ xs) = n"
proof (rule bit_word_eqI)
  fix i assume i: "i < LENGTH(32)"
  have l: "bit (load_ntohl (store_htonl n @ xs)) i \<longleftrightarrow>
      24 \<le> i \<and> bit n i \<or> 16 \<le> i \<and> i < 24 \<and> bit n i \<or> 8 \<le> i \<and> i < 16 \<and> bit n i \<or> i < 8 \<and> bit n i"
    using i by (simp add: store_htonl_def bit_simps less_diff_conv2 conj_commute cong: conj_cong)
  show "bit (load_ntohl (store_htonl n @ xs)) i = bit n i"
    unfolding l by linarith
qed

text \<open>The size of the data is computed in \<open>size_t\<close> and converted to \<open>ssize_t\<close>.\<close>

definition send_dataSize :: "int \<Rightarrow> int" where
  "send_dataSize bufferSize = sint (word_of_int bufferSize - 4 :: 64 word)"

text \<open>
  The rounds: what \<open>WriteAll\<close> returned, what \<open>ReadFull\<close> returned, and the buffer then. The result is whether the loop has ended, and the
  number of bytes counted.
\<close>

fun send_loop :: "(int \<times> int \<times> bytes) list \<Rightarrow> int \<Rightarrow> int \<Rightarrow> int \<Rightarrow> bool \<times> int" where
  "send_loop [] bufferSize dataSize n = (False, n)"
| "send_loop ((w, r, buffer) # rounds) bufferSize dataSize n =
     (if w \<noteq> bufferSize then (True, n)
      else if r \<noteq> bufferSize then (True, n)
      else send_loop rounds bufferSize dataSize (if int (unat (load_ntohl buffer)) \<noteq> dataSize then n else n + bufferSize))"

definition send_buffer :: "int \<Rightarrow> bytes" where
  "send_buffer bufferSize = store_htonl (word_of_int (send_dataSize bufferSize)) @ replicate (nat bufferSize - 4) 0"

definition SendFunc :: "int \<Rightarrow> int \<Rightarrow> (int \<times> int \<times> bytes) list \<Rightarrow> bool \<times> int" where
  "SendFunc bufferSize connect_result rounds =
     (if send_dataSize bufferSize < 0 then (True, 0)
      else if connect_result \<noteq> 0 then (True, 0)
      else send_loop rounds bufferSize (send_dataSize bufferSize) 0)"

lemma send_dataSize_eq:
  assumes "0 \<le> n" "n < 2 ^ 31"
  shows "send_dataSize n = n - 4"
proof -
  have w: "(word_of_int n - 4 :: 64 word) = word_of_int (n - 4)"
    by simp
  have s: "sint (word_of_int k :: 64 word) = k" if "- (2 ^ 63) \<le> k" "k < 2 ^ 63" for k
    using that by (simp add: signed_of_int signed_take_bit_int_eq_self)
  show ?thesis
    unfolding send_dataSize_def w by (rule s) (use assms in simp_all)
qed

text \<open>Against a peer that echoes, every round counts.\<close>

lemma SendFunc_counts:
  assumes "4 \<le> n" "n < 2 ^ 31"
  shows "SendFunc n 0 (replicate k (n, n, send_buffer n)) = (False, int k * n)"
proof -
  have d: "send_dataSize n = n - 4"
    using assms by (intro send_dataSize_eq) simp_all
  have "int (unat (word_of_int k :: u32)) = k" if "0 \<le> k" "k < 2 ^ 32" for k
    using that by (simp add: unsigned_of_int take_bit_int_eq_self)
  from this [of "n - 4"] have l: "int (unat (load_ntohl (send_buffer n))) = n - 4"
    using assms by (simp add: send_buffer_def load_store d)
  have "send_loop (replicate k (n, n, send_buffer n)) n (n - 4) m = (False, m + int k * n)" for m
    using l by (induction k arbitrary: m) (simp_all add: algebra_simps)
  then show ?thesis
    using assms d by (simp add: SendFunc_def)
qed

text \<open>
  The counter is shared by all coroutines that send and by \<open>TimerFunc\<close>, which prints it each second and starts again with 0. As only the running
  coroutine can change it, and none waits between reading and writing it, no round is lost or printed twice.
\<close>

record send_count =
  g_numSendAndAckPer1Sec :: int
  c_printed :: "int list"

datatype count_event = Acknowledged int | TimerExpired

definition send_ack :: "int \<Rightarrow> send_count \<Rightarrow> send_count" where
  "send_ack bufferSize g = g\<lparr>g_numSendAndAckPer1Sec := g_numSendAndAckPer1Sec g + bufferSize\<rparr>"

definition TimerFunc :: "send_count \<Rightarrow> send_count" where
  "TimerFunc g = g\<lparr>c_printed := c_printed g @ [g_numSendAndAckPer1Sec g], g_numSendAndAckPer1Sec := 0\<rparr>"

fun count_step :: "count_event \<Rightarrow> send_count \<Rightarrow> send_count" where
  "count_step (Acknowledged bufferSize) g = send_ack bufferSize g"
| "count_step TimerExpired g = TimerFunc g"

fun acknowledged :: "count_event list \<Rightarrow> int" where
  "acknowledged [] = 0"
| "acknowledged (Acknowledged n # es) = n + acknowledged es"
| "acknowledged (TimerExpired # es) = acknowledged es"

lemma counts_complete:
  "sum_list (c_printed (fold count_step es g)) + g_numSendAndAckPer1Sec (fold count_step es g) =
   sum_list (c_printed g) + g_numSendAndAckPer1Sec g + acknowledged es"
  by (induction es arbitrary: g rule: acknowledged.induct) (simp_all add: send_ack_def TimerFunc_def)

section \<open>Signals\<close>

text \<open>
  \<open>example/sigpipe_test/SigPipeTest.cpp\<close>: the client writes to a peer that may have closed the connection. As \<open>write(2)\<close> documents, the
  write fails with \<open>EPIPE\<close> then, and the process gets \<open>SIGPIPE\<close>, which ends it by default: \<open>None\<close>.
\<close>

definition sigpipe_write :: "(nat \<Rightarrow> disposition) \<Rightarrow> bool \<Rightarrow> nat \<Rightarrow> int option" where
  "sigpipe_write handler closed len =
     (if closed then (if handler SIGPIPE = SIG_IGN then Some (- 32) else None) else Some (int len))"

text \<open>What the rounds of the loop return from \<open>Write\<close>; the buffer has ten bytes, its final zero among them.\<close>

fun SigPipeTest_Client :: "(nat \<Rightarrow> disposition) \<Rightarrow> bool list \<Rightarrow> int list option" where
  "SigPipeTest_Client handler [] = Some []"
| "SigPipeTest_Client handler (closed # rounds) =
     (case sigpipe_write handler closed 10 of
        None \<Rightarrow> None
      | Some ret \<Rightarrow> map_option ((#) ret) (SigPipeTest_Client handler rounds))"

text \<open>With the handler that the library installs the client goes on, whenever the peer closes; without it the first such write ends the process.\<close>

lemma client_survives:
  "SigPipeTest_Client (IgnoreSigPipe handler) rounds = Some (map (\<lambda>closed. if closed then - 32 else 10) rounds)"
  by (induction rounds) (simp_all add: sigpipe_write_def IgnoreSigPipe_def)

lemma client_killed: "handler SIGPIPE = SIG_DFL \<Longrightarrow> SigPipeTest_Client handler rounds = None \<longleftrightarrow> True \<in> set rounds"
  by (induction rounds) (auto simp: sigpipe_write_def split: option.splits)

end
