(* ===== verification/Example_Coroutine.thy ===== *)
theory Example_Coroutine
  imports Example_Tcp
begin

text \<open>
  Programs that show how coroutines share the stack: the test \<open>3rd/coroutine/coroutine_test.c\<close>, whose coroutines keep their variables in it,
  and \<open>example/dont_use_other_routine_local_variable/Echo.cpp\<close>, which keeps a pointer into it. Where the compiler puts the
  variables is a parameter.
\<close>

section \<open>Variables in the shared stack\<close>

definition load_at :: "nat \<Rightarrow> nat \<Rightarrow> bytes \<Rightarrow> bytes" where
  "load_at a n m = take n (drop a m)"

definition store_at :: "nat \<Rightarrow> bytes \<Rightarrow> bytes \<Rightarrow> bytes" where
  "store_at a v m = take a m @ v @ drop (a + length v) m"

text \<open>An \<open>int\<close> has its lowest byte first.\<close>

definition load_int :: "nat \<Rightarrow> bytes \<Rightarrow> u32" where
  "load_int a m = load_ntohl (rev (load_at a 4 m))"

definition store_int :: "nat \<Rightarrow> u32 \<Rightarrow> bytes \<Rightarrow> bytes" where
  "store_int a v m = store_at a (rev (store_htonl v)) m"

lemma store_at_length [simp]: "a + length v \<le> length m \<Longrightarrow> length (store_at a v m) = length m"
  by (simp add: store_at_def)

lemma load_store_at: "a + length v \<le> length m \<Longrightarrow> load_at a (length v) (store_at a v m) = v"
  by (simp add: load_at_def store_at_def)

lemma load_store_other:
  assumes "b + n \<le> a \<or> a + length v \<le> b" "a + length v \<le> length m"
  shows "load_at b n (store_at a v m) = load_at b n m"
  using assms(1)
proof
  assume "b + n \<le> a"
  then show ?thesis
    using assms(2) by (auto simp: load_at_def store_at_def drop_take min_def)
next
  assume "a + length v \<le> b"
  then show ?thesis
    using assms(2) by (simp add: load_at_def store_at_def)
qed

lemma load_at_drop: "sp \<le> a \<Longrightarrow> load_at (a - sp) n (drop sp m) = load_at a n m"
  by (simp add: load_at_def)

lemma load_at_take: "a + n \<le> k \<Longrightarrow> load_at a n (take k m) = load_at a n m"
  by (simp add: load_at_def drop_take min_def)

lemma htonl_length [simp]: "length (store_htonl v) = 4"
  by (simp add: store_htonl_def)

lemma store_int_length [simp]: "a + 4 \<le> length m \<Longrightarrow> length (store_int a v m) = length m"
  by (simp add: store_int_def)

lemma load_store_int: "a + 4 \<le> length m \<Longrightarrow> load_int a (store_int a v m) = v"
  using load_store_at [of a "rev (store_htonl v)" m] load_store [of v "[]"] by (simp add: load_int_def store_int_def)

lemma load_store_int_other: "b + 4 \<le> a \<or> a + 4 \<le> b \<Longrightarrow> a + 4 \<le> length m \<Longrightarrow> load_int b (store_int a v m) = load_int b m"
  by (simp add: load_int_def store_int_def load_store_other)

text \<open>What a resumed coroutine finds, and what it leaves when it yields.\<close>

lemma resumed:
  assumes "sched_inv S" "s_running S = -1" "slot S cid = Some C"
  obtains T where "coroutine_resume S cid = Inr T" "sched_inv T" "s_running T = cid" "\<forall>j. j \<noteq> cid \<longrightarrow> slot T j = slot S j"
    "slot T cid = Some (C\<lparr>c_status := COROUTINE_RUNNING\<rparr>)" "cid \<noteq> -1" "length (s_stack T) = STACK_SIZE"
    "c_status C = COROUTINE_READY \<or> c_status C = COROUTINE_SUSPEND \<and> drop (STACK_SIZE - c_size C) (s_stack T) = take (c_size C) (c_stack C)"
proof -
  note rg = slot_range [OF assms(3)]
  obtain T where T: "coroutine_resume S cid = Inr T"
    using resume_defined [OF assms(1,2)] rg by blast
  have inv: "sched_inv T" by (rule sched_inv_resume [OF assms(1) T])
  have l: "length (s_stack S) = STACK_SIZE" "length (s_co S) = s_cap S"
    using sched_invD(2,4) [OF assms(1)] by simp_all
  have "s_running T = cid \<and> slot T cid = Some (C\<lparr>c_status := COROUTINE_RUNNING\<rparr>) \<and>
      (c_status C = COROUTINE_READY \<or> c_status C = COROUTINE_SUSPEND \<and> drop (STACK_SIZE - c_size C) (s_stack T) = take (c_size C) (c_stack C))"
    using T assms rg l by (auto simp: coroutine_resume_def slot_set_slot split: co_status.splits)
  then show thesis
    using that [OF T inv] resume_frame [OF assms(1) T] sched_invD(4) [OF inv] rg by auto
qed

section \<open>The test of the scheduler\<close>

text \<open>
  \<open>foo\<close> keeps \<open>start\<close> and \<open>i\<close> at two offsets of the stack. Its code is the part up to the loop, the part behind the call of
  \<open>coroutine_yield\<close>, and the head of the loop, in which both go on. A line is the id and the number that are printed.
\<close>

record foo_frame =
  v_start :: nat
  v_i :: nat
  v_sp :: stack_at

type_synonym foo_lines = "(int \<times> u32) list"

definition foo_loop :: "foo_frame \<Rightarrow> u32 schedule \<Rightarrow> (foo_lines \<times> u32 schedule) res" where
  "foo_loop fr S =
     (let i = load_int (v_i fr) (s_stack S) in
      if sint i < 5 then
        bind_res (coroutine_yield S (v_sp fr)) (\<lambda>S'. Inr ([(coroutine_running S, load_int (v_start fr) (s_stack S) + i)], S'))
      else Inr ([], mainfunc_return S))"

definition foo_start :: "foo_frame \<Rightarrow> u32 \<Rightarrow> u32 schedule \<Rightarrow> (foo_lines \<times> u32 schedule) res" where
  "foo_start fr n S = foo_loop fr (S\<lparr>s_stack := store_int (v_i fr) 0 (store_int (v_start fr) n (s_stack S))\<rparr>)"

definition foo_continue :: "foo_frame \<Rightarrow> u32 schedule \<Rightarrow> (foo_lines \<times> u32 schedule) res" where
  "foo_continue fr S = foo_loop fr (S\<lparr>s_stack := store_int (v_i fr) (load_int (v_i fr) (s_stack S) + 1) (s_stack S)\<rparr>)"

text \<open>A resumption, up to the point where the main context goes on.\<close>

definition foo_resume :: "foo_frame \<Rightarrow> int \<Rightarrow> u32 schedule \<Rightarrow> (foo_lines \<times> u32 schedule) res" where
  "foo_resume fr cid S =
     bind_res (coroutine_resume S cid)
       (\<lambda>S'. case slot S cid of
          None \<Rightarrow> Inr ([], S')
        | Some C \<Rightarrow> if c_status C = COROUTINE_READY then foo_start fr (c_func C) S' else foo_continue fr S')"

definition both_alive :: "int \<Rightarrow> int \<Rightarrow> u32 schedule \<Rightarrow> bool res" where
  "both_alive co1 co2 S =
     bind_res (coroutine_status S co1)
       (\<lambda>s1. if s1 = COROUTINE_DEAD then Inr False else bind_res (coroutine_status S co2) (\<lambda>s2. Inr (s2 \<noteq> COROUTINE_DEAD)))"

definition test_round :: "foo_frame \<Rightarrow> int \<Rightarrow> int \<Rightarrow> u32 schedule \<Rightarrow> (foo_lines \<times> u32 schedule) res" where
  "test_round fr co1 co2 S =
     bind_res (foo_resume fr co1 S) (\<lambda>(out1, S1). bind_res (foo_resume fr co2 S1) (\<lambda>(out2, S2). Inr (out1 @ out2, S2)))"

partial_function (option) test_loop :: "foo_frame \<Rightarrow> int \<Rightarrow> int \<Rightarrow> u32 schedule \<Rightarrow> (foo_lines \<times> u32 schedule) res option" where
  "test_loop fr co1 co2 S =
     (case both_alive co1 co2 S of
        Inl e \<Rightarrow> Some (Inl e)
      | Inr b \<Rightarrow>
          if b then
            (case test_round fr co1 co2 S of
               Inl e \<Rightarrow> Some (Inl e)
             | Inr r \<Rightarrow>
                 Option.bind (test_loop fr co1 co2 (snd r))
                   (\<lambda>q. Some (bind_res q (\<lambda>(rest, S'). Inr (fst r @ rest, S')))))
          else Some (Inr ([], S)))"

text \<open>\<open>main\<close> prints a line before and one behind the loop; the result has the lines between them, and what \<open>coroutine_close\<close> still has to delete.\<close>

definition coroutine_test :: "foo_frame \<Rightarrow> bytes \<Rightarrow> (foo_lines \<times> u32 coroutine list) res option" where
  "coroutine_test fr mem =
     (case bind_res (coroutine_new (coroutine_open mem) 0)
             (\<lambda>(co1, S1). bind_res (coroutine_new S1 100) (\<lambda>(co2, S2). Inr (co1, co2, S2))) of
        Inl e \<Rightarrow> Some (Inl e)
      | Inr (co1, co2, S2) \<Rightarrow>
          Option.bind (test_loop fr (int co1) (int co2) S2)
            (\<lambda>q. Some (bind_res q (\<lambda>(out, S3). Inr (out, coroutine_close S3)))))"

definition frame_ok :: "foo_frame \<Rightarrow> bool" where
  "frame_ok fr \<longleftrightarrow> stack_fits (v_sp fr) \<and> nat (snd (v_sp fr)) \<le> v_start fr \<and> nat (snd (v_sp fr)) \<le> v_i fr \<and> v_start fr + 4 \<le> STACK_SIZE \<and> v_i fr + 4 \<le> STACK_SIZE \<and>
     (v_start fr + 4 \<le> v_i fr \<or> v_i fr + 4 \<le> v_start fr)"

text \<open>A coroutine that has printed \<open>k\<close> lines.\<close>

definition printed :: "foo_frame \<Rightarrow> u32 \<Rightarrow> nat \<Rightarrow> u32 coroutine \<Rightarrow> bool" where
  "printed fr n k C \<longleftrightarrow>
     (if k = 0 then C = co_new n
      else c_status C = COROUTINE_SUSPEND \<and> c_size C = STACK_SIZE - nat (snd (v_sp fr)) \<and>
        load_int (v_start fr - nat (snd (v_sp fr))) (take (c_size C) (c_stack C)) = n \<and>
        load_int (v_i fr - nat (snd (v_sp fr))) (take (c_size C) (c_stack C)) = of_nat (k - 1))"

lemma foo_loop_prints:
  assumes fr: "frame_ok fr" and S: "sched_inv S" "s_running S = cid" "cid \<noteq> -1"
    and v: "load_int (v_start fr) (s_stack S) = n" "load_int (v_i fr) (s_stack S) = of_nat k" "k < 5"
  shows "\<exists>S' C. foo_loop fr S = Inr ([(cid, n + of_nat k)], S') \<and> sched_inv S' \<and> s_running S' = -1 \<and>
    slot S' cid = Some C \<and> printed fr n (Suc k) C \<and> (\<forall>j. j \<noteq> cid \<longrightarrow> slot S' j = slot S j)"
proof -
  have "k \<in> {0, 1, 2, 3, 4}" using v(3) by auto
  then have i: "sint (of_nat k :: u32) < 5" by auto
  obtain S' where y: "coroutine_yield S (v_sp fr) = Inr S'"
    using yield_shape [OF S(1), of "v_sp fr"] S(2,3) fr by (metis frame_ok_def)
  obtain D where D: "s_running S' = -1" "\<forall>j. slot S' j = (if j = s_running S then Some D else slot S j)"
    "c_status D = COROUTINE_SUSPEND" "c_size D = STACK_SIZE - nat (snd (v_sp fr))" "take (c_size D) (c_stack D) = drop (nat (snd (v_sp fr))) (s_stack S)"
    by (rule yield_slots [OF S(1) y])
  have "printed fr n (Suc k) D"
    using D(3-5) v fr by (simp add: printed_def load_int_def load_at_drop frame_ok_def)
  then show ?thesis
    using y v i D(1,2) S sched_inv_yield [OF S(1) y] by (auto simp: foo_loop_def coroutine_running_def Let_def)
qed

lemma foo_loop_returns:
  assumes S: "sched_inv S" "s_running S = cid" "cid \<noteq> -1" and v: "load_int (v_i fr) (s_stack S) = 5"
  shows "\<exists>S'. foo_loop fr S = Inr ([], S') \<and> sched_inv S' \<and> s_running S' = -1 \<and> slot S' cid = None \<and> (\<forall>j. j \<noteq> cid \<longrightarrow> slot S' j = slot S j)"
proof -
  obtain C where C: "slot S (s_running S) = Some C"
    using running_slot [OF S(1)] S(2,3) by metis
  then show ?thesis
    using sched_inv_clear [OF S(1) C] slot_range [OF C] sched_invD(2) [OF S(1)] S(2) v
    by (auto simp: foo_loop_def mainfunc_return_def slot_set_slot)
qed

text \<open>A resumption leads to the head of the loop, with the number of lines printed so far in \<open>i\<close>.\<close>

lemma foo_resume_loop:
  assumes fr: "frame_ok fr" and S: "sched_inv S" "s_running S = -1" "slot S cid = Some C" "printed fr n k C"
  obtains T where "foo_resume fr cid S = foo_loop fr T" "sched_inv T" "s_running T = cid" "cid \<noteq> -1" "\<forall>j. j \<noteq> cid \<longrightarrow> slot T j = slot S j"
    "load_int (v_start fr) (s_stack T) = n" "load_int (v_i fr) (s_stack T) = of_nat k"
proof -
  obtain T where T: "coroutine_resume S cid = Inr T" "sched_inv T" "s_running T = cid" "\<forall>j. j \<noteq> cid \<longrightarrow> slot T j = slot S j"
    "slot T cid = Some (C\<lparr>c_status := COROUTINE_RUNNING\<rparr>)" "cid \<noteq> -1" "length (s_stack T) = STACK_SIZE"
    "c_status C = COROUTINE_READY \<or> c_status C = COROUTINE_SUSPEND \<and> drop (STACK_SIZE - c_size C) (s_stack T) = take (c_size C) (c_stack C)"
    by (rule resumed [OF S(1-3)])
  have inv: "sched_inv (T\<lparr>s_stack := m\<rparr>)" if "length m = STACK_SIZE" for m
    using T(2) that by (auto simp: sched_inv_def)
  show thesis
  proof (cases "k = 0")
    case True
    then have C: "C = co_new n" using S(4) by (simp add: printed_def)
    let ?T = "T\<lparr>s_stack := store_int (v_i fr) 0 (store_int (v_start fr) n (s_stack T))\<rparr>"
    have "foo_resume fr cid S = foo_loop fr ?T"
      using T(1) S(3) C by (simp add: foo_resume_def foo_start_def co_new_def)
    then show thesis
      using that [of ?T] inv T fr True by (simp add: frame_ok_def load_store_int load_store_int_other)
  next
    case False
    then have C: "c_status C = COROUTINE_SUSPEND" "c_size C = STACK_SIZE - nat (snd (v_sp fr))" "nat (snd (v_sp fr)) \<le> STACK_SIZE"
      using S(4) fr by (auto simp: printed_def frame_ok_def)
    then have d: "drop (nat (snd (v_sp fr))) (s_stack T) = take (c_size C) (c_stack C)"
      using T(8) by simp
    have v: "load_int (v_start fr) (s_stack T) = n" "load_int (v_i fr) (s_stack T) = of_nat (k - 1)"
      using S(4) False fr unfolding printed_def d [symmetric] by (simp_all add: load_int_def load_at_drop frame_ok_def)
    let ?T = "T\<lparr>s_stack := store_int (v_i fr) (load_int (v_i fr) (s_stack T) + 1) (s_stack T)\<rparr>"
    have "foo_resume fr cid S = foo_loop fr ?T"
      using T(1) S(3) C by (simp add: foo_resume_def foo_continue_def)
    moreover have "of_nat (k - 1) + 1 = (of_nat k :: u32)"
      using False by (cases k) simp_all
    ultimately show thesis
      using that [of ?T] inv T fr v by (auto simp: frame_ok_def load_store_int load_store_int_other)
  qed
qed

text \<open>The main context between two rounds.\<close>

definition between_rounds :: "foo_frame \<Rightarrow> nat \<Rightarrow> u32 schedule \<Rightarrow> bool" where
  "between_rounds fr k S \<longleftrightarrow> sched_inv S \<and> s_running S = -1 \<and> (\<forall>j. j \<noteq> 0 \<and> j \<noteq> 1 \<longrightarrow> slot S j = None) \<and>
     (\<exists>C D. slot S 0 = Some C \<and> slot S 1 = Some D \<and> printed fr 0 k C \<and> printed fr 100 k D)"

lemma test_round_prints:
  assumes "frame_ok fr" "between_rounds fr k S" "k < 5"
  shows "\<exists>S'. test_round fr 0 1 S = Inr ([(0, of_nat k), (1, 100 + of_nat k)], S') \<and> between_rounds fr (Suc k) S'"
proof -
  obtain C D where S: "sched_inv S" "s_running S = -1" "slot S 0 = Some C" "slot S 1 = Some D" "printed fr 0 k C" "printed fr 100 k D"
    "\<forall>j. j \<noteq> 0 \<and> j \<noteq> 1 \<longrightarrow> slot S j = None"
    using assms(2) by (auto simp: between_rounds_def)
  obtain T where T: "foo_resume fr 0 S = foo_loop fr T" "sched_inv T" "s_running T = 0" "(0::int) \<noteq> -1" "\<forall>j. j \<noteq> 0 \<longrightarrow> slot T j = slot S j"
    "load_int (v_start fr) (s_stack T) = 0" "load_int (v_i fr) (s_stack T) = of_nat k"
    by (rule foo_resume_loop [OF assms(1) S(1-3,5)])
  obtain S1 C1 where S1: "foo_loop fr T = Inr ([(0, 0 + of_nat k)], S1)" "sched_inv S1" "s_running S1 = -1" "slot S1 0 = Some C1"
    "printed fr 0 (Suc k) C1" "\<forall>j. j \<noteq> 0 \<longrightarrow> slot S1 j = slot T j"
    using foo_loop_prints [OF assms(1) T(2,3,4,6,7) assms(3)] by blast
  have D: "slot S1 1 = Some D" using S1(6) T(5) S(4) by simp
  obtain U where U: "foo_resume fr 1 S1 = foo_loop fr U" "sched_inv U" "s_running U = 1" "(1::int) \<noteq> -1" "\<forall>j. j \<noteq> 1 \<longrightarrow> slot U j = slot S1 j"
    "load_int (v_start fr) (s_stack U) = 100" "load_int (v_i fr) (s_stack U) = of_nat k"
    by (rule foo_resume_loop [OF assms(1) S1(2,3) D S(6)])
  obtain S2 D2 where S2: "foo_loop fr U = Inr ([(1, 100 + of_nat k)], S2)" "sched_inv S2" "s_running S2 = -1" "slot S2 1 = Some D2"
    "printed fr 100 (Suc k) D2" "\<forall>j. j \<noteq> 1 \<longrightarrow> slot S2 j = slot U j"
    using foo_loop_prints [OF assms(1) U(2,3,4,6,7) assms(3)] by blast
  show ?thesis
    using T(1,5) S1 U(1,5) S2 S(7) by (auto simp: test_round_def between_rounds_def)
qed

lemma test_round_returns:
  assumes "frame_ok fr" "between_rounds fr 5 S"
  shows "\<exists>S'. test_round fr 0 1 S = Inr ([], S') \<and> sched_inv S' \<and> (\<forall>j. slot S' j = None)"
proof -
  obtain C D where S: "sched_inv S" "s_running S = -1" "slot S 0 = Some C" "slot S 1 = Some D" "printed fr 0 5 C" "printed fr 100 5 D"
    "\<forall>j. j \<noteq> 0 \<and> j \<noteq> 1 \<longrightarrow> slot S j = None"
    using assms(2) by (auto simp: between_rounds_def)
  obtain T where T: "foo_resume fr 0 S = foo_loop fr T" "sched_inv T" "s_running T = 0" "(0::int) \<noteq> -1" "\<forall>j. j \<noteq> 0 \<longrightarrow> slot T j = slot S j"
    "load_int (v_start fr) (s_stack T) = 0" "load_int (v_i fr) (s_stack T) = of_nat 5"
    by (rule foo_resume_loop [OF assms(1) S(1-3,5)])
  obtain S1 where S1: "foo_loop fr T = Inr ([], S1)" "sched_inv S1" "s_running S1 = -1" "slot S1 0 = None" "\<forall>j. j \<noteq> 0 \<longrightarrow> slot S1 j = slot T j"
    using foo_loop_returns [OF T(2-4)] T(7) by auto
  have D: "slot S1 1 = Some D" using S1(5) T(5) S(4) by simp
  obtain U where U: "foo_resume fr 1 S1 = foo_loop fr U" "sched_inv U" "s_running U = 1" "(1::int) \<noteq> -1" "\<forall>j. j \<noteq> 1 \<longrightarrow> slot U j = slot S1 j"
    "load_int (v_start fr) (s_stack U) = 100" "load_int (v_i fr) (s_stack U) = of_nat 5"
    by (rule foo_resume_loop [OF assms(1) S1(2,3) D S(6)])
  obtain S2 where S2: "foo_loop fr U = Inr ([], S2)" "sched_inv S2" "slot S2 1 = None" "\<forall>j. j \<noteq> 1 \<longrightarrow> slot S2 j = slot U j"
    using foo_loop_returns [OF U(2-4)] U(7) by auto
  have "slot S2 j = None" for j
    using S2(3,4) U(5) S1(4,5) T(5) S(7) by metis
  then show ?thesis
    using T(1) S1(1) U(1) S2(1,2) by (auto simp: test_round_def)
qed

lemma both_alive_between: "between_rounds fr k S \<Longrightarrow> both_alive 0 1 S = Inr True"
proof -
  assume "between_rounds fr k S"
  then obtain C D where S: "slot S 0 = Some C" "slot S 1 = Some D" "c_status C \<noteq> COROUTINE_DEAD" "c_status D \<noteq> COROUTINE_DEAD"
    by (auto simp: between_rounds_def printed_def co_new_def split: if_splits)
  then show "both_alive 0 1 S = Inr True"
    using slot_range [OF S(1)] slot_range [OF S(2)] by (simp add: both_alive_def coroutine_status_def)
qed

lemma test_loop_from:
  assumes "frame_ok fr"
  shows "between_rounds fr k S \<Longrightarrow> k \<le> 5 \<Longrightarrow>
    \<exists>S'. test_loop fr 0 1 S = Some (Inr (concat (map (\<lambda>i. [(0, of_nat i), (1, 100 + of_nat i)]) [k ..< 5]), S')) \<and>
      sched_inv S' \<and> (\<forall>j. slot S' j = None)"
proof (induction "5 - k" arbitrary: k S)
  case 0
  then have k: "k = 5" by simp
  obtain S' where S': "test_round fr 0 1 S = Inr ([], S')" "sched_inv S'" "\<forall>j. slot S' j = None"
    using test_round_returns [OF assms] 0 k by blast
  have "0 < s_cap S" using 0 by (simp add: between_rounds_def sched_inv_def)
  have dead: "both_alive 0 1 S' = Inr False"
    using S' sched_invD(1) [OF S'(2)] by (simp add: both_alive_def coroutine_status_def)
  show ?case
    using both_alive_between [OF 0(2)] S' dead k by (subst test_loop.simps, simp, subst test_loop.simps, simp)
next
  case (Suc d)
  then have k: "k < 5" and d: "d = 5 - Suc k" by simp_all
  obtain S1 where S1: "test_round fr 0 1 S = Inr ([(0, of_nat k), (1, 100 + of_nat k)], S1)" "between_rounds fr (Suc k) S1"
    using test_round_prints [OF assms Suc.prems(1) k] by blast
  obtain S' where S': "test_loop fr 0 1 S1 = Some (Inr (concat (map (\<lambda>i. [(0, of_nat i), (1, 100 + of_nat i)]) [Suc k ..< 5]), S'))"
    "sched_inv S'" "\<forall>j. slot S' j = None"
    using Suc.hyps(1) [OF _ S1(2)] d k by auto
  show ?case
    using both_alive_between [OF Suc.prems(1)] S1(1) S' k by (subst test_loop.simps) (simp add: upt_conv_Cons)
qed

text \<open>
  C33: The test of the scheduler ends and prints what it is meant to: the two coroutines, whose variables are at the same place of the
  stack they share, print their five numbers in turn, neither disturbed by the other; and when the loop ends both have been deleted.
\<close>

theorem coroutine_test_output:
  assumes "length mem = STACK_SIZE" "frame_ok fr"
  shows "coroutine_test fr mem =
    Some (Inr ([(0, 0), (1, 100), (0, 1), (1, 101), (0, 2), (1, 102), (0, 3), (1, 103), (0, 4), (1, 104)], []))"
proof -
  let ?S = "coroutine_open mem :: u32 schedule"
  have inv: "sched_inv ?S" by (rule sched_inv_open [OF assms(1)])
  define S1 where "S1 = ?S\<lparr>s_co := (s_co ?S)[0 := Some (co_new 0)], s_nco := 1\<rparr>"
  define S2 where "S2 = S1\<lparr>s_co := (s_co S1)[1 := Some (co_new 100)], s_nco := 2\<rparr>"
  have n1: "coroutine_new ?S 0 = Inr (0, S1)"
    by (simp add: coroutine_new_def coroutine_open_def DEFAULT_COROUTINE_def S1_def probe_slot.simps)
  have n2: "coroutine_new S1 100 = Inr (1, S2)"
    by (simp add: coroutine_new_def coroutine_open_def DEFAULT_COROUTINE_def S1_def S2_def probe_slot.simps)
  have i2: "sched_inv S2"
    using sched_inv_new [OF sched_inv_new [OF inv n1] n2] .
  have "between_rounds fr 0 S2"
    using i2 by (auto simp: between_rounds_def printed_def S2_def S1_def coroutine_open_def slot_def DEFAULT_COROUTINE_def nth_list_update nth_Cons' split: if_splits)
  then obtain S' where S': "test_loop fr 0 1 S2 = Some (Inr (concat (map (\<lambda>i. [(0, of_nat i), (1, 100 + of_nat i)]) [0 ..< 5]), S'))"
    "sched_inv S'" "\<forall>j. slot S' j = None"
    using test_loop_from [OF assms(2), of 0 S2] by blast
  have "coroutine_close S' = []"
    using coroutine_close_all [OF S'(2)] S'(3) by simp
  then show ?thesis
    using n1 n2 S'(1) by (simp add: coroutine_test_def upt_rec)
qed

theorem coroutine_test_output_witness:
  "coroutine_test \<lparr>v_start = 1000, v_i = 1004, v_sp = (940, 900)\<rparr> (replicate STACK_SIZE 7) =
    Some (Inr ([(0, 0), (1, 100), (0, 1), (1, 101), (0, 2), (1, 102), (0, 3), (1, 103), (0, 4), (1, 104)], []))"
  by (rule coroutine_test_output) (simp_all add: frame_ok_def stack_fits_def STACK_SIZE_def)

section \<open>A pointer into the shared stack\<close>

text \<open>
  \<open>HandleRequest\<close> has its parameter \<open>connector\<close>, 16 bytes of a shared pointer, at an offset that is the same for all coroutines, since
  all of them are started in the same way. The global \<open>g_connector\<close> is the address of that of the connection at port 12345. An event is
  what one of the handlers, or the main loop, does next: a connection is accepted, a coroutine is resumed (which, the first time, runs the
  beginning of the handler), the handler changes its other variables, waits in \<open>Read\<close> or \<open>WriteAll\<close>, calls \<open>WriteAll\<close> on what
  \<open>g_connector\<close> points to, or returns. \<open>e_log\<close> has for each such call the connector of the handler and the one it was made on. What the
  machine guarantees of an event (the size of a shared pointer, that the parameter is never assigned, that the stack pointer is below the frame) is asserted.
\<close>

type_synonym handler = "u16 \<times> bytes"

record echo_state =
  e_sched :: "handler schedule"
  g_connector :: "nat option"
  e_log :: "(bytes \<times> bytes) list"

datatype echo_event = EcAccept u16 bytes | EcResume int | EcLocals bytes | EcWait stack_at | EcWriteAll | EcReturn

definition connector_size :: nat where
  "connector_size = 16"

definition echo_open :: "bytes \<Rightarrow> echo_state" where
  "echo_open mem = \<lparr>e_sched = coroutine_open mem, g_connector = None, e_log = []\<rparr>"

text \<open>The beginning of the handler: the parameter is there, and its address is taken.\<close>

definition handler_begin :: "nat \<Rightarrow> handler \<Rightarrow> echo_state \<Rightarrow> echo_state" where
  "handler_begin a h st =
     (let st' = st\<lparr>e_sched := (e_sched st)\<lparr>s_stack := store_at a (snd h) (s_stack (e_sched st))\<rparr>\<rparr> in
      if fst h = 12345 then st'\<lparr>g_connector := Some a\<rparr> else st')"

fun echo_step :: "nat \<Rightarrow> echo_state \<Rightarrow> echo_event \<Rightarrow> echo_state res" where
  "echo_step a st (EcAccept port conn) =
     assert_that (length conn = connector_size)
       (bind_res (coroutine_new (e_sched st) (port, conn)) (\<lambda>(cid, S). Inr (st\<lparr>e_sched := S\<rparr>)))"
| "echo_step a st (EcResume cid) =
     bind_res (coroutine_resume (e_sched st) cid)
       (\<lambda>S. case slot (e_sched st) cid of
          None \<Rightarrow> Inr st
        | Some C \<Rightarrow> Inr (if c_status C = COROUTINE_READY then handler_begin a (c_func C) (st\<lparr>e_sched := S\<rparr>) else st\<lparr>e_sched := S\<rparr>))"
| "echo_step a st (EcLocals stk) =
     assert_that (s_running (e_sched st) \<ge> 0 \<and> length stk = STACK_SIZE \<and>
         load_at a connector_size stk = load_at a connector_size (s_stack (e_sched st)))
       (Inr (st\<lparr>e_sched := (e_sched st)\<lparr>s_stack := stk\<rparr>\<rparr>))"
| "echo_step a st (EcWait sp) =
     assert_that (snd sp \<le> int a) (bind_res (coroutine_yield (e_sched st) sp) (\<lambda>S. Inr (st\<lparr>e_sched := S\<rparr>)))"
| "echo_step a st EcWriteAll =
     assert_that (s_running (e_sched st) \<ge> 0)
       (case (g_connector st, slot (e_sched st) (s_running (e_sched st))) of
          (Some p, Some C) \<Rightarrow> Inr (st\<lparr>e_log := e_log st @ [(snd (c_func C), load_at p connector_size (s_stack (e_sched st)))]\<rparr>)
        | _ \<Rightarrow> Inl Abort)"
| "echo_step a st EcReturn =
     assert_that (s_running (e_sched st) \<ge> 0) (Inr (st\<lparr>e_sched := mainfunc_return (e_sched st)\<rparr>))"

text \<open>Each coroutine that has begun has its own connector at that offset: in its part of the stack when it runs, in what was saved of it otherwise.\<close>

definition own_parameter :: "nat \<Rightarrow> handler schedule \<Rightarrow> int \<Rightarrow> handler coroutine \<Rightarrow> bool" where
  "own_parameter a S cid C \<longleftrightarrow> length (snd (c_func C)) = connector_size \<and>
     (c_status C = COROUTINE_RUNNING \<longrightarrow> load_at a connector_size (s_stack S) = snd (c_func C)) \<and>
     (c_status C = COROUTINE_SUSPEND \<longrightarrow> STACK_SIZE - c_size C \<le> a \<and>
        load_at (a - (STACK_SIZE - c_size C)) connector_size (take (c_size C) (c_stack C)) = snd (c_func C))"

definition echo_inv :: "nat \<Rightarrow> echo_state \<Rightarrow> bool" where
  "echo_inv a st \<longleftrightarrow> sched_inv (e_sched st) \<and> a + connector_size \<le> STACK_SIZE \<and>
     (\<forall>cid C. slot (e_sched st) cid = Some C \<longrightarrow> own_parameter a (e_sched st) cid C) \<and>
     (g_connector st = None \<or> g_connector st = Some a) \<and> list_all (\<lambda>(own, target). target = own) (e_log st)"

lemma echo_inv_sched:
  assumes "echo_inv a st" "sched_inv S" "\<And>cid C. slot S cid = Some C \<Longrightarrow> own_parameter a S cid C"
  shows "echo_inv a (st\<lparr>e_sched := S\<rparr>)"
  using assms by (simp add: echo_inv_def)

text \<open>With no coroutine running, what a schedule has on its stack does not matter.\<close>

lemma own_parameter_idle:
  assumes "sched_inv S" "s_running S \<noteq> cid" "slot S cid = Some C"
  shows "own_parameter a T cid C \<longleftrightarrow> own_parameter a S cid C"
  using sched_invD(6) [OF assms(1,3)] assms(2) by (simp add: own_parameter_def co_ok_def)

lemma echo_inv_resume:
  assumes inv: "echo_inv a st" and st: "echo_step a st (EcResume cid) = Inr st'"
  shows "echo_inv a st'"
proof (cases "slot (e_sched st) cid")
  case None
  then show ?thesis using inv st by auto
next
  case (Some C)
  let ?S = "e_sched st"
  have i: "sched_inv ?S" "s_running ?S = -1"
    using inv st by (auto simp: echo_inv_def coroutine_resume_def)
  obtain T where T: "coroutine_resume ?S cid = Inr T" "sched_inv T" "s_running T = cid" "\<forall>j. j \<noteq> cid \<longrightarrow> slot T j = slot ?S j"
    "slot T cid = Some (C\<lparr>c_status := COROUTINE_RUNNING\<rparr>)" "cid \<noteq> -1" "length (s_stack T) = STACK_SIZE"
    "c_status C = COROUTINE_READY \<or> c_status C = COROUTINE_SUSPEND \<and> drop (STACK_SIZE - c_size C) (s_stack T) = take (c_size C) (c_stack C)"
    by (rule resumed [OF i Some])
  have C: "own_parameter a ?S cid C" "a + connector_size \<le> STACK_SIZE"
    using inv Some by (simp_all add: echo_inv_def)
  have slots: "own_parameter a (T\<lparr>s_stack := stk\<rparr>) j D"
    if "slot T j = Some D" "load_at a connector_size stk = snd (c_func C)" for j D stk
  proof (cases "j = cid")
    case True
    then show ?thesis using that T(5) C(1) by (auto simp: own_parameter_def)
  next
    case False
    then have "slot ?S j = Some D" "own_parameter a ?S j D" "s_running ?S \<noteq> j"
      using that(1) T(4) inv i(2) slot_range [OF that(1)] by (auto simp: echo_inv_def)
    then show ?thesis using own_parameter_idle [OF i(1)] by blast
  qed
  have keep: "echo_inv a (st\<lparr>e_sched := T\<lparr>s_stack := stk\<rparr>\<rparr>)" if "length stk = STACK_SIZE" "load_at a connector_size stk = snd (c_func C)" for stk
    by (rule echo_inv_sched [OF inv]) (use that T(2) slots in \<open>auto simp: sched_inv_def\<close>)
  show ?thesis
  proof (cases "c_status C = COROUTINE_READY")
    case True
    have l: "length (snd (c_func C)) = connector_size" using C(1) by (simp add: own_parameter_def)
    then have "echo_inv a (st\<lparr>e_sched := T\<lparr>s_stack := store_at a (snd (c_func C)) (s_stack T)\<rparr>\<rparr>)"
      using keep load_store_at [of a "snd (c_func C)" "s_stack T"] C(2) T(7) by simp
    then show ?thesis
      using st T(1) Some True by (cases "fst (c_func C) = 12345") (auto simp: handler_begin_def Let_def echo_inv_def)
  next
    case False
    then have "load_at a connector_size (s_stack T) = snd (c_func C)"
      using T(8) C(1) load_at_drop [of "STACK_SIZE - c_size C" a connector_size "s_stack T"] by (auto simp: own_parameter_def)
    then show ?thesis
      using keep [of "s_stack T"] T(1,7) st Some False by simp
  qed
qed

lemma echo_inv_wait:
  assumes inv: "echo_inv a st" and st: "echo_step a st (EcWait sp) = Inr st'"
  shows "echo_inv a st'"
proof -
  let ?S = "e_sched st"
  obtain T where y: "coroutine_yield ?S sp = Inr T" and "snd sp \<le> int a" and st': "st' = st\<lparr>e_sched := T\<rparr>"
    using st by auto
  then have sp: "nat (snd sp) \<le> a" by simp
  have i: "sched_inv ?S" "a + connector_size \<le> STACK_SIZE" using inv by (simp_all add: echo_inv_def)
  obtain C D where D: "slot ?S (s_running ?S) = Some C" "s_running ?S \<noteq> -1" "s_running T = -1" "\<forall>j. slot T j = (if j = s_running ?S then Some D else slot ?S j)"
    "c_status D = COROUTINE_SUSPEND" "c_func D = c_func C" "c_size D = STACK_SIZE - nat (snd sp)" "take (c_size D) (c_stack D) = drop (nat (snd sp)) (s_stack ?S)"
    by (rule yield_slots [OF i(1) y])
  have C: "own_parameter a ?S (s_running ?S) C" "c_status C = COROUTINE_RUNNING"
    using inv D(1) sched_invD(6) [OF i(1) D(1)] by (auto simp: echo_inv_def co_ok_def)
  have d: "STACK_SIZE - c_size D = nat (snd sp)" using D(7) sp i(2) by simp
  have "own_parameter a T (s_running ?S) D"
    using C D(5,6) sp unfolding own_parameter_def d D(8) by (simp add: load_at_drop)
  moreover have "own_parameter a T j E" if "slot ?S j = Some E" "j \<noteq> s_running ?S" for j E
    using own_parameter_idle [OF i(1) that(2) [symmetric] that(1)] inv that(1) unfolding echo_inv_def by blast
  ultimately show ?thesis
    unfolding st' using sched_inv_yield [OF i(1) y] D(4) by (intro echo_inv_sched [OF inv]) (auto split: if_splits)
qed

lemma echo_inv_step:
  assumes inv: "echo_inv a st" and st: "echo_step a st e = Inr st'"
  shows "echo_inv a st'"
proof (cases e)
  case (EcAccept port conn)
  obtain cid T where T: "coroutine_new (e_sched st) (port, conn) = Inr (cid, T)" "st' = st\<lparr>e_sched := T\<rparr>" "length conn = connector_size"
    using st EcAccept by auto
  have i: "sched_inv (e_sched st)" using inv by (simp add: echo_inv_def)
  note n = coroutine_newD [OF i T(1)]
  show ?thesis
    unfolding T(2)
  proof (rule echo_inv_sched [OF inv sched_inv_new [OF i T(1)]])
    fix j C assume "slot T j = Some C"
    then show "own_parameter a T j C"
      using n T(3) inv by (cases "j = int cid") (auto simp: own_parameter_def co_new_def echo_inv_def)
  qed
next
  case (EcLocals stk)
  then show ?thesis
    using inv st by (auto simp: echo_inv_def sched_inv_def own_parameter_def)
next
  case EcWriteAll
  let ?S = "e_sched st"
  obtain p C where p: "g_connector st = Some p" "slot ?S (s_running ?S) = Some C"
    "st' = st\<lparr>e_log := e_log st @ [(snd (c_func C), load_at p connector_size (s_stack ?S))]\<rparr>"
    using st EcWriteAll by (auto split: option.splits)
  have "c_status C = COROUTINE_RUNNING"
    using sched_invD(6) [OF _ p(2)] inv by (simp add: echo_inv_def co_ok_def)
  then show ?thesis
    using p inv by (auto simp: echo_inv_def own_parameter_def)
next
  case EcReturn
  let ?S = "e_sched st"
  have i: "sched_inv ?S" "s_running ?S \<noteq> -1" using inv st EcReturn by (auto simp: echo_inv_def)
  obtain C where C: "slot ?S (s_running ?S) = Some C" using sched_invD(5) [OF i] by blast
  have sl: "slot (mainfunc_return ?S) j = (if j = s_running ?S then None else slot ?S j)" for j
    using slot_range [OF C] sched_invD(2) [OF i(1)] by (simp add: mainfunc_return_def slot_set_slot)
  have "own_parameter a (mainfunc_return ?S) j D" if "slot (mainfunc_return ?S) j = Some D" for j D
    using own_parameter_idle [OF i(1), of j D] that inv by (auto simp: sl echo_inv_def split: if_splits)
  then show ?thesis
    using st EcReturn echo_inv_sched [OF inv sched_inv_clear [OF i(1) C]] by auto
qed (use inv st echo_inv_resume echo_inv_wait in blast)+

interpretation echo_machine: inv_machine "echo_step a" "echo_inv a" for a
  by unfold_locales (rule echo_inv_step)

text \<open>
  C34: A pointer to a variable of another coroutine does not reach that variable. However the connections of the echo server come and go, each
  call of \<open>WriteAll\<close> through \<open>g_connector\<close>, which was set to the address of the connector of port 12345, is made on the connector of the handler
  that is running: each client gets its own data back, as the comment in the code says, and never that of another.
\<close>

theorem pointer_reaches_own_variable:
  assumes "length mem = STACK_SIZE" "a + connector_size \<le> STACK_SIZE" "run_steps (echo_step a) (echo_open mem) es = Inr st"
  shows "\<forall>(own, target) \<in> set (e_log st). target = own"
proof -
  have "echo_inv a (echo_open mem)"
    using assms(1,2) sched_inv_open [OF assms(1)]
    by (auto simp: echo_inv_def echo_open_def coroutine_open_def slot_def split: if_splits)
  then have "echo_inv a st"
    by (rule echo_machine.inv_run [OF _ assms(3)])
  then show ?thesis
    by (simp add: echo_inv_def list_all_iff)
qed

lemma echo_two_clients:
  assumes "length A = connector_size" "length B = connector_size" "length mem = STACK_SIZE"
  shows "\<exists>st x. run_steps (echo_step 5000) (echo_open mem) [EcAccept 12345 A, EcAccept 34567 B, EcResume 0, EcWait (4040, 4000), EcResume 1, EcWriteAll] = Inr st \<and>
    e_log st = [(B, x)]"
proof -
  have "4000 \<le> STACK_SIZE" by (simp add: STACK_SIZE_def)
  then show ?thesis
    using assms
    by (simp add: echo_open_def coroutine_open_def coroutine_new_def probe_slot.simps DEFAULT_COROUTINE_def coroutine_resume_def coroutine_yield_def
        save_stack_fits slot_def set_slot_def co_new_def handler_begin_def Let_def nth_list_update del: bind_res_Inr assert_that_Inr)
qed

theorem pointer_reaches_own_variable_witness:
  "let A = replicate 16 65; B = replicate 16 66 in
   \<exists>st. run_steps (echo_step 5000) (echo_open (replicate STACK_SIZE 0)) [EcAccept 12345 A, EcAccept 34567 B, EcResume 0, EcWait (4040, 4000), EcResume 1, EcWriteAll] = Inr st \<and>
     e_log st = [(B, B)]"
proof -
  let ?A = "replicate 16 65" and ?B = "replicate 16 66"
  let ?es = "[EcAccept 12345 ?A, EcAccept 34567 ?B, EcResume 0, EcWait (4040, 4000), EcResume 1, EcWriteAll]"
  have l: "length (replicate 16 c) = connector_size" for c :: u8
    by (simp add: connector_size_def)
  obtain st x where st: "run_steps (echo_step 5000) (echo_open (replicate STACK_SIZE 0)) ?es = Inr st" "e_log st = [(?B, x)]"
    using echo_two_clients [OF l l length_replicate] by blast
  have b: "5000 + connector_size \<le> STACK_SIZE" by (simp add: connector_size_def STACK_SIZE_def)
  have "x = ?B"
    using pointer_reaches_own_variable [OF length_replicate b st(1)] st(2) by simp
  then show ?thesis
    using st unfolding Let_def by blast
qed

end
