(* ===== verification/Example_Echo.thy ===== *)
theory Example_Echo
  imports Http_Encoder
begin

text \<open>
  \<open>example/echo/EchoClient.cpp\<close>: a client that sends numbered lines and logs what comes back, over one buffer of 1024 bytes. The results of
  \<open>Read\<close> are arguments, a negative number or the bytes; what has no defined effect, a store outside of the buffer and the overflow of the
  counter, is \<open>None\<close>.
\<close>

section \<open>The code\<close>

definition EchoClient_line :: "nat \<Rightarrow> bytes" where
  "EchoClient_line i = str ''echo test: '' @ dec_str i"

text \<open>\<open>sprintf\<close> and \<open>read\<close> overwrite the beginning of the buffer.\<close>

definition sprintf_into :: "bytes \<Rightarrow> bytes \<Rightarrow> bytes option" where
  "sprintf_into s buffer = (if length s < length buffer then Some (s @ 0 # drop (Suc (length s)) buffer) else None)"

definition read_into :: "bytes \<Rightarrow> bytes \<Rightarrow> bytes" where
  "read_into data buffer = data @ drop (length data) buffer"

definition strlen_part :: "bytes \<Rightarrow> bytes" where
  "strlen_part buffer = takeWhile (\<lambda>c. c \<noteq> 0) buffer"

text \<open>A round stores a zero behind what it has read.\<close>

definition EchoClient_store :: "int \<Rightarrow> bytes \<Rightarrow> bytes option" where
  "EchoClient_store ret buffer = (if 0 \<le> ret \<and> ret < int (length buffer) then Some (buffer[nat ret := 0]) else None)"

text \<open>A round: the new counter and buffer, the string that is sent and the string that is logged.\<close>

definition EchoClient_round :: "(int + bytes) \<Rightarrow> nat \<times> bytes \<Rightarrow> ((nat \<times> bytes) \<times> bytes \<times> bytes) option" where
  "EchoClient_round read_result st =
     (let i = Suc (fst st) in
      case (if i < 2 ^ 31 then sprintf_into (EchoClient_line i) (snd st) else None) of
        None \<Rightarrow> None
      | Some b1 \<Rightarrow>
          let (size, b2) = (case read_result of Inl err \<Rightarrow> (err, b1) | Inr data \<Rightarrow> (int (length data), read_into data b1)) in
          map_option (\<lambda>b3. ((i, b3), strlen_part b1, strlen_part b3)) (EchoClient_store size b2))"

text \<open>The loop, for the first rounds.\<close>

fun EchoClient_func :: "(int + bytes) list \<Rightarrow> nat \<times> bytes \<Rightarrow> (bytes list \<times> bytes list) option" where
  "EchoClient_func [] st = Some ([], [])"
| "EchoClient_func (r # reads) st =
     (case EchoClient_round r st of
        None \<Rightarrow> None
      | Some (st', sent, logged) \<Rightarrow> map_option (\<lambda>(outs, logs). (sent # outs, logged # logs)) (EchoClient_func reads st'))"

section \<open>Properties\<close>

lemma dec_str_length: "0 < k \<Longrightarrow> n < 10 ^ k \<Longrightarrow> length (dec_str n) \<le> k"
proof (induction k arbitrary: n)
  case (Suc k)
  show ?case
  proof (cases "n < 10")
    case False
    then have "0 < k" using Suc.prems by (cases k) auto
    moreover have "n div 10 < 10 ^ k" using Suc.prems(2) by (simp add: less_mult_imp_div_less mult.commute)
    ultimately show ?thesis using Suc.IH [of "n div 10"] False by (simp add: dec_str.simps [of n])
  qed (simp add: dec_str.simps [of n])
qed simp

lemma digit_nonzero: "m < 10 \<Longrightarrow> (of_nat (48 + m) :: u8) \<noteq> 0"
proof -
  assume "m < 10"
  then have "unat (of_nat (48 + m) :: u8) = 48 + m" by (simp add: unat_of_nat del: of_nat_add of_nat_numeral)
  then show ?thesis by force
qed

lemma dec_str_nonzero: "0 \<notin> set (dec_str n)"
proof (induction n rule: dec_str.induct)
  case (1 n)
  then show ?case using digit_nonzero [of n] digit_nonzero [of "n mod 10"] by (subst dec_str.simps) auto
qed

lemma line_fits:
  assumes "i < 2 ^ 31"
  shows "length (EchoClient_line i) < 1024" "0 \<notin> set (EchoClient_line i)"
proof -
  have "i < 10 ^ 10" using assms by simp
  from dec_str_length [OF _ this] show "length (EchoClient_line i) < 1024"
    by (simp add: EchoClient_line_def str_def)
  show "0 \<notin> set (EchoClient_line i)"
    using dec_str_nonzero [of i] by (simp add: EchoClient_line_def str_def)
qed

lemma strlen_part_line: "0 \<notin> set s \<Longrightarrow> strlen_part (s @ 0 # t) = s"
  by (induction s) (auto simp: strlen_part_def)

lemma read_terminated: "length data < length b \<Longrightarrow> (read_into data b)[length data := 0] = data @ 0 # drop (Suc (length data)) b"
  by (simp add: read_into_def list_update_append Cons_nth_drop_Suc [symmetric])

lemma round_reads:
  assumes "length buffer = 1024" "Suc i < 2 ^ 31" "length data < 1024" "0 \<notin> set data"
  obtains b where "EchoClient_round (Inr data) (i, buffer) = Some ((Suc i, b), EchoClient_line (Suc i), data)" "length b = 1024"
proof -
  let ?s = "EchoClient_line (Suc i)"
  let ?b1 = "?s @ 0 # drop (Suc (length ?s)) buffer"
  note s = line_fits [OF assms(2)]
  have b1: "sprintf_into ?s buffer = Some ?b1" "length ?b1 = 1024" "strlen_part ?b1 = ?s"
    using s assms(1) strlen_part_line [of ?s] by (simp_all add: sprintf_into_def)
  have "EchoClient_store (int (length data)) (read_into data ?b1) = Some (data @ 0 # drop (Suc (length data)) ?b1)"
    using b1(2) assms(3) read_terminated [of data ?b1] by (simp add: EchoClient_store_def) (simp add: read_into_def)
  then show thesis
    using b1 assms(2-4) strlen_part_line [of data]
    by (intro that [of "data @ 0 # drop (Suc (length data)) ?b1"]) (simp_all add: EchoClient_round_def Let_def)
qed

text \<open>With a server that sends back what it gets, the client logs the line that it has sent, in every round until the counter overflows.\<close>

lemma echo_client_echoes:
  "length buffer = 1024 \<Longrightarrow> i + n < 2 ^ 31 \<Longrightarrow>
    EchoClient_func (map (Inr \<circ> EchoClient_line) [Suc i..<Suc i + n]) (i, buffer) =
      Some (map EchoClient_line [Suc i..<Suc i + n], map EchoClient_line [Suc i..<Suc i + n])"
proof (induction n arbitrary: i buffer)
  case (Suc n)
  have i: "Suc i < 2 ^ 31" using Suc.prems(2) by simp
  obtain b where b: "EchoClient_round (Inr (EchoClient_line (Suc i))) (i, buffer) = Some ((Suc i, b), EchoClient_line (Suc i), EchoClient_line (Suc i))"
    "length b = 1024"
    using round_reads [OF Suc.prems(1) i line_fits [OF i]] .
  have e: "[Suc i..<Suc i + Suc n] = Suc i # [Suc (Suc i)..<Suc (Suc i) + n]"
    by (simp add: upt_rec)
  show ?case
    unfolding e using Suc.IH [OF b(2), of "Suc i"] Suc.prems(2) b(1) by simp
qed simp

text \<open>A failed \<open>Read\<close>, a timeout among them, makes the client store in front of its buffer, whatever came before.\<close>

lemma echo_client_fails: "err < 0 \<Longrightarrow> EchoClient_func (reads @ Inl err # rest) st = None"
proof (induction reads arbitrary: st)
  case Nil
  then show ?case
    by (simp add: EchoClient_round_def EchoClient_store_def Let_def split: option.splits)
qed (auto split: option.splits)

end
