(* ===== verification/Http_Upgrade.thy ===== *)
theory Http_Upgrade
  imports Http_Roundtrip
begin

text \<open>
  The request with which a client asks for another protocol: the headers \<open>Upgrade\<close> and \<open>Connection: Upgrade\<close> among others, in any
  order, and no body. The streaming parser stops behind such a head, because what follows is not HTTP.
\<close>

section \<open>The headers\<close>

definition upgrade_header :: "bytes \<times> bytes \<Rightarrow> bool" where
  "upgrade_header kv \<longleftrightarrow> plain_header kv \<or>
     map TOKEN (fst kv) = UPGRADE \<and> name_ok (fst kv) \<and> value_ok (snd kv) \<and> (length (snd kv) > 1 \<longrightarrow> IS_HEADER_CHAR (snd kv ! 1)) \<or>
     map TOKEN (fst kv) = CONNECTION \<and> name_ok (fst kv) \<and> snd kv = str ''Upgrade''"

definition upgrade_flag :: "bytes \<times> bytes \<Rightarrow> u8 \<Rightarrow> u8" where
  "upgrade_flag kv fl =
     (if map TOKEN (fst kv) = UPGRADE then fl OR F_UPGRADE
      else if map TOKEN (fst kv) = CONNECTION then fl OR F_CONNECTION_UPGRADE else fl)"

lemma upgrade_names:
  "name_state UPGRADE = h_upgrade" "name_state CONNECTION = h_connection" "\<not> sets_length [] UPGRADE" "\<not> sets_length [] CONNECTION"
  "UPGRADE \<noteq> CONNECTION" "UPGRADE \<in> set known_names" "CONNECTION \<in> set known_names"
  by (simp_all add: name_state_known known_names_def matched_def sets_length_def name_bytes)

lemma reads_as_upgrade:
  assumes "map TOKEN name = UPGRADE" "length v > 1 \<longrightarrow> IS_HEADER_CHAR (v ! 1)"
  shows "reads_as name v fl cl (fl OR F_UPGRADE) cl"
proof -
  have "value_scan (tl v) h_general pr = Some (h_general, pr)" for pr
    using assms(2) by (cases v; cases "tl v") auto
  then show ?thesis
    unfolding reads_as_def assms(1) name_flags_def
    by (auto simp: upgrade_names value_first_def Let_def add_flag_def finish_header_def)
qed

lemma reads_as_connection_upgrade:
  assumes "map TOKEN name = CONNECTION"
  shows "reads_as name (str ''Upgrade'') fl cl (fl OR F_CONNECTION_UPGRADE) cl"
  unfolding reads_as_def assms name_flags_def
  by (simp add: upgrade_names str_def value_first_def LOWER_def header_value_char_def match_value_def UPGRADE_def next_index_def cstr_at_def
      finish_header_def add_flag_def IS_HEADER_CHAR_def)

lemma upgrade_means: "upgrade_header kv \<Longrightarrow> line_means upgrade_flag kv"
proof -
  assume "upgrade_header kv"
  then consider "plain_header kv"
    | "map TOKEN (fst kv) = UPGRADE" "name_ok (fst kv)" "value_ok (snd kv)" "length (snd kv) > 1 \<longrightarrow> IS_HEADER_CHAR (snd kv ! 1)"
    | "map TOKEN (fst kv) = CONNECTION" "name_ok (fst kv)" "snd kv = str ''Upgrade''"
    by (auto simp: upgrade_header_def)
  then show "line_means upgrade_flag kv"
  proof cases
    case 1
    then have "map TOKEN (fst kv) \<noteq> UPGRADE" "map TOKEN (fst kv) \<noteq> CONNECTION"
      using upgrade_names(6,7) by (auto simp: plain_header_def no_meaning_def)
    then show ?thesis
      using plain_means [OF 1] by (simp add: line_means_def upgrade_flag_def)
  next
    case 2
    then show ?thesis
      using reads_as_upgrade [OF 2(1,4)] by (simp add: line_means_def upgrade_flag_def upgrade_names)
  next
    case 3
    have "value_ok (str ''Upgrade'')"
      by (simp add: value_ok_def str_def CR_def LF_def)
    then show ?thesis
      using 3 reads_as_connection_upgrade [OF 3(1)] upgrade_names(4,5) by (auto simp: line_means_def upgrade_flag_def)
  qed
qed

text \<open>The two flags are set exactly if there are both headers.\<close>

definition asks_upgrade :: "(bytes \<times> bytes) list \<Rightarrow> bool" where
  "asks_upgrade kvs \<longleftrightarrow> list_ex (\<lambda>kv. map TOKEN (fst kv) = UPGRADE) kvs \<and> list_ex (\<lambda>kv. map TOKEN (fst kv) = CONNECTION) kvs"

lemma fold_upgrade_flag:
  "fold upgrade_flag kvs fl =
     fl OR (if list_ex (\<lambda>kv. map TOKEN (fst kv) = UPGRADE) kvs then F_UPGRADE else 0) OR
       (if list_ex (\<lambda>kv. map TOKEN (fst kv) = CONNECTION) kvs then F_CONNECTION_UPGRADE else 0)"
proof (induction kvs arbitrary: fl)
  case (Cons kv kvs)
  show ?case
    unfolding fold.simps comp_apply Cons.IH using upgrade_names(5) by (auto simp: upgrade_flag_def or.assoc or.left_commute or.commute)
qed simp

lemma upgrade_flags: "asks_upgrade kvs \<Longrightarrow> fold upgrade_flag kvs 0 = F_UPGRADE OR F_CONNECTION_UPGRADE"
  by (simp add: fold_upgrade_flag asks_upgrade_def)

section \<open>The end of the head\<close>

lemma upgrade_end:
  assumes s: "in_head s_header_field_start (F_UPGRADE OR F_CONNECTION_UPGRADE) ULLONG_MAX k u p s" and k: "fst (snd k) \<noteq> HTTP_CONNECT"
    and d: "coming data p [CR, LF]" "2 * p + 2 < HTTP_MAX_HEADER_SIZE"
  obtains s' where "exec_loop m_settings data s = Return s' (p + 2)" "herrno (hp s') = HPE_OK" "constants (hp s') = k" "usr s' = completed (hp s') u"
proof -
  have c: "p < length data" "data ! p = CR" "Suc p < length data" "data ! Suc p = LF"
    using d(1) by simp_all
  have nr: "unat (nread (hp s)) < HTTP_MAX_HEADER_SIZE" "unat (nread (hp s) + 1) < HTTP_MAX_HEADER_SIZE"
    using s d(2) nread_Suc [of "hp s"] by (simp_all add: in_head_def)
  let ?n = "nread (hp s)"
  let ?s1 = "s\<lparr>hp := (hp s)\<lparr>nread := ?n + 1\<rparr>, p_state := s_headers_almost_done, pos := Suc p\<rparr>"
  have "\<exists>t. reexecute m_settings data (s\<lparr>hp := (hp s)\<lparr>nread := ?n + 1\<rparr>\<rparr>) = Break t \<and> t\<lparr>pos := Suc (pos t)\<rparr> = ?s1"
    using s c by (subst reexecute_dispatch) (auto simp: dispatch_def exec_header_field_start_def prim_defs in_head_def)
  then have 1: "exec_loop m_settings data s = exec_loop m_settings data ?s1"
    using loop_header [of s data m_settings] s c nr by (force simp: in_head_def PARSING_HEADER_def)
  have m: "hmethod (hp s) \<noteq> HTTP_CONNECT"
    using s k by (auto simp: in_head_def constants_def)
  let ?s2 = "?s1\<lparr>hp := (hp s)\<lparr>nread := ?n + 2\<rparr>\<rparr>"
  let ?t = "s\<lparr>pos := Suc p, p_state := s_headers_done, hp := (hp s)\<lparr>nread := ?n + 2, upgrade := True\<rparr>\<rparr>"
  have r1: "reexecute m_settings data ?s2 = reexecute m_settings data ?t"
    using s c m
    by (subst reexecute_dispatch)
      (auto simp: dispatch_def exec_headers_almost_done_def call_headers_complete_def prim_defs in_head_def has_flag_def flag_defs)
  have r2: "\<exists>t. reexecute m_settings data ?t = Return t (p + 2) \<and> herrno (hp t) = HPE_OK \<and> constants (hp t) = k \<and> usr t = completed (hp t) u"
    using s c m
    by (subst reexecute_dispatch)
      (auto simp: dispatch_def exec_headers_done_def prim_defs in_head_def has_flag_def has_body_def flag_defs new_message_def callback_defs
        CALLBACK_NOTIFY_ER_def callback_quiet Let_def completed_def OnComplete_def OnComplete_target_def constants_def)
  then obtain t where t: "reexecute m_settings data ?t = Return t (p + 2)" "herrno (hp t) = HPE_OK" "constants (hp t) = k" "usr t = completed (hp t) u"
    by blast
  have "exec_byte m_settings data ?s1 = Return t (p + 2)"
    using r1 t(1) nr by (simp add: exec_byte_def PARSING_HEADER_def COUNT_HEADER_SIZE_ok [unfolded One_nat_def] add.commute)
  then have "exec_loop m_settings data ?s1 = Return t (p + 2)"
    using c by (subst exec_loop.simps) simp
  then show thesis
    using that 1 t by metis
qed

section \<open>The request\<close>

text \<open>The method is \<open>GET\<close>; URL, parameters and headers are those of an encoder, printed without the headers the encoder adds.\<close>

definition upgrade_request :: "HttpEncoder \<Rightarrow> bytes" where
  "upgrade_request e = request_line HTTP_GET e @ concat (map print_header (e_headers e)) @ [CR, LF]"

definition upgrade_ok :: "HttpEncoder \<Rightarrow> bool" where
  "upgrade_ok e \<longleftrightarrow> list_all upgrade_header (e_headers e) \<and> asks_upgrade (e_headers e) \<and> target_ok (request_target e) \<and> params_ok e \<and>
     2 * length (upgrade_request e) < HTTP_MAX_HEADER_SIZE"

lemma upgrade_execute:
  assumes "upgrade_ok e" "herrno pr = HPE_OK" "pr = http_parser_init HTTP_BOTH"
  obtains pr' where "http_parser_execute m_settings (upgrade_request e) pr m =
      Some (pr', completed pr' (with_headers (e_headers e) (with_url (request_target e) m)), length (upgrade_request e))"
    "herrno pr' = HPE_OK" "hmethod pr' = HTTP_GET"
proof -
  let ?d = "upgrade_request e" and ?L = "request_line HTTP_GET e" and ?B = "concat (map print_header (e_headers e))"
  let ?k = "(HTTP_REQUEST, HTTP_GET, 0, 1, 1)"
  have ok: "list_all upgrade_header (e_headers e)" "asks_upgrade (e_headers e)" "target_ok (request_target e)" "2 * length ?d < HTTP_MAX_HEADER_SIZE"
    using assms(1) by (simp_all add: upgrade_ok_def)
  have len: "length ?d = length ?L + length ?B + 2"
    by (simp add: upgrade_request_def)
  have c: "coming ?d 0 ?L" "coming ?d (length ?L) (?B @ [CR])" "coming ?d (length ?L + length ?B) [CR, LF]"
    using coming_all [of ?d] unfolding upgrade_request_def by (simp_all add: add.assoc)
  have m: "list_all (line_means upgrade_flag) (e_headers e)"
    using ok(1) upgrade_means by (auto simp: list_all_iff)
  obtain s where s: "exec_loop m_settings ?d (start_exec m) = exec_loop m_settings ?d s"
    "in_head s_header_field_start 0 ULLONG_MAX ?k (with_url (request_target e) m) (length ?L) s"
    by (rule request_line_run [OF c(1) _ ok(3)]) (use ok(4) len in auto)
  obtain s1 where s1: "exec_loop m_settings ?d s = exec_loop m_settings ?d s1"
    "in_head s_header_field_start (fold upgrade_flag (e_headers e) 0) ULLONG_MAX ?k (with_headers (e_headers e) (with_url (request_target e) m))
       (length ?L + length ?B) s1"
    by (rule header_lines [OF s(2) m c(2)]) (use ok(4) len in auto)
  obtain s2 where s2: "exec_loop m_settings ?d s1 = Return s2 (length ?L + length ?B + 2)" "herrno (hp s2) = HPE_OK" "constants (hp s2) = ?k"
    "usr s2 = completed (hp s2) (with_headers (e_headers e) (with_url (request_target e) m))"
    by (rule upgrade_end [OF s1(2) [unfolded upgrade_flags [OF ok(2)]] _ c(3)]) (use ok(4) len in auto)
  have init: "hstate pr = s_start_req_or_res" "initial_marks s_start_req_or_res = (\<lambda>_. None)" "?d \<noteq> []"
    using assms(3) by (auto simp: http_parser_init_def initial_marks_def upgrade_request_def split: data_cb.split)
  have "completed (pr\<lparr>hstate := x\<rparr>) = completed pr" for pr x
    by (simp add: completed_def OnComplete_def OnComplete_target_def fun_eq_iff)
  moreover have "exec_loop m_settings ?d \<lparr>hp = pr, usr = m, pos = 0, p_state = hstate pr, marks = initial_marks (hstate pr)\<rparr> =
      Return s2 (length ?L + length ?B + 2)"
    using s(1) s1(1) s2(1) init assms(3) by simp
  ultimately show thesis
    by (intro that [of "(hp s2)\<lparr>hstate := p_state s2\<rparr>"])
      (use assms(2) init s2 len in \<open>simp_all add: http_parser_execute_def leave_ctl_def leave_def constants_def\<close>)
qed

lemma upgrade_parsed:
  assumes "upgrade_ok e"
  shows "\<exists>h. HttpParser_Parse (upgrade_request e) (HttpParser_new g) = Some (True, h) \<and> HttpParser_IsComplete h \<and> m_method (m_msg h) = str ''GET'' \<and>
    m_url (m_msg h) = e_url e \<and> m_parameters (m_msg h) = e_parameters e \<and> m_body (m_msg h) = [] \<and>
    (\<forall>key. map_find key (m_headers (m_msg h)) = map_of (rev (e_headers e)) key)"
proof -
  let ?m = "m_msg (HttpParser_new g)"
  have h: "m_httpParser (HttpParser_new g) = http_parser_init HTTP_BOTH" "m_headerState ?m = HeaderState_None"
    "m_headers ?m = []" "m_body ?m = []" "m_urlAndParams ?m = []" "m_parameters ?m = []"
    by (simp_all add: HttpParser_new_def)
  let ?w = "with_headers (e_headers e) (with_url (request_target e) ?m)"
  obtain pr where pr: "http_parser_execute m_settings (upgrade_request e) (http_parser_init HTTP_BOTH) ?m = Some (pr, completed pr ?w, length (upgrade_request e))"
    "herrno pr = HPE_OK" "hmethod pr = HTTP_GET"
    by (rule upgrade_execute [OF assms _ refl, of ?m]) (simp_all add: http_parser_init_def)
  have w: "m_body ?w = []" "m_urlAndParams ?w = request_target e" "m_parameters ?w = []"
    using header_callbacks_keeps [of undefined "e_headers e" "with_url (request_target e) ?m"] h(4-6) by (simp_all add: header_callbacks_with)
  have t: "UrlDecode (request_target e) = request_target e" "GetStringBefore (ascii CHR ''?'') (request_target e) 0 = Some (e_url e)"
    "params_loop (request_target e) (length (e_url e) + 1) [] = Some (e_parameters e)"
    using target_parts [of e] assms by (simp_all add: params_ok_def upgrade_ok_def)
  have v: "snd kv \<noteq> [] \<and> fst kv \<noteq> []" if "kv \<in> set (e_headers e)" for kv
  proof -
    have "upgrade_header kv"
      using that assms by (auto simp: upgrade_ok_def list_all_iff)
    then show ?thesis
      using upgrade_means [of kv] by (simp add: line_means_def name_ok_def value_ok_def)
  qed
  then have f: "filter (\<lambda>(k, v). v \<noteq> []) (e_headers e) = e_headers e"
    by (force simp: filter_id_conv)
  have "m_headers ?w = std.set_all (e_headers e) []"
    using headers_stored [of "e_headers e" "with_url (request_target e) ?m" undefined] v h(2,3) unfolding header_callbacks_with f by fastforce
  then have k: "map_find key (m_headers ?w) = map_of (rev (e_headers e)) key" for key
    using std.find_set_all [OF std.ok_empty, of key "e_headers e"] by (simp add: map_find_def [of _ "[]"] split: option.splits)
  show ?thesis
    using pr w t k h(1)
    by (auto simp: HttpParser_Parse_eq HttpParser_IsComplete_def completed_def OnComplete_def OnComplete_target_def ParseUrlAndParam_def Let_def http_method_str_def)
qed

end
