(* ===== verification/Ws_Session.thy ===== *)
theory Ws_Session
  imports Http_Upgrade Http_Exchange
begin

text \<open>
  A connection that is switched to the WebSocket protocol: the handshake, then messages that a client sends in masked frames, and the frames of
  the answers. Each frame may be read in several pieces; a piece has bytes of one frame only, because the parser forgets what follows a frame.
\<close>

section \<open>Messages in frames\<close>







section \<open>Receiving\<close>












section \<open>Answering\<close>

text \<open>An encoder of the server with \<open>data\<close> still to be sent.\<close>

definition answering :: "WebSocketEncoder \<Rightarrow> bytes \<Rightarrow> bool" where
  "answering e data \<longleftrightarrow> \<not> e_isClient e \<and> e_data e = data \<and> e_offset e + length data = e_len e \<and> e_len e < 2 ^ 63 \<and> 0 < e_frameSize e"

definition server_frame :: "u8 \<Rightarrow> u8 \<Rightarrow> bytes \<Rightarrow> bytes" where
  "server_frame fin op payload = (fin OR op) # length_field False (length payload) @ payload"

lemma Encode_answering:
  assumes "answering e data" "data \<noteq> []"
  defines "n \<equiv> min (e_frameSize e) (length data)"
  shows "e_outputBuf (Encode key e) =
      server_frame (if e_frameSize e > length data then 0x80 else 0) (if e_offset e \<noteq> 0 then OpCodeType_Continue else e_opCode e) (take n data)"
    "answering (Encode key e) (drop n data)" "e_frameSize (Encode key e) = e_frameSize e"
proof -
  have left: "(e_len e + 2 ^ 64 - e_offset e) mod 2 ^ 64 = length data"
    using wrap_diff [of "e_offset e" "e_len e" "2 ^ 64"] assms(1) by (auto simp: answering_def)
  have off: "(e_offset e + n) mod 2 ^ 64 = e_offset e + n"
    using assms(1) by (intro mod_less) (auto simp: answering_def n_def)
  have n: "(if length data < e_frameSize e then length data else e_frameSize e) = n"
    by (simp add: n_def min_def)
  note e = Encode_def [of key e, unfolded Let_def left n]
  show "e_outputBuf (Encode key e) =
      server_frame (if e_frameSize e > length data then 0x80 else 0) (if e_offset e \<noteq> 0 then OpCodeType_Continue else e_opCode e) (take n data)"
    using assms(1) by (simp add: e server_frame_def answering_def n_def)
  show "answering (Encode key e) (drop n data)" "e_frameSize (Encode key e) = e_frameSize e"
    using assms(1) off by (auto simp: e answering_def n_def)
qed

lemma answering_complete: "answering e data \<Longrightarrow> enc_IsComplete e \<longleftrightarrow> data = []"
  by (auto simp: answering_def enc_IsComplete_def)




text \<open>The payload of an unmasked frame with a length of at most two more bytes, read as RFC 6455 says.\<close>

definition frame_payload :: "bytes \<Rightarrow> bytes" where
  "frame_payload f = (if f ! 1 = 126 then drop 4 f else drop 2 f)"

lemma frame_payload_server: "size_ok (length payload) \<Longrightarrow> frame_payload (server_frame fin op payload) = payload"
proof -
  assume s: "size_ok (length payload)"
  show "frame_payload (server_frame fin op payload) = payload"
  proof (cases "length payload > 126")
    case True
    then show ?thesis
      using s by (simp add: frame_payload_def server_frame_def length_field_def Let_def size_ok_def numeral_2_eq_2)
  next
    case False
    then have "length payload < 126" using s by (simp add: size_ok_def)
    then have "unat (of_nat (length payload) :: u8) \<noteq> 126"
      by (simp add: unat_of_nat)
    then have "(of_nat (length payload) :: u8) \<noteq> 126"
      by auto
    then show ?thesis
      using False by (simp add: frame_payload_def server_frame_def length_field_def Let_def)
  qed
qed

lemma answer_payload:
  assumes "answering e data" "length data \<le> n" "size_ok (e_frameSize e)" "size_ok (length data mod e_frameSize e)"
  shows "concat (map frame_payload (frames (replicate n []) e)) = data"
  using assms
proof (induction n arbitrary: e data)
  case (Suc n)
  show ?case
  proof (cases "data = []")
    case True
    then show ?thesis
      using answering_complete [OF Suc.prems(1)] by simp
  next
    case False
    note enc = Encode_answering [OF Suc.prems(1) False, of "[]"]
    let ?F = "e_frameSize e" and ?n = "min (e_frameSize e) (length data)"
    have nc: "\<not> enc_IsComplete e"
      using answering_complete [OF Suc.prems(1)] False by simp
    have F: "0 < ?F"
      using Suc.prems(1) by (simp add: answering_def)
    have sz: "size_ok (length (take ?n data))"
      using Suc.prems(3,4) by (cases "?F \<le> length data") (auto simp: min_def)
    have r: "size_ok (length (drop ?n data) mod ?F)"
      using Suc.prems(4) by (cases "?F \<le> length data") (auto simp: min_def size_ok_def le_mod_geq)
    have le: "length (drop ?n data) \<le> n"
      using Suc.prems(2) False F by (cases data) auto
    have "concat (map frame_payload (frames (replicate n []) (Encode [] e))) = drop ?n data"
      by (rule Suc.IH [OF enc(2) le]) (use Suc.prems(3) enc(3) r in simp_all)
    then show ?thesis
      using nc enc(1) frame_payload_server [OF sz] by (simp add: GetFrame_def Let_def)
  qed
qed simp

section \<open>The session\<close>



















section \<open>A handshake that is refused\<close>





end
