(* ===== verification/Http_Access.thy ===== *)
theory Http_Access
  imports Http_Bits Http_Exchange
begin

text \<open>
  The interface that handlers and programs see: the readers of \<open>net/http/HttpDecoder.h\<close> and \<open>net/http/WebSocketDecoder.h\<close>, and the methods of
  \<open>net/http/HttpClient.h\<close> that pass on to its encoder and decoder.
\<close>

section \<open>Reading a message\<close>

definition HttpDecoder_GetUrl :: "HttpDecoder \<Rightarrow> bytes" where
  "HttpDecoder_GetUrl d = GetUrl (d_httpParser d)"

definition HttpDecoder_GetStatus :: "HttpDecoder \<Rightarrow> nat" where
  "HttpDecoder_GetStatus d = GetStatus (d_httpParser d)"

definition HttpDecoder_GetMethod :: "HttpDecoder \<Rightarrow> bytes" where
  "HttpDecoder_GetMethod d = GetMethod (d_httpParser d)"

definition HttpDecoder_GetBody :: "HttpDecoder \<Rightarrow> bytes" where
  "HttpDecoder_GetBody d = GetBody (d_httpParser d)"

definition HttpDecoder_GetHeaders :: "HttpDecoder \<Rightarrow> bytes std_map" where
  "HttpDecoder_GetHeaders d = GetHeaders (d_httpParser d)"

definition HttpDecoder_GetHeader :: "bytes \<Rightarrow> HttpDecoder \<Rightarrow> bytes" where
  "HttpDecoder_GetHeader name d = GetHeader name (d_httpParser d)"

definition GetPeerIp :: "HttpDecoder \<Rightarrow> bytes" where
  "GetPeerIp d = d_peerIp d"

definition GetPeerPort :: "HttpDecoder \<Rightarrow> u16" where
  "GetPeerPort d = d_peerPort d"

definition HttpDecoder_ToString :: "HttpDecoder \<Rightarrow> bytes" where
  "HttpDecoder_ToString d = ToString (d_httpParser d)"

definition HttpDecoder_GetErrorDetail :: "HttpDecoder \<Rightarrow> string option" where
  "HttpDecoder_GetErrorDetail d = GetErrorDetail (d_httpParser d)"

definition WebSocketDecoder_GetPayLoad :: "WebSocketDecoder \<Rightarrow> bytes" where
  "WebSocketDecoder_GetPayLoad w = GetPayLoad (m_wsParser w)"

definition WebSocketDecoder_GetPayloadLen :: "WebSocketDecoder \<Rightarrow> nat" where
  "WebSocketDecoder_GetPayloadLen w = length (GetPayLoad (m_wsParser w))"

lemmas decoder_defs = HttpDecoder_GetUrl_def HttpDecoder_GetStatus_def HttpDecoder_GetMethod_def HttpDecoder_GetBody_def HttpDecoder_GetHeaders_def
  HttpDecoder_GetHeader_def GetUrl_def GetStatus_def GetMethod_def GetBody_def GetHeaders_def

section \<open>The client\<close>

definition HttpClient_GetStatus :: "HttpClient \<Rightarrow> nat" where
  "HttpClient_GetStatus c = HttpDecoder_GetStatus (hc_decoder c)"

definition HttpClient_GetBody :: "HttpClient \<Rightarrow> bytes" where
  "HttpClient_GetBody c = HttpDecoder_GetBody (hc_decoder c)"

definition HttpClient_GetHeaders :: "HttpClient \<Rightarrow> bytes std_map" where
  "HttpClient_GetHeaders c = HttpDecoder_GetHeaders (hc_decoder c)"

definition HttpClient_GetHeader :: "bytes \<Rightarrow> HttpClient \<Rightarrow> bytes" where
  "HttpClient_GetHeader name c = HttpDecoder_GetHeader name (hc_decoder c)"

definition HttpClient_AddHeader :: "bytes \<Rightarrow> bytes \<Rightarrow> HttpClient \<Rightarrow> HttpClient" where
  "HttpClient_AddHeader key val c = c\<lparr>hc_encoder := AddHeader key val (hc_encoder c)\<rparr>"

definition HttpClient_SetBody :: "bytes \<Rightarrow> HttpClient \<Rightarrow> HttpClient" where
  "HttpClient_SetBody b c = c\<lparr>hc_encoder := SetBody b (hc_encoder c)\<rparr>"

definition HttpClient_SetMethod :: "bytes \<Rightarrow> HttpClient \<Rightarrow> HttpClient" where
  "HttpClient_SetMethod m c = c\<lparr>hc_encoder := SetMethod m (hc_encoder c)\<rparr>"

definition HttpClient_SetUrl :: "bytes \<Rightarrow> HttpClient \<Rightarrow> HttpClient" where
  "HttpClient_SetUrl u c = c\<lparr>hc_encoder := SetUrl u (hc_encoder c)\<rparr>"

definition HttpClient_AddParameter :: "bytes \<Rightarrow> bytes \<Rightarrow> HttpClient \<Rightarrow> HttpClient" where
  "HttpClient_AddParameter key val c = c\<lparr>hc_encoder := AddParameter key val (hc_encoder c)\<rparr>"

lemmas client_setters = HttpClient_AddHeader_def HttpClient_SetBody_def HttpClient_SetMethod_def HttpClient_SetUrl_def HttpClient_AddParameter_def

text \<open>What a program reads from the client after a request is the response that the server has built.\<close>

lemma client_sees:
  assumes "response_ok resp" "in_pieces (GetReponseString resp) resp rs" "0 \<le> wr"
  obtains c' where "Request wr (map Inr rs @ rest) c = (GetRequestString (hc_encoder c), Ran (0, c'))"
    "HttpClient_GetStatus c' = status_value (e_statusCode resp)" "HttpClient_GetBody c' = e_body resp"
    "same_headers resp (d_httpParser (hc_decoder c'))"
proof -
  obtain c' where c': "Request wr (map Inr rs @ rest) c = (GetRequestString (hc_encoder c), Ran (0, c'))"
    "parsed_response resp (d_httpParser (hc_decoder c'))"
    using Request_answered [OF assms, of rest c] by blast
  show thesis
    by (rule that [OF c'(1)]) (use c'(2) in \<open>simp_all add: parsed_response_def HttpClient_GetStatus_def HttpClient_GetBody_def decoder_defs\<close>)
qed

text \<open>A header of the response is found by its name, unless its value has a zero byte, where the C string ends.\<close>

lemma client_sees_header:
  assumes "same_headers resp (d_httpParser (hc_decoder c))" "map_of (rev (all_headers resp)) name = Some val" "0 \<notin> set val"
  shows "HttpClient_GetHeader name c = val"
  using assms by (auto simp: HttpClient_GetHeader_def decoder_defs GetHeader_def same_headers_def)

end
