(* ===== verification/Example_Http.thy ===== *)
theory Example_Http
  imports Ws_Session Http_Access
begin

text \<open>
  The example programs over HTTP: the server of \<open>example/http_server/HttpServer.cpp\<close> and the client of \<open>example/http_server/HttpClient.cpp\<close>.
\<close>

section \<open>The server\<close>

definition HttpHandle :: HttpHandler where
  "HttpHandle request response =
     SetBody (str ''{'' @ [34] @ str ''code'' @ [34] @ str '': 0, '' @ [34] @ str ''message'' @ [34] @ str '': '' @ [34, 34] @ str ''}'' @ [10])
       (SetStatusCode StatusCode_200Ok response)"

definition WebSocketHandle :: WebSocketHandler where
  "WebSocketHandle request response =
     SetPayload (WebSocketDecoder_GetPayLoad request) (WebSocketDecoder_GetPayloadLen request) (SetOpCode OpCodeType_Text response)"

definition example_dispatch :: HttpDispatch where
  "example_dispatch = AddHandler_ws (str ''/'') WebSocketHandle (AddHandler_http (str ''/'') HttpHandle (HttpDispatch_new True))"

definition HttpServer_HandleRequest :: "(bytes \<Rightarrow> bytes) \<Rightarrow> nat \<Rightarrow> u16 \<Rightarrow> bytes list \<Rightarrow> conn \<Rightarrow> (HttpDispatch \<times> conn) run" where
  "HttpServer_HandleRequest SHA1 g port reads c = serve SHA1 reads example_dispatch (HttpDecoder_new g port) WebSocketDecoder_new c"

section \<open>The client\<close>

definition example_client :: "nat \<Rightarrow> u16 \<Rightarrow> HttpClient" where
  "example_client g p =
     HttpClient_SetBody (str ''test body'') (HttpClient_SetUrl (str ''/'') (HttpClient_SetMethod (str ''POST'')
       (HttpClient_AddParameter (str ''p2'') (str ''v2'') (HttpClient_AddParameter (str ''p1'') (str ''v1'')
         (HttpClient_AddHeader (str ''h2'') (str ''v2'') (HttpClient_AddHeader (str ''h1'') (str ''v1'') (HttpClient_new g p)))))))"

text \<open>A round of the loop: the string that is written, and whether the loop goes on, with the status and body it logs.\<close>

definition HttpClient_round :: "nat \<Rightarrow> u16 \<Rightarrow> int \<Rightarrow> (int + bytes) list \<Rightarrow> bytes \<times> (nat \<times> bytes) option run" where
  "HttpClient_round g p write_result reads =
     (let (out, r) = Request write_result reads (example_client g p) in
      (out, case r of
              Ran (ret, c) \<Rightarrow> Ran (if ret \<noteq> 0 then None else Some (HttpClient_GetStatus c, HttpClient_GetBody c))
            | Raised err \<Rightarrow> Raised err
            | Waiting \<Rightarrow> Waiting))"

section \<open>Together\<close>

text \<open>The encoder of the client after these calls.\<close>

definition example_encoder :: HttpEncoder where
  "example_encoder = hc_encoder (example_client 0 0)"

lemma example_client_encoder: "hc_encoder (example_client g p) = example_encoder"
  by (simp add: example_encoder_def example_client_def client_setters HttpClient_new_def)

lemma example_encoder_sel:
  "e_body example_encoder = str ''test body''" "e_url example_encoder = str ''/''" "e_method example_encoder = str ''POST''"
  "e_parameters example_encoder = [(str ''p1'', str ''v1''), (str ''p2'', str ''v2'')]"
  "e_headers example_encoder = [(str ''h1'', str ''v1''), (str ''h2'', str ''v2'')]" "\<not> e_closeConnection example_encoder"
  by (simp_all add: example_encoder_def example_client_def client_setters HttpClient_new_def SetBody_def SetUrl_def SetMethod_def AddParameter_def
      AddHeader_def HttpEncoder_new_def str_def)

lemma example_request_ok: "request_ok HTTP_POST example_encoder" "params_ok example_encoder"
proof -
  have h: "plain_header (str ''h1'', str ''v1'')" "plain_header (str ''h2'', str ''v2'')" and t: "target_ok (request_target example_encoder)"
    by code_simp+
  show "request_ok HTTP_POST example_encoder"
    using h t
    by (simp add: request_ok_def message_ok_def example_encoder_sel str_def CR_def LF_def request_line_def request_target_def head_block_def
        all_headers_def print_header_def dec_str.simps HTTP_MAX_HEADER_SIZE_def http_method_str_def)
  show "params_ok example_encoder"
    by (simp add: params_ok_def example_encoder_sel param_ok_def map_ok_def request_target_def str_def)
qed

lemma example_dispatch_handles: "plain_http example_dispatch" "handles example_dispatch (str ''/'') HttpHandle"
  by (simp_all add: plain_http_def example_dispatch_def HttpDispatch_new_def AddHandler_http_def AddHandler_ws_def handles_def handler_at_def map_find_def)

definition example_response :: HttpEncoder where
  "example_response = HttpHandle (HttpDecoder_new 0 0) (HttpEncoder_new False)"

lemma HttpHandle_response: "HttpHandle req (HttpEncoder_new False) = example_response"
  by (simp add: example_response_def HttpHandle_def)

lemma example_response_ok: "response_ok example_response"
  by (simp add: example_response_def HttpHandle_def SetBody_def SetStatusCode_def HttpEncoder_new_def response_ok_def message_ok_def status_line_def
      head_block_def all_headers_def print_header_def dec_str.simps str_def HTTP_MAX_HEADER_SIZE_def)

text \<open>
  C38: The example client and the example server understand each other, with WebSockets switched on: whatever pieces the request arrives in, the
  server sends its response, and with that response, in whatever pieces it arrives, the round of the client ends with status 200 and the body that the
  handler has set. The first piece of each has the whole head.
\<close>

theorem example_exchange:
  assumes "in_pieces (GetRequestString example_encoder) example_encoder ds" "in_pieces (GetReponseString example_response) example_response rs"
    and "0 \<le> wr"
  shows "HttpServer_HandleRequest SHA1 g port (ds @ [[]]) \<lparr>c_writes = [int (length (GetReponseString example_response))], c_sent = []\<rparr> =
      Ran (example_dispatch, \<lparr>c_writes = [], c_sent = [GetReponseString example_response]\<rparr>) \<and>
    HttpClient_round g' p wr (map Inr rs @ rest) = (concat ds, Ran (Some (200, RSP_OK)))"
proof -
  have d0: "d_httpParser (HttpDecoder_new g port) = HttpParser_new g"
    by (simp add: HttpDecoder_new_def)
  have a: "arrives example_dispatch (HTTP_POST, example_encoder, ds)"
    using example_request_ok assms(1) example_dispatch_handles(2)
    by (auto simp: arrives_def no_websocket_def example_encoder_sel str_def)
  obtain out where out: "answer_to example_dispatch (HttpDecoder_new g port) example_encoder out"
    "\<forall>reads w ws sent. length out < 2 ^ 64 \<longrightarrow> serve SHA1 (ds @ reads) example_dispatch (HttpDecoder_new g port) w
         \<lparr>c_writes = int (length out) # ws, c_sent = sent\<rparr> =
       serve SHA1 reads example_dispatch ((HttpDecoder_new g port)\<lparr>d_httpParser := HttpParser_new 0\<rparr>) w \<lparr>c_writes = ws, c_sent = sent @ [out]\<rparr>"
    by (rule serve_one [where ?SHA1.0 = SHA1, OF example_dispatch_handles(1) a d0])
  have o: "out = GetReponseString example_response"
    using out(1) example_dispatch_handles(2)
    by (auto simp: answer_to_def example_encoder_sel HttpHandle_response handles_def split: option.splits)
  have l: "length (GetReponseString example_response) < 2 ^ 64"
    by (simp add: example_response_def HttpHandle_def SetBody_def SetStatusCode_def HttpEncoder_new_def GetReponseString_def AppendToStream_def dec_str.simps str_def)
  have b: "e_body example_response = RSP_OK" "e_statusCode example_response = StatusCode_200Ok"
    by (simp_all add: example_response_def HttpHandle_def SetBody_def SetStatusCode_def RSP_OK_def)
  obtain c' where c': "Request wr (map Inr rs @ rest) (example_client g' p) = (GetRequestString example_encoder, Ran (0, c'))"
    "HttpClient_GetStatus c' = status_value (e_statusCode example_response)" "HttpClient_GetBody c' = e_body example_response"
    by (rule client_sees [OF example_response_ok assms(2,3), of rest "example_client g' p"]) (simp add: example_client_encoder)
  have "concat ds = GetRequestString example_encoder"
    using assms(1) by (simp add: in_pieces_def)
  then show ?thesis
    using out(2) [rule_format, of "[[]]"] o l c' b
    by (simp add: HttpServer_HandleRequest_def HttpClient_round_def)
qed

theorem example_exchange_witness:
  "HttpClient_round 0 0 5 (map Inr (two_pieces (GetReponseString example_response))) = (GetRequestString example_encoder, Ran (Some (200, RSP_OK)))"
proof -
  have p: "in_pieces (GetRequestString example_encoder) example_encoder (two_pieces (GetRequestString example_encoder))"
    by (rule in_two_pieces) (simp_all add: GetRequestString_def AppendToStream_def example_encoder_sel str_def)
  have q: "in_pieces (GetReponseString example_response) example_response (two_pieces (GetReponseString example_response))"
    by (rule in_two_pieces) (simp_all add: GetReponseString_def AppendToStream_def example_response_def HttpHandle_def SetBody_def str_def)
  have z: "(0 :: int) \<le> 5" by simp
  have "concat (two_pieces (GetRequestString example_encoder)) = GetRequestString example_encoder"
    by simp
  then show ?thesis
    using example_exchange [OF p q z, of "\<lambda>_. []" 0 0 0 0 "[]"] by (simp del: list.map)
qed

section \<open>The WebSocket side of the server\<close>







end
