(* ===== verification/Spec2Isabelle.thy ===== *)
theory Spec2Isabelle
  imports Loop_Properties Tcp_Slave Http_Method Http_Url Http_Bits Http_Pipeline Example_Coroutine Example_Echo Example_Http
begin

text \<open>
  A verification development for CoSocket, a C/C++ library of coroutine sockets with an HTTP and
  WebSocket server and client on top. File names below are relative to \<open>src/CoSocket/\<close>.

  \<^bold>\<open>The program.\<close> Coroutines run on one shared stack that is copied away when they yield
  (\<open>3rd/coroutine\<close>). \<open>net/CoSocket.cpp\<close> runs them: a blocking call of a coroutine registers its
  descriptor with epoll (\<open>net/Epoller.cpp\<close>) and its deadline with a set ordered by time, and
  yields; the main loop polls, resumes the coroutine an event belongs to, those whose deadline is due,
  and those whose condition was notified. \<open>net/CoQueue.h\<close> is a queue between coroutines over the
  conditions. \<open>net/TcpServer.cpp\<close> forks processes that accept connections in one coroutine and
  handle each in another; \<open>net/http/HttpDispatch.cpp\<close> is such a handler. It feeds what it reads to
  the streaming parser (\<open>3rd/http-parser\<close>) through \<open>net/http/HttpParser.cpp\<close>, looks up the
  application's handler by URL, prints its answer with \<open>net/http/HttpEncoder.h\<close>, and after a
  handshake (\<open>3rd/base64\<close>) goes on with WebSocket frames (\<open>net/http/WebSocketParser.h\<close>,
  \<open>WebSocketEncoder.h\<close>).

  \<^bold>\<open>The theories.\<close>

  \<^item> \<open>Co_Prelude\<close>: machine integers, the result type of code that can abort, and the interface
    \<open>inv_machine\<close> of a machine whose steps keep an invariant.

  \<^item> \<open>Coroutine\<close> (\<open>3rd/coroutine/coroutine.c\<close>): the record \<open>schedule\<close> with the shared stack and the
    table of coroutines, one definition per function; that every operation keeps the invariant, that
    ids are fresh, and that a suspended coroutine finds its part of the stack unchanged.

  \<^item> \<open>Timestamps\<close>, \<open>Timeout_Set\<close>, \<open>Epoll\<close> (\<open>base/Timestamp.cpp\<close>, class \<open>TimeoutSet\<close> of \<open>net/CoSocket.cpp\<close>,
    \<open>net/Epoller.cpp\<close>): the order of time stamps, the set of deadlines as an implementation of a map from
    coroutines to deadlines (locale \<open>timer_queue\<close>), and the interest list. The kernel is a parameter: \<open>epoll_ctl\<close>, which
    may fail with any of its documented errors, \<open>close\<close>, which takes a descriptor out of the interest list, and other changes at any time.
    \<open>kernel_laws\<close> is the hypothesis on it: when \<open>epoll_ctl\<close> succeeds (for a descriptor the predicate \<open>can_watch\<close> says can be registered) and what it
    does then. A table of open descriptors and their interest satisfies it.

  \<^item> \<open>Co_Socket\<close>, \<open>Event_Loop\<close> (\<open>net/CoSocket.cpp\<close>): the operations of the class on the record \<open>CoSocket\<close>; the
    main loop and the calls of the running coroutine as labelled steps of a \<open>world\<close>, because each of them
    is interrupted by a switch of coroutines; the values the calls return are kept in the world. The steps can go wrong. The rules under which
    they do not are the predicate \<open>rule_ok\<close>: no two coroutines wait for the same direction of a
    descriptor, what is waited for can be registered and is not closed meanwhile, a coroutine that yields has not overflowed the stack,
    \<open>epoll_wait\<close> fails with \<open>EINTR\<close> only, and there are fewer than \<open>2^64\<close> conditions.
    \<open>Loop_Invariant\<close> shows that with these rules every step keeps an
    invariant that ties the tables to the calls the suspended coroutines are inside of;
    \<open>Loop_Properties\<close> that no step aborts or fails an assertion, that every suspended coroutine can be
    resumed by what it waits for and by nothing else, and that the timeout pass ends. It also shows what happens when a rule is
    broken: a second reader makes the loop forget the first one, and a descriptor that is closed too early, one that cannot be registered, an overflow of the stack, another
    error of \<open>epoll_wait\<close> and the last condition end the process.

  \<^item> \<open>Co_Queue\<close> (\<open>net/CoQueue.h\<close>): first in, first out for any interleaving. \<open>Full_Transfer\<close>: the loops of
    \<open>ReadFull\<close> and \<open>WriteAll\<close> over any results of the single calls.

  \<^item> \<open>Tcp_Server\<close> (\<open>net/TcpServer.cpp\<close>, \<open>TcpConnector.cpp\<close>, \<open>TcpClient.cpp\<close>, \<open>Timer.cpp\<close>): the server over the results
    of the system calls; the master and its children as a step relation in which the count of slaves
    is compared with the children there are. \<open>Tcp_Transfer\<close>: the operations of these classes that transfer data, on the
    calls of \<open>Co_Socket\<close> and \<open>Full_Transfer\<close>, and that a closed connection does nothing any more. \<open>Tcp_Slave\<close> puts a slave on
    the event loop: every listening socket gets a coroutine that waits, and every descriptor that \<open>Accept\<close> returns, but no error, a coroutine of its own.

  \<^item> \<open>Url_Codec\<close>, \<open>Base64\<close> (\<open>base/UrlCodec.cpp\<close>, \<open>3rd/base64/base64.cpp\<close>): both codecs satisfy the locale \<open>codec\<close>;
    the Base64 encoder, with its 32-bit accumulator and preallocated output, computes RFC 4648, except that an assertion fails for the empty input.

  \<^item> \<open>Web_Socket\<close>: frames in any pieces, messages in any frames, and the limit on the size of a message.

  \<^item> \<open>Http_Chars\<close>, \<open>Http_Exec\<close>, \<open>Http_States\<close>, \<open>Http_Loop\<close> (\<open>3rd/http-parser/http_parser.c\<close>): tables and
    character classes; the macros around the callbacks; one definition per case of the big switch; the
    switch, the \<open>reexecute\<close> jumps and the loop, which are shown to end. \<open>Http_Safety\<close>: the invariant of
    the parser for all inputs, pieces, callbacks and pauses, with it that no assertion fails and that
    the numbers it computes stay in range. \<open>Http_Method\<close>: the method automaton accepts exactly the names
    of the table. \<open>Http_Url\<close>: \<open>http_parser_parse_url\<close> with 16-bit offsets. \<open>Http_Bits\<close>: the numbers of the
    enumerations and the texts for errors. \<open>Http_Watch\<close>: the parser does not depend on the data of the application, so a flag beside
    them can say that a callback has thrown.

  \<^item> \<open>Std_Map\<close>, \<open>Http_Message\<close>, \<open>Http_Encoder\<close>, \<open>Http_Session\<close>, \<open>Http_Dispatch\<close>, \<open>Http_Client\<close>: ordered maps of strings
    (locale \<open>dictionary\<close>), the callbacks that collect a message (with the exception of \<open>std::string::substr\<close>, which is shown not to happen), the printer of requests and responses,
    what the one makes of the output of the other, the handler of a connection, and the client.
    \<open>Http_Run\<close> and \<open>Http_Body\<close> run the streaming parser with these callbacks: bodies of announced length in any
    pieces and bodies in chunks are delivered exactly.

  \<^item> \<open>Http_Name\<close>, \<open>Http_Header\<close>, \<open>Http_Line\<close>, \<open>Http_Start\<close>: the same for the head of a message. The automaton for header names is the
    comparison with the names the parser knows; a header line stores its name and value and sets the
    flags it should; the automata of the status and the request line read what the encoder prints. \<open>Http_Roundtrip\<close> puts
    these together: requests and responses survive being printed and parsed. \<open>Http_Exchange\<close> composes client,
    encoder, parser and dispatcher: one exchange, and a connection with any number of requests. \<open>Http_Access\<close>: what handlers and
    programs read from decoders and client. \<open>Http_Pipeline\<close>: what becomes of requests that are read together, which the parser keeps apart and the
    collecting callbacks do not.

  \<^item> \<open>Http_Upgrade\<close>, \<open>Ws_Session\<close>: a WebSocket session from end to end. A request for an upgrade with any further headers is parsed and stops
    the parser; the dispatcher answers it and switches the connection; every message, in any fragments, each read in pieces of its own, goes to the
    handler, and the server sends the frames of its answer. Where the URL has no WebSocket handler the answer is 404, the connection is switched all the same, and
    the first message calls an empty function.

  \<^item> \<open>Example_Tcp\<close>, \<open>Example_Http\<close> (\<open>example\<close>): the echo server, the proxy and the throughput server send on what they
    receive (the loops share the locale \<open>copy_loop\<close>); the HTTP example client gets the answer of the example server, which echoes over
    WebSockets. A client that ignores \<open>SIGPIPE\<close> survives a closed connection. \<open>Example_Echo\<close>: the echo client logs what it has sent, until a read fails.
    \<open>Example_Coroutine\<close> (\<open>3rd/coroutine/coroutine_test.c\<close>, \<open>example/dont_use_other_routine_local_variable\<close>): the test of the scheduler prints what
    it should; a pointer to a variable of another coroutine reaches the variable of the one that uses it.

  \<^bold>\<open>Conventions.\<close> Results of system calls, time, random numbers, \<open>SHA1\<close>, the memory handed out by the
  allocator and the functions of the application are arguments. An assertion that fails, \<open>abort\<close> and
  exceptions are values; assertions are modelled as in a debug build. Where a loop consumes results of
  system calls, they are a list, and a run that has used it up is one that waits in its next call.
  No fuel is used: the loops of the parser end by a measure on the bytes that are left and
  on the state, the others are structural. Machine integers have their width where they can
  wrap; counters that cannot reach their bound are unbounded.

  \<^bold>\<open>Not modelled.\<close> A dispatcher is used by one connection, as in the example server: its member \<open>m_connectorPtr\<close> is the connection its functions
  are given. Exceptions of the application's functions and failed allocations are outside of the model. \<open>SimpleLog.h\<close> and \<open>NonCopyable.h\<close> have no behaviour of their own, and the \<open>main\<close> functions of the examples only
  start a server or a coroutine. The lifetime of function objects is not modelled: the functions of coroutines are values. A callback that
  changes fields of the HTTP parser other than by \<open>http_parser_pause\<close> is not covered.
  That messages are parsed as they were printed is shown for those whose head arrives in one piece, because the callbacks lose headers otherwise;
  so the request for an upgrade, which is a head only, is taken to arrive in one read.

  \<^bold>\<open>Left.\<close> The errors of the parser by the input that causes them.
\<close>

end
